(* ===== verification/Durinn_Prelude.thy ===== *)
theory Durinn_Prelude
  imports Main "HOL-Library.Word"
begin

text \<open>
  What every component of the development shares: the machine types, the collections of
  simplification rules, words against natural numbers (alignment to cache lines, address
  ranges), numerals printed in a base and read back, and strings cut at a separator.
\<close>

unbundle bit_operations_syntax

section \<open>Types and fact collections\<close>

type_synonym u8 = "8 word"
type_synonym u32 = "32 word"
type_synonym u64 = "64 word"

type_synonym addr = "64 word"
type_synonym memory = "addr \<Rightarrow> u8"

named_theorems rt_simps "unfolding the tracing run time"
named_theorems edit_simps "list surgery on a basic block"
named_theorems trace_simps "unfolding the trace reader"
named_theorems cache_simps "unfolding the cache models"

section \<open>Words and addresses\<close>

lemma and_not_mask_conv: "(p :: 'a::len word) AND NOT (mask n) = p - take_bit n p"
proof -
  have "push_bit n (drop_bit n p) = p AND NOT (mask n)"
    by (rule bit_word_eqI) (auto simp: bit_simps)
  moreover have "push_bit n (drop_bit n p) = p - take_bit n p"
    using bits_ident [of n p] by (simp add: algebra_simps)
  ultimately show ?thesis by simp
qed

lemma unat_and_not_mask:
  "unat ((p :: 'a::len word) AND NOT (mask n)) = unat p - unat p mod 2 ^ n"
proof -
  have le: "unat (take_bit n p) \<le> unat p"
    by (simp add: unsigned_take_bit_eq take_bit_nat_less_eq_self)
  have "unat (p - take_bit n p) = unat p - unat (take_bit n p)"
    using le by (simp add: unat_sub word_le_nat_alt)
  moreover have "unat (take_bit n p) = unat p mod 2 ^ n"
    using take_bit_eq_mod [of n "unat p"] by (simp add: unsigned_take_bit_eq)
  ultimately show ?thesis by (simp add: and_not_mask_conv)
qed

lemma unat_plus_no_overflow:
  "unat (a :: 'a::len word) + unat b < 2 ^ LENGTH('a) \<Longrightarrow> unat (a + b) = unat a + unat b"
  by (simp add: unat_word_ariths)

text \<open>The bytes stored in a range, in address order.\<close>

definition bytes_at :: "memory \<Rightarrow> addr \<Rightarrow> nat \<Rightarrow> u8 list" where
  "bytes_at m p n = map (\<lambda>i. m (p + of_nat i)) [0..<n]"

lemma length_bytes_at [simp]: "length (bytes_at m p n) = n"
  by (simp add: bytes_at_def)

lemma bytes_at_0 [simp]: "bytes_at m p 0 = []"
  by (simp add: bytes_at_def)

lemma bytes_at_Suc: "bytes_at m p (Suc n) = bytes_at m p n @ [m (p + of_nat n)]"
  by (simp add: bytes_at_def)

lemma nth_bytes_at [simp]: "i < n \<Longrightarrow> bytes_at m p n ! i = m (p + of_nat i)"
  by (simp add: bytes_at_def)

section \<open>Numerals\<close>

definition digit_chars :: string where
  "digit_chars = ''0123456789abcdef''"

definition digit_char :: "nat \<Rightarrow> char" where
  "digit_char d = digit_chars ! d"

text \<open>Digits of either case, as the readers accept them.\<close>

definition char_digit :: "char \<Rightarrow> nat option" where
  "char_digit c = map_of (zip (digit_chars @ ''ABCDEF'') ([0..<16] @ [10..<16])) c"

text \<open>\<open>isspace\<close> of C.\<close>

definition is_space :: "char \<Rightarrow> bool" where
  "is_space c \<longleftrightarrow> c = CHR '' '' \<or> (9 \<le> (of_char c :: nat) \<and> (of_char c :: nat) \<le> 13)"

fun to_base :: "nat \<Rightarrow> nat \<Rightarrow> string" where
  "to_base b n = (if b < 2 \<or> n < b then [digit_char n]
                  else to_base b (n div b) @ [digit_char (n mod b)])"

declare to_base.simps [simp del]

fun of_digits :: "nat \<Rightarrow> nat \<Rightarrow> string \<Rightarrow> nat option" where
  "of_digits b acc [] = Some acc"
| "of_digits b acc (c # cs) =
     (case char_digit c of
        None \<Rightarrow> None
      | Some d \<Rightarrow> if d < b then of_digits b (b * acc + d) cs else None)"

lemma digit_cases:
  assumes "d < (16::nat)"
  shows "d \<in> {0, 1, 2, 3, 4, 5, 6, 7, 8, 9, 10, 11, 12, 13, 14, 15}"
  using assms by (simp, presburger)

lemma char_digit_digit_char [simp]: "d < 16 \<Longrightarrow> char_digit (digit_char d) = Some d"
  by (drule digit_cases)
    (elim insertE emptyE; simp add: char_digit_def digit_char_def digit_chars_def upt_rec)

lemma digit_char_in: "d < 16 \<Longrightarrow> digit_char d \<in> set digit_chars"
  unfolding digit_char_def by (rule nth_mem) (simp add: digit_chars_def)

lemma of_digits_append:
  "of_digits b acc (xs @ ys) =
     (case of_digits b acc xs of None \<Rightarrow> None | Some a \<Rightarrow> of_digits b a ys)"
  by (induction xs arbitrary: acc) (auto split: option.splits)

lemma of_digits_to_base:
  assumes "2 \<le> b" and "b \<le> 16"
  shows "of_digits b 0 (to_base b n) = Some n"
proof (induction n rule: less_induct)
  case (less n)
  show ?case
  proof (cases "n < b")
    case True
    with assms show ?thesis by (simp add: to_base.simps)
  next
    case False
    with assms have "n div b < n" by simp
    with less have ih: "of_digits b 0 (to_base b (n div b)) = Some (n div b)" by simp
    from assms have "n mod b < 16"
      using less_le_trans [of "n mod b" b 16] by simp
    then have "char_digit (digit_char (n mod b)) = Some (n mod b)" by simp
    with False assms ih show ?thesis
      by (simp add: to_base.simps [of b n] of_digits_append)
  qed
qed

lemma to_base_chars:
  assumes "2 \<le> b" and "b \<le> 16"
  shows "set (to_base b n) \<subseteq> set digit_chars"
proof (induction n rule: less_induct)
  case (less n)
  from assms have m: "n mod b < 16"
    using less_le_trans [of "n mod b" b 16] by simp
  show ?case
  proof (cases "n < b")
    case True
    with assms show ?thesis by (simp add: to_base.simps digit_char_in)
  next
    case False
    with assms have "n div b < n" by simp
    with less False m assms show ?thesis
      by (simp add: to_base.simps [of b n] digit_char_in)
  qed
qed

lemma to_base_nonempty [simp]: "to_base b n \<noteq> []"
  by (subst to_base.simps) simp

section \<open>Strings cut at a separator\<close>

text \<open>
  The pieces between separators, at least one of them: what Python's \<open>str.split\<close> with a
  one-character argument returns.
\<close>

fun split_on :: "char \<Rightarrow> string \<Rightarrow> string list" where
  "split_on c [] = [[]]"
| "split_on c (x # xs) =
     (if x = c then [] # split_on c xs
      else case split_on c xs of [] \<Rightarrow> [[x]] | y # ys \<Rightarrow> (x # y) # ys)"

fun join_with :: "char \<Rightarrow> string list \<Rightarrow> string" where
  "join_with c [] = []"
| "join_with c [x] = x"
| "join_with c (x # xs) = x @ c # join_with c xs"

lemma split_on_nonempty [simp]: "split_on c s \<noteq> []"
  by (cases s) (auto split: list.splits)

lemma split_on_none: "c \<notin> set s \<Longrightarrow> split_on c s = [s]"
  by (induction s) auto

lemma split_on_append: "c \<notin> set s \<Longrightarrow> split_on c (s @ c # t) = s # split_on c t"
  by (induction s) (auto split: list.splits)

lemma split_on_join:
  "xs \<noteq> [] \<Longrightarrow> (\<forall>x\<in>set xs. c \<notin> set x) \<Longrightarrow> split_on c (join_with c xs) = xs"
  by (induction xs rule: induct_list012) (auto simp: split_on_none split_on_append)

lemma join_split_on: "join_with c (split_on c s) = s"
proof (induction s)
  case Nil
  then show ?case by simp
next
  case (Cons x xs)
  then show ?case
    by (cases "split_on c xs" rule: remdups_adj.cases) (auto split: list.splits)
qed

text \<open>A file of lines, each closed by a newline: splitting and dropping the last piece.\<close>

definition newline :: char where
  "newline = CHR 0x0A"

definition unlines :: "string list \<Rightarrow> string" where
  "unlines ls = concat (map (\<lambda>l. l @ [newline]) ls)"

lemma unlines_append [simp]: "unlines (xs @ ys) = unlines xs @ unlines ys"
  by (simp add: unlines_def)

lemma split_unlines:
  "\<forall>l\<in>set ls. newline \<notin> set l \<Longrightarrow> split_on newline (unlines ls) = ls @ [[]]"
proof (induction ls)
  case Nil
  then show ?case by (simp add: unlines_def)
next
  case (Cons l ls)
  then have "split_on newline (l @ newline # unlines ls) = l # split_on newline (unlines ls)"
    by (intro split_on_append) simp
  with Cons show ?case by (simp add: unlines_def)
qed

end
