(* ===== verification/Cache_Line.thy ===== *)
theory Cache_Line
  imports Durinn_Prelude
begin

text \<open>
  Alignment to cache lines (\<open>tracer/LayoutUtil.h\<close>) and the walk over the cache lines of an
  address range, the loop that the tracing run time (\<open>recordFlushWrapper\<close>) and libpmem's flush
  functions (\<open>x86_64/flush.h\<close>) both are. The walk is written with machine arithmetic, so a range
  that reaches the top of the address space may make it run forever; the locale \<open>line_walk\<close>
  collects what holds for every such loop whose range ends at least one line below the top.
\<close>

section \<open>LayoutUtil\<close>

definition CACHELINE_SIZE :: u64 where
  "CACHELINE_SIZE = 64"

definition CACHELINE_MASK :: u64 where
  "CACHELINE_MASK = NOT (CACHELINE_SIZE - 1)"

definition WORD_SIZE :: u64 where
  "WORD_SIZE = 8"

definition WORD_MASK :: u64 where
  "WORD_MASK = NOT (WORD_SIZE - 1)"

definition get_aligned_addr_64 :: "addr \<Rightarrow> addr" where
  "get_aligned_addr_64 p = p AND CACHELINE_MASK"

definition get_aligned_addr_8 :: "addr \<Rightarrow> addr" where
  "get_aligned_addr_8 p = p AND WORD_MASK"

lemma CACHELINE_MASK_eq: "CACHELINE_MASK = NOT (mask 6)"
  by (simp add: CACHELINE_MASK_def CACHELINE_SIZE_def mask_eq_exp_minus_1)

lemma WORD_MASK_eq: "WORD_MASK = NOT (mask 3)"
  by (simp add: WORD_MASK_def WORD_SIZE_def mask_eq_exp_minus_1)

lemma unat_aligned_64: "unat (get_aligned_addr_64 p) = 64 * (unat p div 64)"
proof -
  have "unat (get_aligned_addr_64 p) = unat p - unat p mod 64"
    unfolding get_aligned_addr_64_def CACHELINE_MASK_eq
    using unat_and_not_mask [of p 6] by simp
  then show ?thesis by (simp add: minus_mod_eq_mult_div)
qed

lemma unat_aligned_8: "unat (get_aligned_addr_8 p) = 8 * (unat p div 8)"
proof -
  have "unat (get_aligned_addr_8 p) = unat p - unat p mod 8"
    unfolding get_aligned_addr_8_def WORD_MASK_eq
    using unat_and_not_mask [of p 3] by simp
  then show ?thesis by (simp add: minus_mod_eq_mult_div)
qed

lemma aligned_64_le: "get_aligned_addr_64 p \<le> p"
  by (simp add: word_le_nat_alt unat_aligned_64)

section \<open>The walk\<close>

text \<open>The addresses a walk from \<open>a\<close> up to, not including, \<open>e\<close> visits.\<close>

definition lines_from :: "nat \<Rightarrow> nat \<Rightarrow> nat list" where
  "lines_from a e = map (\<lambda>k. a + 64 * k) [0..<(e - a + 63) div 64]"

lemma lines_from_done: "e \<le> a \<Longrightarrow> lines_from a e = []"
  by (simp add: lines_from_def)

lemma lines_from_step:
  assumes "a < e"
  shows "lines_from a e = a # lines_from (a + 64) e"
proof -
  have n: "(e - a + 63) div 64 = Suc ((e - (a + 64) + 63) div 64)"
  proof (cases "e - a \<le> 64")
    case True
    with assms have "(e - a + 63) div 64 = 1" by (intro div_nat_eqI) simp_all
    with True show ?thesis by simp
  next
    case False
    define d where "d = e - (a + 64) + 63"
    from False have "e - a + 63 = d + 64" unfolding d_def by linarith
    then have "(e - a + 63) div 64 = Suc (d div 64)" by simp
    then show ?thesis unfolding d_def .
  qed
  have "[0..<Suc m] = 0 # map Suc [0..<m]" for m
    by (simp add: upt_conv_Cons map_Suc_upt del: upt_Suc)
  then show ?thesis
    unfolding lines_from_def n by simp
qed

lemma set_lines_from:
  "64 dvd a \<Longrightarrow> set (lines_from a e) = {x. 64 dvd x \<and> a \<le> x \<and> x < e}"
proof (intro set_eqI iffI)
  fix x assume "64 dvd a" and "x \<in> set (lines_from a e)"
  then show "x \<in> {x. 64 dvd x \<and> a \<le> x \<and> x < e}"
    by (auto simp: lines_from_def)
next
  fix x assume a: "64 dvd a" and x: "x \<in> {x. 64 dvd x \<and> a \<le> x \<and> x < e}"
  then have "64 dvd (x - a)" by (simp add: dvd_diff_nat)
  then obtain k where "x - a = 64 * k" ..
  moreover from x have "a \<le> x" and hi: "x < e" by simp_all
  ultimately have k: "x = a + 64 * k" by linarith
  with hi have "k < (e - a + 63) div 64" by simp
  then show "x \<in> set (lines_from a e)"
    unfolding lines_from_def k by simp
qed

text \<open>
  The loop itself, with what is done to each line as a parameter: \<open>None\<close> when it does not end.
\<close>

partial_function (option) walk_lines ::
  "(addr \<Rightarrow> 's \<Rightarrow> 's) \<Rightarrow> addr \<Rightarrow> addr \<Rightarrow> 's \<Rightarrow> 's option"
where
  "walk_lines emit p e s =
     (if p < e then walk_lines emit (p + CACHELINE_SIZE) e (emit p s) else Some s)"

locale line_walk =
  fixes emit :: "addr \<Rightarrow> 's \<Rightarrow> 's"
    and walk :: "addr \<Rightarrow> nat \<Rightarrow> 's \<Rightarrow> 's option"
    and bounded :: "addr \<Rightarrow> nat \<Rightarrow> bool"
  assumes bounded_imp: "bounded p n \<Longrightarrow> unat p + n + 64 \<le> 2 ^ 64"
    and walk_unfold: "bounded p n \<Longrightarrow>
      walk p n s = walk_lines emit (get_aligned_addr_64 p) (p + of_nat n) s"
begin

lemma walk_from_to:
  "unat e + 64 \<le> 2 ^ 64 \<Longrightarrow>
   walk_lines emit a e s = Some (fold emit (map of_nat (lines_from (unat a) (unat e))) s)"
proof (induction "unat e - unat a" arbitrary: a s rule: less_induct)
  case less
  show ?case
  proof (cases "a < e")
    case True
    then have lt: "unat a < unat e" by (simp add: word_less_nat_alt)
    with less.prems have "unat a + unat CACHELINE_SIZE < 2 ^ LENGTH(64)"
      by (simp add: CACHELINE_SIZE_def)
    then have step: "unat (a + CACHELINE_SIZE) = unat a + 64"
      by (subst unat_plus_no_overflow) (simp_all add: CACHELINE_SIZE_def)
    with lt have "unat e - unat (a + CACHELINE_SIZE) < unat e - unat a" by simp
    from less.hyps [OF this less.prems] True lt step show ?thesis
      by (simp add: walk_lines.simps [of emit a e s] lines_from_step)
  next
    case False
    then have "unat e \<le> unat a" by (simp add: word_le_nat_alt not_less)
    with False show ?thesis
      by (simp add: walk_lines.simps [of emit a e s] lines_from_done)
  qed
qed

lemma walk_eq:
  assumes "bounded p n"
  shows "walk p n s =
    Some (fold emit (map of_nat (lines_from (64 * (unat p div 64)) (unat p + n))) s)"
proof -
  from bounded_imp [OF assms] have le: "unat p + n + 64 \<le> 2 ^ 64" .
  then have n: "unat (of_nat n :: addr) = n"
    by (simp add: unat_of_nat)
  from le have "unat p + unat (of_nat n :: addr) < 2 ^ LENGTH(64)"
    unfolding n by simp
  then have e: "unat (p + of_nat n) = unat p + n"
    by (subst unat_plus_no_overflow) (simp_all add: n)
  show ?thesis
    using le assms by (simp add: walk_unfold walk_from_to e unat_aligned_64)
qed

lemma walk_returns: "bounded p n \<Longrightarrow> \<exists>s'. walk p n s = Some s'"
  by (simp add: walk_eq)

end

text \<open>The lines a range touches are the lines its bytes lie in.\<close>

lemma lines_of_range:
  assumes "0 < n"
  shows "set (lines_from (64 * (p div 64)) (p + n)) = (\<lambda>b. 64 * (b div 64)) ` {p..<p + n}"
proof (intro set_eqI iffI)
  fix x assume "x \<in> set (lines_from (64 * (p div 64)) (p + n))"
  then have d: "64 dvd x" and lo: "64 * (p div 64) \<le> x" and hi: "x < p + n"
    by (simp_all add: set_lines_from)
  show "x \<in> (\<lambda>b. 64 * (b div 64)) ` {p..<p + n}"
  proof (cases "p \<le> x")
    case True
    with d hi show ?thesis by (auto intro!: image_eqI [of _ _ x])
  next
    case False
    with d lo have "x = 64 * (p div 64)" by (auto simp: dvd_def)
    with assms show ?thesis by (auto intro!: image_eqI [of _ _ p])
  qed
next
  fix x assume "x \<in> (\<lambda>b. 64 * (b div 64)) ` {p..<p + n}"
  then obtain b where b: "p \<le> b" "b < p + n" and x: "x = 64 * (b div 64)" by auto
  from b(1) have "p div 64 \<le> b div 64" by (rule div_le_mono)
  moreover have "x \<le> b" using x by simp
  ultimately show "x \<in> set (lines_from (64 * (p div 64)) (p + n))"
    using b x by (simp add: set_lines_from)
qed

end
