(* ===== verification/Tracer_Runtime.thy ===== *)
theory Tracer_Runtime
  imports Cache_Line
begin

text \<open>
  The tracing run time, \<open>tracer/Tracing.cpp\<close>: the global state (the trace stream, the recording
  switch, the persistent-memory window and its duplicate mapping), one definition per run-time
  function, and the text each of them appends to the trace file. Output goes through a model of
  \<open>std::ostream\<close> with its sticky base and fill and its one-shot width.
\<close>

section \<open>Output streams\<close>

record ostream =
  obuf :: string
  obase :: nat
  ofill :: char
  owidth :: nat

definition new_ostream :: ostream where
  "new_ostream = \<lparr>obuf = [], obase = 10, ofill = CHR '' '', owidth = 0\<rparr>"

text \<open>One operand of \<open>\<lless>\<close>: text, unsigned values, an \<open>int\<close>, the manipulators the run time uses.\<close>

datatype oitem =
    Str string
  | U64 u64
  | U32 u32
  | I32 "32 word"
  | Dec
  | Hex
  | SetFill char
  | SetW nat
  | Endl

definition put_text :: "string \<Rightarrow> ostream \<Rightarrow> ostream" where
  "put_text t os =
     os\<lparr>obuf := obuf os @ replicate (owidth os - length t) (ofill os) @ t, owidth := 0\<rparr>"

text \<open>An \<open>int\<close> prints with its sign in base 10 and as its unsigned bit pattern in base 16.\<close>

definition int_text :: "nat \<Rightarrow> 32 word \<Rightarrow> string" where
  "int_text b w =
     (if b = 10 then (if sint w < 0 then CHR ''-'' # to_base 10 (nat (- sint w))
                      else to_base 10 (nat (sint w)))
      else to_base b (unat w))"

fun put :: "oitem \<Rightarrow> ostream \<Rightarrow> ostream" where
  "put (Str t) os = put_text t os"
| "put (U64 w) os = put_text (to_base (obase os) (unat w)) os"
| "put (U32 w) os = put_text (to_base (obase os) (unat w)) os"
| "put (I32 w) os = put_text (int_text (obase os) w) os"
| "put Dec os = os\<lparr>obase := 10\<rparr>"
| "put Hex os = os\<lparr>obase := 16\<rparr>"
| "put (SetFill c) os = os\<lparr>ofill := c\<rparr>"
| "put (SetW n) os = os\<lparr>owidth := n\<rparr>"
| "put Endl os = os\<lparr>obuf := obuf os @ [newline]\<rparr>"

section \<open>The global state\<close>

record rt_state =
  recording :: bool
  record_os :: ostream
  record_open :: bool
  record_good :: bool
  mutex_live :: bool
  finish_registered :: bool
  sig_handlers :: "string list"
  no_alloc_br :: bool
  replay_mode :: bool
  pm_addr_start :: addr
  pm_addr_start_dup :: addr
  pm_addr_end :: addr
  pm_addr_end_dup :: addr

text \<open>
  A call of the run time returns, fails an \<open>assert\<close>, or runs into undefined behaviour (an
  unterminated string, a comparison beyond the end of an object), or does not return.
\<close>

datatype 'a outcome = Returns 'a | Assert_failed | Undefined | Diverges

fun bind_outcome :: "'a outcome \<Rightarrow> ('a \<Rightarrow> 'b outcome) \<Rightarrow> 'b outcome" where
  "bind_outcome (Returns x) f = f x"
| "bind_outcome Assert_failed f = Assert_failed"
| "bind_outcome Undefined f = Undefined"
| "bind_outcome Diverges f = Diverges"

subsection \<open>Initial values\<close>

definition is_hex_digit :: "char \<Rightarrow> bool" where
  "is_hex_digit c \<longleftrightarrow> char_digit c \<noteq> None"

text \<open>\<open>strtol(s, NULL, 16)\<close>: blanks, a sign, an optional prefix, the digits; saturating.\<close>

definition strtol16 :: "string \<Rightarrow> int" where
  "strtol16 s =
     (let t = dropWhile is_space s;
          neg = (t \<noteq> [] \<and> hd t = CHR ''-'');
          u = (if t \<noteq> [] \<and> (hd t = CHR ''-'' \<or> hd t = CHR ''+'') then tl t else t);
          v = (if 2 < length u \<and> u ! 0 = CHR ''0'' \<and> (u ! 1 = CHR ''x'' \<or> u ! 1 = CHR ''X'')
                  \<and> is_hex_digit (u ! 2) then drop 2 u else u);
          n = (case of_digits 16 0 (takeWhile is_hex_digit v) of None \<Rightarrow> 0 | Some k \<Rightarrow> int k);
          r = (if neg then - n else n)
      in max (- (2 ^ 63)) (min (2 ^ 63 - 1) r))"

text \<open>
  The initialisers of the globals; \<open>env\<close> is \<open>getenv\<close>. \<open>PMEM_MMAP_HINT\<close> is handed to
  \<open>strtol\<close> without a check.
\<close>

definition rt_globals :: "(string \<Rightarrow> string option) \<Rightarrow> rt_state outcome" where
  "rt_globals env =
     (case env ''PMEM_MMAP_HINT'' of
        None \<Rightarrow> Undefined
      | Some h \<Rightarrow> Returns
          \<lparr>recording = False, record_os = new_ostream, record_open = False, record_good = True,
           mutex_live = False, finish_registered = False, sig_handlers = [],
           no_alloc_br = (env ''NO_ALLOC_BR'' \<noteq> None),
           replay_mode = (env ''REPLAY_MOD'' \<noteq> None),
           pm_addr_start = word_of_int (strtol16 h), pm_addr_start_dup = 0,
           pm_addr_end = 0, pm_addr_end_dup = 0\<rparr>)"

section \<open>Start, stop\<close>

definition enableRecording :: "rt_state \<Rightarrow> rt_state" where
  "enableRecording s = s\<lparr>recording := True\<rparr>"

definition disableRecording :: "rt_state \<Rightarrow> rt_state" where
  "disableRecording s = s\<lparr>recording := False\<rparr>"

definition finish :: "rt_state \<Rightarrow> rt_state" where
  "finish s = (disableRecording s)\<lparr>record_open := False, mutex_live := False\<rparr>"

text \<open>\<open>exit\<close> runs the functions registered with \<open>atexit\<close>.\<close>

definition cleanup_only_tracing :: "int \<Rightarrow> rt_state \<Rightarrow> int \<times> rt_state" where
  "cleanup_only_tracing signum s = (signum, if finish_registered s then finish s else s)"

text \<open>
  \<open>ok\<close> says whether the file can be opened. Opening truncates it; opening a stream that is open
  already fails. A handler for \<open>SIGKILL\<close> cannot be installed, so it is not in the list.
\<close>

definition recordInit :: "bool \<Rightarrow> rt_state \<Rightarrow> rt_state" where
  "recordInit ok s =
     (let s1 = (if record_open s \<or> \<not> ok then s\<lparr>record_good := False\<rparr>
                else s\<lparr>record_open := True, record_good := True,
                       record_os := (record_os s)\<lparr>obuf := []\<rparr>\<rparr>)
      in enableRecording
           (s1\<lparr>mutex_live := True, finish_registered := True,
               sig_handlers := [''SIGINT'', ''SIGQUIT'', ''SIGSEGV'', ''SIGABRT'', ''SIGTERM'',
                                ''SIGILL'', ''SIGFPE'']\<rparr>))"

text \<open>The bodies of \<open>locking\<close> and \<open>unlocking\<close> only print debug output.\<close>

definition locking :: "string \<Rightarrow> rt_state \<Rightarrow> rt_state" where
  "locking inst_name s = (if \<not> recording s then s else s)"

definition unlocking :: "string \<Rightarrow> rt_state \<Rightarrow> rt_state" where
  "unlocking inst_name s = (if \<not> recording s then s else s)"

text \<open>\<open>record \<lless> \<dots>\<close>: a stream that is not open, or has failed, swallows its operands.\<close>

definition emit :: "oitem list \<Rightarrow> rt_state \<Rightarrow> rt_state" where
  "emit items s =
     (if record_open s \<and> record_good s then s\<lparr>record_os := fold put items (record_os s)\<rparr> else s)"

section \<open>Locks, API marks\<close>

definition recordLock :: "u64 \<Rightarrow> u32 \<Rightarrow> addr \<Rightarrow> rt_state \<Rightarrow> rt_state" where
  "recordLock tid iid p s =
     (if \<not> recording s then s
      else if replay_mode s then s
      else emit [Str ''Lock,'', Dec, U64 tid, Str '','', Hex, U64 p, Str '','', Dec, U32 iid, Endl] s)"

definition recordLockBegin :: "u64 \<Rightarrow> u32 \<Rightarrow> addr \<Rightarrow> rt_state \<Rightarrow> rt_state" where
  "recordLockBegin tid iid p s =
     (if \<not> recording s then s
      else if replay_mode s then s
      else emit [Str ''LockBegin,'', Dec, U64 tid, Str '','', Hex, U64 p, Str '','', Str ''NA'', Endl] s)"

definition recordLockEnd :: "u64 \<Rightarrow> u32 \<Rightarrow> addr \<Rightarrow> rt_state \<Rightarrow> rt_state" where
  "recordLockEnd tid iid p s =
     (if \<not> recording s then s
      else if replay_mode s then s
      else emit [Str ''LockEnd,'', Dec, U64 tid, Str '','', Hex, U64 p, Str '','', Str ''NA'', Endl] s)"

definition recordUnlock :: "u64 \<Rightarrow> u32 \<Rightarrow> addr \<Rightarrow> rt_state \<Rightarrow> rt_state" where
  "recordUnlock tid iid p s =
     (if \<not> recording s then s
      else if replay_mode s then s
      else emit [Str ''UnLock,'', Dec, U64 tid, Str '','', Hex, U64 p, Str '','', Dec, U32 iid, Endl] s)"

definition recordUnlockBegin :: "u64 \<Rightarrow> u32 \<Rightarrow> addr \<Rightarrow> rt_state \<Rightarrow> rt_state" where
  "recordUnlockBegin tid iid p s =
     (if \<not> recording s then s
      else if replay_mode s then s
      else emit [Str ''UnLockBegin,'', Dec, U64 tid, Str '','', Hex, U64 p, Str '','', Str ''NA'', Endl] s)"

definition recordUnlockEnd :: "u64 \<Rightarrow> u32 \<Rightarrow> addr \<Rightarrow> rt_state \<Rightarrow> rt_state" where
  "recordUnlockEnd tid iid p s =
     (if \<not> recording s then s
      else if replay_mode s then s
      else emit [Str ''UnLockEnd,'', Dec, U64 tid, Str '','', Hex, U64 p, Str '','', Str ''NA'', Endl] s)"

definition recordAPIBegin :: "u64 \<Rightarrow> u32 \<Rightarrow> rt_state \<Rightarrow> rt_state" where
  "recordAPIBegin tid iid s =
     (if \<not> recording s then s
      else emit [Str ''APIBegin,'', Dec, U64 tid, Str '',NA'', Endl] s)"

definition recordAPIEnd :: "u64 \<Rightarrow> u32 \<Rightarrow> rt_state \<Rightarrow> rt_state" where
  "recordAPIEnd tid iid s =
     (if \<not> recording s then s
      else emit [Str ''APIEnd,'', Dec, U64 tid, Str '',NA'', Endl] s)"

section \<open>The persistent-memory window\<close>

definition is_pm_addr :: "rt_state \<Rightarrow> addr \<Rightarrow> bool" where
  "is_pm_addr s a =
     (if pm_addr_start s \<le> a \<and> a < pm_addr_end s then True
      else if pm_addr_start_dup s \<le> a \<and> a < pm_addr_end_dup s then True
      else False)"

definition get_pm_addr :: "rt_state \<Rightarrow> addr \<Rightarrow> addr" where
  "get_pm_addr s p =
     (if pm_addr_start_dup s \<le> p \<and> p < pm_addr_end_dup s
      then p - pm_addr_start_dup s + pm_addr_start s
      else p)"

section \<open>Branches, loads\<close>

definition recordBr :: "u64 \<Rightarrow> u32 \<Rightarrow> rt_state \<Rightarrow> rt_state" where
  "recordBr tid iid s =
     (if no_alloc_br s then s
      else if \<not> recording s then s
      else if replay_mode s then s
      else emit [Str ''Br,'', Dec, U64 tid, Str '','', Dec, U32 iid, Endl] s)"

definition recordLoad :: "u64 \<Rightarrow> u32 \<Rightarrow> addr \<Rightarrow> u64 \<Rightarrow> rt_state \<Rightarrow> rt_state" where
  "recordLoad tid iid p len s =
     (if \<not> recording s then s
      else if replay_mode s then s
      else if \<not> is_pm_addr s p then s
      else if len = 0 then s
      else let a = get_pm_addr s p in
        emit [Str ''Load,'', Dec, U64 tid, Str '','', Hex, U64 a, Str '','', Dec, U64 len, Str '','',
              Dec, U32 iid, Endl] s)"

text \<open>\<open>strlen\<close>: the first zero byte from \<open>p\<close> on, \<open>None\<close> when there is none.\<close>

partial_function (option) strlen :: "memory \<Rightarrow> addr \<Rightarrow> nat option" where
  "strlen m p = (if m p = 0 then Some 0 else Option.bind (strlen m (p + 1)) (\<lambda>n. Some (Suc n)))"

definition recordStrLoad :: "u64 \<Rightarrow> memory \<Rightarrow> u32 \<Rightarrow> addr \<Rightarrow> rt_state \<Rightarrow> rt_state outcome" where
  "recordStrLoad tid m iid p s =
     (if \<not> recording s then Returns s
      else if replay_mode s then Returns s
      else if \<not> is_pm_addr s p then Returns s
      else case strlen m p of
             None \<Rightarrow> Undefined
           | Some n \<Rightarrow>
               (let len = of_nat n + 1 :: u64 in
                if len = 0 then Returns s
                else let a = get_pm_addr s p in
                  Returns (emit [Str ''Load,'', Dec, U64 tid, Str '','', Hex, U64 a, Str '','',
                                 Dec, U64 len, Str '','', Dec, U32 iid, Endl] s)))"

section \<open>Stores\<close>

text \<open>
  The bytes of a store, two hexadecimal digits each. A byte is converted to \<open>int\<close> before it is
  printed: zero-extended where the pointer is an \<open>unsigned char *\<close>, sign-extended where it is
  a \<open>char *\<close>; \<open>ext\<close> is that conversion.
\<close>

definition byte_items :: "(u8 \<Rightarrow> 32 word) \<Rightarrow> memory \<Rightarrow> addr \<Rightarrow> u64 \<Rightarrow> oitem list" where
  "byte_items ext m p len =
     concat (map (\<lambda>i. [Hex, SetFill (CHR ''0''), SetW 2, I32 (ext (m (p + of_nat i))), Str '' ''])
                 [0..<unat (len - 1)])
     @ [Hex, SetFill (CHR ''0''), SetW 2, I32 (ext (m (p + (len - 1))))]"

definition store_items ::
  "(u8 \<Rightarrow> 32 word) \<Rightarrow> u64 \<Rightarrow> memory \<Rightarrow> u32 \<Rightarrow> addr \<Rightarrow> addr \<Rightarrow> u64 \<Rightarrow> string \<Rightarrow> oitem list"
where
  "store_items ext tid m iid p a len flag =
     [Str ''Store,'', Dec, U64 tid, Str '','', Hex, U64 a, Str '','', Dec, U64 len, Str '','']
     @ byte_items ext m p len
     @ [Str '','', Dec, U32 iid, Str flag, Endl]"

definition recordStore :: "u64 \<Rightarrow> memory \<Rightarrow> u32 \<Rightarrow> addr \<Rightarrow> u64 \<Rightarrow> rt_state \<Rightarrow> rt_state" where
  "recordStore tid m iid p len s =
     (if \<not> recording s then s
      else if \<not> is_pm_addr s p then s
      else if len = 0 then s
      else let a = get_pm_addr s p in emit (store_items ucast tid m iid p a len '',0'') s)"

definition recordAtomicStore :: "u64 \<Rightarrow> memory \<Rightarrow> u32 \<Rightarrow> addr \<Rightarrow> u64 \<Rightarrow> rt_state \<Rightarrow> rt_state" where
  "recordAtomicStore tid m iid p len s =
     (if \<not> recording s then s
      else if \<not> is_pm_addr s p then s
      else if len = 0 then s
      else let a = get_pm_addr s p in emit (store_items ucast tid m iid p a len '',1'') s)"

text \<open>
  \<open>memcmp(p, &v, length) == 0\<close> on the little-endian bytes of \<open>v\<close>; beyond eight bytes it reads
  past \<open>v\<close>.
\<close>

definition le_byte :: "u64 \<Rightarrow> nat \<Rightarrow> u8" where
  "le_byte v i = ucast (drop_bit (8 * i) v)"

definition memcmp_value :: "memory \<Rightarrow> addr \<Rightarrow> u64 \<Rightarrow> nat \<Rightarrow> bool" where
  "memcmp_value m p v n \<longleftrightarrow> (\<forall>i\<in>set [0..<n]. m (p + of_nat i) = le_byte v i)"

definition recordCAS ::
  "u64 \<Rightarrow> memory \<Rightarrow> u32 \<Rightarrow> addr \<Rightarrow> u64 \<Rightarrow> u64 \<Rightarrow> rt_state \<Rightarrow> rt_state outcome"
where
  "recordCAS tid m iid p v len s =
     (let s1 = recordLoad tid iid p len s in
      if 8 < len then Undefined
      else if memcmp_value m p v (unat len) then Returns (recordAtomicStore tid m iid p len s1)
      else Returns s1)"

definition recordStrStore :: "u64 \<Rightarrow> memory \<Rightarrow> u32 \<Rightarrow> addr \<Rightarrow> rt_state \<Rightarrow> rt_state outcome" where
  "recordStrStore tid m iid p s =
     (if \<not> recording s then Returns s
      else if \<not> is_pm_addr s p then Returns s
      else case strlen m p of
             None \<Rightarrow> Undefined
           | Some n \<Rightarrow>
               (let len = of_nat n + 1 :: u64 in
                if len = 0 then Returns s
                else let a = get_pm_addr s p in
                  Returns (emit (store_items scast tid m iid p a len '',0'') s)))"

text \<open>
  \<open>start\<close>, the end of the string at \<open>p\<close>, is computed and not used: the address and the bytes are
  those at \<open>p\<close>.
\<close>

definition recordStrcatStore ::
  "u64 \<Rightarrow> memory \<Rightarrow> u32 \<Rightarrow> addr \<Rightarrow> addr \<Rightarrow> rt_state \<Rightarrow> rt_state outcome"
where
  "recordStrcatStore tid m iid p src s =
     (if \<not> recording s then Returns s
      else if \<not> is_pm_addr s p then Returns s
      else case (strlen m p, strlen m src) of
             (Some n0, Some n) \<Rightarrow>
               (let start = p + of_nat n0;
                    len = of_nat n + 1 :: u64 in
                if len = 0 then Returns s
                else let a = get_pm_addr s p in
                  Returns (emit (store_items scast tid m iid p a len '',0'') s))
           | _ \<Rightarrow> Undefined)"

section \<open>Flushes, fences\<close>

definition recordFlush :: "u64 \<Rightarrow> u32 \<Rightarrow> addr \<Rightarrow> rt_state \<Rightarrow> rt_state" where
  "recordFlush tid iid p s =
     (if \<not> recording s then s
      else let a = get_pm_addr s p in
        emit [Str ''Flush,'', Dec, U64 tid, Str '','', Hex, U64 a, Str '','', Dec, U32 iid, Endl] s)"

definition recordFlushWrapper ::
  "u64 \<Rightarrow> u32 \<Rightarrow> addr \<Rightarrow> u64 \<Rightarrow> rt_state \<Rightarrow> rt_state option"
where
  "recordFlushWrapper tid iid ptr len s =
     (let ptr_aligned = get_aligned_addr_64 ptr
      in walk_lines (recordFlush tid iid) ptr_aligned (ptr + len) s)"

definition recordFence :: "u64 \<Rightarrow> u32 \<Rightarrow> rt_state \<Rightarrow> rt_state" where
  "recordFence tid iid s =
     (if \<not> recording s then s
      else emit [Str ''Fence,'', Dec, U64 tid, Str '','', Dec, U32 iid, Endl] s)"

section \<open>Allocations, mappings\<close>

text \<open>
  \<open>direct\<close> is \<open>pmemobj_direct\<close>, from an object identifier to its address. \<open>recordAlloc\<close> reads
  the identifier from memory: two 64-bit fields, the pool first.
\<close>

record PMEMoid =
  pool_uuid_lo :: u64
  off :: u64

definition load_u64 :: "memory \<Rightarrow> addr \<Rightarrow> u64" where
  "load_u64 m p = (\<Sum>i\<leftarrow>[0..<8]. push_bit (8 * i) (ucast (m (p + of_nat i))))"

definition load_oid :: "memory \<Rightarrow> addr \<Rightarrow> PMEMoid" where
  "load_oid m p = \<lparr>pool_uuid_lo = load_u64 m p, off = load_u64 m (p + 8)\<rparr>"

definition recordTxAlloc ::
  "(PMEMoid \<Rightarrow> addr) \<Rightarrow> u64 \<Rightarrow> u32 \<Rightarrow> PMEMoid \<Rightarrow> u64 \<Rightarrow> rt_state \<Rightarrow> rt_state"
where
  "recordTxAlloc direct tid iid oid len s =
     (if no_alloc_br s then s
      else if \<not> recording s then s
      else if replay_mode s then s
      else let p = direct oid in
        if \<not> is_pm_addr s p then s
        else if len = 0 then s
        else let a = get_pm_addr s p in
          emit [Str ''Alloc,'', Dec, U64 tid, Str '','', Hex, U64 a, Str '','', Dec, U64 len,
                Str '','', Dec, U32 iid, Endl] s)"

definition recordAlloc ::
  "(PMEMoid \<Rightarrow> addr) \<Rightarrow> u64 \<Rightarrow> memory \<Rightarrow> u32 \<Rightarrow> addr \<Rightarrow> u64 \<Rightarrow> rt_state \<Rightarrow> rt_state"
where
  "recordAlloc direct tid m iid oidp len s =
     (if no_alloc_br s then s
      else if \<not> recording s then s
      else if replay_mode s then s
      else let p = direct (load_oid m oidp) in
        if \<not> is_pm_addr s p then s
        else if len = 0 then s
        else let a = get_pm_addr s p in
          emit [Str ''Alloc,'', Dec, U64 tid, Str '','', Hex, U64 a, Str '','', Dec, U64 len,
                Str '','', Dec, U32 iid, Endl] s)"

definition recordMmap :: "u32 \<Rightarrow> addr \<Rightarrow> u64 \<Rightarrow> rt_state \<Rightarrow> rt_state outcome" where
  "recordMmap iid ptr len s =
     (if \<not> recording s then Returns s
      else let a = ptr in
        if a = 18446744073709551615 then Returns s
        else if a = pm_addr_start s then Returns (s\<lparr>pm_addr_end := a + len\<rparr>)
        else if \<not> (pm_addr_start_dup s = 0 \<or> pm_addr_start_dup s = a) then Assert_failed
        else if \<not> (pm_addr_end_dup s = 0 \<or> pm_addr_end_dup s = a + len) then Assert_failed
        else Returns (s\<lparr>pm_addr_start_dup := a, pm_addr_end_dup := a + len\<rparr>))"

end
