(* ===== verification/Trace_Events.thy ===== *)
theory Trace_Events
  imports Tracer_Runtime
begin

text \<open>
  What a trace file means: the events, the line each event is, and for every function of the run
  time the events it adds. The writer's side of the trace format; \<open>Trace_Reader\<close> holds the
  reader's side, and the locale \<open>line_codec\<close> the contract between the two. A call of a record
  function is one step of a run: calls of different threads come in any order but do not overlap,
  which the source leaves to the program, as the mutex of \<open>locking\<close> and \<open>unlocking\<close> is commented out.
\<close>

section \<open>Events and lines\<close>

datatype tevent =
    TLock u64 addr u32
  | TLockBegin u64 addr
  | TLockEnd u64 addr
  | TUnLock u64 addr u32
  | TUnLockBegin u64 addr
  | TUnLockEnd u64 addr
  | TAPIBegin u64
  | TAPIEnd u64
  | TBr u64 u32
  | TLoad u64 addr u64 u32
  | TStore u64 addr u64 "32 word list" u32 bool
  | TFlush u64 addr u32
  | TFence u64 u32
  | TAlloc u64 addr u64 u32

definition dec_text :: "'a::len word \<Rightarrow> string" where
  "dec_text w = to_base 10 (unat w)"

definition hex_text :: "'a::len word \<Rightarrow> string" where
  "hex_text w = to_base 16 (unat w)"

definition hex2 :: "32 word \<Rightarrow> string" where
  "hex2 w = replicate (2 - length (hex_text w)) (CHR ''0'') @ hex_text w"

fun line_fields :: "tevent \<Rightarrow> string list" where
  "line_fields (TLock t a i) = [''Lock'', dec_text t, hex_text a, dec_text i]"
| "line_fields (TLockBegin t a) = [''LockBegin'', dec_text t, hex_text a, ''NA'']"
| "line_fields (TLockEnd t a) = [''LockEnd'', dec_text t, hex_text a, ''NA'']"
| "line_fields (TUnLock t a i) = [''UnLock'', dec_text t, hex_text a, dec_text i]"
| "line_fields (TUnLockBegin t a) = [''UnLockBegin'', dec_text t, hex_text a, ''NA'']"
| "line_fields (TUnLockEnd t a) = [''UnLockEnd'', dec_text t, hex_text a, ''NA'']"
| "line_fields (TAPIBegin t) = [''APIBegin'', dec_text t, ''NA'']"
| "line_fields (TAPIEnd t) = [''APIEnd'', dec_text t, ''NA'']"
| "line_fields (TBr t i) = [''Br'', dec_text t, dec_text i]"
| "line_fields (TLoad t a n i) = [''Load'', dec_text t, hex_text a, dec_text n, dec_text i]"
| "line_fields (TStore t a n ws i c) =
     [''Store'', dec_text t, hex_text a, dec_text n, join_with (CHR '' '') (map hex2 ws),
      dec_text i, if c then ''1'' else ''0'']"
| "line_fields (TFlush t a i) = [''Flush'', dec_text t, hex_text a, dec_text i]"
| "line_fields (TFence t i) = [''Fence'', dec_text t, dec_text i]"
| "line_fields (TAlloc t a n i) = [''Alloc'', dec_text t, hex_text a, dec_text n, dec_text i]"

definition line_of :: "tevent \<Rightarrow> string" where
  "line_of e = join_with (CHR '','') (line_fields e)"

section \<open>What a state has written\<close>

definition trace_text :: "rt_state \<Rightarrow> string" where
  "trace_text s = obuf (record_os s)"

definition rt_ready :: "rt_state \<Rightarrow> bool" where
  "rt_ready s \<longleftrightarrow> record_open s \<and> record_good s \<and> owidth (record_os s) = 0"

text \<open>\<open>t\<close> is \<open>s\<close> after the events \<open>es\<close> have been written and nothing else has changed.\<close>

definition wrote :: "tevent list \<Rightarrow> rt_state \<Rightarrow> rt_state \<Rightarrow> bool" where
  "wrote es s t \<longleftrightarrow>
     t = s\<lparr>record_os := record_os t\<rparr> \<and> owidth (record_os t) = 0
     \<and> trace_text t = trace_text s @ unlines (map line_of es)"

lemma wrote_refl: "rt_ready s \<Longrightarrow> wrote [] s s"
  by (simp add: wrote_def rt_ready_def unlines_def)

lemma wrote_ready: "wrote es s t \<Longrightarrow> rt_ready s \<Longrightarrow> rt_ready t"
  unfolding wrote_def rt_ready_def by (metis rt_state.select_convs(3,4) rt_state.surjective rt_state.update_convs(2))

lemma wrote_trans: "wrote es s t \<Longrightarrow> wrote fs t u \<Longrightarrow> wrote (es @ fs) s u"
  unfolding wrote_def by (metis (no_types) append.assoc map_append rt_state.surjective rt_state.update_convs(2) unlines_append)

lemma emit_wrote:
  assumes "rt_ready s"
    and "obuf (fold put items (record_os s)) = trace_text s @ line_of e @ [newline]"
    and "owidth (fold put items (record_os s)) = 0"
  shows "wrote [e] s (emit items s)"
  using assms by (simp add: wrote_def emit_def rt_ready_def trace_text_def unlines_def)

lemmas text_simps = dec_text_def hex_text_def put_text_def trace_text_def rt_ready_def line_of_def

subsection \<open>Lines without data\<close>

text \<open>Each state in \<open>emit\<close> form; the text does not depend on the base the stream was left in.\<close>

lemma emit_lock:
  "rt_ready s \<Longrightarrow> wrote [TLock t a i] s
     (emit [Str ''Lock,'', Dec, U64 t, Str '','', Hex, U64 a, Str '','', Dec, U32 i, Endl] s)"
  by (rule emit_wrote) (simp_all add: text_simps)

lemma emit_lock_begin:
  "rt_ready s \<Longrightarrow> wrote [TLockBegin t a] s
     (emit [Str ''LockBegin,'', Dec, U64 t, Str '','', Hex, U64 a, Str '','', Str ''NA'', Endl] s)"
  by (rule emit_wrote) (simp_all add: text_simps)

lemma emit_lock_end:
  "rt_ready s \<Longrightarrow> wrote [TLockEnd t a] s
     (emit [Str ''LockEnd,'', Dec, U64 t, Str '','', Hex, U64 a, Str '','', Str ''NA'', Endl] s)"
  by (rule emit_wrote) (simp_all add: text_simps)

lemma emit_unlock:
  "rt_ready s \<Longrightarrow> wrote [TUnLock t a i] s
     (emit [Str ''UnLock,'', Dec, U64 t, Str '','', Hex, U64 a, Str '','', Dec, U32 i, Endl] s)"
  by (rule emit_wrote) (simp_all add: text_simps)

lemma emit_unlock_begin:
  "rt_ready s \<Longrightarrow> wrote [TUnLockBegin t a] s
     (emit [Str ''UnLockBegin,'', Dec, U64 t, Str '','', Hex, U64 a, Str '','', Str ''NA'', Endl] s)"
  by (rule emit_wrote) (simp_all add: text_simps)

lemma emit_unlock_end:
  "rt_ready s \<Longrightarrow> wrote [TUnLockEnd t a] s
     (emit [Str ''UnLockEnd,'', Dec, U64 t, Str '','', Hex, U64 a, Str '','', Str ''NA'', Endl] s)"
  by (rule emit_wrote) (simp_all add: text_simps)

lemma emit_api_begin:
  "rt_ready s \<Longrightarrow> wrote [TAPIBegin t] s (emit [Str ''APIBegin,'', Dec, U64 t, Str '',NA'', Endl] s)"
  by (rule emit_wrote) (simp_all add: text_simps)

lemma emit_api_end:
  "rt_ready s \<Longrightarrow> wrote [TAPIEnd t] s (emit [Str ''APIEnd,'', Dec, U64 t, Str '',NA'', Endl] s)"
  by (rule emit_wrote) (simp_all add: text_simps)

lemma emit_br:
  "rt_ready s \<Longrightarrow> wrote [TBr t i] s
     (emit [Str ''Br,'', Dec, U64 t, Str '','', Dec, U32 i, Endl] s)"
  by (rule emit_wrote) (simp_all add: text_simps)

lemma emit_load:
  "rt_ready s \<Longrightarrow> wrote [TLoad t a n i] s
     (emit [Str ''Load,'', Dec, U64 t, Str '','', Hex, U64 a, Str '','', Dec, U64 n, Str '','',
            Dec, U32 i, Endl] s)"
  by (rule emit_wrote) (simp_all add: text_simps)

lemma emit_flush:
  "rt_ready s \<Longrightarrow> wrote [TFlush t a i] s
     (emit [Str ''Flush,'', Dec, U64 t, Str '','', Hex, U64 a, Str '','', Dec, U32 i, Endl] s)"
  by (rule emit_wrote) (simp_all add: text_simps)

lemma emit_fence:
  "rt_ready s \<Longrightarrow> wrote [TFence t i] s
     (emit [Str ''Fence,'', Dec, U64 t, Str '','', Dec, U32 i, Endl] s)"
  by (rule emit_wrote) (simp_all add: text_simps)

lemma emit_alloc:
  "rt_ready s \<Longrightarrow> wrote [TAlloc t a n i] s
     (emit [Str ''Alloc,'', Dec, U64 t, Str '','', Hex, U64 a, Str '','', Dec, U64 n, Str '','',
            Dec, U32 i, Endl] s)"
  by (rule emit_wrote) (simp_all add: text_simps)

subsection \<open>Lines with data\<close>

text \<open>The integers printed for the bytes at \<open>p\<close>.\<close>

definition data_words :: "(u8 \<Rightarrow> 32 word) \<Rightarrow> memory \<Rightarrow> addr \<Rightarrow> u64 \<Rightarrow> 32 word list" where
  "data_words ext m p len = map ext (bytes_at m p (unat len))"

lemma put_byte:
  "owidth os = 0 \<Longrightarrow>
   fold put [Hex, SetFill (CHR ''0''), SetW 2, I32 w] os =
     os\<lparr>obuf := obuf os @ hex2 w, obase := 16, ofill := CHR ''0'', owidth := 0\<rparr>"
  by (simp add: put_text_def int_text_def hex2_def hex_text_def)

lemma put_bytes:
  "owidth os = 0 \<Longrightarrow>
   fold put (concat (map (\<lambda>i. [Hex, SetFill (CHR ''0''), SetW 2, I32 (f i), Str '' '']) xs)) os =
     (if xs = [] then os
      else os\<lparr>obuf := obuf os @ concat (map (\<lambda>i. hex2 (f i) @ '' '') xs),
             obase := 16, ofill := CHR ''0'', owidth := 0\<rparr>)"
proof (induction xs arbitrary: os)
  case Nil
  then show ?case by simp
next
  case (Cons x xs)
  define os' where
    "os' = os\<lparr>obuf := obuf os @ hex2 (f x) @ '' '', obase := 16, ofill := CHR ''0'', owidth := 0\<rparr>"
  have "fold put [Hex, SetFill (CHR ''0''), SetW 2, I32 (f x), Str '' ''] os = os'"
    using put_byte [OF Cons.prems, of "f x"] by (simp add: os'_def put_text_def)
  moreover have "owidth os' = 0" by (simp add: os'_def)
  ultimately show ?case
    using Cons.IH [of os'] by (simp add: os'_def)
qed

lemma concat_join: "concat (map (\<lambda>x. f x @ [c]) xs) @ f y = join_with c (map f (xs @ [y]))"
proof (induction xs)
  case (Cons x xs)
  then show ?case by (cases xs) simp_all
qed simp

lemma put_byte_items:
  assumes "owidth os = 0" and "len \<noteq> 0"
  shows "fold put (byte_items ext m p len) os =
    os\<lparr>obuf := obuf os @ join_with (CHR '' '') (map hex2 (data_words ext m p len)),
       obase := 16, ofill := CHR ''0'', owidth := 0\<rparr>"
proof -
  define n where "n = unat (len - 1)"
  have len: "unat len = Suc n"
    using assms(2) by (simp add: n_def unat_minus_one Suc_diff_Suc unat_gt_0)
  let ?f = "\<lambda>i. hex2 (ext (m (p + of_nat i)))"
  have j: "concat (map (\<lambda>i. ?f i @ '' '') [0..<n]) @ ?f n
      = join_with (CHR '' '') (map hex2 (data_words ext m p len))"
    using concat_join [of ?f "CHR '' ''" "[0..<n]" n]
    by (simp add: data_words_def len bytes_at_def comp_def)
  let ?bs = "concat (map (\<lambda>i. [Hex, SetFill (CHR ''0''), SetW 2,
    I32 (ext (m (p + of_nat i))), Str '' '']) [0..<n])"
  have items: "byte_items ext m p len =
      ?bs @ [Hex, SetFill (CHR ''0''), SetW 2, I32 (ext (m (p + of_nat n)))]"
    unfolding byte_items_def n_def by simp
  define os' where "os' = fold put ?bs os"
  have os': "os' = (if n = 0 then os
      else os\<lparr>obuf := obuf os @ concat (map (\<lambda>i. ?f i @ '' '') [0..<n]),
             obase := 16, ofill := CHR ''0'', owidth := 0\<rparr>)"
    unfolding os'_def put_bytes [OF assms(1)] by simp
  then have w: "owidth os' = 0" using assms(1) by simp
  have "fold put (byte_items ext m p len) os =
      os'\<lparr>obuf := obuf os' @ ?f n, obase := 16, ofill := CHR ''0'', owidth := 0\<rparr>"
    unfolding items fold_append comp_def os'_def [symmetric] by (rule put_byte [OF w])
  then show ?thesis using j os' by (auto split: if_splits)
qed

lemma emit_store:
  assumes "rt_ready s" and "len \<noteq> 0" and flag: "flag = (if c then '',1'' else '',0'')"
  shows "wrote [TStore t a len (data_words ext m p len) i c] s
    (emit (store_items ext t m i p a len flag) s)"
proof (rule emit_wrote [OF assms(1)])
  let ?os = "fold put [Str ''Store,'', Dec, U64 t, Str '','', Hex, U64 a, Str '','', Dec, U64 len,
    Str '',''] (record_os s)"
  have os: "owidth ?os = 0"
    "obuf ?os = trace_text s @ ''Store,'' @ dec_text t @ '','' @ hex_text a @ '','' @ dec_text len @ '',''"
    using assms(1) by (simp_all add: text_simps)
  have f: "fold put (store_items ext t m i p a len flag) (record_os s) =
    fold put [Str '','', Dec, U32 i, Str flag, Endl] (fold put (byte_items ext m p len) ?os)"
    by (simp only: store_items_def fold_append comp_def)
  show "obuf (fold put (store_items ext t m i p a len flag) (record_os s)) =
    trace_text s @ line_of (TStore t a len (data_words ext m p len) i c) @ [newline]"
    unfolding f put_byte_items [OF os(1) assms(2)]
    using os(2) by (simp add: put_text_def line_of_def dec_text_def flag del: fold_simps(2))
  show "owidth (fold put (store_items ext t m i p a len flag) (record_os s)) = 0"
    unfolding f put_byte_items [OF os(1) assms(2)] by (simp add: put_text_def)
qed

section \<open>Calls and their events\<close>

text \<open>The calls the instrumented program makes, with their arguments evaluated.\<close>

datatype rt_call =
    CLocking string
  | CUnlocking string
  | CLock u32 addr
  | CLockBegin u32 addr
  | CLockEnd u32 addr
  | CUnlock u32 addr
  | CUnlockBegin u32 addr
  | CUnlockEnd u32 addr
  | CAPIBegin u32
  | CAPIEnd u32
  | CBr u32
  | CLoad u32 addr u64
  | CStrLoad u32 addr
  | CStore u32 addr u64
  | CAtomicStore u32 addr u64
  | CCAS u32 addr u64 u64
  | CStrStore u32 addr
  | CStrcatStore u32 addr addr
  | CFlush u32 addr
  | CFlushWrapper u32 addr u64
  | CFence u32
  | CAlloc u32 addr u64
  | CTxAlloc u32 PMEMoid u64
  | CMmap u32 addr u64

text \<open>
  One call, made by thread \<open>tid\<close> while the memory is \<open>m\<close>; \<open>direct\<close> is \<open>pmemobj_direct\<close>.
\<close>

fun rt_exec ::
  "(PMEMoid \<Rightarrow> addr) \<Rightarrow> u64 \<Rightarrow> memory \<Rightarrow> rt_call \<Rightarrow> rt_state \<Rightarrow> rt_state outcome"
where
  "rt_exec d t m (CLocking n) s = Returns (locking n s)"
| "rt_exec d t m (CUnlocking n) s = Returns (unlocking n s)"
| "rt_exec d t m (CLock i p) s = Returns (recordLock t i p s)"
| "rt_exec d t m (CLockBegin i p) s = Returns (recordLockBegin t i p s)"
| "rt_exec d t m (CLockEnd i p) s = Returns (recordLockEnd t i p s)"
| "rt_exec d t m (CUnlock i p) s = Returns (recordUnlock t i p s)"
| "rt_exec d t m (CUnlockBegin i p) s = Returns (recordUnlockBegin t i p s)"
| "rt_exec d t m (CUnlockEnd i p) s = Returns (recordUnlockEnd t i p s)"
| "rt_exec d t m (CAPIBegin i) s = Returns (recordAPIBegin t i s)"
| "rt_exec d t m (CAPIEnd i) s = Returns (recordAPIEnd t i s)"
| "rt_exec d t m (CBr i) s = Returns (recordBr t i s)"
| "rt_exec d t m (CLoad i p n) s = Returns (recordLoad t i p n s)"
| "rt_exec d t m (CStrLoad i p) s = recordStrLoad t m i p s"
| "rt_exec d t m (CStore i p n) s = Returns (recordStore t m i p n s)"
| "rt_exec d t m (CAtomicStore i p n) s = Returns (recordAtomicStore t m i p n s)"
| "rt_exec d t m (CCAS i p v n) s = recordCAS t m i p v n s"
| "rt_exec d t m (CStrStore i p) s = recordStrStore t m i p s"
| "rt_exec d t m (CStrcatStore i p q) s = recordStrcatStore t m i p q s"
| "rt_exec d t m (CFlush i p) s = Returns (recordFlush t i p s)"
| "rt_exec d t m (CFlushWrapper i p n) s =
     (case recordFlushWrapper t i p n s of None \<Rightarrow> Diverges | Some s' \<Rightarrow> Returns s')"
| "rt_exec d t m (CFence i) s = Returns (recordFence t i s)"
| "rt_exec d t m (CAlloc i p n) s = Returns (recordAlloc d t m i p n s)"
| "rt_exec d t m (CTxAlloc i oid n) s = Returns (recordTxAlloc d t i oid n s)"
| "rt_exec d t m (CMmap i p n) s = recordMmap i p n s"

text \<open>A run: calls by any threads, each with the memory it finds.\<close>

fun rt_run ::
  "(PMEMoid \<Rightarrow> addr) \<Rightarrow> (u64 \<times> memory \<times> rt_call) list \<Rightarrow> rt_state \<Rightarrow> rt_state outcome"
where
  "rt_run d [] s = Returns s"
| "rt_run d ((t, m, c) # cs) s = bind_outcome (rt_exec d t m c s) (rt_run d cs)"

text \<open>
  The abstract side: whether an access is recorded, and the events of each call. The window is
  what \<open>recordMmap\<close> maintains; nothing else of the state changes.
\<close>

definition traced :: "rt_state \<Rightarrow> addr \<Rightarrow> u64 \<Rightarrow> bool" where
  "traced s p n \<longleftrightarrow> recording s \<and> is_pm_addr s p \<and> n \<noteq> 0"

definition live :: "rt_state \<Rightarrow> bool" where
  "live s \<longleftrightarrow> recording s \<and> \<not> replay_mode s"

definition str_size :: "memory \<Rightarrow> addr \<Rightarrow> u64" where
  "str_size m p = (case strlen m p of None \<Rightarrow> 0 | Some n \<Rightarrow> of_nat n + 1)"

fun events_of ::
  "(PMEMoid \<Rightarrow> addr) \<Rightarrow> rt_state \<Rightarrow> u64 \<Rightarrow> memory \<Rightarrow> rt_call \<Rightarrow> tevent list"
where
  "events_of d s t m (CLock i p) = (if live s then [TLock t p i] else [])"
| "events_of d s t m (CLockBegin i p) = (if live s then [TLockBegin t p] else [])"
| "events_of d s t m (CLockEnd i p) = (if live s then [TLockEnd t p] else [])"
| "events_of d s t m (CUnlock i p) = (if live s then [TUnLock t p i] else [])"
| "events_of d s t m (CUnlockBegin i p) = (if live s then [TUnLockBegin t p] else [])"
| "events_of d s t m (CUnlockEnd i p) = (if live s then [TUnLockEnd t p] else [])"
| "events_of d s t m (CAPIBegin i) = (if recording s then [TAPIBegin t] else [])"
| "events_of d s t m (CAPIEnd i) = (if recording s then [TAPIEnd t] else [])"
| "events_of d s t m (CBr i) = (if live s \<and> \<not> no_alloc_br s then [TBr t i] else [])"
| "events_of d s t m (CLoad i p n) =
     (if live s \<and> traced s p n then [TLoad t (get_pm_addr s p) n i] else [])"
| "events_of d s t m (CStrLoad i p) =
     (if live s \<and> traced s p (str_size m p)
      then [TLoad t (get_pm_addr s p) (str_size m p) i] else [])"
| "events_of d s t m (CStore i p n) =
     (if traced s p n then [TStore t (get_pm_addr s p) n (data_words ucast m p n) i False] else [])"
| "events_of d s t m (CAtomicStore i p n) =
     (if traced s p n then [TStore t (get_pm_addr s p) n (data_words ucast m p n) i True] else [])"
| "events_of d s t m (CCAS i p v n) =
     (if live s \<and> traced s p n then [TLoad t (get_pm_addr s p) n i] else [])
     @ (if memcmp_value m p v (unat n) \<and> traced s p n
        then [TStore t (get_pm_addr s p) n (data_words ucast m p n) i True] else [])"
| "events_of d s t m (CStrStore i p) =
     (if traced s p (str_size m p)
      then [TStore t (get_pm_addr s p) (str_size m p) (data_words scast m p (str_size m p)) i False]
      else [])"
| "events_of d s t m (CStrcatStore i p q) =
     (if traced s p (str_size m q)
      then [TStore t (get_pm_addr s p) (str_size m q) (data_words scast m p (str_size m q)) i False]
      else [])"
| "events_of d s t m (CFlush i p) = (if recording s then [TFlush t (get_pm_addr s p) i] else [])"
| "events_of d s t m (CFlushWrapper i p n) =
     (if recording s
      then map (\<lambda>a. TFlush t (get_pm_addr s (of_nat a)) i)
             (lines_from (64 * (unat p div 64)) (unat p + unat n))
      else [])"
| "events_of d s t m (CFence i) = (if recording s then [TFence t i] else [])"
| "events_of d s t m (CAlloc i p n) =
     (if live s \<and> \<not> no_alloc_br s \<and> traced s (d (load_oid m p)) n
      then [TAlloc t (get_pm_addr s (d (load_oid m p))) n i] else [])"
| "events_of d s t m (CTxAlloc i oid n) =
     (if live s \<and> \<not> no_alloc_br s \<and> traced s (d oid) n
      then [TAlloc t (get_pm_addr s (d oid)) n i] else [])"
| "events_of d s t m _ = []"

fun window_after :: "rt_call \<Rightarrow> rt_state \<Rightarrow> rt_state" where
  "window_after (CMmap i p n) s =
     (if \<not> recording s \<or> p = 18446744073709551615 then s
      else if p = pm_addr_start s then s\<lparr>pm_addr_end := p + n\<rparr>
      else s\<lparr>pm_addr_start_dup := p, pm_addr_end_dup := p + n\<rparr>)"
| "window_after _ s = s"

section \<open>The run time writes exactly these events\<close>

lemma wrote_frame:
  assumes "wrote es s t"
  shows "recording t = recording s" "replay_mode t = replay_mode s"
    "no_alloc_br t = no_alloc_br s" "is_pm_addr t = is_pm_addr s" "get_pm_addr t = get_pm_addr s"
proof -
  from assms have t: "t = s\<lparr>record_os := record_os t\<rparr>" by (simp add: wrote_def)
  show "recording t = recording s" "replay_mode t = replay_mode s"
    "no_alloc_br t = no_alloc_br s" "is_pm_addr t = is_pm_addr s" "get_pm_addr t = get_pm_addr s"
    by (subst t, simp add: fun_eq_iff is_pm_addr_def get_pm_addr_def)+
qed

lemmas record_defs [rt_simps] =
  locking_def unlocking_def recordLock_def recordLockBegin_def recordLockEnd_def recordUnlock_def
  recordUnlockBegin_def recordUnlockEnd_def recordAPIBegin_def recordAPIEnd_def recordBr_def
  recordLoad_def recordStrLoad_def recordStore_def recordAtomicStore_def recordStrStore_def
  recordStrcatStore_def recordFlush_def recordFence_def recordAlloc_def recordTxAlloc_def

lemmas emit_intros =
  emit_lock emit_lock_begin emit_lock_end emit_unlock emit_unlock_begin emit_unlock_end
  emit_api_begin emit_api_end emit_br emit_load emit_flush emit_fence emit_alloc emit_store

lemma wrote_flush:
  "rt_ready s \<Longrightarrow>
   wrote (if recording s then [TFlush t (get_pm_addr s p) i] else []) s (recordFlush t i p s)"
  by (simp add: recordFlush_def Let_def wrote_refl emit_flush)

lemma wrote_flushes:
  "rt_ready s \<Longrightarrow>
   wrote (if recording s then map (\<lambda>a. TFlush t (get_pm_addr s (of_nat a)) i) xs else []) s
     (fold (recordFlush t i) (map of_nat xs) s)"
proof (induction xs arbitrary: s)
  case Nil
  then show ?case by (simp add: wrote_refl)
next
  case (Cons x xs)
  let ?s = "recordFlush t i (of_nat x) s"
  note w = wrote_flush [OF Cons.prems, of t "of_nat x" i]
  from wrote_trans [OF w Cons.IH [OF wrote_ready [OF w Cons.prems]]] wrote_frame [OF w]
  show ?case by (auto split: if_splits)
qed

interpretation rfw: line_walk "recordFlush tid iid"
  "\<lambda>p n. recordFlushWrapper tid iid p (of_nat n)" "\<lambda>p n. unat p + n + 64 \<le> 2 ^ 64" for tid iid
  by unfold_locales (simp_all add: recordFlushWrapper_def)

lemma recordFlushWrapper_eq:
  assumes "unat p + unat n + 64 \<le> 2 ^ 64"
  shows "recordFlushWrapper tid iid p n s = Some
    (fold (recordFlush tid iid)
      (map of_nat (lines_from (64 * (unat p div 64)) (unat p + unat n))) s)"
  using rfw.walk_eq [OF assms] by simp

text \<open>A call is in range when a flush does not reach the last line of the address space.\<close>

fun in_range :: "rt_call \<Rightarrow> bool" where
  "in_range (CFlushWrapper i p n) \<longleftrightarrow> unat p + unat n + 64 \<le> 2 ^ 64"
| "in_range _ \<longleftrightarrow> True"

lemma wrote_load:
  "rt_ready s \<Longrightarrow>
   wrote (if live s \<and> traced s p n then [TLoad t (get_pm_addr s p) n i] else []) s
     (recordLoad t i p n s)"
  by (simp add: recordLoad_def Let_def wrote_refl emit_load live_def traced_def)

lemma wrote_atomic:
  "rt_ready s \<Longrightarrow>
   wrote (if traced s p n then [TStore t (get_pm_addr s p) n (data_words ucast m p n) i True] else [])
     s (recordAtomicStore t m i p n s)"
  by (simp add: recordAtomicStore_def Let_def wrote_refl emit_store traced_def)

lemma wrote_cas:
  assumes "rt_ready s" and "recordCAS t m i p v n s = Returns s'"
  shows "wrote (events_of d s t m (CCAS i p v n)) s s'"
proof -
  note l = wrote_load [OF assms(1), of p n t i]
  note a = wrote_atomic [OF wrote_ready [OF l assms(1)], of p n t m i]
  show ?thesis
    using assms(2) l wrote_trans [OF l a] wrote_frame [OF l]
    by (auto simp: recordCAS_def Let_def traced_def split: if_splits)
qed

lemma rt_exec_wrote:
  assumes "rt_ready s" and "in_range c" and "rt_exec d t m c s = Returns s'"
  shows "wrote (events_of d s t m c) (window_after c s) s'"
proof (cases c)
  case (CCAS i p v n)
  with assms show ?thesis using wrote_cas by simp
next
  case (CFlushWrapper i p n)
  let ?xs = "lines_from (64 * (unat p div 64)) (unat p + unat n)"
  from CFlushWrapper assms(2,3) have "s' = fold (recordFlush t i) (map of_nat ?xs) s"
    by (simp add: recordFlushWrapper_eq)
  with wrote_flushes [OF assms(1), of t i ?xs] CFlushWrapper show ?thesis by simp
next
  case (CMmap i p n)
  with assms show ?thesis
    by (auto simp: recordMmap_def Let_def wrote_def rt_ready_def unlines_def trace_text_def
        split: if_splits)
qed (use assms in \<open>auto simp: rt_simps Let_def live_def traced_def str_size_def
    intro!: wrote_refl emit_intros split: if_splits option.splits\<close>)

text \<open>
  Whole runs. The events of a run depend on the window at each call, which the mapping calls
  before it have set.
\<close>

fun run_events ::
  "(PMEMoid \<Rightarrow> addr) \<Rightarrow> rt_state \<Rightarrow> (u64 \<times> memory \<times> rt_call) list \<Rightarrow> tevent list"
where
  "run_events d s [] = []"
| "run_events d s ((t, m, c) # cs) = events_of d s t m c @ run_events d (window_after c s) cs"

fun run_window :: "(u64 \<times> memory \<times> rt_call) list \<Rightarrow> rt_state \<Rightarrow> rt_state" where
  "run_window [] s = s"
| "run_window ((t, m, c) # cs) s = run_window cs (window_after c s)"

text \<open>Events and windows do not depend on what has been written.\<close>

lemma events_of_frame: "events_of d (s\<lparr>record_os := x\<rparr>) t m c = events_of d s t m c"
  by (cases c) (simp_all add: live_def traced_def is_pm_addr_def get_pm_addr_def)

lemma window_after_frame:
  "window_after c (s\<lparr>record_os := x\<rparr>) = (window_after c s)\<lparr>record_os := x\<rparr>"
  by (cases c) simp_all

lemma run_events_frame: "run_events d (s\<lparr>record_os := x\<rparr>) cs = run_events d s cs"
  by (induction cs arbitrary: s) (auto simp: events_of_frame window_after_frame)

lemma run_window_frame: "run_window cs (s\<lparr>record_os := x\<rparr>) = (run_window cs s)\<lparr>record_os := x\<rparr>"
  by (induction cs arbitrary: s) (auto simp: window_after_frame)

lemma window_after_text [simp]:
  "record_os (window_after c s) = record_os s" "rt_ready (window_after c s) = rt_ready s"
  by (cases c; simp add: rt_ready_def)+

lemma run_window_text [simp]: "record_os (run_window cs s) = record_os s"
  by (induction cs arbitrary: s) auto

lemma rt_run_wrote:
  assumes "rt_ready s" and "\<forall>(t, m, c)\<in>set cs. in_range c" and "rt_run d cs s = Returns s'"
  shows "wrote (run_events d s cs) (run_window cs s) s'"
  using assms
proof (induction cs arbitrary: s)
  case Nil
  then show ?case by (simp add: wrote_refl)
next
  case (Cons x cs)
  obtain t m c where x: "x = (t, m, c)" by (cases x)
  from Cons.prems(3) x obtain s1 where s1: "rt_exec d t m c s = Returns s1"
    and rest: "rt_run d cs s1 = Returns s'"
    by (cases "rt_exec d t m c s") auto
  from Cons.prems x s1 have w: "wrote (events_of d s t m c) (window_after c s) s1"
    by (auto intro: rt_exec_wrote)
  then have s1_eq: "s1 = (window_after c s)\<lparr>record_os := record_os s1\<rparr>" by (simp add: wrote_def)
  from wrote_ready [OF w] Cons.prems(1) have "rt_ready s1" by simp
  with Cons.IH rest Cons.prems(2) have "wrote (run_events d s1 cs) (run_window cs s1) s'" by simp
  moreover have "run_events d s1 cs = run_events d (window_after c s) cs"
    by (subst s1_eq) (simp add: run_events_frame)
  moreover have "run_window cs s1 = (run_window cs (window_after c s))\<lparr>record_os := record_os s1\<rparr>"
    by (subst s1_eq) (simp add: run_window_frame)
  ultimately show ?case
    using w x by (simp add: wrote_def trace_text_def)
qed

text \<open>When a call returns at all.\<close>

fun call_defined :: "rt_state \<Rightarrow> memory \<Rightarrow> rt_call \<Rightarrow> bool" where
  "call_defined s m (CStrLoad i p) \<longleftrightarrow> (live s \<and> is_pm_addr s p \<longrightarrow> strlen m p \<noteq> None)"
| "call_defined s m (CStrStore i p) \<longleftrightarrow> (recording s \<and> is_pm_addr s p \<longrightarrow> strlen m p \<noteq> None)"
| "call_defined s m (CStrcatStore i p q) \<longleftrightarrow>
     (recording s \<and> is_pm_addr s p \<longrightarrow> strlen m p \<noteq> None \<and> strlen m q \<noteq> None)"
| "call_defined s m (CCAS i p v n) \<longleftrightarrow> n \<le> 8"
| "call_defined s m (CMmap i p n) \<longleftrightarrow>
     (recording s \<and> p \<noteq> 18446744073709551615 \<and> p \<noteq> pm_addr_start s \<longrightarrow>
        pm_addr_start_dup s \<in> {0, p} \<and> pm_addr_end_dup s \<in> {0, p + n})"
| "call_defined s m _ \<longleftrightarrow> True"

lemma rt_exec_returns_iff:
  "in_range c \<Longrightarrow> (\<exists>s'. rt_exec d t m c s = Returns s') \<longleftrightarrow> call_defined s m c"
  by (cases c) (auto simp: recordFlushWrapper_eq rt_simps recordCAS_def recordMmap_def Let_def
      live_def not_less split: option.splits)

text \<open>A string with its first zero byte at offset \<open>n\<close> has length \<open>n\<close>.\<close>

lemma strlen_eq:
  "(\<forall>k<n. m (p + of_nat k) \<noteq> 0) \<Longrightarrow> m (p + of_nat n) = 0 \<Longrightarrow> strlen m p = Some n"
proof (induction n arbitrary: p)
  case 0
  then show ?case by (simp add: strlen.simps [of m p])
next
  case (Suc n)
  have "\<forall>k<n. m (p + 1 + of_nat k) \<noteq> 0"
    using Suc.prems(1) by (metis Suc_less_eq add.assoc of_nat_Suc)
  moreover have "m (p + 1 + of_nat n) = 0" using Suc.prems(2) by (simp add: add.assoc)
  ultimately have "strlen m (p + 1) = Some n" by (rule Suc.IH)
  moreover have "m p \<noteq> 0" using Suc.prems(1) by force
  ultimately show ?case by (simp add: strlen.simps [of m p])
qed

end
