(* ===== verification/Py_Lib.thy ===== *)
theory Py_Lib
  imports Durinn_Prelude "HOL-Library.Monad_Syntax"
begin

text \<open>
  The parts of Python that the trace checker is written in: integers read from text, list and
  string indexing and slicing, hexadecimal byte strings, true division. A computation that may
  raise has an \<open>option\<close> type; the checker catches no exception, so \<open>None\<close> is the end of the run.
  The helpers of \<open>trace_checker/lib/utils.py\<close> are here as well.
\<close>

section \<open>Numbers from text\<close>

definition py_space :: "char \<Rightarrow> bool" where
  "py_space c \<longleftrightarrow> (let k = (of_char c :: nat) in k = 32 \<or> (9 \<le> k \<and> k \<le> 13) \<or> (28 \<le> k \<and> k \<le> 31))"

definition py_strip :: "string \<Rightarrow> string" where
  "py_strip s = rev (dropWhile py_space (rev (dropWhile py_space s)))"

text \<open>Digits, with single underscores allowed between them.\<close>

fun py_digits :: "nat \<Rightarrow> nat \<Rightarrow> bool \<Rightarrow> string \<Rightarrow> nat option" where
  "py_digits b acc after_digit [] = (if after_digit then Some acc else None)"
| "py_digits b acc after_digit (c # cs) =
     (if c = CHR ''_'' then (if after_digit then py_digits b acc False cs else None)
      else case char_digit c of
             None \<Rightarrow> None
           | Some d \<Rightarrow> if d < b then py_digits b (b * acc + d) True cs else None)"

text \<open>\<open>int(s, b)\<close> for the bases 10 and 16; \<open>int(s)\<close> is base 10.\<close>

definition py_int :: "nat \<Rightarrow> string \<Rightarrow> int option" where
  "py_int b s =
     (let t = py_strip s;
          neg = (t \<noteq> [] \<and> hd t = CHR ''-'');
          u = (if t \<noteq> [] \<and> (hd t = CHR ''-'' \<or> hd t = CHR ''+'') then tl t else t);
          pre = (b = 16 \<and> 2 \<le> length u \<and> u ! 0 = CHR ''0'' \<and> (u ! 1 = CHR ''x'' \<or> u ! 1 = CHR ''X''));
          v = (if pre then (let w = drop 2 u in if w \<noteq> [] \<and> hd w = CHR ''_'' then tl w else w) else u)
      in map_option (\<lambda>n. if neg then - int n else int n) (py_digits b 0 False v))"

section \<open>Sequences\<close>

text \<open>\<open>xs[i]\<close> for a constant, non-negative index.\<close>

definition py_nth :: "'a list \<Rightarrow> nat \<Rightarrow> 'a option" where
  "py_nth xs i = (if i < length xs then Some (xs ! i) else None)"

definition py_bound :: "'a list \<Rightarrow> int \<Rightarrow> nat" where
  "py_bound xs i = nat (if i < 0 then max 0 (i + int (length xs)) else min i (int (length xs)))"

definition py_slice :: "'a list \<Rightarrow> int \<Rightarrow> int \<Rightarrow> 'a list" where
  "py_slice xs i j = take (py_bound xs j - py_bound xs i) (drop (py_bound xs i) xs)"

definition py_slice_from :: "'a list \<Rightarrow> int \<Rightarrow> 'a list" where
  "py_slice_from xs i = drop (py_bound xs i) xs"

text \<open>Reading a text file turns every line ending into a newline.\<close>

definition carriage :: char where
  "carriage = CHR 0x0D"

fun universal_newlines :: "string \<Rightarrow> string" where
  "universal_newlines [] = []"
| "universal_newlines (c # cs) =
     (if c = carriage then
        (case cs of [] \<Rightarrow> [newline]
         | d # ds \<Rightarrow> if d = newline then newline # universal_newlines ds
                    else newline # universal_newlines cs)
      else c # universal_newlines cs)"

text \<open>\<open>bytes(bytearray.fromhex(s))\<close>.\<close>

definition ascii_space :: "char \<Rightarrow> bool" where
  "ascii_space c \<longleftrightarrow> (let k = (of_char c :: nat) in k = 32 \<or> (9 \<le> k \<and> k \<le> 13))"

fun fromhex :: "string \<Rightarrow> u8 list option" where
  "fromhex [] = Some []"
| "fromhex (c # cs) =
     (if ascii_space c then fromhex cs
      else case cs of
             [] \<Rightarrow> None
           | d # ds \<Rightarrow>
               (case (char_digit c, char_digit d) of
                  (Some x, Some y) \<Rightarrow>
                    map_option ((#) (of_nat (16 * x + y))) (fromhex ds)
                | _ \<Rightarrow> None))"

section \<open>True division\<close>

fun bit_len :: "nat \<Rightarrow> nat" where
  "bit_len n = (if n = 0 then 0 else Suc (bit_len (n div 2)))"

declare bit_len.simps [simp del]

text \<open>The nearest number with 53 significant bits, ties to even.\<close>

definition round53 :: "nat \<Rightarrow> nat" where
  "round53 n =
     (if n < 2 ^ 53 then n
      else let e = bit_len n - 53; q = n div 2 ^ e; r = n mod 2 ^ e; half = 2 ^ (e - 1)
           in (if half < r \<or> (r = half \<and> odd q) then Suc q else q) * 2 ^ e)"

text \<open>\<open>int(a / 2 ** k)\<close>: a correctly rounded quotient, then truncation.\<close>

definition int_truediv_pow2 :: "int \<Rightarrow> nat \<Rightarrow> int" where
  "int_truediv_pow2 a k = sgn a * int (round53 (nat \<bar>a\<bar>) div 2 ^ k)"

lemma int_truediv_pow2_exact:
  "0 \<le> a \<Longrightarrow> a < 2 ^ 53 \<Longrightarrow> int_truediv_pow2 a k = a div 2 ^ k"
  by (cases "a = 0") (simp_all add: int_truediv_pow2_def round53_def zdiv_int)

section \<open>utils.py\<close>

definition CACHELINE_BYTES :: int where
  "CACHELINE_BYTES = 64"

definition ATOMIC_WRITE_BYTES :: int where
  "ATOMIC_WRITE_BYTES = 8"

definition get_cacheline_address :: "int \<Rightarrow> int" where
  "get_cacheline_address a = int_truediv_pow2 a 6 * CACHELINE_BYTES"

text \<open>Ranges as pairs of base and maximal address.\<close>

definition range_cmp :: "int \<times> int \<Rightarrow> int \<times> int \<Rightarrow> int" where
  "range_cmp lhs rhs =
     (if snd lhs \<le> fst rhs then - 1 else if snd rhs \<le> fst lhs then 1 else 0)"

definition range_contains :: "int \<times> int \<Rightarrow> int \<times> int \<Rightarrow> bool" where
  "range_contains lhs rhs \<longleftrightarrow> fst lhs \<le> fst rhs \<and> snd rhs \<le> snd lhs"

lemma get_cacheline_address_eq:
  "0 \<le> a \<Longrightarrow> a < 2 ^ 53 \<Longrightarrow> get_cacheline_address a = 64 * (a div 64)"
  using int_truediv_pow2_exact [of a 6] by (simp add: get_cacheline_address_def CACHELINE_BYTES_def)

lemma range_cmp_overlap:
  "fst r < snd r \<Longrightarrow> fst q < snd q \<Longrightarrow>
   range_cmp r q = 0 \<longleftrightarrow> {fst r..<snd r} \<inter> {fst q..<snd q} \<noteq> {}"
  by (auto simp: range_cmp_def Int_def) (metis linorder_linear not_le)+

section \<open>Reading back what was printed\<close>

lemma digit_chars_not_space: "c \<in> set digit_chars \<Longrightarrow> \<not> py_space c"
  by (auto simp: digit_chars_def py_space_def)

lemma digit_chars_no_sep:
  "CHR '','' \<notin> set digit_chars" "CHR '' '' \<notin> set digit_chars" "newline \<notin> set digit_chars"
  "carriage \<notin> set digit_chars" "CHR ''-'' \<notin> set digit_chars" "CHR ''+'' \<notin> set digit_chars"
  "CHR ''_'' \<notin> set digit_chars" "CHR ''x'' \<notin> set digit_chars" "CHR ''X'' \<notin> set digit_chars"
  by (simp_all add: digit_chars_def newline_def carriage_def)

lemma py_strip_id: "\<forall>c\<in>set s. \<not> py_space c \<Longrightarrow> py_strip s = s"
proof -
  assume "\<forall>c\<in>set s. \<not> py_space c"
  then have "dropWhile py_space t = t" if "set t \<subseteq> set s" for t
    using that by (cases t) auto
  then show ?thesis by (simp add: py_strip_def)
qed

lemma py_digits_of_digits:
  "set s \<subseteq> set digit_chars \<Longrightarrow> s \<noteq> [] \<or> ad \<Longrightarrow> py_digits b acc ad s = of_digits b acc s"
proof (induction s arbitrary: acc ad)
  case (Cons c cs)
  then have "c \<noteq> CHR ''_''" using digit_chars_no_sep by auto
  with Cons show ?case by (auto split: option.splits)
qed simp

lemma py_int_plain:
  assumes "py_strip s = s" and "hd s \<noteq> CHR ''-''" and "hd s \<noteq> CHR ''+''"
    and "\<not> (2 \<le> length s \<and> (s ! 1 = CHR ''x'' \<or> s ! 1 = CHR ''X''))"
  shows "py_int b s = map_option int (py_digits b 0 False s)"
  using assms by (auto simp: py_int_def Let_def)

lemma py_int_to_base:
  assumes "b = 10 \<or> b = 16"
  shows "py_int b (to_base b n) = Some (int n)"
proof -
  let ?s = "to_base b n"
  from assms have b: "2 \<le> b" "b \<le> 16" by auto
  note cs = to_base_chars [OF b, of n]
  have strip: "py_strip ?s = ?s"
    using cs digit_chars_not_space by (intro py_strip_id) auto
  have hd: "hd ?s \<in> set digit_chars" using cs by (simp add: subset_iff)
  then have sign: "hd ?s \<noteq> CHR ''-''" "hd ?s \<noteq> CHR ''+''"
    using digit_chars_no_sep by auto
  have pre: "\<not> (2 \<le> length ?s \<and> (?s ! 1 = CHR ''x'' \<or> ?s ! 1 = CHR ''X''))"
  proof
    assume a: "2 \<le> length ?s \<and> (?s ! 1 = CHR ''x'' \<or> ?s ! 1 = CHR ''X'')"
    then have "?s ! 1 \<in> set ?s" by (intro nth_mem) simp
    with cs have "?s ! 1 \<in> set digit_chars" by blast
    with a digit_chars_no_sep(8,9) show False by metis
  qed
  have "py_digits b 0 False ?s = Some n"
    using py_digits_of_digits [OF cs] of_digits_to_base [OF b, of n] by simp
  with py_int_plain [OF strip sign pre] show ?thesis by simp
qed

lemma universal_newlines_id: "carriage \<notin> set s \<Longrightarrow> universal_newlines s = s"
  by (induction s) auto

end
