(* ===== verification/Trace_Reader.thy ===== *)
theory Trace_Reader
  imports Trace_Events Py_Lib
begin

text \<open>
  The reader of trace files, \<open>trace_checker/lib/trace.py\<close>, with the operations of
  \<open>lib/memops.py\<close> it builds. The locale \<open>line_codec\<close> is the contract of the trace format: a
  reader that understands each line the run time prints recovers the events of a whole file.
\<close>

section \<open>memops.py\<close>

record base_op =
  op_id :: int
  op_tid :: int
  op_src :: string

record store_op = base_op +
  s_address :: int
  s_size :: int
  s_flushing :: nat
  s_value :: "string list"
  s_value_bytes :: "u8 list"
  s_is_cas :: int

record load_op = base_op +
  l_address :: int
  l_size :: int
  l_flushing :: nat

record flush_op = base_op +
  f_address_not_aligned :: int
  f_address :: int
  f_size :: int

record lock_op = base_op +
  k_address :: int
  k_size :: int

datatype memop =
    MStore store_op
  | MLoad load_op
  | MFlush flush_op
  | MFence base_op
  | MLock lock_op
  | MUnLock lock_op
  | MAPIBegin base_op
  | MAPIEnd base_op

text \<open>The constructors. \<open>Store\<close> raises when its value is not a hexadecimal byte string.\<close>

definition Store ::
  "int \<Rightarrow> int \<Rightarrow> string list \<Rightarrow> int \<Rightarrow> int \<Rightarrow> string \<Rightarrow> int \<Rightarrow> store_op option"
where
  "Store address sz value i t src is_cas =
     do {
       bs \<leftarrow> fromhex (concat value);
       Some \<lparr>op_id = i, op_tid = t, op_src = src, s_address = address, s_size = sz,
             s_flushing = 0, s_value = value, s_value_bytes = bs, s_is_cas = is_cas\<rparr>
     }"

definition Load :: "int \<Rightarrow> int \<Rightarrow> int \<Rightarrow> int \<Rightarrow> string \<Rightarrow> load_op" where
  "Load address sz i t src =
     \<lparr>op_id = i, op_tid = t, op_src = src, l_address = address, l_size = sz, l_flushing = 0\<rparr>"

definition Flush :: "int \<Rightarrow> int \<Rightarrow> int \<Rightarrow> string \<Rightarrow> flush_op" where
  "Flush address_not_aligned i t src =
     \<lparr>op_id = i, op_tid = t, op_src = src, f_address_not_aligned = address_not_aligned,
      f_address = get_cacheline_address address_not_aligned, f_size = CACHELINE_BYTES\<rparr>"

definition BaseOperation :: "int \<Rightarrow> int \<Rightarrow> string \<Rightarrow> base_op" where
  "BaseOperation i t src = \<lparr>op_id = i, op_tid = t, op_src = src\<rparr>"

definition Lock :: "int \<Rightarrow> int \<Rightarrow> int \<Rightarrow> string \<Rightarrow> lock_op" where
  "Lock address i t src =
     \<lparr>op_id = i, op_tid = t, op_src = src, k_address = address, k_size = 8\<rparr>"

fun memop_id :: "memop \<Rightarrow> int" where
  "memop_id (MStore s) = op_id s"
| "memop_id (MLoad l) = op_id l"
| "memop_id (MFlush f) = op_id f"
| "memop_id (MFence b) = op_id b"
| "memop_id (MLock k) = op_id k"
| "memop_id (MUnLock k) = op_id k"
| "memop_id (MAPIBegin b) = op_id b"
| "memop_id (MAPIEnd b) = op_id b"

section \<open>trace.py\<close>

text \<open>A store cut into pieces that do not cross an atomic-write boundary.\<close>

function atomic_chunks ::
  "int \<Rightarrow> int \<Rightarrow> string list \<Rightarrow> int \<Rightarrow> string \<Rightarrow> int \<Rightarrow> int \<Rightarrow> int \<Rightarrow> store_op list \<Rightarrow>
   (int \<times> int \<times> store_op list) option"
where
  "atomic_chunks address sz value t src is_cas curr_offset idx acc =
     (if curr_offset + ATOMIC_WRITE_BYTES \<le> sz then
        (case Store (address + curr_offset) ATOMIC_WRITE_BYTES
                (py_slice value curr_offset (curr_offset + ATOMIC_WRITE_BYTES)) idx t src is_cas of
           None \<Rightarrow> None
         | Some st \<Rightarrow>
             atomic_chunks address sz value t src is_cas (curr_offset + ATOMIC_WRITE_BYTES)
               (idx + 1) (acc @ [st]))
      else Some (curr_offset, idx, acc))"
  by pat_completeness auto
termination
  by (relation "measure (\<lambda>(address, sz, value, t, src, is_cas, off, idx, acc). nat (sz - off))")
    (auto simp: ATOMIC_WRITE_BYTES_def)

declare atomic_chunks.simps [simp del]

definition split_store ::
  "int \<Rightarrow> int \<Rightarrow> int \<Rightarrow> string list \<Rightarrow> string \<Rightarrow> int \<Rightarrow> int \<Rightarrow> store_op list option"
where
  "split_store t address sz value src is_cas idx0 =
     do {
       let low = int_truediv_pow2 address 3 * ATOMIC_WRITE_BYTES;
       let high = low + ATOMIC_WRITE_BYTES;
       (curr_offset, idx, acc) \<leftarrow>
         (if low < address then
            do {
              let n = min sz (high - address);
              st \<leftarrow> Store address n (py_slice value 0 n) idx0 t src is_cas;
              Some (high - address, idx0 + 1, [st])
            }
          else Some (0, idx0, []));
       (curr_offset, idx, acc) \<leftarrow> atomic_chunks address sz value t src is_cas curr_offset idx acc;
       (if 0 < sz - curr_offset then
          do {
            st \<leftarrow> Store (address + curr_offset) (sz - curr_offset)
                    (py_slice_from value curr_offset) idx t src is_cas;
            Some (acc @ [st])
          }
        else Some acc)
     }"

definition get_stores :: "string list \<Rightarrow> int \<Rightarrow> store_op list option" where
  "get_stores params idx0 =
     do {
       p1 \<leftarrow> py_nth params 1; t \<leftarrow> py_int 10 p1;
       p2 \<leftarrow> py_nth params 2; address \<leftarrow> py_int 16 p2;
       p3 \<leftarrow> py_nth params 3; sz \<leftarrow> py_int 10 p3;
       p4 \<leftarrow> py_nth params 4;
       src \<leftarrow> py_nth params 5;
       p6 \<leftarrow> py_nth params 6; is_cas \<leftarrow> py_int 10 p6;
       split_store t address sz (split_on (CHR '' '') p4) src is_cas idx0
     }"

text \<open>The object's fields and the variables of the loop in \<open>extract_operations\<close>.\<close>

record trace_state =
  ops :: "memop list"
  op_curr_index :: int
  op_curr_api_begin_index :: int
  curr_idx :: int
  skip_lock_modeling :: bool
  ops_api_ranges :: "(int \<times> int) list"
  load_addrs :: "int set"
  load_src_to_addrs :: "string \<Rightarrow> int set option"
  allocs :: "int \<Rightarrow> load_op list option"
  br_srcs :: "string set"

definition new_trace :: trace_state where
  "new_trace =
     \<lparr>ops = [], op_curr_index = 0, op_curr_api_begin_index = -1, curr_idx = -1,
      skip_lock_modeling = False, ops_api_ranges = [], load_addrs = {},
      load_src_to_addrs = (\<lambda>_. None), allocs = (\<lambda>_. None), br_srcs = {}\<rparr>"

text \<open>
  One step per kind of entry, after its fields have been read. A kind that is not kept with
  \<open>only_persist\<close> takes back the increment at the end of the loop.
\<close>

definition append_op :: "memop \<Rightarrow> trace_state \<Rightarrow> trace_state" where
  "append_op p s = s\<lparr>ops := ops s @ [p]\<rparr>"

definition bump :: "trace_state \<Rightarrow> trace_state" where
  "bump s = s\<lparr>op_curr_index := op_curr_index s + 1\<rparr>"

definition take_back :: "trace_state \<Rightarrow> trace_state" where
  "take_back s = s\<lparr>op_curr_index := op_curr_index s - 1\<rparr>"

definition add_load_addr :: "int \<Rightarrow> string \<Rightarrow> trace_state \<Rightarrow> trace_state" where
  "add_load_addr address src s =
     (if op_curr_api_begin_index s \<noteq> -1 then
        s\<lparr>load_addrs := insert address (load_addrs s),
          load_src_to_addrs := (load_src_to_addrs s)(src \<mapsto>
            insert address (case load_src_to_addrs s src of None \<Rightarrow> {} | Some A \<Rightarrow> A))\<rparr>
      else s)"

definition add_alloc :: "int \<Rightarrow> int \<Rightarrow> int \<Rightarrow> string \<Rightarrow> trace_state \<Rightarrow> trace_state" where
  "add_alloc address sz t src s =
     (if op_curr_api_begin_index s \<noteq> -1 then
        s\<lparr>allocs := (allocs s)(curr_idx s \<mapsto>
            (case allocs s (curr_idx s) of None \<Rightarrow> [] | Some ls \<Rightarrow> ls)
            @ [Load address sz 0 t src])\<rparr>
      else s)"

definition api_begin :: "int \<Rightarrow> string \<Rightarrow> trace_state \<Rightarrow> trace_state" where
  "api_begin t src s =
     (let i = op_curr_index s;
          s = append_op (MAPIBegin (BaseOperation i t src)) s;
          s = (if op_curr_api_begin_index s \<noteq> -1
               then s\<lparr>ops_api_ranges := ops_api_ranges s @ [(op_curr_api_begin_index s, i)]\<rparr> else s)
      in s\<lparr>op_curr_api_begin_index := i, curr_idx := curr_idx s + 1\<rparr>)"

definition api_end :: "int \<Rightarrow> string \<Rightarrow> trace_state \<Rightarrow> trace_state option" where
  "api_end t src s =
     (let i = op_curr_index s; s = append_op (MAPIEnd (BaseOperation i t src)) s in
      if op_curr_api_begin_index s \<noteq> -1
      then Some (s\<lparr>ops_api_ranges := ops_api_ranges s @ [(op_curr_api_begin_index s, i)],
                   op_curr_api_begin_index := -1\<rparr>)
      else None)"

definition put_lock :: "bool \<Rightarrow> (lock_op \<Rightarrow> memop) \<Rightarrow> int \<Rightarrow> int \<Rightarrow> string \<Rightarrow> trace_state \<Rightarrow> trace_state"
where
  "put_lock only_persist con address t src s =
     (if \<not> only_persist then append_op (con (Lock address (op_curr_index s) t src)) s
      else take_back s)"

definition put_load :: "bool \<Rightarrow> int \<Rightarrow> int \<Rightarrow> int \<Rightarrow> string \<Rightarrow> trace_state \<Rightarrow> trace_state" where
  "put_load only_persist address sz t src s =
     add_load_addr address src
       (if \<not> only_persist then append_op (MLoad (Load address sz (op_curr_index s) t src)) s
        else take_back s)"

definition put_stores :: "store_op list \<Rightarrow> trace_state \<Rightarrow> trace_state" where
  "put_stores sts s =
     s\<lparr>ops := ops s @ map MStore sts, op_curr_index := op_curr_index s + (int (length sts) - 1)\<rparr>"

text \<open>The body of the loop, for one line of the file.\<close>

definition extract_entry :: "bool \<Rightarrow> string \<Rightarrow> trace_state \<Rightarrow> trace_state option" where
  "extract_entry only_persist entry s =
     (let strs = split_on (CHR '','') entry; op_type = hd strs in
      if op_type = ''LockBegin'' \<or> op_type = ''UnLockBegin'' then
        Some (s\<lparr>skip_lock_modeling := True\<rparr>)
      else if op_type = ''LockEnd'' then
        do {
          p1 \<leftarrow> py_nth strs 1; t \<leftarrow> py_int 10 p1;
          p2 \<leftarrow> py_nth strs 2; address \<leftarrow> py_int 16 p2;
          src \<leftarrow> py_nth strs 3;
          Some ((bump (put_lock only_persist MLock address t src s))\<lparr>skip_lock_modeling := False\<rparr>)
        }
      else if op_type = ''UnLockEnd'' then
        do {
          p1 \<leftarrow> py_nth strs 1; t \<leftarrow> py_int 10 p1;
          p2 \<leftarrow> py_nth strs 2; address \<leftarrow> py_int 16 p2;
          src \<leftarrow> py_nth strs 3;
          Some ((bump (put_lock only_persist MUnLock address t src s))\<lparr>skip_lock_modeling := False\<rparr>)
        }
      else if skip_lock_modeling s then Some s
      else if op_type = ''Store'' then
        do {
          p1 \<leftarrow> py_nth strs 1; t \<leftarrow> py_int 10 p1;
          p2 \<leftarrow> py_nth strs 2; address \<leftarrow> py_int 16 p2;
          p3 \<leftarrow> py_nth strs 3; sz \<leftarrow> py_int 10 p3;
          p4 \<leftarrow> py_nth strs 4;
          src \<leftarrow> py_nth strs 5;
          p6 \<leftarrow> py_nth strs 6; is_cas \<leftarrow> py_int 10 p6;
          (if \<not> only_persist then
             do {
               st \<leftarrow> Store address sz (split_on (CHR '' '') p4) (op_curr_index s) t src is_cas;
               Some (bump (append_op (MStore st) s))
             }
           else
             do {
               sts \<leftarrow> get_stores strs (op_curr_index s);
               Some (bump (put_stores sts s))
             })
        }
      else if op_type = ''Load'' then
        do {
          p1 \<leftarrow> py_nth strs 1; t \<leftarrow> py_int 10 p1;
          p2 \<leftarrow> py_nth strs 2; address \<leftarrow> py_int 16 p2;
          p3 \<leftarrow> py_nth strs 3; sz \<leftarrow> py_int 10 p3;
          src \<leftarrow> py_nth strs 4;
          Some (bump (put_load only_persist address sz t src s))
        }
      else if op_type = ''Flush'' then
        do {
          p1 \<leftarrow> py_nth strs 1; t \<leftarrow> py_int 10 p1;
          p2 \<leftarrow> py_nth strs 2; address \<leftarrow> py_int 16 p2;
          src \<leftarrow> py_nth strs 3;
          Some (bump (append_op (MFlush (Flush address (op_curr_index s) t src)) s))
        }
      else if op_type = ''Fence'' then
        do {
          p1 \<leftarrow> py_nth strs 1; t \<leftarrow> py_int 10 p1;
          src \<leftarrow> py_nth strs 2;
          Some (bump (append_op (MFence (BaseOperation (op_curr_index s) t src)) s))
        }
      else if op_type = ''Lock'' then
        do {
          p1 \<leftarrow> py_nth strs 1; t \<leftarrow> py_int 10 p1;
          p2 \<leftarrow> py_nth strs 2; address \<leftarrow> py_int 16 p2;
          src \<leftarrow> py_nth strs 3;
          Some (bump (put_lock only_persist MLock address t src s))
        }
      else if op_type = ''UnLock'' then
        do {
          p1 \<leftarrow> py_nth strs 1; t \<leftarrow> py_int 10 p1;
          p2 \<leftarrow> py_nth strs 2; address \<leftarrow> py_int 16 p2;
          src \<leftarrow> py_nth strs 3;
          Some (bump (put_lock only_persist MUnLock address t src s))
        }
      else if op_type = ''APIBegin'' then
        do {
          p1 \<leftarrow> py_nth strs 1; t \<leftarrow> py_int 10 p1;
          src \<leftarrow> py_nth strs 2;
          Some (bump (api_begin t src s))
        }
      else if op_type = ''APIEnd'' then
        do {
          p1 \<leftarrow> py_nth strs 1; t \<leftarrow> py_int 10 p1;
          src \<leftarrow> py_nth strs 2;
          s' \<leftarrow> api_end t src s;
          Some (bump s')
        }
      else if op_type = ''Alloc'' then
        do {
          p1 \<leftarrow> py_nth strs 1; t \<leftarrow> py_int 10 p1;
          p2 \<leftarrow> py_nth strs 2; address \<leftarrow> py_int 16 p2;
          p3 \<leftarrow> py_nth strs 3; sz \<leftarrow> py_int 10 p3;
          src \<leftarrow> py_nth strs 4;
          Some (bump (take_back (add_alloc address sz t src s)))
        }
      else if op_type = ''Br'' then
        (if op_curr_api_begin_index s \<noteq> -1 then
           do {
             p1 \<leftarrow> py_nth strs 1; t \<leftarrow> py_int 10 p1;
             src \<leftarrow> py_nth strs 2;
             Some (bump (take_back (s\<lparr>br_srcs := insert src (br_srcs s)\<rparr>)))
           }
         else Some (bump (take_back s)))
      else None)"

fun extract_operations :: "bool \<Rightarrow> string list \<Rightarrow> trace_state \<Rightarrow> trace_state option" where
  "extract_operations only_persist [] s = Some s"
| "extract_operations only_persist (entry # entries) s =
     Option.bind (extract_entry only_persist entry s) (extract_operations only_persist entries)"

text \<open>\<open>Trace(file, only_persist)\<close>.\<close>

definition Trace :: "bool \<Rightarrow> string \<Rightarrow> trace_state option" where
  "Trace only_persist file =
     extract_operations only_persist (butlast (split_on newline (universal_newlines file))) new_trace"

section \<open>The trace format as a contract\<close>

text \<open>
  A printer of events and a reader of lines that agree on each line agree on every file.
\<close>

locale line_codec =
  fixes print :: "'e \<Rightarrow> string"
    and step :: "string \<Rightarrow> 's \<Rightarrow> 's option"
    and absorb :: "'e \<Rightarrow> 's \<Rightarrow> 's option"
    and printable :: "'e \<Rightarrow> bool"
  assumes step_print: "printable e \<Longrightarrow> step (print e) s = absorb e s"
    and print_plain: "printable e \<Longrightarrow> newline \<notin> set (print e) \<and> carriage \<notin> set (print e)"
begin

fun read_lines :: "string list \<Rightarrow> 's \<Rightarrow> 's option" where
  "read_lines [] s = Some s"
| "read_lines (l # ls) s = Option.bind (step l s) (read_lines ls)"

fun absorb_all :: "'e list \<Rightarrow> 's \<Rightarrow> 's option" where
  "absorb_all [] s = Some s"
| "absorb_all (e # es) s = Option.bind (absorb e s) (absorb_all es)"

lemma read_lines_print:
  "\<forall>e\<in>set es. printable e \<Longrightarrow> read_lines (map print es) s = absorb_all es s"
proof (induction es arbitrary: s)
  case (Cons e es)
  then show ?case by (cases "absorb e s") (simp_all add: step_print)
qed simp

lemma lines_of_file:
  assumes "\<forall>e\<in>set es. printable e"
  shows "butlast (split_on newline (universal_newlines (unlines (map print es)))) = map print es"
proof -
  have "carriage \<notin> set (unlines (map print es))"
    using assms print_plain by (auto simp: unlines_def newline_def carriage_def)
  then have "universal_newlines (unlines (map print es)) = unlines (map print es)"
    by (rule universal_newlines_id)
  moreover have "split_on newline (unlines (map print es)) = map print es @ [[]]"
    using assms print_plain by (intro split_unlines) auto
  ultimately show ?thesis by simp
qed

lemma read_file:
  assumes "\<forall>e\<in>set es. printable e"
  shows "read_lines (butlast (split_on newline (universal_newlines (unlines (map print es))))) s
    = absorb_all es s"
  using assms by (simp add: lines_of_file read_lines_print)

end

section \<open>The run time's lines\<close>

text \<open>
  The bytes that the reader makes of one printed integer: the byte itself when it was printed with
  two digits, four bytes when it was printed with eight.
\<close>

definition word_bytes :: "32 word \<Rightarrow> u8 list" where
  "word_bytes w =
     (if unat w < 256 then [ucast w]
      else map (\<lambda>k. ucast (drop_bit (8 * k) w)) [3, 2, 1, 0])"

definition byte_like :: "32 word \<Rightarrow> bool" where
  "byte_like w \<longleftrightarrow> unat w < 256 \<or> 2 ^ 28 \<le> unat w"

definition store_obj ::
  "int \<Rightarrow> int \<Rightarrow> int \<Rightarrow> 32 word list \<Rightarrow> string \<Rightarrow> int \<Rightarrow> int \<Rightarrow> store_op"
where
  "store_obj t address sz ws src is_cas i =
     \<lparr>op_id = i, op_tid = t, op_src = src, s_address = address, s_size = sz, s_flushing = 0,
      s_value = map hex2 ws, s_value_bytes = concat (map word_bytes ws), s_is_cas = is_cas\<rparr>"

text \<open>What an event is to the reader, without any text in between.\<close>

fun absorb :: "bool \<Rightarrow> tevent \<Rightarrow> trace_state \<Rightarrow> trace_state option" where
  "absorb op (TLockBegin t a) s = Some (s\<lparr>skip_lock_modeling := True\<rparr>)"
| "absorb op (TUnLockBegin t a) s = Some (s\<lparr>skip_lock_modeling := True\<rparr>)"
| "absorb op (TLockEnd t a) s =
     Some ((bump (put_lock op MLock (uint a) (uint t) ''NA'' s))\<lparr>skip_lock_modeling := False\<rparr>)"
| "absorb op (TUnLockEnd t a) s =
     Some ((bump (put_lock op MUnLock (uint a) (uint t) ''NA'' s))\<lparr>skip_lock_modeling := False\<rparr>)"
| "absorb op e s =
     (if skip_lock_modeling s then Some s
      else case e of
        TStore t a n ws i c \<Rightarrow>
          (if op then
             map_option (\<lambda>sts. bump (put_stores sts s))
               (split_store (uint t) (uint a) (uint n) (map hex2 ws) (dec_text i) (if c then 1 else 0)
                  (op_curr_index s))
           else Some (bump (append_op (MStore (store_obj (uint t) (uint a) (uint n) ws (dec_text i)
                  (if c then 1 else 0) (op_curr_index s))) s)))
      | TLoad t a n i \<Rightarrow> Some (bump (put_load op (uint a) (uint n) (uint t) (dec_text i) s))
      | TFlush t a i \<Rightarrow>
          Some (bump (append_op (MFlush (Flush (uint a) (op_curr_index s) (uint t) (dec_text i))) s))
      | TFence t i \<Rightarrow>
          Some (bump (append_op (MFence (BaseOperation (op_curr_index s) (uint t) (dec_text i))) s))
      | TLock t a i \<Rightarrow> Some (bump (put_lock op MLock (uint a) (uint t) (dec_text i) s))
      | TUnLock t a i \<Rightarrow> Some (bump (put_lock op MUnLock (uint a) (uint t) (dec_text i) s))
      | TAPIBegin t \<Rightarrow> Some (bump (api_begin (uint t) ''NA'' s))
      | TAPIEnd t \<Rightarrow> map_option bump (api_end (uint t) ''NA'' s)
      | TAlloc t a n i \<Rightarrow>
          Some (bump (take_back (add_alloc (uint a) (uint n) (uint t) (dec_text i) s)))
      | TBr t i \<Rightarrow>
          Some (bump (take_back
            (if op_curr_api_begin_index s \<noteq> -1
             then s\<lparr>br_srcs := insert (dec_text i) (br_srcs s)\<rparr> else s)))
      | _ \<Rightarrow> None)"

fun printable :: "tevent \<Rightarrow> bool" where
  "printable (TStore t a n ws i c) \<longleftrightarrow> ws \<noteq> [] \<and> (\<forall>w\<in>set ws. byte_like w)"
| "printable _ \<longleftrightarrow> True"

subsection \<open>Reading the fields\<close>

lemma dec_text_chars: "set (dec_text w) \<subseteq> set digit_chars"
  unfolding dec_text_def by (rule to_base_chars) simp_all

lemma hex_text_chars: "set (hex_text w) \<subseteq> set digit_chars"
  unfolding hex_text_def by (rule to_base_chars) simp_all

lemma hex2_chars: "set (hex2 w) \<subseteq> set digit_chars"
  using hex_text_chars [of w] by (auto simp: hex2_def digit_chars_def)

lemma py_int_dec [simp]: "py_int 10 (dec_text w) = Some (uint w)"
  unfolding dec_text_def by (simp add: py_int_to_base)

lemma py_int_hex [simp]: "py_int 16 (hex_text w) = Some (uint w)"
  unfolding hex_text_def by (simp add: py_int_to_base)

lemma py_int_flag [simp]: "py_int 10 ''1'' = Some 1" "py_int 10 ''0'' = Some 0"
  using py_int_to_base [of 10 1] py_int_to_base [of 10 0]
  by (simp_all add: to_base.simps digit_char_def digit_chars_def)

lemma join_chars: "set (join_with c xs) \<subseteq> insert c (\<Union> (set ` set xs))"
  by (induction c xs rule: join_with.induct) auto

lemma data_chars: "set (join_with (CHR '' '') (map hex2 ws)) \<subseteq> insert (CHR '' '') (set digit_chars)"
  using join_chars [of "CHR '' ''" "map hex2 ws"] hex2_chars by fastforce

definition plain :: "string \<Rightarrow> bool" where
  "plain x \<longleftrightarrow> CHR '','' \<notin> set x \<and> newline \<notin> set x \<and> carriage \<notin> set x"

lemma plain_digits: "set x \<subseteq> insert (CHR '' '') (set digit_chars) \<Longrightarrow> plain x"
  by (auto simp: plain_def newline_def carriage_def digit_chars_def)

lemma plain_text [simp]:
  "plain (dec_text w)" "plain (hex_text w)" "plain (join_with (CHR '' '') (map hex2 ws))"
  using dec_text_chars [of w] hex_text_chars [of w] data_chars [of ws]
  by (blast intro: plain_digits)+

lemma fields_plain: "list_all plain (line_fields e)"
  by (cases e) (simp_all, simp_all add: plain_def newline_def carriage_def)

lemma fields_chars: "x \<in> set (line_fields e) \<Longrightarrow> CHR '','' \<notin> set x \<and> newline \<notin> set x \<and> carriage \<notin> set x"
  using fields_plain [of e] by (auto simp: list_all_iff plain_def)

lemma fields_nonempty: "line_fields e \<noteq> []"
  by (cases e) simp_all

lemma split_line: "split_on (CHR '','') (line_of e) = line_fields e"
  unfolding line_of_def using fields_chars fields_nonempty by (intro split_on_join) auto

lemma line_plain: "newline \<notin> set (line_of e) \<and> carriage \<notin> set (line_of e)"
  using join_chars [of "CHR '',''" "line_fields e"] fields_chars [of _ e]
  by (auto simp: line_of_def newline_def carriage_def)

subsection \<open>Reading the bytes\<close>

lemma digit_char_not_space: "x < 16 \<Longrightarrow> \<not> ascii_space (digit_char x)"
  using digit_char_in [of x] by (auto simp: ascii_space_def digit_chars_def)

lemma fromhex_pair:
  "x < 16 \<Longrightarrow> y < 16 \<Longrightarrow>
   fromhex (digit_char x # digit_char y # cs) = map_option ((#) (of_nat (16 * x + y))) (fromhex cs)"
  by (simp add: digit_char_not_space)

lemma nibbles: "(of_nat (16 * (n div 16 mod 16) + n mod 16) :: u8) = of_nat n"
proof -
  have "16 * (n div 16 mod 16) + n mod 16 = n mod 256"
    using mod_mult2_eq [of n 16 16] by simp
  then show ?thesis by (simp add: word_unat_eq_iff unat_of_nat)
qed

lemma ucast_drop: "(ucast (drop_bit k w) :: u8) = of_nat (unat w div 2 ^ k)"
  for w :: "32 word"
  by (metis drop_bit_eq_div of_nat_unat unat_drop_bit_eq)

lemma hex2_small:
  assumes "unat w < 256"
  shows "hex2 w = [digit_char (unat w div 16 mod 16), digit_char (unat w mod 16)]"
proof (cases "unat w < 16")
  case True
  then show ?thesis
    by (simp add: hex2_def hex_text_def to_base.simps digit_char_def digit_chars_def)
next
  case False
  from assms have "unat w div 16 < 16" by simp
  with False show ?thesis
    by (simp add: hex2_def hex_text_def to_base.simps [of 16 "unat w"] to_base.simps [of 16 "unat w div 16"])
qed

lemma div_pow_Suc: "(n::nat) div 16 ^ Suc k = n div 16 ^ k div 16"
  by (metis div_mult2_eq power_Suc2)

lemma to_base_8:
  assumes "2 ^ 28 \<le> n" and "n < 2 ^ 32"
  shows "to_base 16 n = map (\<lambda>k. digit_char (n div 16 ^ k mod 16)) [7, 6, 5, 4, 3, 2, 1, 0]"
proof -
  have ge: "16 \<le> n div 16 ^ k" if "k \<in> {0, 1, 2, 3, 4, 5, 6}" for k
    using that assms(1) by (auto simp: less_eq_div_iff_mult_less_eq)
  have lt: "n div 16 ^ 7 < 16"
    using assms(2) by (simp add: div_less_iff_less_mult)
  have step: "to_base 16 (n div 16 ^ k) = to_base 16 (n div 16 ^ Suc k) @ [digit_char (n div 16 ^ k mod 16)]"
    if "k \<in> {0, 1, 2, 3, 4, 5, 6}" for k
    using ge [OF that] unfolding div_pow_Suc by (simp add: to_base.simps [of 16 "n div 16 ^ k"])
  have last: "to_base 16 (n div 16 ^ 7) = [digit_char (n div 16 ^ 7 mod 16)]"
    using lt by (simp add: to_base.simps)
  let ?d = "\<lambda>k. digit_char (n div 16 ^ k mod 16)"
  have l6: "to_base 16 (n div 16 ^ 6) = map ?d [7, 6]"
    using step [of 6] last by simp
  have l5: "to_base 16 (n div 16 ^ 5) = map ?d [7, 6, 5]"
    using step [of 5] l6 by simp
  have l4: "to_base 16 (n div 16 ^ 4) = map ?d [7, 6, 5, 4]"
    using step [of 4] l5 by simp
  have l3: "to_base 16 (n div 16 ^ 3) = map ?d [7, 6, 5, 4, 3]"
    using step [of 3] l4 by simp
  have l2: "to_base 16 (n div 16 ^ 2) = map ?d [7, 6, 5, 4, 3, 2]"
    using step [of 2] l3 by simp
  have l1: "to_base 16 (n div 16 ^ 1) = map ?d [7, 6, 5, 4, 3, 2, 1]"
    using step [of 1] l2 by simp
  show ?thesis using step [of 0] l1 by simp
qed

lemma fromhex_hex2:
  assumes "byte_like w"
  shows "fromhex (hex2 w @ cs) = map_option ((@) (word_bytes w)) (fromhex cs)"
proof (cases "unat w < 256")
  case True
  have "(of_nat (16 * (unat w div 16 mod 16) + unat w mod 16) :: u8) = ucast w"
    unfolding nibbles by (metis of_nat_unat)
  with True show ?thesis
    by (cases "fromhex cs") (simp_all add: hex2_small word_bytes_def fromhex_pair del: fromhex.simps)
next
  case False
  have lt: "unat w < 2 ^ 32" using unsigned_less [of w] by simp
  from False assms have "2 ^ 28 \<le> unat w" by (simp add: byte_like_def)
  from to_base_8 [OF this lt] have
    h: "hex2 w = map (\<lambda>k. digit_char (unat w div 16 ^ k mod 16)) [7, 6, 5, 4, 3, 2, 1, 0]"
    by (simp add: hex2_def hex_text_def)
  have b: "(of_nat (16 * (unat w div 16 ^ Suc k mod 16) + unat w div 16 ^ k mod 16) :: u8)
      = of_nat (unat w div 16 ^ k)" for k
    unfolding div_pow_Suc by (rule nibbles)
  show ?thesis
    using False b [of 6] b [of 4] b [of 2] b [of 0]
    by (cases "fromhex cs") (simp_all add: h word_bytes_def fromhex_pair ucast_drop
        del: fromhex.simps of_nat_add of_nat_mult)
qed

lemma fromhex_data:
  "\<forall>w\<in>set ws. byte_like w \<Longrightarrow> fromhex (concat (map hex2 ws)) = Some (concat (map word_bytes ws))"
  by (induction ws) (simp_all add: fromhex_hex2)

subsection \<open>Reading a line\<close>

lemma split_data: "ws \<noteq> [] \<Longrightarrow> split_on (CHR '' '') (join_with (CHR '' '') (map hex2 ws)) = map hex2 ws"
  using hex2_chars digit_chars_no_sep(2) by (intro split_on_join) auto

lemma Store_data:
  "\<forall>w\<in>set ws. byte_like w \<Longrightarrow>
   Store a n (map hex2 ws) i t src c = Some (store_obj t a n ws src c i)"
  by (simp add: Store_def store_obj_def fromhex_data)

lemma extract_entry_line:
  "printable e \<Longrightarrow> extract_entry op (line_of e) s = absorb op e s"
  unfolding extract_entry_def split_line Let_def
  by (cases e) (simp_all add: py_nth_def split_data Store_data get_stores_def bind_map_option
      map_option_case split: option.splits)

interpretation codec: line_codec line_of "extract_entry op" "absorb op" printable for op
  by unfold_locales (simp_all add: extract_entry_line line_plain)

fun absorb_events :: "bool \<Rightarrow> tevent list \<Rightarrow> trace_state \<Rightarrow> trace_state option" where
  "absorb_events op [] s = Some s"
| "absorb_events op (e # es) s = Option.bind (absorb op e s) (absorb_events op es)"

lemma absorb_events_codec: "absorb_events op es s = codec.absorb_all op es s"
proof (induction es arbitrary: s)
  case (Cons e es)
  then show ?case by (cases "absorb op e s") simp_all
qed simp

lemma extract_operations_codec: "extract_operations op ls s = codec.read_lines op ls s"
proof (induction ls arbitrary: s)
  case (Cons l ls)
  then show ?case by (cases "extract_entry op l s") simp_all
qed simp

lemma Trace_lines:
  "\<forall>e\<in>set es. printable e \<Longrightarrow>
   Trace op (unlines (map line_of es)) = absorb_events op es new_trace"
  unfolding Trace_def extract_operations_codec absorb_events_codec by (rule codec.read_file)

subsection \<open>Everything the run time writes can be read\<close>

lemma byte_like_ucast: "byte_like (ucast (b :: u8))"
proof -
  have "unat b < 2 ^ LENGTH(8)" by (rule unsigned_less)
  then show ?thesis by (simp add: byte_like_def unsigned_ucast_eq take_bit_nat_eq_self)
qed

lemma uint_scast: "uint (scast (b :: u8) :: 32 word) = sint b mod 2 ^ 32"
  unfolding scast_eq uint_word_of_int_eq take_bit_eq_mod by simp

lemma byte_like_scast: "byte_like (scast (b :: u8))"
proof (cases "0 \<le> sint b")
  case True
  have "sint b < 128" using sint_lt [of b] by simp
  moreover from this True have "uint (scast b :: 32 word) = sint b" by (simp add: uint_scast)
  then have "unat (scast b :: 32 word) = nat (sint b)" by (simp only: unat_eq_nat_uint)
  ultimately show ?thesis using True by (simp add: byte_like_def nat_less_iff)
next
  case False
  have ge: "- 128 \<le> sint b" using sint_ge [of b] by simp
  then have "(sint b + 2 ^ 32) mod 2 ^ 32 = sint b + 2 ^ 32"
    using False by (intro mod_pos_pos_trivial) simp_all
  then have "uint (scast b :: 32 word) = sint b + 2 ^ 32" by (simp add: uint_scast)
  then have "unat (scast b :: 32 word) = nat (sint b + 2 ^ 32)" by (simp only: unat_eq_nat_uint)
  with ge have "2 ^ 28 \<le> unat (scast b :: 32 word)" by simp
  then show ?thesis by (simp add: byte_like_def)
qed

lemma printable_data:
  "n \<noteq> 0 \<Longrightarrow> printable (TStore t a n (data_words ucast m p n) i c)"
  "n \<noteq> 0 \<Longrightarrow> printable (TStore t a n (data_words scast m p n) i c)"
  by (auto simp: data_words_def byte_like_ucast byte_like_scast unat_eq_0 bytes_at_def)

lemma events_of_printable: "e \<in> set (events_of d s t m c) \<Longrightarrow> printable e"
  by (cases c) (auto simp: traced_def printable_data simp del: printable.simps(1) split: if_splits)

lemma run_events_printable: "e \<in> set (run_events d s cs) \<Longrightarrow> printable e"
  by (induction d s cs rule: run_events.induct) (auto dest: events_of_printable)

section \<open>Positions are identifiers\<close>

text \<open>
  The checker indexes the operations with the numbers stored in them and slices them with the
  ranges of the API calls. Both are sound for every file that can be read.
\<close>

fun numbered :: "int \<Rightarrow> memop list \<Rightarrow> bool" where
  "numbered i [] \<longleftrightarrow> True"
| "numbered i (p # ps) \<longleftrightarrow> memop_id p = i \<and> numbered (i + 1) ps"

fun is_api_begin :: "memop \<Rightarrow> bool" where
  "is_api_begin (MAPIBegin b) \<longleftrightarrow> True"
| "is_api_begin _ \<longleftrightarrow> False"

fun is_api_mark :: "memop \<Rightarrow> bool" where
  "is_api_mark (MAPIBegin b) \<longleftrightarrow> True"
| "is_api_mark (MAPIEnd b) \<longleftrightarrow> True"
| "is_api_mark _ \<longleftrightarrow> False"

definition range_ok :: "memop list \<Rightarrow> int \<times> int \<Rightarrow> bool" where
  "range_ok ps r \<longleftrightarrow>
     0 \<le> fst r \<and> fst r < snd r \<and> nat (snd r) < length ps
     \<and> is_api_begin (ps ! nat (fst r)) \<and> is_api_mark (ps ! nat (snd r))"

definition trace_inv :: "trace_state \<Rightarrow> bool" where
  "trace_inv s \<longleftrightarrow>
     op_curr_index s = int (length (ops s)) \<and> numbered 0 (ops s)
     \<and> (op_curr_api_begin_index s = -1 \<or>
        (0 \<le> op_curr_api_begin_index s \<and> nat (op_curr_api_begin_index s) < length (ops s)
         \<and> is_api_begin (ops s ! nat (op_curr_api_begin_index s))))
     \<and> (\<forall>r\<in>set (ops_api_ranges s). range_ok (ops s) r)"

lemma numbered_append:
  "numbered i (xs @ ys) \<longleftrightarrow> numbered i xs \<and> numbered (i + int (length xs)) ys"
  by (induction xs arbitrary: i) (auto simp: add.assoc)

lemma numbered_nth: "numbered i ps \<Longrightarrow> k < length ps \<Longrightarrow> memop_id (ps ! k) = i + int k"
  by (induction ps arbitrary: i k) (auto simp: nth_Cons split: nat.splits)

lemma range_ok_append: "range_ok ps r \<Longrightarrow> range_ok (ps @ qs) r"
  by (auto simp: range_ok_def nth_append)

lemma Store_id: "Store a n v i t src c = Some st \<Longrightarrow> op_id st = i"
  by (auto simp: Store_def bind_eq_Some_conv)

lemma atomic_chunks_numbered:
  "atomic_chunks a n v t src c co (i + int (length acc)) acc = Some (co', idx', acc') \<Longrightarrow>
   numbered i (map MStore acc) \<Longrightarrow>
   numbered i (map MStore acc') \<and> idx' = i + int (length acc')"
proof (induction a n v t src c co "i + int (length acc)" acc rule: atomic_chunks.induct)
  case (1 a n v t src c co acc)
  show ?case
  proof (cases "co + ATOMIC_WRITE_BYTES \<le> n")
    case True
    with 1(2) obtain st where st: "Store (a + co) ATOMIC_WRITE_BYTES
        (py_slice v co (co + ATOMIC_WRITE_BYTES)) (i + int (length acc)) t src c = Some st"
      and rec: "atomic_chunks a n v t src c (co + ATOMIC_WRITE_BYTES) (i + int (length acc) + 1)
        (acc @ [st]) = Some (co', idx', acc')"
      by (subst (asm) atomic_chunks.simps) (auto split: option.splits)
    have "numbered i (map MStore (acc @ [st]))"
      using 1(3) Store_id [OF st] by (simp add: numbered_append)
    with 1(1) [OF True st] rec show ?thesis by (simp add: algebra_simps)
  next
    case False
    with 1 show ?thesis by (subst (asm) atomic_chunks.simps) auto
  qed
qed

definition split_head ::
  "int \<Rightarrow> int \<Rightarrow> int \<Rightarrow> string list \<Rightarrow> string \<Rightarrow> int \<Rightarrow> int \<Rightarrow> (int \<times> store_op list) option"
where
  "split_head t address sz value src is_cas idx0 =
     (let low = int_truediv_pow2 address 3 * ATOMIC_WRITE_BYTES; high = low + ATOMIC_WRITE_BYTES in
      if low < address then
        map_option (\<lambda>st. (high - address, [st]))
          (Store address (min sz (high - address)) (py_slice value 0 (min sz (high - address))) idx0 t
             src is_cas)
      else Some (0, []))"

lemma split_store_cases:
  assumes "split_store t a n v src c i = Some sts"
  obtains co acc co' idx' acc' where
    "split_head t a n v src c i = Some (co, acc)"
    and "atomic_chunks a n v t src c co (i + int (length acc)) acc = Some (co', idx', acc')"
    and "(if 0 < n - co'
       then Option.bind (Store (a + co') (n - co') (py_slice_from v co') idx' t src c)
              (\<lambda>st. Some (acc' @ [st]))
       else Some acc') = Some sts"
proof (cases "int_truediv_pow2 a 3 * ATOMIC_WRITE_BYTES < a")
  case True
  with assms that show thesis
    by (auto simp: split_store_def split_head_def Let_def bind_eq_Some_conv)
next
  case False
  with assms that [of 0 "[]"] show thesis
    by (auto simp: split_store_def split_head_def Let_def bind_eq_Some_conv)
qed

lemma split_store_numbered:
  assumes "split_store t a n v src c i = Some sts"
  shows "numbered i (map MStore sts)"
  using assms
proof (rule split_store_cases)
  fix co acc co' idx' acc'
  assume h: "split_head t a n v src c i = Some (co, acc)"
    and ch: "atomic_chunks a n v t src c co (i + int (length acc)) acc = Some (co', idx', acc')"
    and fin: "(if 0 < n - co'
       then Option.bind (Store (a + co') (n - co') (py_slice_from v co') idx' t src c)
              (\<lambda>st. Some (acc' @ [st]))
       else Some acc') = Some sts"
  from h have acc: "numbered i (map MStore acc)"
    by (auto simp: split_head_def Let_def dest: Store_id split: if_splits)
  from atomic_chunks_numbered [OF ch acc] have "numbered i (map MStore acc')" "idx' = i + int (length acc')"
    by simp_all
  with fin show ?thesis
    by (auto simp: numbered_append bind_eq_Some_conv dest: Store_id split: if_splits)
qed

lemma trace_inv_append:
  assumes "trace_inv s" and "memop_id p = op_curr_index s"
  shows "trace_inv (bump (append_op p s))"
  using assms
  by (auto simp: trace_inv_def bump_def append_op_def numbered_append nth_append range_ok_append)

lemma trace_inv_skip: "trace_inv s \<Longrightarrow> trace_inv (s\<lparr>skip_lock_modeling := b\<rparr>)"
  by (simp add: trace_inv_def)

lemma bump_take_back: "bump (take_back s) = s"
  by (simp add: bump_def take_back_def)

lemma trace_inv_lock:
  assumes "trace_inv s" and "\<And>k. memop_id (con k) = op_id k"
  shows "trace_inv (bump (put_lock op con a t src s))"
  using assms by (simp add: put_lock_def bump_take_back trace_inv_append Lock_def)

lemma trace_inv_load: "trace_inv s \<Longrightarrow> trace_inv (bump (put_load op a n t src s))"
  using trace_inv_append [of s "MLoad (Load a n (op_curr_index s) t src)"]
  by (auto simp: put_load_def add_load_addr_def Load_def trace_inv_def bump_def take_back_def)

lemma trace_inv_stores:
  assumes "trace_inv s" and "numbered (op_curr_index s) (map MStore sts)"
  shows "trace_inv (bump (put_stores sts s))"
  using assms
  by (auto simp: trace_inv_def bump_def put_stores_def numbered_append nth_append range_ok_append)

lemma range_ok_close:
  "0 \<le> b \<Longrightarrow> nat b < length ps \<Longrightarrow> is_api_begin (ps ! nat b) \<Longrightarrow> is_api_mark q \<Longrightarrow>
   range_ok (ps @ [q]) (b, int (length ps))"
  by (auto simp: range_ok_def nth_append)

lemma trace_inv_begin: "trace_inv s \<Longrightarrow> trace_inv (bump (api_begin t src s))"
  by (auto simp: trace_inv_def bump_def api_begin_def append_op_def BaseOperation_def Let_def
      numbered_append nth_append range_ok_append range_ok_close)

lemma trace_inv_end: "api_end t src s = Some s' \<Longrightarrow> trace_inv s \<Longrightarrow> trace_inv (bump s')"
  by (auto simp: trace_inv_def bump_def api_end_def append_op_def BaseOperation_def Let_def
      numbered_append nth_append range_ok_append range_ok_close split: if_splits)

lemma trace_inv_alloc: "trace_inv s \<Longrightarrow> trace_inv (add_alloc a n t src s)"
  by (auto simp: trace_inv_def add_alloc_def)

lemma trace_inv_br: "trace_inv s \<Longrightarrow> trace_inv (s\<lparr>br_srcs := B\<rparr>)"
  by (simp add: trace_inv_def)

lemma get_stores_numbered: "get_stores ps i = Some sts \<Longrightarrow> numbered i (map MStore sts)"
  by (auto simp: get_stores_def bind_eq_Some_conv dest: split_store_numbered)

lemmas trace_inv_intros =
  trace_inv_skip trace_inv_lock trace_inv_load trace_inv_stores trace_inv_begin
  trace_inv_alloc trace_inv_br trace_inv_append

lemma extract_entry_inv: "trace_inv s \<Longrightarrow> extract_entry op l s = Some s' \<Longrightarrow> trace_inv s'"
  unfolding extract_entry_def Let_def
  by (auto simp: bind_eq_Some_conv bump_take_back Flush_def BaseOperation_def
      intro!: trace_inv_intros get_stores_numbered dest!: Store_id elim: trace_inv_end
      split: if_splits)

lemma extract_operations_inv:
  "trace_inv s \<Longrightarrow> extract_operations op ls s = Some s' \<Longrightarrow> trace_inv s'"
  by (induction ls arbitrary: s) (auto simp: bind_eq_Some_conv dest: extract_entry_inv)

lemma new_trace_inv: "trace_inv new_trace"
  by (simp add: trace_inv_def new_trace_def)

lemma Trace_inv: "Trace op file = Some s \<Longrightarrow> trace_inv s"
  unfolding Trace_def by (rule extract_operations_inv [OF new_trace_inv])

end
