(* ===== verification/Store_Split.thy ===== *)
theory Store_Split
  imports Trace_Reader
begin

text \<open>
  \<open>Trace.get_stores\<close> cuts a store into atomic writes. The pieces tile the store: they are
  consecutive, none crosses an aligned word of \<open>ATOMIC_WRITE_BYTES\<close>, and each has the bytes,
  the thread, the source and the next number.
\<close>

definition in_word :: "int \<Rightarrow> int \<Rightarrow> bool" where
  "in_word a n \<longleftrightarrow> a div 8 = (a + n - 1) div 8"

definition piece :: "int \<Rightarrow> string \<Rightarrow> int \<Rightarrow> int \<Rightarrow> int \<Rightarrow> 32 word list \<Rightarrow> store_op \<Rightarrow> bool" where
  "piece t src c i a ws st \<longleftrightarrow>
     st = store_obj t a (s_size st) (take (nat (s_size st)) ws) src c i"

fun tiles :: "int \<Rightarrow> string \<Rightarrow> int \<Rightarrow> int \<Rightarrow> int \<Rightarrow> 32 word list \<Rightarrow> store_op list \<Rightarrow> bool" where
  "tiles t src c i a ws [] \<longleftrightarrow> ws = []"
| "tiles t src c i a ws (st # sts) \<longleftrightarrow>
     (let n = s_size st in
      0 < n \<and> n \<le> int (length ws) \<and> in_word a n
      \<and> piece t src c i a ws st
      \<and> tiles t src c (i + 1) (a + n) (drop (nat n) ws) sts)"

lemma piece_bytes:
  assumes "piece t src c i a ws st"
  shows "s_value_bytes st = concat (map word_bytes (take (nat (s_size st)) ws))"
  by (subst assms [unfolded piece_def]) (simp add: store_obj_def)

lemma piece_append:
  "piece t src c i a us st \<Longrightarrow> s_size st \<le> int (length us) \<Longrightarrow> piece t src c i a (us @ ws) st"
  by (simp add: piece_def nat_le_iff)

lemma tiles_append:
  "tiles t src c i a us xs \<Longrightarrow>
   tiles t src c (i + int (length xs)) (a + int (length us)) ws ys \<Longrightarrow>
   tiles t src c i a (us @ ws) (xs @ ys)"
proof (induction xs arbitrary: i a us)
  case (Cons x xs)
  let ?k = "nat (s_size x)"
  from Cons.prems(1) have le: "?k \<le> length us" and len: "int ?k = s_size x" by (auto simp: Let_def)
  then have eq: "a + int (length us) = a + s_size x + int (length (drop ?k us))" by simp
  have "i + int (length (x # xs)) = i + 1 + int (length xs)" by simp
  with Cons.prems(2) eq have
    "tiles t src c (i + 1 + int (length xs)) (a + s_size x + int (length (drop ?k us))) ws ys"
    by (simp only:)
  with Cons.prems(1) have "tiles t src c (i + 1) (a + s_size x) (drop ?k us @ ws) (xs @ ys)"
    by (intro Cons.IH) (simp_all add: Let_def)
  with Cons.prems(1) le show ?case by (simp add: Let_def piece_append)
qed simp

lemma tiles_piece:
  "0 < n \<Longrightarrow> n = int (length ws) \<Longrightarrow> in_word a n \<Longrightarrow>
   tiles t src c i a ws [store_obj t a n ws src c i]"
  by (simp add: store_obj_def piece_def)

lemma tiles_bytes:
  "tiles t src c i a ws sts \<Longrightarrow> concat (map s_value_bytes sts) = concat (map word_bytes ws)"
proof (induction sts arbitrary: i a ws)
  case (Cons st sts)
  let ?k = "nat (s_size st)"
  from Cons.prems have "piece t src c i a ws st" by (simp add: Let_def)
  then have "s_value_bytes st = concat (map word_bytes (take ?k ws))" by (rule piece_bytes)
  moreover have "concat (map s_value_bytes sts) = concat (map word_bytes (drop ?k ws))"
    using Cons.prems by (intro Cons.IH [of "i + 1" "a + s_size st"]) (simp add: Let_def)
  ultimately have "concat (map s_value_bytes (st # sts))
      = concat (map word_bytes (take ?k ws @ drop ?k ws))" by (simp del: append_take_drop_id)
  then show ?case by simp
qed simp

lemma py_bound_in: "0 \<le> i \<Longrightarrow> i \<le> int (length xs) \<Longrightarrow> py_bound xs i = nat i"
  by (simp add: py_bound_def)

lemma slice_data:
  assumes "0 \<le> i" "i \<le> j" "j \<le> int (length ws)"
  shows "py_slice (map f ws) i j = map f (take (nat (j - i)) (drop (nat i) ws))"
proof -
  have "py_bound (map f ws) i = nat i" "py_bound (map f ws) j = nat j"
    using assms by (simp_all add: py_bound_in)
  moreover have "nat (j - i) = nat j - nat i" using assms by simp
  ultimately show ?thesis by (simp only: py_slice_def take_map drop_map)
qed

lemma slice_from_data:
  "0 \<le> i \<Longrightarrow> i \<le> int (length ws) \<Longrightarrow> py_slice_from (map f ws) i = map f (drop (nat i) ws)"
  by (simp add: py_slice_from_def py_bound_in drop_map)

lemma in_wordI:
  assumes "8 * k \<le> a" "0 < n" "a + n \<le> 8 * k + 8"
  shows "in_word a n"
proof -
  have "a div 8 = k" using assms by (intro int_div_pos_eq [of _ _ _ "a - 8 * k"]) auto
  moreover have "(a + n - 1) div 8 = k"
    using assms by (intro int_div_pos_eq [of _ _ _ "a + n - 1 - 8 * k"]) auto
  ultimately show ?thesis by (simp add: in_word_def)
qed

lemma aligned_word: "a mod 8 = 0 \<Longrightarrow> 0 < n \<Longrightarrow> n \<le> 8 \<Longrightarrow> in_word a n"
  by (rule in_wordI [of "a div 8"]) auto

lemma atomic_chunks_tiles:
  assumes "(a + co) mod 8 = 0" "0 \<le> co" "co \<le> int (length ws)" "\<forall>w\<in>set ws. byte_like w"
    and "tiles t src c i a (take (nat co) ws) acc"
  shows "\<exists>co' acc'. atomic_chunks a (int (length ws)) (map hex2 ws) t src c co (i + int (length acc)) acc
      = Some (co', i + int (length acc'), acc')
    \<and> (a + co') mod 8 = 0 \<and> 0 \<le> co' \<and> co' \<le> int (length ws) \<and> int (length ws) < co' + 8
    \<and> tiles t src c i a (take (nat co') ws) acc'"
  using assms
proof (induction "nat (int (length ws) - co)" arbitrary: co acc rule: less_induct)
  case less
  show ?case
  proof (cases "co + 8 \<le> int (length ws)")
    case True
    let ?u = "take 8 (drop (nat co) ws)"
    let ?st = "store_obj t (a + co) 8 ?u src c (i + int (length acc))"
    have bl: "\<forall>w\<in>set ?u. byte_like w"
      using less.prems(4) by (meson in_set_dropD in_set_takeD)
    have piece: "Store (a + co) 8 (py_slice (map hex2 ws) co (co + 8)) (i + int (length acc)) t src c = Some ?st"
      using less.prems True slice_data [of co "co + 8" ws hex2] Store_data [OF bl] by simp
    have take_eq: "take (nat (co + 8)) ws = take (nat co) ws @ ?u"
      using less.prems by (simp add: nat_add_distrib take_add)
    have len: "int (length ?u) = 8" "int (length (take (nat co) ws)) = co"
      using less.prems True by auto
    have "tiles t src c (i + int (length acc)) (a + co) ?u [?st]"
      using less.prems(1) len(1) by (intro tiles_piece aligned_word) auto
    with less.prems(5) len(2) have t: "tiles t src c i a (take (nat (co + 8)) ws) (acc @ [?st])"
      unfolding take_eq by (intro tiles_append) simp_all
    have al: "(a + (co + 8)) mod 8 = 0" using less.prems(1) by presburger
    have "nat (int (length ws) - (co + 8)) < nat (int (length ws) - co)" using True by simp
    from less.hyps [OF this al _ True less.prems(4) t] less.prems(2) obtain co' acc' where
      r: "atomic_chunks a (int (length ws)) (map hex2 ws) t src c (co + 8)
          (i + int (length (acc @ [?st]))) (acc @ [?st]) = Some (co', i + int (length acc'), acc')"
      and q: "(a + co') mod 8 = 0" "0 \<le> co'" "co' \<le> int (length ws)" "int (length ws) < co' + 8"
        "tiles t src c i a (take (nat co') ws) acc'"
      by auto
    have "atomic_chunks a (int (length ws)) (map hex2 ws) t src c co (i + int (length acc)) acc
        = Some (co', i + int (length acc'), acc')"
      using True piece r by (subst atomic_chunks.simps) (simp add: ATOMIC_WRITE_BYTES_def algebra_simps)
    with q show ?thesis by (intro exI conjI)
  next
    case False
    then show ?thesis
      using less.prems by (subst atomic_chunks.simps) (simp add: ATOMIC_WRITE_BYTES_def)
  qed
qed

lemma split_head_tiles:
  assumes "0 \<le> a" "a < 2 ^ 53" "ws \<noteq> []" "\<forall>w\<in>set ws. byte_like w"
  shows "\<exists>co acc. split_head t a (int (length ws)) (map hex2 ws) src c i = Some (co, acc)
    \<and> 0 \<le> co \<and> (a + co) mod 8 = 0 \<and> tiles t src c i a (take (nat co) ws) acc"
proof (cases "a mod 8 = 0")
  case True
  then show ?thesis
    using assms by (simp add: split_head_def int_truediv_pow2_exact ATOMIC_WRITE_BYTES_def Let_def) presburger
next
  case False
  let ?co = "8 * (a div 8) + 8 - a" and ?n = "min (int (length ws)) (8 * (a div 8) + 8 - a)"
  let ?u = "take (nat ?n) ws"
  have low: "int_truediv_pow2 a 3 * ATOMIC_WRITE_BYTES = 8 * (a div 8)"
    using int_truediv_pow2_exact [of a 3] assms by (simp add: ATOMIC_WRITE_BYTES_def)
  have lt: "8 * (a div 8) < a" and co: "0 < ?co" "?co < 8" "(a + ?co) mod 8 = 0"
    using False by presburger+
  then have n: "0 < ?n" "?n \<le> ?co" "int (length ?u) = ?n" using assms(3) by auto
  have bl: "\<forall>w\<in>set ?u. byte_like w" using assms(4) by (meson in_set_takeD)
  have "py_slice (map hex2 ws) 0 ?n = map hex2 ?u"
    using slice_data [of 0 ?n ws hex2] n(1) by simp
  moreover have "a div 8 * 8 = 8 * (a div 8)" by simp
  ultimately have
    "split_head t a (int (length ws)) (map hex2 ws) src c i
       = Some (?co, [store_obj t a ?n ?u src c i])"
    using Store_data [OF bl] low lt by (simp only: split_head_def Let_def ATOMIC_WRITE_BYTES_def) simp
  moreover have u: "take (nat ?co) ws = ?u" by (simp add: min_def)
  moreover have "in_word a ?n"
    using lt n(1,2) by (intro in_wordI [of "a div 8"]) auto
  then have "tiles t src c i a (take (nat ?co) ws) [store_obj t a ?n ?u src c i]"
    unfolding u using n by (intro tiles_piece) auto
  moreover have "0 \<le> ?co" using co(1) by (rule less_imp_le)
  ultimately show ?thesis using co(3) by (intro exI conjI)
qed

lemma split_store_by_head:
  assumes "split_head t a n v src c i = Some (co, acc)"
    and "atomic_chunks a n v t src c co (i + int (length acc)) acc = Some (co', idx', acc')"
  shows "split_store t a n v src c i =
    (if 0 < n - co'
     then Option.bind (Store (a + co') (n - co') (py_slice_from v co') idx' t src c)
            (\<lambda>st. Some (acc' @ [st]))
     else Some acc')"
proof (cases "int_truediv_pow2 a 3 * ATOMIC_WRITE_BYTES < a")
  case True
  with assms show ?thesis by (auto simp: split_store_def split_head_def Let_def)
next
  case False
  with assms show ?thesis by (auto simp: split_store_def split_head_def Let_def)
qed

lemma split_store_tiles:
  assumes "0 \<le> a" "a < 2 ^ 53" "ws \<noteq> []" "\<forall>w\<in>set ws. byte_like w"
  shows "\<exists>sts. split_store t a (int (length ws)) (map hex2 ws) src c i = Some sts
    \<and> tiles t src c i a ws sts"
proof -
  let ?n = "int (length ws)"
  obtain co acc where h: "split_head t a ?n (map hex2 ws) src c i = Some (co, acc)"
    and co: "0 \<le> co" "(a + co) mod 8 = 0" and t: "tiles t src c i a (take (nat co) ws) acc"
    using split_head_tiles [OF assms, of t src c i] by (elim exE conjE)
  show ?thesis
  proof (cases "co \<le> ?n")
    case False
    have "atomic_chunks a ?n (map hex2 ws) t src c co (i + int (length acc)) acc
        = Some (co, i + int (length acc), acc)"
      using False by (subst atomic_chunks.simps) (simp add: ATOMIC_WRITE_BYTES_def)
    from split_store_by_head [OF h this] False t show ?thesis by simp
  next
    case True
    from atomic_chunks_tiles [OF co(2,1) True assms(4) t] obtain co' acc' where
      ch: "atomic_chunks a ?n (map hex2 ws) t src c co (i + int (length acc)) acc
        = Some (co', i + int (length acc'), acc')"
      and co': "(a + co') mod 8 = 0" "0 \<le> co'" "co' \<le> ?n" "?n < co' + 8"
      and t': "tiles t src c i a (take (nat co') ws) acc'"
      by (elim exE conjE)
    let ?u = "drop (nat co') ws"
    have len: "int (length ?u) = ?n - co'" "int (length (take (nat co') ws)) = co'"
      using co' by auto
    have bl: "\<forall>w\<in>set ?u. byte_like w" using assms(4) by (meson in_set_dropD)
    show ?thesis
    proof (cases "co' < ?n")
      case True
      have "tiles t src c (i + int (length acc')) (a + co') ?u
          [store_obj t (a + co') (?n - co') ?u src c (i + int (length acc'))]"
        using co' True len by (intro tiles_piece aligned_word) auto
      then have "tiles t src c i a (take (nat co') ws @ ?u)
          (acc' @ [store_obj t (a + co') (?n - co') ?u src c (i + int (length acc'))])"
        using t' len by (intro tiles_append) simp_all
      then show ?thesis
        using split_store_by_head [OF h ch] True co' slice_from_data [of co' ws hex2] Store_data [OF bl]
        by simp
    next
      case False
      with split_store_by_head [OF h ch] co' t' show ?thesis by simp
    qed
  qed
qed

end
