(* ===== verification/Trace_Soundness.thy ===== *)
theory Trace_Soundness
  imports Store_Split
begin

text \<open>
  The run time and the reader together: what the reader makes of the file that a run has written,
  and for which runs it finishes.
\<close>

section \<open>Reading a run\<close>

lemma recordInit_ready: "rt_globals env = Returns s \<Longrightarrow> rt_ready (recordInit True s)"
  by (auto simp: rt_globals_def recordInit_def enableRecording_def Let_def rt_ready_def new_ostream_def
      split: option.splits)

lemma recordInit_empty: "rt_globals env = Returns s \<Longrightarrow> trace_text (recordInit True s) = []"
  by (auto simp: rt_globals_def recordInit_def enableRecording_def Let_def trace_text_def
      split: option.splits)

lemma run_text:
  assumes "rt_ready s" and "trace_text s = []" and "\<forall>(t, m, c)\<in>set cs. in_range c"
    and "rt_run d cs s = Returns s'"
  shows "trace_text s' = unlines (map line_of (run_events d s cs))"
  using rt_run_wrote [OF assms(1,3,4)] assms(2) by (simp add: wrote_def trace_text_def)

lemma Trace_run:
  assumes "rt_ready s" and "trace_text s = []" and "\<forall>(t, m, c)\<in>set cs. in_range c"
    and "rt_run d cs s = Returns s'"
  shows "Trace op (trace_text s') = absorb_events op (run_events d s cs) new_trace"
  unfolding run_text [OF assms] by (rule Trace_lines) (blast intro: run_events_printable)

section \<open>Which runs return\<close>

fun run_defined :: "rt_state \<Rightarrow> (u64 \<times> memory \<times> rt_call) list \<Rightarrow> bool" where
  "run_defined s [] \<longleftrightarrow> True"
| "run_defined s ((t, m, c) # cs) \<longleftrightarrow> call_defined s m c \<and> run_defined (window_after c s) cs"

lemma call_defined_frame: "call_defined (s\<lparr>record_os := x\<rparr>) m c \<longleftrightarrow> call_defined s m c"
  by (cases c) (simp_all add: live_def is_pm_addr_def)

lemma run_defined_frame: "run_defined (s\<lparr>record_os := x\<rparr>) cs \<longleftrightarrow> run_defined s cs"
  by (induction cs arbitrary: s) (auto simp: call_defined_frame window_after_frame)

lemma rt_run_returns:
  assumes "rt_ready s" and "\<forall>(t, m, c)\<in>set cs. in_range c"
  shows "(\<exists>s'. rt_run d cs s = Returns s') \<longleftrightarrow> run_defined s cs"
  using assms
proof (induction cs arbitrary: s)
  case (Cons x cs)
  obtain t m c where x: "x = (t, m, c)" by (cases x)
  show ?case
  proof (cases "call_defined s m c")
    case False
    with Cons.prems x rt_exec_returns_iff [of c d t m s] show ?thesis
      by (cases "rt_exec d t m c s") auto
  next
    case True
    with Cons.prems x rt_exec_returns_iff [of c d t m s] obtain s1
      where s1: "rt_exec d t m c s = Returns s1" by auto
    from Cons.prems x s1 have w: "wrote (events_of d s t m c) (window_after c s) s1"
      by (auto intro: rt_exec_wrote)
    then have "s1 = (window_after c s)\<lparr>record_os := record_os s1\<rparr>" by (simp add: wrote_def)
    then have "run_defined s1 cs = run_defined (window_after c s) cs"
      by (metis run_defined_frame)
    moreover from wrote_ready [OF w] Cons.prems(1) have "rt_ready s1" by simp
    ultimately show ?thesis using Cons.IH [of s1] Cons.prems True x s1 by simp
  qed
qed simp

section \<open>Which event sequences can be read\<close>

text \<open>
  The reader stops with an exception at the end of an API call that was not begun. Between the
  marks of a modelled lock everything is skipped.
\<close>

fun balanced :: "bool \<Rightarrow> bool \<Rightarrow> tevent list \<Rightarrow> bool" where
  "balanced skip open [] \<longleftrightarrow> True"
| "balanced skip open (e # es) \<longleftrightarrow>
     (case e of
        TLockBegin t a \<Rightarrow> balanced True open es
      | TUnLockBegin t a \<Rightarrow> balanced True open es
      | TLockEnd t a \<Rightarrow> balanced False open es
      | TUnLockEnd t a \<Rightarrow> balanced False open es
      | TAPIBegin t \<Rightarrow> balanced skip (open \<or> \<not> skip) es
      | TAPIEnd t \<Rightarrow> (if skip then balanced skip open es else open \<and> balanced skip False es)
      | _ \<Rightarrow> balanced skip open es)"

lemma Store_sublist:
  "set us \<subseteq> hex2 ` {w. byte_like w} \<Longrightarrow> \<exists>st. Store a n us i t src c = Some st"
proof -
  assume "set us \<subseteq> hex2 ` {w. byte_like w}"
  then obtain ws where "us = map hex2 ws" "\<forall>w\<in>set ws. byte_like w"
  proof (induction us arbitrary: thesis)
    case (Cons u us)
    from Cons.prems(2) obtain w where "u = hex2 w" "byte_like w" by auto
    moreover from Cons.prems(2) obtain ws where "us = map hex2 ws" "\<forall>w\<in>set ws. byte_like w"
      using Cons.IH by auto
    ultimately show ?case using Cons.prems(1) [of "w # ws"] by simp
  qed simp
  then show ?thesis by (auto dest: Store_data)
qed

lemma set_py_slice: "set (py_slice xs i j) \<subseteq> set xs"
  unfolding py_slice_def by (meson in_set_dropD in_set_takeD subsetI)

lemma set_py_slice_from: "set (py_slice_from xs i) \<subseteq> set xs"
  unfolding py_slice_from_def by (meson in_set_dropD subsetI)

lemma atomic_chunks_total:
  "set v \<subseteq> hex2 ` {w. byte_like w} \<Longrightarrow> \<exists>r. atomic_chunks a n v t src c co i acc = Some r"
proof (induction a n v t src c co i acc rule: atomic_chunks.induct)
  case (1 a n v t src c co i acc)
  obtain st where st: "Store (a + co) ATOMIC_WRITE_BYTES
      (py_slice v co (co + ATOMIC_WRITE_BYTES)) i t src c = Some st"
    using Store_sublist [OF order_trans [OF set_py_slice 1(2)]] by blast
  with 1 show ?case by (subst atomic_chunks.simps) auto
qed

lemma split_store_total:
  assumes "set v \<subseteq> hex2 ` {w. byte_like w}"
  shows "\<exists>sts. split_store t a n v src c i = Some sts"
proof -
  obtain co acc where h: "split_head t a n v src c i = Some (co, acc)"
    using Store_sublist [OF order_trans [OF set_py_slice assms]]
    by (fastforce simp: split_head_def Let_def)
  obtain co' idx' acc' where
    ch: "atomic_chunks a n v t src c co (i + int (length acc)) acc = Some (co', idx', acc')"
    using atomic_chunks_total [OF assms] by (metis prod_cases3)
  obtain st where "Store (a + co') (n - co') (py_slice_from v co') idx' t src c = Some st"
    using Store_sublist [OF order_trans [OF set_py_slice_from assms]] by blast
  then show ?thesis unfolding split_store_by_head [OF h ch] by simp
qed

lemma store_data_total:
  "\<forall>w\<in>set ws. byte_like w \<Longrightarrow> \<exists>sts. split_store t a n (map hex2 ws) src c i = Some sts"
  by (rule split_store_total) auto

text \<open>How one event moves the two flags that \<open>balanced\<close> tracks.\<close>

definition api_open :: "trace_state \<Rightarrow> bool" where
  "api_open s \<longleftrightarrow> op_curr_api_begin_index s \<noteq> -1"

lemmas absorb_step_defs =
  api_open_def bump_def take_back_def append_op_def put_lock_def put_load_def put_stores_def
  add_load_addr_def add_alloc_def api_begin_def api_end_def Let_def

lemma absorb_balanced:
  assumes "trace_inv s" and "printable e"
  shows "balanced (skip_lock_modeling s) (api_open s) (e # es) \<longleftrightarrow>
    (\<exists>s'. absorb op e s = Some s' \<and> balanced (skip_lock_modeling s') (api_open s') es)"
proof -
  from assms(1) have nn: "op_curr_index s \<noteq> -1" by (simp add: trace_inv_def)
  show ?thesis
  proof (cases e)
    case (TStore t a n ws i c)
    with assms(2) store_data_total obtain sts where "split_store (uint t) (uint a) (uint n)
        (map hex2 ws) (dec_text i) (if c then 1 else 0) (op_curr_index s) = Some sts"
      by fastforce
    with TStore show ?thesis by (auto simp: absorb_step_defs)
  qed (use nn in \<open>auto simp: absorb_step_defs\<close>)
qed

lemma absorb_inv:
  "trace_inv s \<Longrightarrow> printable e \<Longrightarrow> absorb op e s = Some s' \<Longrightarrow> trace_inv s'"
  using extract_entry_inv extract_entry_line by metis

lemma absorb_events_iff:
  "trace_inv s \<Longrightarrow> \<forall>e\<in>set es. printable e \<Longrightarrow>
   (\<exists>s'. absorb_events op es s = Some s') \<longleftrightarrow> balanced (skip_lock_modeling s) (api_open s) es"
proof (induction es arbitrary: s)
  case (Cons e es)
  show ?case
  proof (cases "absorb op e s")
    case None
    with absorb_balanced [of s e es op] Cons.prems show ?thesis by simp
  next
    case (Some s')
    with absorb_inv Cons.prems have "trace_inv s'" by auto
    with Cons.IH Cons.prems Some absorb_balanced [of s e es op] show ?thesis by simp
  qed
qed simp

end
