(* ===== verification/LLVM_IR.thy ===== *)
theory LLVM_IR
  imports Durinn_Prelude
begin

text \<open>
  The part of LLVM's intermediate representation that the passes in \<open>tracer/\<close> look at: types,
  values, instructions with an identity, blocks, functions and modules. An instruction is named by
  its identity \<open>iref\<close>, as the passes name it by its address; value names are left out.
\<close>

datatype ty =
    VoidTy
  | IntTy nat
  | PtrTy ty
  | ArrayTy nat ty
  | StructTy "ty list"
  | FunTy ty "ty list"
  | OtherTy nat

datatype val =
    CInt nat nat
  | CCast val ty
  | COther nat ty
  | GStr nat nat
  | FunRef string ty
  | AsmRef string ty
  | ArgRef nat ty
  | InstRef nat ty
  | BlockRef nat

text \<open>The instructions that some pass treats on its own; all others with their operands.\<close>

datatype iop =
    LoadI val
  | StoreI val val
  | RMWI val val
  | CmpXchgI val val val
  | BranchI "val option"
  | SelectI val val val
  | CallI val "val list"
  | InvokeI val "val list" nat nat
  | ReturnI "val option"
  | PhiI "val list"
  | PadI
  | CastI val ty
  | MulI val val
  | OtherI nat "val list"

record inst =
  iref :: nat
  iop :: iop
  ity :: ty
  iloc :: "(string \<times> nat) option"

type_synonym block = "inst list"

record func =
  fname :: string
  fret :: ty
  fargs :: "ty list"
  fblocks :: "block list"

text \<open>\<open>dgls\<close> is the named metadata node of that name: pairs of an instruction and its number.\<close>

record modl =
  funcs :: "func list"
  gvs :: "string list"
  nextref :: nat
  dgls :: "(nat \<times> u32) list option"

section \<open>Accessors\<close>

definition Int8Type :: ty where "Int8Type = IntTy 8"
definition Int32Type :: ty where "Int32Type = IntTy 32"
definition Int64Type :: ty where "Int64Type = IntTy 64"
definition VoidPtrType :: ty where "VoidPtrType = PtrTy Int8Type"
definition OIDType :: ty where "OIDType = StructTy [Int64Type, Int64Type]"

lemmas type_defs [edit_simps] =
  Int8Type_def Int32Type_def Int64Type_def VoidPtrType_def OIDType_def

fun type_of :: "val \<Rightarrow> ty" where
  "type_of (CInt w n) = IntTy w"
| "type_of (CCast v t) = t"
| "type_of (COther k t) = t"
| "type_of (GStr k n) = PtrTy (ArrayTy n Int8Type)"
| "type_of (FunRef f t) = t"
| "type_of (AsmRef a t) = t"
| "type_of (ArgRef k t) = t"
| "type_of (InstRef r t) = t"
| "type_of (BlockRef b) = OtherTy 0"

fun is_constant :: "val \<Rightarrow> bool" where
  "is_constant (CInt w n) = True"
| "is_constant (CCast v t) = True"
| "is_constant (COther k t) = True"
| "is_constant (GStr k n) = True"
| "is_constant (FunRef f t) = True"
| "is_constant _ = False"

text \<open>\<open>ConstantInt::get\<close>: the value modulo the width.\<close>

definition const_int :: "nat \<Rightarrow> int \<Rightarrow> val" where
  "const_int w n = CInt w (nat (n mod 2 ^ w))"

definition const_id :: "u32 \<Rightarrow> val" where
  "const_id i = CInt 32 (unat i)"

text \<open>The operands of an instruction; the callee is the last operand of a call.\<close>

fun operands :: "iop \<Rightarrow> val list" where
  "operands (LoadI p) = [p]"
| "operands (StoreI v p) = [v, p]"
| "operands (RMWI p v) = [p, v]"
| "operands (CmpXchgI p c n) = [p, c, n]"
| "operands (BranchI c) = (case c of None \<Rightarrow> [] | Some v \<Rightarrow> [v])"
| "operands (SelectI c a b) = [c, a, b]"
| "operands (CallI f as) = as @ [f]"
| "operands (InvokeI f as n u) = as @ [BlockRef n, BlockRef u, f]"
| "operands (ReturnI r) = (case r of None \<Rightarrow> [] | Some v \<Rightarrow> [v])"
| "operands (PhiI vs) = vs"
| "operands PadI = []"
| "operands (CastI v t) = [v]"
| "operands (MulI a b) = [a, b]"
| "operands (OtherI k vs) = vs"

definition nth_opt :: "'a list \<Rightarrow> nat \<Rightarrow> 'a option" where
  "nth_opt xs i = (if i < length xs then Some (xs ! i) else None)"

definition getOperand :: "inst \<Rightarrow> nat \<Rightarrow> val option" where
  "getOperand I k = nth_opt (operands (iop I)) k"

fun call_args :: "iop \<Rightarrow> val list" where
  "call_args (CallI f as) = as"
| "call_args _ = []"

definition getArgOperand :: "inst \<Rightarrow> nat \<Rightarrow> val option" where
  "getArgOperand I k = nth_opt (call_args (iop I)) k"

definition value_of :: "inst \<Rightarrow> val" where
  "value_of I = InstRef (iref I) (ity I)"

definition func_insts :: "func \<Rightarrow> inst list" where
  "func_insts F = concat (fblocks F)"

definition all_insts :: "modl \<Rightarrow> inst list" where
  "all_insts M = concat (map func_insts (funcs M))"

definition getFunction :: "modl \<Rightarrow> string \<Rightarrow> func option" where
  "getFunction M name = find (\<lambda>F. fname F = name) (funcs M)"

definition isDeclaration :: "func \<Rightarrow> bool" where
  "isDeclaration F \<longleftrightarrow> fblocks F = []"

section \<open>Well-formed modules\<close>

definition wf_module :: "modl \<Rightarrow> bool" where
  "wf_module M \<longleftrightarrow>
     distinct (map iref (all_insts M)) \<and> (\<forall>I\<in>set (all_insts M). iref I < nextref M)
     \<and> distinct (map fname (funcs M))"

lemma inst_eq_by_ref:
  "wf_module M \<Longrightarrow> I \<in> set (all_insts M) \<Longrightarrow> J \<in> set (all_insts M) \<Longrightarrow> iref I = iref J \<Longrightarrow> I = J"
  by (auto simp: wf_module_def distinct_map dest: inj_onD)

end
