(* ===== verification/Block_Edit.thy ===== *)
theory Block_Edit
  imports LLVM_IR
begin

text \<open>
  Editing a basic block in place: new instructions before or after an instruction, an instruction
  moved before another one, casts as \<open>castTo\<close> of \<open>tracer_pass.h\<close> makes them. A failed assertion of
  LLVM is \<open>None\<close>. The locale \<open>block_editor\<close> is the contract of these operations around a fixed
  instruction.
\<close>

section \<open>Lists of instructions\<close>

fun insert_before :: "nat \<Rightarrow> inst \<Rightarrow> block \<Rightarrow> block" where
  "insert_before r x [] = [x]"
| "insert_before r x (y # ys) = (if iref y = r then x # y # ys else y # insert_before r x ys)"

fun insert_after :: "nat \<Rightarrow> inst \<Rightarrow> block \<Rightarrow> block" where
  "insert_after r x [] = [x]"
| "insert_after r x (y # ys) = (if iref y = r then y # x # ys else y # insert_after r x ys)"

definition move_before :: "nat \<Rightarrow> nat \<Rightarrow> block \<Rightarrow> block" where
  "move_before r r' b =
     (case find (\<lambda>i. iref i = r) b of
        None \<Rightarrow> b
      | Some i \<Rightarrow> insert_before r' i (filter (\<lambda>j. iref j \<noteq> r) b))"

section \<open>The state of an edit\<close>

text \<open>The block, the next identity, and the string constants of the module.\<close>

record edit =
  blk :: block
  fresh :: nat
  strs :: "string list"

definition new_inst :: "iop \<Rightarrow> ty \<Rightarrow> edit \<Rightarrow> inst" where
  "new_inst op t s = \<lparr>iref = fresh s, iop = op, ity = t, iloc = None\<rparr>"

definition create_before :: "iop \<Rightarrow> ty \<Rightarrow> inst \<Rightarrow> edit \<Rightarrow> inst \<times> edit" where
  "create_before op t I s =
     (let x = new_inst op t s
      in (x, s\<lparr>blk := insert_before (iref I) x (blk s), fresh := fresh s + 1\<rparr>))"

definition create_after :: "iop \<Rightarrow> ty \<Rightarrow> inst \<Rightarrow> edit \<Rightarrow> inst \<times> edit" where
  "create_after op t I s =
     (let x = new_inst op t s
      in (x, s\<lparr>blk := insert_after (iref I) x (blk s), fresh := fresh s + 1\<rparr>))"

definition moveBefore :: "inst \<Rightarrow> inst \<Rightarrow> edit \<Rightarrow> edit" where
  "moveBefore I J s = s\<lparr>blk := move_before (iref I) (iref J) (blk s)\<rparr>"

section \<open>tracer\_pass.h\<close>

text \<open>
  \<open>valid\<close> is LLVM's test of the two types of a cast, or always true when LLVM is built without its
  assertions.
\<close>

definition castTo :: "(ty \<Rightarrow> ty \<Rightarrow> bool) \<Rightarrow> val \<Rightarrow> ty \<Rightarrow> inst \<Rightarrow> edit \<Rightarrow> (val \<times> edit) option" where
  "castTo valid V Ty InsertPt s =
     (if type_of V = Ty then Some (V, s)
      else if \<not> valid (type_of V) Ty then None
      else if is_constant V then Some (CCast V Ty, s)
      else let (x, s) = create_before (CastI V Ty) Ty InsertPt s in Some (value_of x, s))"

definition stringToGV :: "string \<Rightarrow> edit \<Rightarrow> val \<times> edit" where
  "stringToGV str s = (GStr (length (strs s)) (length str + 1), s\<lparr>strs := strs s @ [str]\<rparr>)"

section \<open>Editing around one instruction\<close>

text \<open>
  The abstract side: what is left of an instruction, the instruction, what is right of it. New
  instructions go to the inner end of either side; moving the instruction before one on its left
  moves the rest of the left side over to the right.
\<close>

record zipper =
  zleft :: block
  zcur :: inst
  zright :: block
  zfresh :: nat
  zstrs :: "string list"

definition unzip :: "zipper \<Rightarrow> edit" where
  "unzip z = \<lparr>blk = zleft z @ zcur z # zright z, fresh = zfresh z, strs = zstrs z\<rparr>"

definition zwf :: "zipper \<Rightarrow> bool" where
  "zwf z \<longleftrightarrow>
     distinct (map iref (zleft z @ zcur z # zright z))
     \<and> (\<forall>i\<in>set (zleft z @ zcur z # zright z). iref i < zfresh z)"

definition znew :: "iop \<Rightarrow> ty \<Rightarrow> zipper \<Rightarrow> inst" where
  "znew op t z = \<lparr>iref = zfresh z, iop = op, ity = t, iloc = None\<rparr>"

definition zbefore :: "iop \<Rightarrow> ty \<Rightarrow> zipper \<Rightarrow> zipper" where
  "zbefore op t z = z\<lparr>zleft := zleft z @ [znew op t z], zfresh := zfresh z + 1\<rparr>"

definition zafter :: "iop \<Rightarrow> ty \<Rightarrow> zipper \<Rightarrow> zipper" where
  "zafter op t z = z\<lparr>zright := znew op t z # zright z, zfresh := zfresh z + 1\<rparr>"

definition zafter_left :: "inst \<Rightarrow> iop \<Rightarrow> ty \<Rightarrow> zipper \<Rightarrow> zipper" where
  "zafter_left J op t z =
     z\<lparr>zleft := takeWhile (\<lambda>i. i \<noteq> J) (zleft z) @ J # znew op t z #
                 drop 1 (dropWhile (\<lambda>i. i \<noteq> J) (zleft z)),
       zfresh := zfresh z + 1\<rparr>"

definition zmove :: "inst \<Rightarrow> zipper \<Rightarrow> zipper" where
  "zmove J z =
     z\<lparr>zleft := takeWhile (\<lambda>i. i \<noteq> J) (zleft z),
       zright := dropWhile (\<lambda>i. i \<noteq> J) (zleft z) @ zright z\<rparr>"

definition zstr :: "string \<Rightarrow> zipper \<Rightarrow> zipper" where
  "zstr str z = z\<lparr>zstrs := zstrs z @ [str]\<rparr>"

locale block_editor =
  fixes ins_before :: "nat \<Rightarrow> inst \<Rightarrow> block \<Rightarrow> block"
    and ins_after :: "nat \<Rightarrow> inst \<Rightarrow> block \<Rightarrow> block"
    and mv_before :: "nat \<Rightarrow> nat \<Rightarrow> block \<Rightarrow> block"
  assumes ins_before_at:
      "iref I \<notin> iref ` set xs \<Longrightarrow> ins_before (iref I) x (xs @ I # ys) = xs @ x # I # ys"
    and ins_after_at:
      "iref I \<notin> iref ` set xs \<Longrightarrow> ins_after (iref I) x (xs @ I # ys) = xs @ I # x # ys"
    and mv_before_at:
      "distinct (map iref (xs @ J # ws @ I # ys)) \<Longrightarrow>
       mv_before (iref I) (iref J) (xs @ J # ws @ I # ys) = xs @ I # J # ws @ ys"
begin

lemma ins_before_zip:
  "zwf z \<Longrightarrow> ins_before (iref (zcur z)) x (blk (unzip z)) = zleft z @ x # zcur z # zright z"
  by (simp add: unzip_def zwf_def ins_before_at)

lemma ins_after_zip:
  "zwf z \<Longrightarrow> ins_after (iref (zcur z)) x (blk (unzip z)) = zleft z @ zcur z # x # zright z"
  by (simp add: unzip_def zwf_def ins_after_at)

lemma left_split:
  assumes "J \<in> set xs"
  shows "xs = takeWhile (\<lambda>i. i \<noteq> J) xs @ J # drop 1 (dropWhile (\<lambda>i. i \<noteq> J) xs)"
  using assms by (induction xs) auto

lemma left_rest: "J \<in> set xs \<Longrightarrow> dropWhile (\<lambda>i. i \<noteq> J) xs = J # drop 1 (dropWhile (\<lambda>i. i \<noteq> J) xs)"
  by (induction xs) auto

lemma blk_left_split:
  assumes "J \<in> set (zleft z)"
  shows "blk (unzip z) = takeWhile (\<lambda>i. i \<noteq> J) (zleft z)
    @ J # drop 1 (dropWhile (\<lambda>i. i \<noteq> J) (zleft z)) @ zcur z # zright z"
proof -
  have "blk (unzip z) = zleft z @ zcur z # zright z" by (simp add: unzip_def)
  also have "\<dots> = (takeWhile (\<lambda>i. i \<noteq> J) (zleft z) @ J # drop 1 (dropWhile (\<lambda>i. i \<noteq> J) (zleft z)))
      @ zcur z # zright z"
    by (subst left_split [OF assms]) (rule refl)
  finally show ?thesis by simp
qed

lemma blk_distinct: "zwf z \<Longrightarrow> distinct (map iref (blk (unzip z)))"
  by (simp add: zwf_def unzip_def)

lemma ins_after_left_zip:
  assumes "zwf z" "J \<in> set (zleft z)"
  shows "ins_after (iref J) x (blk (unzip z)) =
    takeWhile (\<lambda>i. i \<noteq> J) (zleft z) @ J # x # drop 1 (dropWhile (\<lambda>i. i \<noteq> J) (zleft z))
      @ zcur z # zright z"
  using blk_distinct [OF assms(1)]
  unfolding blk_left_split [OF assms(2)] by (intro ins_after_at) simp

lemma mv_before_zip:
  assumes "zwf z" "J \<in> set (zleft z)"
  shows "mv_before (iref (zcur z)) (iref J) (blk (unzip z)) =
    takeWhile (\<lambda>i. i \<noteq> J) (zleft z) @ zcur z # dropWhile (\<lambda>i. i \<noteq> J) (zleft z) @ zright z"
  using blk_distinct [OF assms(1)] left_rest [OF assms(2)]
  unfolding blk_left_split [OF assms(2)] by (metis append_Cons mv_before_at)

end

lemma insert_before_skip: "r \<notin> iref ` set xs \<Longrightarrow> insert_before r x (xs @ ys) = xs @ insert_before r x ys"
  by (induction xs) auto

lemma insert_after_skip: "r \<notin> iref ` set xs \<Longrightarrow> insert_after r x (xs @ ys) = xs @ insert_after r x ys"
  by (induction xs) auto

lemma find_skip: "r \<notin> iref ` set xs \<Longrightarrow> find (\<lambda>i. iref i = r) (xs @ ys) = find (\<lambda>i. iref i = r) ys"
  by (induction xs) auto

lemma filter_skip: "r \<notin> iref ` set xs \<Longrightarrow> filter (\<lambda>j. iref j \<noteq> r) xs = xs"
  by (auto simp: filter_id_conv)

interpretation be: block_editor insert_before insert_after move_before
proof unfold_locales
  fix xs ws ys :: block and I J :: inst
  assume d: "distinct (map iref (xs @ J # ws @ I # ys))"
  then have "iref I \<notin> iref ` set (xs @ J # ws)" by auto
  from find_skip [OF this, of "I # ys"]
  have "find (\<lambda>i. iref i = iref I) (xs @ J # ws @ I # ys) = Some I" by simp
  moreover have "filter (\<lambda>j. iref j \<noteq> iref I) (xs @ J # ws @ I # ys) = xs @ J # ws @ ys"
    using d by (simp add: filter_skip)
  ultimately show "move_before (iref I) (iref J) (xs @ J # ws @ I # ys) = xs @ I # J # ws @ ys"
    using d by (simp add: move_before_def insert_before_skip)
qed (simp_all add: insert_before_skip insert_after_skip)

section \<open>The editing operations on the zipper\<close>

lemma zfresh_notin:
  assumes "zwf z"
  shows "zfresh z \<notin> iref ` set (zleft z)" "zfresh z \<noteq> iref (zcur z)" "zfresh z \<notin> iref ` set (zright z)"
  using assms by (auto simp: zwf_def)

lemma zwf_before [simp]: "zwf z \<Longrightarrow> zwf (zbefore op t z)"
  using zfresh_notin [of z] by (auto simp: zwf_def zbefore_def znew_def less_Suc_eq)

lemma zwf_after [simp]: "zwf z \<Longrightarrow> zwf (zafter op t z)"
  using zfresh_notin [of z] by (auto simp: zwf_def zafter_def znew_def less_Suc_eq)

lemma zwf_str [simp]: "zwf (zstr str z) = zwf z"
  by (simp add: zwf_def zstr_def)

lemma zwf_move [simp]: "zwf z \<Longrightarrow> zwf (zmove J z)"
proof -
  assume z: "zwf z"
  have "zleft z = takeWhile (\<lambda>i. i \<noteq> J) (zleft z) @ dropWhile (\<lambda>i. i \<noteq> J) (zleft z)" by simp
  then obtain a b where "zleft z = a @ b" "takeWhile (\<lambda>i. i \<noteq> J) (zleft z) = a"
    "dropWhile (\<lambda>i. i \<noteq> J) (zleft z) = b" by blast
  with z show ?thesis by (auto simp: zwf_def zmove_def)
qed

definition zcast :: "val \<Rightarrow> ty \<Rightarrow> zipper \<Rightarrow> zipper" where
  "zcast V Ty z = (if type_of V = Ty \<or> is_constant V then z else zbefore (CastI V Ty) Ty z)"

definition zcastv :: "val \<Rightarrow> ty \<Rightarrow> zipper \<Rightarrow> val" where
  "zcastv V Ty z =
     (if type_of V = Ty then V else if is_constant V then CCast V Ty
      else value_of (znew (CastI V Ty) Ty z))"

lemma zwf_cast [simp]: "zwf z \<Longrightarrow> zwf (zcast V Ty z)"
  by (simp add: zcast_def)

lemma zcur_ops [simp]:
  "zcur (zbefore op t z) = zcur z" "zcur (zafter op t z) = zcur z" "zcur (zstr str z) = zcur z"
  "zcur (zmove J z) = zcur z" "zcur (zcast V Ty z) = zcur z"
  by (simp_all add: zbefore_def zafter_def zstr_def zmove_def zcast_def)

lemma zleft_ops [simp]:
  "zleft (zbefore op t z) = zleft z @ [znew op t z]" "zleft (zafter op t z) = zleft z"
  "zleft (zstr str z) = zleft z"
  by (simp_all add: zbefore_def zafter_def zstr_def)

lemma zright_ops [simp]:
  "zright (zbefore op t z) = zright z" "zright (zafter op t z) = znew op t z # zright z"
  "zright (zstr str z) = zright z"
  by (simp_all add: zbefore_def zafter_def zstr_def)

lemma zfresh_ops [simp]:
  "zfresh (zbefore op t z) = Suc (zfresh z)" "zfresh (zafter op t z) = Suc (zfresh z)"
  "zfresh (zstr str z) = zfresh z" "zfresh (zmove J z) = zfresh z"
  by (simp_all add: zbefore_def zafter_def zstr_def zmove_def)

lemma znew_sel [simp]:
  "iref (znew op t z) = zfresh z" "iop (znew op t z) = op" "ity (znew op t z) = t"
  by (simp_all add: znew_def)

lemma create_before_zip:
  "zwf z \<Longrightarrow> zcur z = I \<Longrightarrow> create_before op t I (unzip z) = (znew op t z, unzip (zbefore op t z))"
  using be.ins_before_zip [of z "znew op t z"]
  by (auto simp: create_before_def Let_def new_inst_def znew_def unzip_def zbefore_def)

lemma create_after_zip:
  "zwf z \<Longrightarrow> zcur z = I \<Longrightarrow> create_after op t I (unzip z) = (znew op t z, unzip (zafter op t z))"
  using be.ins_after_zip [of z "znew op t z"]
  by (auto simp: create_after_def Let_def new_inst_def znew_def unzip_def zafter_def)

lemma create_after_left_zip:
  "zwf z \<Longrightarrow> J \<in> set (zleft z) \<Longrightarrow>
   create_after op t J (unzip z) = (znew op t z, unzip (zafter_left J op t z))"
  using be.ins_after_left_zip [of z J "znew op t z"]
  by (auto simp: create_after_def Let_def new_inst_def znew_def unzip_def zafter_left_def)

lemma moveBefore_zip:
  "zwf z \<Longrightarrow> zcur z = I \<Longrightarrow> J \<in> set (zleft z) \<Longrightarrow> moveBefore I J (unzip z) = unzip (zmove J z)"
  using be.mv_before_zip [of z J] by (auto simp: moveBefore_def unzip_def zmove_def)

text \<open>A cast that passes the assertion.\<close>

definition castable :: "(ty \<Rightarrow> ty \<Rightarrow> bool) \<Rightarrow> val \<Rightarrow> ty \<Rightarrow> bool" where
  "castable valid V Ty \<longleftrightarrow> type_of V = Ty \<or> valid (type_of V) Ty"

lemma castTo_zip:
  "zwf z \<Longrightarrow> zcur z = I \<Longrightarrow>
   castTo A V Ty I (unzip z) = Some r \<longleftrightarrow> castable A V Ty \<and> r = (zcastv V Ty z, unzip (zcast V Ty z))"
  by (auto simp: castTo_def castable_def zcast_def zcastv_def create_before_zip)

lemma stringToGV_zip:
  "stringToGV str (unzip z) = (GStr (length (zstrs z)) (length str + 1), unzip (zstr str z))"
  by (simp add: stringToGV_def unzip_def zstr_def)

lemmas zip_simps [edit_simps] =
  create_before_zip create_after_zip create_after_left_zip moveBefore_zip castTo_zip stringToGV_zip

text \<open>New instructions are not among the old ones.\<close>

lemma zleft_lt: "zwf z \<Longrightarrow> x \<in> set (zleft z) \<Longrightarrow> iref x < zfresh z"
  by (simp add: zwf_def)

lemma takeWhile_new [edit_simps]:
  "zwf z \<Longrightarrow> zfresh z \<le> iref J \<Longrightarrow>
   takeWhile (\<lambda>i. i \<noteq> J) (zleft z @ ys) = zleft z @ takeWhile (\<lambda>i. i \<noteq> J) ys"
  by (rule takeWhile_append2) (use zleft_lt in fastforce)

lemma dropWhile_new [edit_simps]:
  "zwf z \<Longrightarrow> zfresh z \<le> iref J \<Longrightarrow>
   dropWhile (\<lambda>i. i \<noteq> J) (zleft z @ ys) = dropWhile (\<lambda>i. i \<noteq> J) ys"
  by (rule dropWhile_append2) (use zleft_lt in fastforce)

end
