(* ===== verification/Numbering.thy ===== *)
theory Numbering
  imports LLVM_IR
begin

text \<open>
  The numbering passes: \<open>LoadStoreNumbering.cpp\<close> and \<open>.h\<close> (\<open>lsnum\<close>, \<open>query-lsnum\<close>,
  \<open>remove-lsnum\<close>), and \<open>print_src_map\<close> and \<open>fence_src_map\<close>, which print numbers with source
  lines. The locale \<open>numbering\<close> is what the other passes rely on.
\<close>

section \<open>LoadStoreNumbering\<close>

text \<open>The instructions the visitor of the numbering pass stops at.\<close>

fun monitored :: "iop \<Rightarrow> bool" where
  "monitored (LoadI p) = True"
| "monitored (StoreI v p) = True"
| "monitored (SelectI c a b) = True"
| "monitored (CallI f as) = True"
| "monitored (RMWI p v) = True"
| "monitored (CmpXchgI p c n) = True"
| "monitored (BranchI c) = (c \<noteq> None)"
| "monitored _ = False"

record num_state =
  count :: u32
  MD :: "(nat \<times> u32) list"

definition assignID :: "inst \<Rightarrow> u32 \<Rightarrow> nat \<times> u32" where
  "assignID I i = (iref I, i)"

definition num_visit :: "inst \<Rightarrow> num_state \<Rightarrow> num_state" where
  "num_visit I s =
     (if monitored (iop I)
      then let s = s\<lparr>count := count s + 1\<rparr> in s\<lparr>MD := MD s @ [assignID I (count s)]\<rparr>
      else s)"

definition LoadStoreNumberPass :: "modl \<Rightarrow> modl" where
  "LoadStoreNumberPass M =
     (let md = (case dgls M of None \<Rightarrow> [] | Some md \<Rightarrow> md);
          s = fold num_visit (all_insts M) \<lparr>count = 0, MD = md\<rparr>
      in M\<lparr>dgls := Some (MD s)\<rparr>)"

definition RemoveLoadStoreNumbers :: "modl \<Rightarrow> bool \<times> modl" where
  "RemoveLoadStoreNumbers M =
     (case dgls M of None \<Rightarrow> (False, M) | Some md \<Rightarrow> (True, M\<lparr>dgls := None\<rparr>))"

record query =
  IDMap :: "nat \<Rightarrow> u32 option"
  InstMap :: "u32 \<Rightarrow> nat option"

definition empty_query :: query where
  "empty_query = \<lparr>IDMap = Map.empty, InstMap = Map.empty\<rparr>"

text \<open>\<open>None\<close> is a failed assertion: a zero identifier or a repeated one.\<close>

fun query_entries :: "(nat \<times> u32) list \<Rightarrow> query \<Rightarrow> query option" where
  "query_entries [] q = Some q"
| "query_entries ((I, i) # md) q =
     (if i = 0 then None
      else let q = q\<lparr>IDMap := (IDMap q)(I \<mapsto> i)\<rparr> in
        if InstMap q i \<noteq> None then None
        else query_entries md (q\<lparr>InstMap := (InstMap q)(i \<mapsto> I)\<rparr>))"

definition QueryLoadStoreNumbers :: "modl \<Rightarrow> query option" where
  "QueryLoadStoreNumbers M =
     (case dgls M of None \<Rightarrow> Some empty_query | Some md \<Rightarrow> query_entries md empty_query)"

definition getID :: "query \<Rightarrow> nat \<Rightarrow> u32" where
  "getID q I = (case IDMap q I of Some i \<Rightarrow> i | None \<Rightarrow> 0)"

definition getInstByID :: "query \<Rightarrow> u32 \<Rightarrow> nat option" where
  "getInstByID q i = InstMap q i"

section \<open>print\_src\_map and fence\_src\_map\<close>

definition locateSrcInfo :: "inst \<Rightarrow> string" where
  "locateSrcInfo I =
     (case iloc I of Some (f, l) \<Rightarrow> f @ '':'' @ to_base 10 l | None \<Rightarrow> ''NIL'')"

fun src_suffix :: "iop \<Rightarrow> string" where
  "src_suffix (LoadI p) = ''load''"
| "src_suffix (StoreI v p) = ''store''"
| "src_suffix (SelectI c a b) = ''select''"
| "src_suffix (CallI f as) = ''call''"
| "src_suffix (RMWI p v) = ''atomic_rmw''"
| "src_suffix (CmpXchgI p c n) = ''atomic_cmp''"
| "src_suffix (BranchI c) = ''br_cond''"
| "src_suffix _ = []"

definition src_map_line :: "inst \<Rightarrow> u32 \<Rightarrow> string" where
  "src_map_line I i =
     to_base 10 (unat i) @ '','' @ locateSrcInfo I @ '','' @ src_suffix (iop I)"

definition print_visit :: "inst \<Rightarrow> u32 \<times> string list \<Rightarrow> u32 \<times> string list" where
  "print_visit I = (\<lambda>(cnt, output).
     if monitored (iop I) then (cnt + 1, output @ [src_map_line I (cnt + 1)]) else (cnt, output))"

definition PrintSrcMap :: "modl \<Rightarrow> string list" where
  "PrintSrcMap M = snd (fold print_visit (all_insts M) (0, []))"

text \<open>
  \<open>stol\<close> on the text of an identifier, then the lookup of its low 32 bits; \<open>None\<close> when \<open>stol\<close>
  throws or no instruction has the number.
\<close>

definition inst_by_ref :: "modl \<Rightarrow> nat \<Rightarrow> inst option" where
  "inst_by_ref M r = find (\<lambda>I. iref I = r) (all_insts M)"

definition stol :: "string \<Rightarrow> int option" where
  "stol s =
     (let t = dropWhile is_space s;
          neg = (t \<noteq> [] \<and> hd t = CHR ''-'');
          u = (if t \<noteq> [] \<and> (hd t = CHR ''-'' \<or> hd t = CHR ''+'') then tl t else t);
          ds = takeWhile (\<lambda>c. case char_digit c of None \<Rightarrow> False | Some d \<Rightarrow> d < 10) u
      in if ds = [] then None
         else case of_digits 10 0 ds of
                None \<Rightarrow> None
              | Some n \<Rightarrow>
                  let r = (if neg then - int n else int n)
                  in if - (2 ^ 63) \<le> r \<and> r < 2 ^ 63 then Some r else None)"

definition fence_line :: "modl \<Rightarrow> query \<Rightarrow> string \<Rightarrow> string option" where
  "fence_line M q id_str =
     Option.bind (stol id_str) (\<lambda>i.
     Option.bind (getInstByID q (word_of_int i)) (\<lambda>r.
     Option.bind (inst_by_ref M r) (\<lambda>I.
       Some ((if i < 0 then ''-'' @ to_base 10 (nat (- i)) else to_base 10 (nat i))
             @ '','' @ locateSrcInfo I))))"

fun fence_lines :: "modl \<Rightarrow> query \<Rightarrow> string list \<Rightarrow> string list option" where
  "fence_lines M q [] = Some []"
| "fence_lines M q (s # ss) =
     Option.bind (fence_line M q s) (\<lambda>l. Option.bind (fence_lines M q ss) (\<lambda>ls. Some (l # ls)))"

text \<open>\<open>getline\<close> with a separator: no entry after a separator at the end.\<close>

definition getlines :: "char \<Rightarrow> string \<Rightarrow> string list" where
  "getlines c s =
     (let parts = split_on c s in if last parts = [] then butlast parts else parts)"

definition FenceSrcMap :: "modl \<Rightarrow> query \<Rightarrow> string \<Rightarrow> string list option" where
  "FenceSrcMap M q FenceIds = fence_lines M q (getlines (CHR '','') FenceIds)"

section \<open>The interface to the other passes\<close>

text \<open>
  Under \<open>ok\<close>, numbering a module and querying the numbers succeeds, the instructions \<open>refs\<close> have
  the numbers from one on, and all others have none.
\<close>

locale numbering =
  fixes ok :: "'m \<Rightarrow> bool"
    and refs :: "'m \<Rightarrow> nat list"
    and number :: "'m \<Rightarrow> 'q option"
    and idof :: "'q \<Rightarrow> nat \<Rightarrow> u32"
    and instof :: "'q \<Rightarrow> u32 \<Rightarrow> nat option"
  assumes number_total: "ok m \<Longrightarrow> \<exists>q. number m = Some q"
    and refs_distinct: "ok m \<Longrightarrow> distinct (refs m)"
    and refs_bound: "ok m \<Longrightarrow> length (refs m) < 2 ^ 32"
    and idof_nth: "ok m \<Longrightarrow> number m = Some q \<Longrightarrow> k < length (refs m) \<Longrightarrow>
      idof q (refs m ! k) = of_nat (Suc k)"
    and idof_other: "ok m \<Longrightarrow> number m = Some q \<Longrightarrow> r \<notin> set (refs m) \<Longrightarrow> idof q r = 0"
    and instof_iff: "ok m \<Longrightarrow> number m = Some q \<Longrightarrow>
      instof q i = Some r \<longleftrightarrow> (\<exists>k<length (refs m). i = of_nat (Suc k) \<and> r = refs m ! k)"
begin

lemma unat_idof:
  assumes "ok m" "number m = Some q" "k < length (refs m)"
  shows "unat (idof q (refs m ! k)) = Suc k"
proof -
  from refs_bound [OF assms(1)] assms(3) have "Suc k < 2 ^ LENGTH(32)" by simp
  then show ?thesis
    unfolding idof_nth [OF assms] unat_of_nat by (rule mod_less)
qed

lemma idof_zero_iff: "ok m \<Longrightarrow> number m = Some q \<Longrightarrow> idof q r = 0 \<longleftrightarrow> r \<notin> set (refs m)"
  by (metis idof_other in_set_conv_nth old.nat.distinct(2) unat_0 unat_idof)

lemma idof_inj: "ok m \<Longrightarrow> number m = Some q \<Longrightarrow> inj_on (idof q) (set (refs m))"
  by (rule inj_onI) (metis in_set_conv_nth nat.inject unat_idof)

lemma instof_idof:
  "ok m \<Longrightarrow> number m = Some q \<Longrightarrow> r \<in> set (refs m) \<Longrightarrow> instof q (idof q r) = Some r"
  by (metis idof_nth in_set_conv_nth instof_iff)

lemma idof_instof: "ok m \<Longrightarrow> number m = Some q \<Longrightarrow> instof q i = Some r \<Longrightarrow> idof q r = i"
  by (auto simp: instof_iff idof_nth)

lemma idof_image:
  "ok m \<Longrightarrow> number m = Some q \<Longrightarrow> map (\<lambda>r. unat (idof q r)) (refs m) = [1..<Suc (length (refs m))]"
  by (rule nth_equalityI) (simp_all add: unat_idof del: upt_Suc)

end

section \<open>The passes provide it\<close>

definition monitored_insts :: "modl \<Rightarrow> inst list" where
  "monitored_insts M = filter (\<lambda>I. monitored (iop I)) (all_insts M)"

definition numberable :: "modl \<Rightarrow> bool" where
  "numberable M \<longleftrightarrow> wf_module M \<and> dgls M = None \<and> length (monitored_insts M) < 2 ^ 32"

definition numbered_query :: "modl \<Rightarrow> query option" where
  "numbered_query M = QueryLoadStoreNumbers (LoadStoreNumberPass M)"

definition entries_from :: "u32 \<Rightarrow> inst list \<Rightarrow> (nat \<times> u32) list" where
  "entries_from c is = map (\<lambda>k. (iref (is ! k), c + of_nat (Suc k))) [0..<length is]"

lemma entries_from_Cons: "entries_from c (I # is) = (iref I, c + 1) # entries_from (c + 1) is"
  by (simp add: entries_from_def upt_conv_Cons map_Suc_upt [symmetric] comp_def add.assoc del: upt_Suc)

lemma fold_num_visit:
  "fold num_visit is s =
     s\<lparr>count := count s + of_nat (length (filter (\<lambda>I. monitored (iop I)) is)),
       MD := MD s @ entries_from (count s) (filter (\<lambda>I. monitored (iop I)) is)\<rparr>"
  by (induction "is" arbitrary: s)
    (simp_all add: num_visit_def Let_def assignID_def entries_from_Cons add.assoc, simp_all add: entries_from_def)

lemma numbered_md:
  "dgls M = None \<Longrightarrow> dgls (LoadStoreNumberPass M) = Some (entries_from 0 (monitored_insts M))"
  by (simp add: LoadStoreNumberPass_def Let_def fold_num_visit monitored_insts_def)

lemma query_entries_ok:
  "\<forall>e\<in>set md. snd e \<noteq> 0 \<Longrightarrow> distinct (map fst md) \<Longrightarrow> distinct (map snd md) \<Longrightarrow>
   snd ` set md \<inter> dom (InstMap q) = {} \<Longrightarrow>
   query_entries md q = Some (q\<lparr>IDMap := IDMap q ++ map_of md,
                                InstMap := InstMap q ++ map_of (map prod.swap md)\<rparr>)"
proof (induction md arbitrary: q)
  case (Cons e md)
  obtain I i where e: "e = (I, i)" by (cases e)
  let ?q = "q\<lparr>IDMap := (IDMap q)(I \<mapsto> i), InstMap := (InstMap q)(i \<mapsto> I)\<rparr>"
  from Cons.prems e have "snd ` set md \<inter> dom (InstMap ?q) = {}" by auto
  with Cons e have "query_entries md ?q = Some (?q\<lparr>IDMap := IDMap ?q ++ map_of md,
      InstMap := InstMap ?q ++ map_of (map prod.swap md)\<rparr>)"
    by simp
  moreover from Cons.prems e have "InstMap q i = None" by auto
  moreover have "map_of md I = None" "map_of (map prod.swap md) i = None"
    using Cons.prems e by (auto simp: map_of_eq_None_iff image_iff)
  then have f: "IDMap q ++ map_of (e # md) = (IDMap q)(I \<mapsto> i) ++ map_of md"
    "InstMap q ++ map_of (map prod.swap (e # md)) = (InstMap q)(i \<mapsto> I) ++ map_of (map prod.swap md)"
    by (auto simp: e map_add_def fun_eq_iff split: option.splits)
  ultimately show ?case unfolding f using Cons.prems(1) by (simp add: e)
qed simp

lemma entries_from_distinct:
  assumes "length is < 2 ^ 32" and "distinct (map iref is)"
  shows "\<forall>e\<in>set (entries_from 0 is). snd e \<noteq> 0" "distinct (map fst (entries_from 0 is))"
    "distinct (map snd (entries_from 0 is))"
proof -
  have u: "unat (of_nat (Suc k) :: u32) = Suc k" if "k < length is" for k
    using that assms(1) unfolding unat_of_nat by (intro mod_less) simp
  show "\<forall>e\<in>set (entries_from 0 is). snd e \<noteq> 0"
    using u by (force simp: entries_from_def simp del: of_nat_Suc)
  have "map fst (entries_from 0 is) = map iref is"
    by (rule nth_equalityI) (simp_all add: entries_from_def)
  with assms(2) show "distinct (map fst (entries_from 0 is))" by simp
  have "inj_on (\<lambda>k. of_nat (Suc k) :: u32) {0..<length is}"
    using u by (intro inj_onI) (metis atLeastLessThan_iff nat.inject)
  then show "distinct (map snd (entries_from 0 is))"
    by (simp add: entries_from_def comp_def distinct_map del: of_nat_Suc)
qed

lemma monitored_refs_distinct: "wf_module M \<Longrightarrow> distinct (map iref (monitored_insts M))"
  by (simp add: wf_module_def monitored_insts_def distinct_map_filter)

lemma numbered_query_eq:
  assumes "numberable M"
  shows "numbered_query M = Some
    \<lparr>IDMap = map_of (entries_from 0 (monitored_insts M)),
     InstMap = map_of (map prod.swap (entries_from 0 (monitored_insts M)))\<rparr>"
proof -
  let ?md = "entries_from 0 (monitored_insts M)"
  from assms have "dgls (LoadStoreNumberPass M) = Some ?md"
    by (simp add: numberable_def numbered_md)
  moreover have "query_entries ?md empty_query = Some (empty_query\<lparr>IDMap := IDMap empty_query ++ map_of ?md,
      InstMap := InstMap empty_query ++ map_of (map prod.swap ?md)\<rparr>)"
    using assms entries_from_distinct [of "monitored_insts M"]
    by (intro query_entries_ok) (auto simp: numberable_def monitored_refs_distinct empty_query_def)
  ultimately show ?thesis
    by (simp add: numbered_query_def QueryLoadStoreNumbers_def empty_query_def)
qed

lemma numbered_IDMap:
  assumes "numberable M" "numbered_query M = Some q" "k < length (monitored_insts M)"
  shows "IDMap q (iref (monitored_insts M ! k)) = Some (of_nat (Suc k))"
proof -
  have "(iref (monitored_insts M ! k), of_nat (Suc k)) \<in> set (entries_from 0 (monitored_insts M))"
    using assms(3) by (auto simp: entries_from_def)
  moreover have "distinct (map fst (entries_from 0 (monitored_insts M)))"
    using assms(1) entries_from_distinct(2) [of "monitored_insts M"]
    by (simp add: numberable_def monitored_refs_distinct)
  moreover have "IDMap q = map_of (entries_from 0 (monitored_insts M))"
    using assms(1,2) by (auto simp: numbered_query_eq)
  ultimately show ?thesis by (simp del: of_nat_Suc)
qed

lemma numbered_InstMap:
  assumes "numberable M" "numbered_query M = Some q"
  shows "InstMap q i = Some r \<longleftrightarrow>
    (\<exists>k<length (monitored_insts M). i = of_nat (Suc k) \<and> r = iref (monitored_insts M ! k))"
proof -
  have "distinct (map fst (map prod.swap (entries_from 0 (monitored_insts M))))"
    using assms(1) entries_from_distinct(3) [of "monitored_insts M"]
    by (simp add: numberable_def monitored_refs_distinct comp_def)
  then have "InstMap q i = Some r \<longleftrightarrow> (i, r) \<in> set (map prod.swap (entries_from 0 (monitored_insts M)))"
    using assms by (auto simp: numbered_query_eq simp del: set_map map_map)
  also have "\<dots> \<longleftrightarrow> (\<exists>k<length (monitored_insts M). i = of_nat (Suc k) \<and> r = iref (monitored_insts M ! k))"
    by (auto simp: entries_from_def)
  finally show ?thesis .
qed

interpretation lsnum: numbering numberable "\<lambda>M. map iref (monitored_insts M)" numbered_query getID
  getInstByID
proof unfold_locales
  fix M q r
  assume "numberable M" "numbered_query M = Some q" "r \<notin> set (map iref (monitored_insts M))"
  then have "IDMap q r = None"
    by (auto simp: numbered_query_eq map_of_eq_None_iff entries_from_def)
  then show "getID q r = 0" by (simp add: getID_def)
qed (auto simp: numberable_def numbered_query_eq getID_def getInstByID_def numbered_IDMap
    numbered_InstMap monitored_refs_distinct simp del: of_nat_Suc)

section \<open>The printed numbers are the recorded ones\<close>

lemma fold_print_visit:
  "fold print_visit is (c, out) =
     (let ms = filter (\<lambda>I. monitored (iop I)) is
      in (c + of_nat (length ms),
          out @ map (\<lambda>k. src_map_line (ms ! k) (c + of_nat (Suc k))) [0..<length ms]))"
  by (induction "is" arbitrary: c out)
    (simp_all add: print_visit_def Let_def upt_conv_Cons map_Suc_upt [symmetric] comp_def add.assoc
      del: upt_Suc)

lemma PrintSrcMap_eq:
  assumes "numberable M" "numbered_query M = Some q"
  shows "PrintSrcMap M = map (\<lambda>I. src_map_line I (getID q (iref I))) (monitored_insts M)"
proof -
  have "getID q (iref (monitored_insts M ! k)) = of_nat (Suc k)" if "k < length (monitored_insts M)" for k
    using lsnum.idof_nth [OF assms, of k] that by simp
  then show ?thesis
    by (intro nth_equalityI)
      (simp_all add: PrintSrcMap_def fold_print_visit Let_def monitored_insts_def [symmetric] del: of_nat_Suc)
qed

lemma of_digits_all:
  "of_digits b acc cs = Some n \<Longrightarrow> \<forall>c\<in>set cs. \<exists>d. char_digit c = Some d \<and> d < b"
  by (induction cs arbitrary: acc) (auto split: option.splits if_splits)

lemma digit_not_sign: "char_digit c \<noteq> None \<Longrightarrow> c \<noteq> CHR ''-'' \<and> c \<noteq> CHR ''+'' \<and> c \<noteq> CHR '','' \<and> \<not> is_space c"
  by (auto simp: char_digit_def digit_chars_def upt_rec is_space_def split: if_splits)

lemma to_base_digits:
  "c \<in> set (to_base 10 n) \<Longrightarrow> \<exists>d. char_digit c = Some d \<and> d < 10"
  using of_digits_all [OF of_digits_to_base [of 10 n]] by simp

lemma stol_to_base:
  assumes "n < 2 ^ 63"
  shows "stol (to_base 10 n) = Some (int n)"
proof -
  let ?t = "to_base 10 n"
  have ne: "?t \<noteq> []" by (rule to_base_nonempty)
  then have "hd ?t \<in> set ?t" by simp
  then have hd: "hd ?t \<noteq> CHR ''-''" "hd ?t \<noteq> CHR ''+''" "\<not> is_space (hd ?t)"
    using to_base_digits digit_not_sign by fastforce+
  then have "dropWhile is_space ?t = ?t" using ne by (cases ?t) simp_all
  moreover have "takeWhile (\<lambda>c. case char_digit c of None \<Rightarrow> False | Some d \<Rightarrow> d < 10) ?t = ?t"
    using to_base_digits by (fastforce simp: takeWhile_eq_all_conv)
  ultimately show ?thesis
    using ne hd assms by (simp add: stol_def Let_def of_digits_to_base del: takeWhile_eq_all_conv)
qed

definition id_text :: "query \<Rightarrow> inst \<Rightarrow> string" where
  "id_text q I = to_base 10 (unat (getID q (iref I)))"

lemma inst_by_ref_eq: "wf_module M \<Longrightarrow> I \<in> set (all_insts M) \<Longrightarrow> inst_by_ref M (iref I) = Some I"
  unfolding inst_by_ref_def
proof (cases "find (\<lambda>J. iref J = iref I) (all_insts M)")
  case None
  assume "I \<in> set (all_insts M)"
  with None show "find (\<lambda>J. iref J = iref I) (all_insts M) = Some I" by (auto simp: find_None_iff)
next
  case (Some J)
  assume wf: "wf_module M" and I: "I \<in> set (all_insts M)"
  from Some have "J \<in> set (all_insts M)" "iref J = iref I" by (auto simp: find_Some_iff)
  with inst_eq_by_ref [OF wf] I have "J = I" by blast
  with Some show "find (\<lambda>J. iref J = iref I) (all_insts M) = Some I" by simp
qed

lemma fence_line_eq:
  assumes "numberable M" "numbered_query M = Some q" "I \<in> set (monitored_insts M)"
  shows "fence_line M q (id_text q I) = Some (id_text q I @ '','' @ locateSrcInfo I)"
proof -
  let ?i = "getID q (iref I)"
  have "unat ?i < 2 ^ LENGTH(32)" by (rule unsigned_less)
  then have "stol (id_text q I) = Some (int (unat ?i))"
    unfolding id_text_def by (intro stol_to_base) simp
  moreover have "word_of_int (int (unat ?i)) = ?i" by simp
  moreover have "getInstByID q ?i = Some (iref I)"
    using lsnum.instof_idof [OF assms(1,2), of "iref I"] assms(3) by simp
  moreover have "inst_by_ref M (iref I) = Some I"
    using assms by (intro inst_by_ref_eq) (auto simp: numberable_def monitored_insts_def)
  ultimately show ?thesis by (simp add: fence_line_def id_text_def)
qed

lemma getlines_join:
  assumes "xs \<noteq> []" "\<forall>x\<in>set xs. x \<noteq> [] \<and> c \<notin> set x"
  shows "getlines c (join_with c xs) = xs"
proof -
  have "split_on c (join_with c xs) = xs" using assms by (intro split_on_join) auto
  with assms show ?thesis by (simp add: getlines_def Let_def)
qed

lemma FenceSrcMap_eq:
  assumes "numberable M" "numbered_query M = Some q" "set is \<subseteq> set (monitored_insts M)" "is \<noteq> []"
  shows "FenceSrcMap M q (join_with (CHR '','') (map (id_text q) is)) =
    Some (map (\<lambda>I. id_text q I @ '','' @ locateSrcInfo I) is)"
proof -
  have "x \<noteq> [] \<and> CHR '','' \<notin> set x" if "x \<in> set (map (id_text q) is)" for x
    using that to_base_digits digit_not_sign [of "CHR '',''"] by (auto simp: id_text_def)
  with assms(4) have "getlines (CHR '','') (join_with (CHR '','') (map (id_text q) is)) = map (id_text q) is"
    by (intro getlines_join) auto
  moreover have "fence_lines M q (map (id_text q) is) = Some (map (\<lambda>I. id_text q I @ '','' @ locateSrcInfo I) is)"
    using assms(3) by (induction "is") (simp_all add: fence_line_eq [OF assms(1,2)])
  ultimately show ?thesis by (simp add: FenceSrcMap_def)
qed

section \<open>Numbering twice\<close>

lemma query_entries_repeat:
  "InstMap q i \<noteq> None \<Longrightarrow> (I, i) \<in> set md \<Longrightarrow> query_entries md q = None"
proof (induction md arbitrary: q)
  case (Cons e md)
  obtain J j where "e = (J, j)" by (cases e)
  with Cons show ?case by (cases "i = j") (auto simp: Let_def)
qed simp

lemma query_entries_append:
  "query_entries (xs @ ys) q = Option.bind (query_entries xs q) (query_entries ys)"
  by (induction xs arbitrary: q) (auto simp: Let_def)

lemma query_entries_dom:
  "query_entries md q = Some q' \<Longrightarrow> dom (InstMap q') = dom (InstMap q) \<union> snd ` set md"
proof (induction md arbitrary: q)
  case (Cons e md)
  obtain I i where e: "e = (I, i)" by (cases e)
  from Cons.prems e have "query_entries md (q\<lparr>IDMap := (IDMap q)(I \<mapsto> i), InstMap := (InstMap q)(i \<mapsto> I)\<rparr>) = Some q'"
    by (simp add: Let_def split: if_splits)
  from Cons.IH [OF this] e show ?case by auto
qed simp

lemma query_twice:
  assumes "dgls M = None" "monitored_insts M \<noteq> []"
  shows "QueryLoadStoreNumbers (LoadStoreNumberPass (LoadStoreNumberPass M)) = None"
proof -
  let ?md = "entries_from 0 (monitored_insts M)"
  have "all_insts (LoadStoreNumberPass M) = all_insts M"
    by (simp add: LoadStoreNumberPass_def Let_def all_insts_def)
  then have "dgls (LoadStoreNumberPass (LoadStoreNumberPass M)) = Some (?md @ ?md)"
    using numbered_md [OF assms(1)]
    by (simp add: LoadStoreNumberPass_def [of "LoadStoreNumberPass M"] Let_def fold_num_visit monitored_insts_def)
  moreover obtain I i where "(I, i) \<in> set ?md"
    using assms(2) by (fastforce simp: entries_from_def)
  then have "query_entries ?md q = None" if "query_entries ?md empty_query = Some q" for q
    using query_entries_dom [OF that] by (intro query_entries_repeat [of q i I]) force+
  then have "query_entries (?md @ ?md) empty_query = None"
    by (cases "query_entries ?md empty_query") (simp_all add: query_entries_append)
  ultimately show ?thesis by (simp add: QueryLoadStoreNumbers_def)
qed

end
