(* ===== verification/Tracer_Pass.thy ===== *)
theory Tracer_Pass
  imports Block_Edit Numbering "HOL-Library.Monad_Syntax"
begin

text \<open>
  The instrumentation pass, \<open>tracer_pass.cpp\<close>: one definition per visitor, editing the block in
  the order of the code. \<open>None\<close> is a failed assertion, of the pass or of LLVM, or an operand or block
  that does not exist. The names of values and the statistics counters are left out.
\<close>

text \<open>
  What a visitor uses: the callees that \<open>doInitialization\<close> has looked up, which functions are only
  declared, the numbers, LLVM's \<open>getTypeStoreSize\<close>, \<open>__cxa_demangle\<close> and \<open>print\<close>, and what LLVM asserts
  when an instruction is made: of the two types of a cast, of the types of a function pointer and of
  the arguments it is called with, and of the types of two factors. All three are always true when LLVM
  is built without its assertions.
\<close>

record tp_env =
  callee :: "string \<Rightarrow> val"
  declared :: "string \<Rightarrow> bool"
  numbers :: query
  getTypeStoreSize :: "ty \<Rightarrow> nat"
  demangle :: "string \<Rightarrow> string option"
  print_inst :: "inst \<Rightarrow> string"
  castIsValid :: "ty \<Rightarrow> ty \<Rightarrow> bool"
  callIsValid :: "ty \<Rightarrow> ty list \<Rightarrow> bool"
  mulIsValid :: "ty \<Rightarrow> ty \<Rightarrow> bool"

section \<open>Building blocks\<close>

definition callable :: "tp_env \<Rightarrow> string \<Rightarrow> val list \<Rightarrow> bool" where
  "callable E f args \<longleftrightarrow> callIsValid E (type_of (callee E f)) (map type_of args)"

definition call_before :: "tp_env \<Rightarrow> string \<Rightarrow> val list \<Rightarrow> inst \<Rightarrow> edit \<Rightarrow> (inst \<times> edit) option" where
  "call_before E f args I s =
     (if callable E f args then Some (create_before (CallI (callee E f) args) VoidTy I s) else None)"

definition call_after :: "tp_env \<Rightarrow> string \<Rightarrow> val list \<Rightarrow> inst \<Rightarrow> edit \<Rightarrow> (inst \<times> edit) option" where
  "call_after E f args I s =
     (if callable E f args then Some (create_after (CallI (callee E f) args) VoidTy I s) else None)"

definition create_mul :: "tp_env \<Rightarrow> val \<Rightarrow> val \<Rightarrow> inst \<Rightarrow> edit \<Rightarrow> (inst \<times> edit) option" where
  "create_mul E a b I s =
     (if mulIsValid E (type_of a) (type_of b) then Some (create_before (MulI a b) (type_of a) I s) else None)"

definition inst_id :: "tp_env \<Rightarrow> inst \<Rightarrow> val" where
  "inst_id E I = const_id (getID (numbers E) (iref I))"

definition instrumentLock :: "tp_env \<Rightarrow> inst \<Rightarrow> edit \<Rightarrow> edit option" where
  "instrumentLock E I s =
     (let (Name, s) = stringToGV (print_inst E I) s;
          Name = CCast Name VoidPtrType
      in map_option snd (call_before E ''locking'' [Name] I s))"

definition instrumentUnlock :: "tp_env \<Rightarrow> inst \<Rightarrow> edit \<Rightarrow> edit option" where
  "instrumentUnlock E I s =
     (let (Name, s) = stringToGV (print_inst E I) s;
          Name = CCast Name VoidPtrType
      in map_option snd (call_after E ''unlocking'' [Name] I s))"

section \<open>Branches, loads, stores\<close>

definition visitBranchInst :: "tp_env \<Rightarrow> inst \<Rightarrow> val option \<Rightarrow> edit \<Rightarrow> edit option" where
  "visitBranchInst E BI cond s =
     (if cond = None then Some s
      else let BrID = inst_id E BI
           in map_option snd (call_before E ''recordBr'' [BrID] BI s))"

definition visitLoadInst :: "tp_env \<Rightarrow> inst \<Rightarrow> val \<Rightarrow> edit \<Rightarrow> edit option" where
  "visitLoadInst E LI ptr s =
     do {
       s \<leftarrow> instrumentLock E LI s;
       let LoadID = inst_id E LI;
       (Pointer, s) \<leftarrow> castTo (castIsValid E) ptr VoidPtrType LI s;
       let LoadSize = const_int 64 (int (getTypeStoreSize E (ity LI)));
       (rec, s) \<leftarrow> call_before E ''recordLoad'' [LoadID, Pointer, LoadSize] LI s;
       instrumentUnlock E LI s
     }"

definition visitStoreInst :: "tp_env \<Rightarrow> inst \<Rightarrow> val \<Rightarrow> val \<Rightarrow> edit \<Rightarrow> edit option" where
  "visitStoreInst E SI v ptr s =
     do {
       s \<leftarrow> instrumentLock E SI s;
       (Pointer, s) \<leftarrow> castTo (castIsValid E) ptr VoidPtrType SI s;
       let StoreSize = const_int 64 (int (getTypeStoreSize E (type_of v)));
       let StoreID = inst_id E SI;
       (recStore, s) \<leftarrow> call_before E ''recordStore'' [StoreID, Pointer, StoreSize] SI s;
       s \<leftarrow> instrumentUnlock E SI s;
       Some (moveBefore SI recStore s)
     }"

definition visitAtomicRMWInst :: "tp_env \<Rightarrow> inst \<Rightarrow> val \<Rightarrow> val \<Rightarrow> edit \<Rightarrow> edit option" where
  "visitAtomicRMWInst E AI ptr v s =
     do {
       s \<leftarrow> instrumentLock E AI s;
       (Pointer, s) \<leftarrow> castTo (castIsValid E) ptr VoidPtrType AI s;
       let StoreSize = const_int 64 (int (getTypeStoreSize E (type_of v)));
       let StoreID = inst_id E AI;
       (recStore, s) \<leftarrow> call_before E ''recordAtomicStore'' [StoreID, Pointer, StoreSize] AI s;
       s \<leftarrow> instrumentUnlock E AI s;
       Some (moveBefore AI recStore s)
     }"

definition visitAtomicCmpXchgInst :: "tp_env \<Rightarrow> inst \<Rightarrow> val \<Rightarrow> val \<Rightarrow> edit \<Rightarrow> edit option" where
  "visitAtomicCmpXchgInst E AI ptr new s =
     do {
       s \<leftarrow> instrumentLock E AI s;
       (Pointer, s) \<leftarrow> castTo (castIsValid E) ptr VoidPtrType AI s;
       (NewValOp, s) \<leftarrow> castTo (castIsValid E) new Int64Type AI s;
       let StoreSize = const_int 64 (int (getTypeStoreSize E (type_of new)));
       let StoreID = inst_id E AI;
       (recCAS, s) \<leftarrow> call_before E ''recordCAS'' [StoreID, Pointer, NewValOp, StoreSize] AI s;
       s \<leftarrow> instrumentUnlock E AI s;
       Some (moveBefore AI recCAS s)
     }"

section \<open>Inline assembly\<close>

fun contains :: "string \<Rightarrow> string \<Rightarrow> bool" where
  "contains pat [] \<longleftrightarrow> pat = []"
| "contains pat (c # cs) \<longleftrightarrow> take (length pat) (c # cs) = pat \<or> contains pat cs"

definition visitInlineAsm :: "tp_env \<Rightarrow> inst \<Rightarrow> string \<Rightarrow> edit \<Rightarrow> (bool \<times> edit) option" where
  "visitInlineAsm E CI asm_str s =
     (let n = length (call_args (iop CI)) in
      if contains ''clflush $0'' asm_str \<or> contains ''xsaveopt $0'' asm_str then
        (if \<not> (n = 1 \<or> n = 2) then None
         else do {
           s \<leftarrow> instrumentLock E CI s;
           p \<leftarrow> getArgOperand CI 0;
           (Pointer, s) \<leftarrow> castTo (castIsValid E) p VoidPtrType CI s;
           let CallID = inst_id E CI;
           (recFlush, s) \<leftarrow> call_before E ''recordFlush'' [CallID, Pointer] CI s;
           s \<leftarrow> instrumentUnlock E recFlush s;
           Some (True, moveBefore CI recFlush s)
         })
      else if contains ''mfence'' asm_str then
        (if n \<noteq> 0 then None
         else do {
           s \<leftarrow> instrumentLock E CI s;
           let CallID = inst_id E CI;
           (recFence, s) \<leftarrow> call_before E ''recordFence'' [CallID] CI s;
           s \<leftarrow> instrumentUnlock E recFence s;
           Some (True, moveBefore CI recFence s)
         })
      else if contains ''xchgq $0,$1'' asm_str then
        (if n \<noteq> 2 then None
         else do {
           s \<leftarrow> instrumentLock E CI s;
           p \<leftarrow> getOperand CI 0;
           (Pointer, s) \<leftarrow> castTo (castIsValid E) p VoidPtrType CI s;
           let StoreSize = const_int 64 (int (getTypeStoreSize E (type_of p)));
           let StoreID = inst_id E CI;
           (recStore, s) \<leftarrow> call_before E ''recordStore'' [StoreID, Pointer, StoreSize] CI s;
           s \<leftarrow> instrumentUnlock E CI s;
           Some (True, moveBefore CI recStore s)
         })
      else Some (False, s))"

section \<open>Known external functions\<close>

fun sprintf_loads :: "tp_env \<Rightarrow> val \<Rightarrow> inst \<Rightarrow> val list \<Rightarrow> edit \<Rightarrow> edit option" where
  "sprintf_loads E CallID CI [] s = Some s"
| "sprintf_loads E CallID CI (Ptr # ops) s =
     do {
       s \<leftarrow> (if type_of Ptr = VoidPtrType
             then map_option snd (call_before E ''recordStrLoad'' [CallID, Ptr] CI s) else Some s);
       sprintf_loads E CallID CI ops s
     }"

definition special_memset :: "tp_env \<Rightarrow> inst \<Rightarrow> edit \<Rightarrow> (bool \<times> edit) option" where
  "special_memset E CI s =
     do {
       s \<leftarrow> instrumentLock E CI s;
       dst \<leftarrow> getOperand CI 0;
       (dstPointer, s) \<leftarrow> castTo (castIsValid E) dst VoidPtrType CI s;
       NumElts \<leftarrow> getOperand CI 2;
       let CallID = inst_id E CI;
       (recStore, s) \<leftarrow> call_before E ''recordStore'' [CallID, dstPointer, NumElts] CI s;
       s \<leftarrow> instrumentUnlock E CI s;
       Some (True, moveBefore CI recStore s)
     }"

definition special_copy :: "tp_env \<Rightarrow> inst \<Rightarrow> string \<Rightarrow> edit \<Rightarrow> (bool \<times> edit) option" where
  "special_copy E CI name s =
     do {
       s \<leftarrow> instrumentLock E CI s;
       dst \<leftarrow> getOperand CI 0;
       src \<leftarrow> getOperand CI 1;
       (dstPointer, s) \<leftarrow> castTo (castIsValid E) dst VoidPtrType CI s;
       (srcPointer, s) \<leftarrow> castTo (castIsValid E) src VoidPtrType CI s;
       let CallID = inst_id E CI;
       (if name = ''strcpy'' then
          do {
            (rec, s) \<leftarrow> call_before E ''recordStrLoad'' [CallID, srcPointer] CI s;
            (recStore, s) \<leftarrow> call_before E ''recordStrStore'' [CallID, dstPointer] CI s;
            s \<leftarrow> instrumentUnlock E CI s;
            Some (True, moveBefore CI recStore s)
          }
        else
          do {
            NumElts \<leftarrow> getOperand CI 2;
            (rec, s) \<leftarrow> call_before E ''recordLoad'' [CallID, srcPointer, NumElts] CI s;
            (recStore, s) \<leftarrow> call_before E ''recordStore'' [CallID, dstPointer, NumElts] CI s;
            s \<leftarrow> instrumentUnlock E CI s;
            Some (True, moveBefore CI recStore s)
          })
     }"

definition special_strncpy :: "tp_env \<Rightarrow> inst \<Rightarrow> edit \<Rightarrow> (bool \<times> edit) option" where
  "special_strncpy E CI s =
     do {
       s \<leftarrow> instrumentLock E CI s;
       dst \<leftarrow> getOperand CI 0;
       src \<leftarrow> getOperand CI 1;
       (dstPointer, s) \<leftarrow> castTo (castIsValid E) dst VoidPtrType CI s;
       (srcPointer, s) \<leftarrow> castTo (castIsValid E) src VoidPtrType CI s;
       let CallID = inst_id E CI;
       (rec, s) \<leftarrow> call_before E ''recordStrLoad'' [CallID, srcPointer] CI s;
       (recStore, s) \<leftarrow> call_before E ''recordStrStore'' [CallID, dstPointer] CI s;
       s \<leftarrow> instrumentUnlock E CI s;
       Some (True, moveBefore CI recStore s)
     }"

definition special_strcat :: "tp_env \<Rightarrow> inst \<Rightarrow> edit \<Rightarrow> (bool \<times> edit) option" where
  "special_strcat E CI s =
     do {
       s \<leftarrow> instrumentLock E CI s;
       dst \<leftarrow> getOperand CI 0;
       src \<leftarrow> getOperand CI 1;
       (dstPointer, s) \<leftarrow> castTo (castIsValid E) dst VoidPtrType CI s;
       (srcPointer, s) \<leftarrow> castTo (castIsValid E) src VoidPtrType CI s;
       let CallID = inst_id E CI;
       (rec, s) \<leftarrow> call_before E ''recordStrLoad'' [CallID, dstPointer] CI s;
       (rec, s) \<leftarrow> call_before E ''recordStrLoad'' [CallID, srcPointer] CI s;
       (recStore, s) \<leftarrow> call_before E ''recordStrcatStore'' [CallID, dstPointer, srcPointer] CI s;
       s \<leftarrow> instrumentUnlock E CI s;
       Some (True, moveBefore CI recStore s)
     }"

definition special_strlen :: "tp_env \<Rightarrow> inst \<Rightarrow> edit \<Rightarrow> (bool \<times> edit) option" where
  "special_strlen E CI s =
     do {
       s \<leftarrow> instrumentLock E CI s;
       src \<leftarrow> getOperand CI 0;
       (srcPointer, s) \<leftarrow> castTo (castIsValid E) src VoidPtrType CI s;
       let CallID = inst_id E CI;
       (rec, s) \<leftarrow> call_before E ''recordStrLoad'' [CallID, srcPointer] CI s;
       s \<leftarrow> instrumentUnlock E CI s;
       Some (True, s)
     }"

definition special_strcmp :: "tp_env \<Rightarrow> inst \<Rightarrow> edit \<Rightarrow> (bool \<times> edit) option" where
  "special_strcmp E CI s =
     do {
       s \<leftarrow> instrumentLock E CI s;
       p0 \<leftarrow> getOperand CI 0;
       p1 \<leftarrow> getOperand CI 1;
       (strCmpPtr0, s) \<leftarrow> castTo (castIsValid E) p0 VoidPtrType CI s;
       (strCmpPtr1, s) \<leftarrow> castTo (castIsValid E) p1 VoidPtrType CI s;
       let CallID = inst_id E CI;
       (rec, s) \<leftarrow> call_before E ''recordStrLoad'' [CallID, strCmpPtr0] CI s;
       (rec, s) \<leftarrow> call_before E ''recordStrLoad'' [CallID, strCmpPtr1] CI s;
       s \<leftarrow> instrumentUnlock E CI s;
       Some (True, s)
     }"

definition special_calloc :: "tp_env \<Rightarrow> inst \<Rightarrow> edit \<Rightarrow> (bool \<times> edit) option" where
  "special_calloc E CI s =
     do {
       s \<leftarrow> instrumentLock E CI s;
       a \<leftarrow> getOperand CI 0;
       b \<leftarrow> getOperand CI 1;
       (NumElts, s) \<leftarrow> create_mul E a b CI s;
       (dstPointer, s) \<leftarrow> castTo (castIsValid E) (value_of CI) VoidPtrType CI s;
       let CallID = inst_id E CI;
       (recStore, s) \<leftarrow> call_before E ''recordStore'' [CallID, dstPointer, value_of NumElts] CI s;
       s \<leftarrow> instrumentUnlock E CI s;
       let s = moveBefore CI recStore s;
       Some (True, moveBefore CI NumElts s)
     }"

definition special_sprintf :: "tp_env \<Rightarrow> inst \<Rightarrow> edit \<Rightarrow> (bool \<times> edit) option" where
  "special_sprintf E CI s =
     do {
       s \<leftarrow> instrumentLock E CI s;
       dst \<leftarrow> getOperand CI 0;
       (dstPointer, s) \<leftarrow> castTo (castIsValid E) dst VoidPtrType CI s;
       let CallID = inst_id E CI;
       s \<leftarrow> sprintf_loads E CallID CI (drop 2 (operands (iop CI))) s;
       (recStore, s) \<leftarrow> call_before E ''recordStrStore'' [CallID, dstPointer] CI s;
       s \<leftarrow> instrumentUnlock E CI s;
       Some (True, moveBefore CI recStore s)
     }"

definition special_fgets :: "tp_env \<Rightarrow> inst \<Rightarrow> edit \<Rightarrow> (bool \<times> edit) option" where
  "special_fgets E CI s =
     do {
       s \<leftarrow> instrumentLock E CI s;
       dst \<leftarrow> getOperand CI 0;
       (dstPointer, s) \<leftarrow> castTo (castIsValid E) dst VoidPtrType CI s;
       let CallID = inst_id E CI;
       (recStore, s) \<leftarrow> call_before E ''recordStrStore'' [CallID, dstPointer] CI s;
       s \<leftarrow> instrumentUnlock E CI s;
       Some (True, moveBefore CI recStore s)
     }"

definition special_snprintf :: "tp_env \<Rightarrow> inst \<Rightarrow> edit \<Rightarrow> (bool \<times> edit) option" where
  "special_snprintf E CI s =
     do {
       s \<leftarrow> instrumentLock E CI s;
       dst \<leftarrow> getOperand CI 0;
       (dstPointer, s) \<leftarrow> castTo (castIsValid E) dst VoidPtrType CI s;
       NumElts \<leftarrow> getOperand CI 1;
       let CallID = inst_id E CI;
       (recStore, s) \<leftarrow> call_before E ''recordStore'' [CallID, dstPointer, NumElts] CI s;
       s \<leftarrow> instrumentUnlock E CI s;
       Some (True, moveBefore CI recStore s)
     }"

definition visitSpecialCall :: "tp_env \<Rightarrow> inst \<Rightarrow> string \<Rightarrow> edit \<Rightarrow> (bool \<times> edit) option" where
  "visitSpecialCall E CI name s =
     (if take 12 name = ''llvm.memset.'' then special_memset E CI s
      else if take 12 name = ''llvm.memcpy.'' \<or> take 13 name = ''llvm.memmove.'' \<or> name = ''strcpy'' then special_copy E CI name s
      else if name = ''strncpy'' \<or> name = ''__strncpy_chk'' then special_strncpy E CI s
      else if name = ''strcat'' then special_strcat E CI s
      else if name = ''strlen'' then special_strlen E CI s
      else if name = ''strcmp'' then special_strcmp E CI s
      else if name = ''calloc'' then special_calloc E CI s
      else if name = ''sprintf'' then special_sprintf E CI s
      else if name = ''fgets'' then special_fgets E CI s
      else if name = ''snprintf'' then special_snprintf E CI s
      else Some (False, s))"

section \<open>libpmem\<close>

definition pmem_flush_call :: "tp_env \<Rightarrow> inst \<Rightarrow> edit \<Rightarrow> (bool \<times> edit) option" where
  "pmem_flush_call E CI s =
     do {
       s \<leftarrow> instrumentLock E CI s;
       p \<leftarrow> getArgOperand CI 0;
       (Pointer, s) \<leftarrow> castTo (castIsValid E) p VoidPtrType CI s;
       NumElts \<leftarrow> getOperand CI 1;
       let CallID = inst_id E CI;
       (recFlush, s) \<leftarrow> call_before E ''recordFlushWrapper'' [CallID, Pointer, NumElts] CI s;
       s \<leftarrow> instrumentUnlock E CI s;
       Some (True, moveBefore CI recFlush s)
     }"

definition pmem_drain_call :: "tp_env \<Rightarrow> inst \<Rightarrow> edit \<Rightarrow> (bool \<times> edit) option" where
  "pmem_drain_call E CI s =
     do {
       s \<leftarrow> instrumentLock E CI s;
       let CallID = inst_id E CI;
       (recFence, s) \<leftarrow> call_before E ''recordFence'' [CallID] CI s;
       s \<leftarrow> instrumentUnlock E CI s;
       Some (True, moveBefore CI recFence s)
     }"

definition pmem_persist_call :: "tp_env \<Rightarrow> inst \<Rightarrow> edit \<Rightarrow> (bool \<times> edit) option" where
  "pmem_persist_call E CI s =
     do {
       s \<leftarrow> instrumentLock E CI s;
       p \<leftarrow> getArgOperand CI 0;
       (Pointer, s) \<leftarrow> castTo (castIsValid E) p VoidPtrType CI s;
       NumElts \<leftarrow> getOperand CI 1;
       let CallID = inst_id E CI;
       (recFlush, s) \<leftarrow> call_before E ''recordFlushWrapper'' [CallID, Pointer, NumElts] CI s;
       (recFence, s) \<leftarrow> call_before E ''recordFence'' [CallID] CI s;
       s \<leftarrow> instrumentUnlock E CI s;
       Some (True, moveBefore CI recFlush s)
     }"

definition pmem_copy_nodrain_call :: "tp_env \<Rightarrow> inst \<Rightarrow> edit \<Rightarrow> (bool \<times> edit) option" where
  "pmem_copy_nodrain_call E CI s =
     do {
       s \<leftarrow> instrumentLock E CI s;
       dst \<leftarrow> getOperand CI 0;
       src \<leftarrow> getOperand CI 1;
       (dstPointer, s) \<leftarrow> castTo (castIsValid E) dst VoidPtrType CI s;
       (srcPointer, s) \<leftarrow> castTo (castIsValid E) src VoidPtrType CI s;
       let CallID = inst_id E CI;
       NumElts \<leftarrow> getOperand CI 2;
       (recLoad, s) \<leftarrow> call_before E ''recordLoad'' [CallID, srcPointer, NumElts] CI s;
       (recStore, s) \<leftarrow> call_before E ''recordStore'' [CallID, dstPointer, NumElts] CI s;
       (recFlush, s) \<leftarrow> call_before E ''recordFlushWrapper'' [CallID, dstPointer, NumElts] CI s;
       s \<leftarrow> instrumentUnlock E CI s;
       Some (True, moveBefore CI recStore s)
     }"

definition pmem_copy_persist_call :: "tp_env \<Rightarrow> inst \<Rightarrow> edit \<Rightarrow> (bool \<times> edit) option" where
  "pmem_copy_persist_call E CI s =
     do {
       s \<leftarrow> instrumentLock E CI s;
       dst \<leftarrow> getOperand CI 0;
       src \<leftarrow> getOperand CI 1;
       (dstPointer, s) \<leftarrow> castTo (castIsValid E) dst VoidPtrType CI s;
       (srcPointer, s) \<leftarrow> castTo (castIsValid E) src VoidPtrType CI s;
       let CallID = inst_id E CI;
       NumElts \<leftarrow> getOperand CI 2;
       (recLoad, s) \<leftarrow> call_before E ''recordLoad'' [CallID, srcPointer, NumElts] CI s;
       (recStore, s) \<leftarrow> call_before E ''recordStore'' [CallID, dstPointer, NumElts] CI s;
       (recFlush, s) \<leftarrow> call_before E ''recordFlushWrapper'' [CallID, dstPointer, NumElts] CI s;
       (recFence, s) \<leftarrow> call_before E ''recordFence'' [CallID] CI s;
       s \<leftarrow> instrumentUnlock E CI s;
       Some (True, moveBefore CI recStore s)
     }"

definition pmem_copy_call :: "tp_env \<Rightarrow> inst \<Rightarrow> edit \<Rightarrow> (bool \<times> edit) option" where
  "pmem_copy_call E CI s =
     do {
       s \<leftarrow> instrumentLock E CI s;
       dst \<leftarrow> getOperand CI 0;
       src \<leftarrow> getOperand CI 1;
       (dstPointer, s) \<leftarrow> castTo (castIsValid E) dst VoidPtrType CI s;
       (srcPointer, s) \<leftarrow> castTo (castIsValid E) src VoidPtrType CI s;
       let CallID = inst_id E CI;
       NumElts \<leftarrow> getOperand CI 2;
       (recLoad, s) \<leftarrow> call_before E ''recordLoad'' [CallID, srcPointer, NumElts] CI s;
       (recStore, s) \<leftarrow> call_before E ''recordStore'' [CallID, dstPointer, NumElts] CI s;
       s \<leftarrow> instrumentUnlock E CI s;
       Some (True, moveBefore CI recStore s)
     }"

definition pmem_set_nodrain_call :: "tp_env \<Rightarrow> inst \<Rightarrow> edit \<Rightarrow> (bool \<times> edit) option" where
  "pmem_set_nodrain_call E CI s =
     do {
       s \<leftarrow> instrumentLock E CI s;
       dst \<leftarrow> getOperand CI 0;
       (dstPointer, s) \<leftarrow> castTo (castIsValid E) dst VoidPtrType CI s;
       NumElts \<leftarrow> getOperand CI 2;
       let CallID = inst_id E CI;
       (recStore, s) \<leftarrow> call_before E ''recordStore'' [CallID, dstPointer, NumElts] CI s;
       (recFlush, s) \<leftarrow> call_before E ''recordFlushWrapper'' [CallID, dstPointer, NumElts] CI s;
       s \<leftarrow> instrumentUnlock E CI s;
       Some (True, moveBefore CI recStore s)
     }"

definition pmem_set_persist_call :: "tp_env \<Rightarrow> inst \<Rightarrow> edit \<Rightarrow> (bool \<times> edit) option" where
  "pmem_set_persist_call E CI s =
     do {
       s \<leftarrow> instrumentLock E CI s;
       dst \<leftarrow> getOperand CI 0;
       (dstPointer, s) \<leftarrow> castTo (castIsValid E) dst VoidPtrType CI s;
       NumElts \<leftarrow> getOperand CI 2;
       let CallID = inst_id E CI;
       (recStore, s) \<leftarrow> call_before E ''recordStore'' [CallID, dstPointer, NumElts] CI s;
       (recFlush, s) \<leftarrow> call_before E ''recordFlushWrapper'' [CallID, dstPointer, NumElts] CI s;
       (recFence, s) \<leftarrow> call_before E ''recordFence'' [CallID] CI s;
       s \<leftarrow> instrumentUnlock E CI s;
       Some (True, moveBefore CI recStore s)
     }"

definition pmem_set_call :: "tp_env \<Rightarrow> inst \<Rightarrow> edit \<Rightarrow> (bool \<times> edit) option" where
  "pmem_set_call E CI s =
     do {
       s \<leftarrow> instrumentLock E CI s;
       dst \<leftarrow> getOperand CI 0;
       (dstPointer, s) \<leftarrow> castTo (castIsValid E) dst VoidPtrType CI s;
       NumElts \<leftarrow> getOperand CI 2;
       let CallID = inst_id E CI;
       (recStore, s) \<leftarrow> call_before E ''recordStore'' [CallID, dstPointer, NumElts] CI s;
       s \<leftarrow> instrumentUnlock E CI s;
       Some (True, moveBefore CI recStore s)
     }"

definition visitPmemCall :: "tp_env \<Rightarrow> inst \<Rightarrow> string \<Rightarrow> edit \<Rightarrow> (bool \<times> edit) option" where
  "visitPmemCall E CI name s =
     (if name = ''pmem_flush'' then pmem_flush_call E CI s
      else if name = ''pmem_drain'' then pmem_drain_call E CI s
      else if name = ''pmem_persist'' \<or> name = ''pmem_msync'' then pmem_persist_call E CI s
      else if name = ''pmem_memmove_nodrain'' \<or> name = ''pmem_memcpy_nodrain'' then
        pmem_copy_nodrain_call E CI s
      else if name = ''pmem_memmove_persist'' \<or> name = ''pmem_memcpy_persist'' then
        pmem_copy_persist_call E CI s
      else if name = ''pmem_memmove'' \<or> name = ''pmem_memcpy'' then pmem_copy_call E CI s
      else if name = ''pmem_memset_nodrain'' then pmem_set_nodrain_call E CI s
      else if name = ''pmem_memset_persist'' then pmem_set_persist_call E CI s
      else if name = ''pmem_memset'' then pmem_set_call E CI s
      else Some (False, s))"

section \<open>Locks, mappings, calls\<close>

definition lock_functions :: "string list" where
  "lock_functions =
     [''pthread_rwlock_wrlock'', ''pthread_rwlock_trywrlock'', ''pthread_rwlock_timedwrlock'',
      ''pthread_rwlock_rdlock'', ''pthread_rwlock_tryrdlock'', ''pthread_rwlock_timedrdlock'',
      ''pthread_mutex_lock'', ''pthread_mutex_trylock'', ''pthread_mutex_timedlock'',
      ''pthread_spin_lock'', ''pthread_spin_trylock'']"

definition unlock_functions :: "string list" where
  "unlock_functions = [''pthread_rwlock_unlock'', ''pthread_mutex_unlock'', ''pthread_spin_unlock'']"

definition visitLockCall :: "tp_env \<Rightarrow> inst \<Rightarrow> string \<Rightarrow> edit \<Rightarrow> (bool \<times> edit) option" where
  "visitLockCall E CI name s =
     (if name \<in> set lock_functions then
        do {
          p \<leftarrow> getArgOperand CI 0;
          (Pointer, s) \<leftarrow> castTo (castIsValid E) p VoidPtrType CI s;
          let CallID = inst_id E CI;
          (recLock, s) \<leftarrow> call_before E ''recordLock'' [CallID, Pointer] CI s;
          Some (True, moveBefore CI recLock s)
        }
      else if name \<in> set unlock_functions then
        do {
          p \<leftarrow> getArgOperand CI 0;
          (Pointer, s) \<leftarrow> castTo (castIsValid E) p VoidPtrType CI s;
          let CallID = inst_id E CI;
          (recUnlock, s) \<leftarrow> call_before E ''recordUnlock'' [CallID, Pointer] CI s;
          Some (True, moveBefore CI recUnlock s)
        }
      else Some (False, s))"

definition visitMmapCall :: "tp_env \<Rightarrow> inst \<Rightarrow> string \<Rightarrow> edit \<Rightarrow> (bool \<times> edit) option" where
  "visitMmapCall E CI name s =
     (if name = ''mmap'' then
        do {
          s \<leftarrow> instrumentLock E CI s;
          let CallID = inst_id E CI;
          sz \<leftarrow> getOperand CI 1;
          (recInst, s) \<leftarrow> call_before E ''recordMmap'' [CallID, value_of CI, sz] CI s;
          s \<leftarrow> instrumentUnlock E CI s;
          Some (True, moveBefore CI recInst s)
        }
      else Some (False, s))"

definition func_name :: "tp_env \<Rightarrow> string \<Rightarrow> string" where
  "func_name E mangled =
     (case demangle E mangled of
        Some d \<Rightarrow> takeWhile (\<lambda>c. c \<noteq> CHR ''('') d
      | None \<Rightarrow> mangled)"

definition alloc_call :: "tp_env \<Rightarrow> inst \<Rightarrow> edit \<Rightarrow> edit option" where
  "alloc_call E CI s =
     do {
       s \<leftarrow> instrumentLock E CI s;
       let CallID = inst_id E CI;
       p \<leftarrow> getArgOperand CI 1;
       (Pointer, s) \<leftarrow> castTo (castIsValid E) p VoidPtrType CI s;
       sz \<leftarrow> getOperand CI 2;
       (recInst, s) \<leftarrow> call_before E ''recordAlloc'' [CallID, Pointer, sz] CI s;
       s \<leftarrow> instrumentUnlock E CI s;
       Some (moveBefore CI recInst s)
     }"

definition tx_alloc_call :: "tp_env \<Rightarrow> inst \<Rightarrow> edit \<Rightarrow> edit option" where
  "tx_alloc_call E CI s =
     do {
       s \<leftarrow> instrumentLock E CI s;
       let CallID = inst_id E CI;
       sz \<leftarrow> getOperand CI 0;
       (recInst, s) \<leftarrow> call_before E ''recordTxAlloc'' [CallID, value_of CI, sz] CI s;
       s \<leftarrow> instrumentUnlock E CI s;
       Some (moveBefore CI recInst s)
     }"

definition visitCallInst :: "tp_env \<Rightarrow> inst \<Rightarrow> val \<Rightarrow> edit \<Rightarrow> edit option" where
  "visitCallInst E CI called s =
     (case called of
        AsmRef asm_str t \<Rightarrow> map_option snd (visitInlineAsm E CI asm_str s)
      | FunRef mangled t \<Rightarrow>
          (let FuncName = func_name E mangled in
           if FuncName = ''pmemobj_alloc'' then alloc_call E CI s
           else if FuncName = ''pmemobj_tx_alloc'' then tx_alloc_call E CI s
           else if \<not> declared E mangled then Some s
           else do {
             (b, s) \<leftarrow> visitSpecialCall E CI FuncName s;
             if b then Some s
             else do {
               (b, s) \<leftarrow> visitPmemCall E CI FuncName s;
               if b then Some s
               else do {
                 (b, s) \<leftarrow> visitLockCall E CI FuncName s;
                 if b then Some s
                 else map_option snd (visitMmapCall E CI FuncName s)
               }
             }
           })
      | _ \<Rightarrow> Some s)"

section \<open>Blocks and modules\<close>

fun visit :: "tp_env \<Rightarrow> inst \<Rightarrow> edit \<Rightarrow> edit option" where
  "visit E I s =
     (case iop I of
        BranchI c \<Rightarrow> visitBranchInst E I c s
      | LoadI p \<Rightarrow> visitLoadInst E I p s
      | StoreI v p \<Rightarrow> visitStoreInst E I v p s
      | RMWI p v \<Rightarrow> visitAtomicRMWInst E I p v s
      | CmpXchgI p c n \<Rightarrow> visitAtomicCmpXchgInst E I p n s
      | CallI f as \<Rightarrow> visitCallInst E I f s
      | _ \<Rightarrow> Some s)"

fun visit_all :: "tp_env \<Rightarrow> inst list \<Rightarrow> edit \<Rightarrow> edit option" where
  "visit_all E [] s = Some s"
| "visit_all E (I # Worklist) s = Option.bind (visit E I s) (visit_all E Worklist)"

definition visit_block :: "tp_env \<Rightarrow> block \<Rightarrow> nat \<times> string list \<Rightarrow> (block \<times> nat \<times> string list) option" where
  "visit_block E b = (\<lambda>(n, g).
     map_option (\<lambda>s. (blk s, fresh s, strs s)) (visit_all E b \<lparr>blk = b, fresh = n, strs = g\<rparr>))"

fun visit_blocks :: "tp_env \<Rightarrow> block list \<Rightarrow> nat \<times> string list \<Rightarrow> (block list \<times> nat \<times> string list) option"
where
  "visit_blocks E [] c = Some ([], c)"
| "visit_blocks E (b # bs) c =
     do { (b', c) \<leftarrow> visit_block E b c; (bs', c) \<leftarrow> visit_blocks E bs c; Some (b' # bs', c) }"

fun visit_funcs :: "tp_env \<Rightarrow> func list \<Rightarrow> nat \<times> string list \<Rightarrow> (func list \<times> nat \<times> string list) option"
where
  "visit_funcs E [] c = Some ([], c)"
| "visit_funcs E (F # Fs) c =
     do {
       (bs, c) \<leftarrow> visit_blocks E (fblocks F) c;
       (Fs', c) \<leftarrow> visit_funcs E Fs c;
       Some (F\<lparr>fblocks := bs\<rparr> # Fs', c)
     }"

section \<open>Initialisation\<close>

text \<open>The functions of the run time with the types of their arguments; all return \<open>void\<close>.\<close>

definition rt_functions :: "(string \<times> ty list) list" where
  "rt_functions =
     [(''recordInit'', [VoidPtrType]),
      (''locking'', [VoidPtrType]),
      (''unlocking'', [VoidPtrType]),
      (''recordLock'', [Int32Type, VoidPtrType]),
      (''recordLockBegin'', [Int32Type, VoidPtrType]),
      (''recordLockEnd'', [Int32Type, VoidPtrType]),
      (''recordUnlock'', [Int32Type, VoidPtrType]),
      (''recordUnlockBegin'', [Int32Type, VoidPtrType]),
      (''recordUnlockEnd'', [Int32Type, VoidPtrType]),
      (''recordAPIBegin'', [Int32Type]),
      (''recordAPIEnd'', [Int32Type]),
      (''recordBr'', [Int32Type]),
      (''recordLoad'', [Int32Type, VoidPtrType, Int64Type]),
      (''recordStrLoad'', [Int32Type, VoidPtrType]),
      (''recordStore'', [Int32Type, VoidPtrType, Int64Type]),
      (''recordAtomicStore'', [Int32Type, VoidPtrType, Int64Type]),
      (''recordCAS'', [Int32Type, VoidPtrType, Int64Type, Int64Type]),
      (''recordStrStore'', [Int32Type, VoidPtrType]),
      (''recordStrcatStore'', [Int32Type, VoidPtrType, VoidPtrType]),
      (''recordFlush'', [Int32Type, VoidPtrType]),
      (''recordFlushWrapper'', [Int32Type, VoidPtrType, Int64Type]),
      (''recordFence'', [Int32Type]),
      (''recordAlloc'', [Int32Type, VoidPtrType, Int64Type]),
      (''recordTxAlloc'', [Int32Type, OIDType, Int64Type]),
      (''recordMmap'', [Int32Type, VoidPtrType, Int64Type])]"

text \<open>
  \<open>getOrInsertFunction\<close>: a declaration is added when there is no function of that name; a
  function of another type is cast.
\<close>

definition getOrInsertFunction :: "string \<Rightarrow> ty \<Rightarrow> ty list \<Rightarrow> modl \<Rightarrow> val \<times> modl" where
  "getOrInsertFunction name ret args M =
     (let T = PtrTy (FunTy ret args) in
      case getFunction M name of
        None \<Rightarrow>
          (FunRef name T, M\<lparr>funcs := funcs M @ [\<lparr>fname = name, fret = ret, fargs = args, fblocks = []\<rparr>]\<rparr>)
      | Some F \<Rightarrow>
          (let T' = PtrTy (FunTy (fret F) (fargs F))
           in (if T' = T then FunRef name T else CCast (FunRef name T') T, M)))"

record tp =
  callees :: "string \<Rightarrow> val option"
  lock_modeling_set :: "string list"
  unlock_modeling_set :: "string list"

fun declare_all :: "(string \<times> ty list) list \<Rightarrow> (string \<Rightarrow> val option) \<times> modl \<Rightarrow> (string \<Rightarrow> val option) \<times> modl"
where
  "declare_all [] r = r"
| "declare_all ((name, args) # fs) (cs, M) =
     (let (v, M) = getOrInsertFunction name VoidTy args M
      in declare_all fs (cs(name \<mapsto> v), M))"

text \<open>
  \<open>file0\<close> and \<open>file1\<close> are the texts of the two modelling files, empty when they cannot be opened;
  \<open>order\<close> is the order in which an unordered set of strings is iterated.
\<close>

definition doInitialization ::
  "(string list \<Rightarrow> string list) \<Rightarrow> string \<Rightarrow> string \<Rightarrow> modl \<Rightarrow> tp \<times> modl"
where
  "doInitialization order file0 file1 M =
     (let (cs, M) = declare_all rt_functions (Map.empty, M)
      in (\<lparr>callees = cs,
           lock_modeling_set = order (remdups (getlines newline file0)),
           unlock_modeling_set = order (remdups (getlines newline file1))\<rparr>, M))"

section \<open>Entry points\<close>

definition getFirstInsertionPt :: "block \<Rightarrow> inst option" where
  "getFirstInsertionPt b =
     (let rest = dropWhile (\<lambda>i. case iop i of PhiI vs \<Rightarrow> True | _ \<Rightarrow> False) b;
          rest = (case rest of i # is \<Rightarrow> if iop i = PadI then is else rest | [] \<Rightarrow> [])
      in nth_opt rest 0)"

text \<open>An edit at the entry of a function that has a body.\<close>

definition put_func :: "func \<Rightarrow> modl \<Rightarrow> modl" where
  "put_func F M = M\<lparr>funcs := map (\<lambda>G. if fname G = fname F then F else G) (funcs M)\<rparr>"

definition open_entry :: "func \<Rightarrow> modl \<Rightarrow> (inst \<times> edit) option" where
  "open_entry F M =
     (case fblocks F of
        [] \<Rightarrow> None
      | b # bs \<Rightarrow>
          map_option (\<lambda>I. (I, \<lparr>blk = b, fresh = nextref M, strs = gvs M\<rparr>)) (getFirstInsertionPt b))"

definition close_entry :: "func \<Rightarrow> edit \<Rightarrow> modl \<Rightarrow> modl" where
  "close_entry F s M =
     (put_func (F\<lparr>fblocks := blk s # tl (fblocks F)\<rparr>) M)\<lparr>nextref := fresh s, gvs := strs s\<rparr>"

definition instrumentInit :: "tp_env \<Rightarrow> string \<Rightarrow> modl \<Rightarrow> modl option" where
  "instrumentInit E TraceFilename M =
     do {
       fn \<leftarrow> getFunction M ''main'';
       (I, s) \<leftarrow> open_entry fn M;
       let (Name, s) = stringToGV TraceFilename s;
       let Name = CCast Name VoidPtrType;
       (c, s) \<leftarrow> call_before E ''recordInit'' [Name] I s;
       Some (close_entry fn s M)
     }"

definition instrumentAPIBegin :: "tp_env \<Rightarrow> modl \<Rightarrow> modl option" where
  "instrumentAPIBegin E M =
     do {
       fn \<leftarrow> (case getFunction M ''api_begin'' of
                None \<Rightarrow> getFunction M ''_Z9api_beginv'' | Some F \<Rightarrow> Some F);
       (I, s) \<leftarrow> open_entry fn M;
       let CallID = const_int 32 (- 1);
       (c, s) \<leftarrow> call_before E ''recordAPIBegin'' [CallID] I s;
       Some (close_entry fn s M)
     }"

definition instrumentAPIEnd :: "tp_env \<Rightarrow> modl \<Rightarrow> modl option" where
  "instrumentAPIEnd E M =
     do {
       fn \<leftarrow> (case getFunction M ''api_end'' of
                None \<Rightarrow> getFunction M ''_Z7api_endv'' | Some F \<Rightarrow> Some F);
       (I, s) \<leftarrow> open_entry fn M;
       let CallID = const_int 32 (- 1);
       (c, s) \<leftarrow> call_before E ''recordAPIEnd'' [CallID] I s;
       Some (close_entry fn s M)
     }"

fun is_return :: "inst \<Rightarrow> bool" where
  "is_return I = (case iop I of ReturnI r \<Rightarrow> True | _ \<Rightarrow> False)"

fun end_calls :: "tp_env \<Rightarrow> string \<Rightarrow> val list \<Rightarrow> inst list \<Rightarrow> edit \<Rightarrow> edit option" where
  "end_calls E f args [] s = Some s"
| "end_calls E f args (I # Is) s =
     do {
       s \<leftarrow> (if is_return I then map_option snd (call_before E f args I s) else Some s);
       end_calls E f args Is s
     }"

definition end_before_returns :: "tp_env \<Rightarrow> string \<Rightarrow> val list \<Rightarrow> block \<Rightarrow> nat \<Rightarrow> (block \<times> nat) option" where
  "end_before_returns E f args b n =
     map_option (\<lambda>s. (blk s, fresh s)) (end_calls E f args b \<lparr>blk = b, fresh = n, strs = []\<rparr>)"

fun end_in_blocks :: "tp_env \<Rightarrow> string \<Rightarrow> val list \<Rightarrow> block list \<Rightarrow> nat \<Rightarrow> (block list \<times> nat) option" where
  "end_in_blocks E f args [] n = Some ([], n)"
| "end_in_blocks E f args (b # bs) n =
     do {
       (b', n) \<leftarrow> end_before_returns E f args b n;
       (bs', n) \<leftarrow> end_in_blocks E f args bs n;
       Some (b' # bs', n)
     }"

definition model_function :: "tp_env \<Rightarrow> string \<Rightarrow> string \<Rightarrow> func \<Rightarrow> modl \<Rightarrow> modl option" where
  "model_function E begin_fn end_fn fn M =
     do {
       (I, s) \<leftarrow> open_entry fn M;
       let CallID = const_int 32 (- 1);
       t \<leftarrow> nth_opt (fargs fn) 0;
       (Pointer, s) \<leftarrow> castTo (castIsValid E) (ArgRef 0 t) VoidPtrType I s;
       let args = [CallID, Pointer];
       (c, s) \<leftarrow> call_before E begin_fn args I s;
       (bs, n) \<leftarrow> end_in_blocks E end_fn args (blk s # tl (fblocks fn)) (fresh s);
       Some ((put_func (fn\<lparr>fblocks := bs\<rparr>) M)\<lparr>nextref := n, gvs := strs s\<rparr>)
     }"

fun model_functions :: "tp_env \<Rightarrow> string \<Rightarrow> string \<Rightarrow> string list \<Rightarrow> modl \<Rightarrow> modl option" where
  "model_functions E begin_fn end_fn [] M = Some M"
| "model_functions E begin_fn end_fn (name # names) M =
     (case getFunction M name of
        None \<Rightarrow> model_functions E begin_fn end_fn names M
      | Some fn \<Rightarrow>
          Option.bind (model_function E begin_fn end_fn fn M)
            (model_functions E begin_fn end_fn names))"

definition instrumentLockModeling :: "tp_env \<Rightarrow> string list \<Rightarrow> modl \<Rightarrow> modl option" where
  "instrumentLockModeling E lock_set = model_functions E ''recordLockBegin'' ''recordLockEnd'' lock_set"

definition instrumentUnlockModeling :: "tp_env \<Rightarrow> string list \<Rightarrow> modl \<Rightarrow> modl option" where
  "instrumentUnlockModeling E unlock_set =
     model_functions E ''recordUnlockBegin'' ''recordUnlockEnd'' unlock_set"

section \<open>The pass\<close>

text \<open>The libraries the pass calls: data layout, demangler, printer, and the assertions of LLVM.\<close>

record tp_lib =
  lib_store_size :: "ty \<Rightarrow> nat"
  lib_demangle :: "string \<Rightarrow> string option"
  lib_print :: "inst \<Rightarrow> string"
  lib_castIsValid :: "ty \<Rightarrow> ty \<Rightarrow> bool"
  lib_callIsValid :: "ty \<Rightarrow> ty list \<Rightarrow> bool"
  lib_mulIsValid :: "ty \<Rightarrow> ty \<Rightarrow> bool"

definition tp_env_of :: "tp_lib \<Rightarrow> tp \<Rightarrow> query \<Rightarrow> modl \<Rightarrow> tp_env" where
  "tp_env_of lib T q M =
     \<lparr>callee = (\<lambda>f. case callees T f of Some v \<Rightarrow> v | None \<Rightarrow> BlockRef 0),
      declared = (\<lambda>f. case getFunction M f of Some F \<Rightarrow> isDeclaration F | None \<Rightarrow> True),
      numbers = q, getTypeStoreSize = lib_store_size lib, demangle = lib_demangle lib,
      print_inst = lib_print lib, castIsValid = lib_castIsValid lib,
      callIsValid = lib_callIsValid lib, mulIsValid = lib_mulIsValid lib\<rparr>"

definition runOnModule :: "tp_lib \<Rightarrow> string \<Rightarrow> tp \<Rightarrow> query \<Rightarrow> modl \<Rightarrow> modl option" where
  "runOnModule lib TraceFilename T q M =
     do {
       let E = tp_env_of lib T q M;
       (Fs, n, g) \<leftarrow> visit_funcs E (funcs M) (nextref M, gvs M);
       let M = M\<lparr>funcs := Fs, nextref := n, gvs := g\<rparr>;
       M \<leftarrow> instrumentInit E TraceFilename M;
       M \<leftarrow> instrumentAPIBegin E M;
       M \<leftarrow> instrumentAPIEnd E M;
       M \<leftarrow> instrumentLockModeling E (lock_modeling_set T) M;
       instrumentUnlockModeling E (unlock_modeling_set T) M
     }"

section \<open>Printing function names\<close>

text \<open>
  The line printed for a function: its name, the demangled name with and without the arguments.
\<close>

definition PrintFuncPass :: "tp_lib \<Rightarrow> func \<Rightarrow> string" where
  "PrintFuncPass lib F =
     (let (demangled_0, demangled_1) =
            (case lib_demangle lib (fname F) of
               Some d \<Rightarrow> (d, takeWhile (\<lambda>c. c \<noteq> CHR ''('') d)
             | None \<Rightarrow> (fname F, fname F))
      in fname F @ '' '' @ demangled_0 @ '' '' @ demangled_1 @ [newline])"

end
