(* ===== verification/Tracer_Pass_Correct.thy ===== *)
theory Tracer_Pass_Correct
  imports Tracer_Pass
begin

text \<open>
  What the pass puts around an instruction. \<open>plan\<close> is the specification: the run-time calls before
  and after the instruction with their arguments, in order. The visitors edit the block so that
  exactly these calls appear, with casts that come before their uses, and the instructions of the
  program stay in place.
\<close>

section \<open>Plans\<close>

text \<open>
  An argument is a given value, a value converted to a type, the product of two values, or a
  constant text.
\<close>

datatype parg = Lit val | As val ty | Prod val val | Text

fun means :: "inst list \<Rightarrow> parg \<Rightarrow> val \<Rightarrow> bool" where
  "means pre (Lit v) w \<longleftrightarrow> w = v"
| "means pre (As v t) w \<longleftrightarrow>
     (if type_of v = t then w = v
      else if is_constant v then w = CCast v t
      else \<exists>c\<in>set pre. iop c = CastI v t \<and> ity c = t \<and> w = value_of c)"
| "means pre (Prod a b) w \<longleftrightarrow>
     (\<exists>c\<in>set pre. iop c = MulI a b \<and> ity c = type_of a \<and> w = value_of c)"
| "means pre Text w \<longleftrightarrow> (\<exists>k n. w = CCast (GStr k n) VoidPtrType)"

type_synonym planned = "string \<times> parg list"

text \<open>The calls among new instructions are the planned ones; all others are casts and products.\<close>

fun realised :: "tp_env \<Rightarrow> inst list \<Rightarrow> planned list \<Rightarrow> inst list \<Rightarrow> bool" where
  "realised E pre ps [] \<longleftrightarrow> ps = []"
| "realised E pre ps (c # cs) \<longleftrightarrow>
     (case iop c of
        CallI f ws \<Rightarrow>
          (case ps of
             [] \<Rightarrow> False
           | (g, as) # ps' \<Rightarrow>
               f = callee E g \<and> list_all2 (means pre) as ws \<and> realised E (pre @ [c]) ps' cs)
      | CastI v t \<Rightarrow> realised E (pre @ [c]) ps cs
      | MulI a b \<Rightarrow> realised E (pre @ [c]) ps cs
      | _ \<Rightarrow> False)"

definition lk :: planned where "lk = (''locking'', [Text])"
definition ul :: planned where "ul = (''unlocking'', [Text])"

definition opd :: "inst \<Rightarrow> nat \<Rightarrow> val" where
  "opd I k = operands (iop I) ! k"

definition ptr :: "inst \<Rightarrow> nat \<Rightarrow> parg" where
  "ptr I k = As (opd I k) VoidPtrType"

definition size_arg :: "tp_env \<Rightarrow> ty \<Rightarrow> parg" where
  "size_arg E t = Lit (const_int 64 (int (getTypeStoreSize E t)))"

text \<open>Calls that are recorded after they return, and calls of which only reads are recorded.\<close>

definition plan_asm :: "tp_env \<Rightarrow> inst \<Rightarrow> string \<Rightarrow> planned list \<times> planned list" where
  "plan_asm E I asm =
     (let i = Lit (inst_id E I) in
      if contains ''clflush $0'' asm \<or> contains ''xsaveopt $0'' asm then
        ([lk], [(''recordFlush'', [i, ptr I 0]), ul])
      else if contains ''mfence'' asm then ([lk], [(''recordFence'', [i]), ul])
      else if contains ''xchgq $0,$1'' asm then
        ([lk], [(''recordStore'', [i, ptr I 0, size_arg E (type_of (opd I 0))]), ul])
      else ([], []))"

definition plan_special :: "tp_env \<Rightarrow> inst \<Rightarrow> string \<Rightarrow> planned list \<times> planned list" where
  "plan_special E I name =
     (let i = Lit (inst_id E I); n = Lit (opd I 2) in
      if take 12 name = ''llvm.memset.'' then ([lk], [(''recordStore'', [i, ptr I 0, n]), ul])
      else if take 12 name = ''llvm.memcpy.'' \<or> take 13 name = ''llvm.memmove.'' \<or> name = ''strcpy'' then
        (if name = ''strcpy''
         then ([lk, (''recordStrLoad'', [i, ptr I 1])], [(''recordStrStore'', [i, ptr I 0]), ul])
         else ([lk, (''recordLoad'', [i, ptr I 1, n])], [(''recordStore'', [i, ptr I 0, n]), ul]))
      else if name = ''strncpy'' \<or> name = ''__strncpy_chk'' then
        ([lk, (''recordStrLoad'', [i, ptr I 1])], [(''recordStrStore'', [i, ptr I 0]), ul])
      else if name = ''strcat'' then
        ([lk, (''recordStrLoad'', [i, ptr I 0]), (''recordStrLoad'', [i, ptr I 1])],
         [(''recordStrcatStore'', [i, ptr I 0, ptr I 1]), ul])
      else if name = ''strlen'' then ([lk, (''recordStrLoad'', [i, ptr I 0])], [ul])
      else if name = ''strcmp'' then
        ([lk, (''recordStrLoad'', [i, ptr I 0]), (''recordStrLoad'', [i, ptr I 1])], [ul])
      else if name = ''calloc'' then
        ([lk], [(''recordStore'', [i, As (value_of I) VoidPtrType, Prod (opd I 0) (opd I 1)]), ul])
      else if name = ''sprintf'' then
        (lk # map (\<lambda>p. (''recordStrLoad'', [i, Lit p]))
                (filter (\<lambda>p. type_of p = VoidPtrType) (drop 2 (operands (iop I)))),
         [(''recordStrStore'', [i, ptr I 0]), ul])
      else if name = ''fgets'' then ([lk], [(''recordStrStore'', [i, ptr I 0]), ul])
      else if name = ''snprintf'' then
        ([lk], [(''recordStore'', [i, ptr I 0, Lit (opd I 1)]), ul])
      else ([], []))"

definition plan_pmem :: "tp_env \<Rightarrow> inst \<Rightarrow> string \<Rightarrow> planned list \<times> planned list" where
  "plan_pmem E I name =
     (let i = Lit (inst_id E I); n = Lit (opd I 2);
          fence = (''recordFence'', [i]);
          st = (''recordStore'', [i, ptr I 0, n]);
          ld = (''recordLoad'', [i, ptr I 1, n]);
          fl = (''recordFlushWrapper'', [i, ptr I 0, n]);
          fl1 = (''recordFlushWrapper'', [i, ptr I 0, Lit (opd I 1)]) in
      if name = ''pmem_flush'' then ([lk], [fl1, ul])
      else if name = ''pmem_drain'' then ([lk], [fence, ul])
      else if name = ''pmem_persist'' \<or> name = ''pmem_msync'' then ([lk], [fl1, fence, ul])
      else if name = ''pmem_memmove_nodrain'' \<or> name = ''pmem_memcpy_nodrain'' then
        ([lk, ld], [st, fl, ul])
      else if name = ''pmem_memmove_persist'' \<or> name = ''pmem_memcpy_persist'' then
        ([lk, ld], [st, fl, fence, ul])
      else if name = ''pmem_memmove'' \<or> name = ''pmem_memcpy'' then ([lk, ld], [st, ul])
      else if name = ''pmem_memset_nodrain'' then ([lk], [st, fl, ul])
      else if name = ''pmem_memset_persist'' then ([lk], [st, fl, fence, ul])
      else if name = ''pmem_memset'' then ([lk], [st, ul])
      else ([], []))"

definition plan_sync :: "tp_env \<Rightarrow> inst \<Rightarrow> string \<Rightarrow> planned list \<times> planned list" where
  "plan_sync E I name =
     (let i = Lit (inst_id E I) in
      if name \<in> set lock_functions then ([], [(''recordLock'', [i, ptr I 0])])
      else if name \<in> set unlock_functions then ([], [(''recordUnlock'', [i, ptr I 0])])
      else if name = ''mmap'' then
        ([lk], [(''recordMmap'', [i, Lit (value_of I), Lit (opd I 1)]), ul])
      else ([], []))"

definition plan_call :: "tp_env \<Rightarrow> inst \<Rightarrow> string \<Rightarrow> planned list \<times> planned list" where
  "plan_call E I mangled =
     (let name = func_name E mangled; i = Lit (inst_id E I) in
      if name = ''pmemobj_alloc'' then ([lk], [(''recordAlloc'', [i, ptr I 1, Lit (opd I 2)]), ul])
      else if name = ''pmemobj_tx_alloc'' then
        ([lk], [(''recordTxAlloc'', [i, Lit (value_of I), Lit (opd I 0)]), ul])
      else if \<not> declared E mangled then ([], [])
      else if plan_special E I name \<noteq> ([], []) then plan_special E I name
      else if plan_pmem E I name \<noteq> ([], []) then plan_pmem E I name
      else plan_sync E I name)"

definition plan :: "tp_env \<Rightarrow> inst \<Rightarrow> planned list \<times> planned list" where
  "plan E I =
     (let i = Lit (inst_id E I) in
      case iop I of
        BranchI (Some c) \<Rightarrow> ([(''recordBr'', [i])], [])
      | LoadI p \<Rightarrow> ([lk, (''recordLoad'', [i, As p VoidPtrType, size_arg E (ity I)])], [ul])
      | StoreI v p \<Rightarrow> ([lk], [(''recordStore'', [i, As p VoidPtrType, size_arg E (type_of v)]), ul])
      | RMWI p v \<Rightarrow>
          ([lk], [(''recordAtomicStore'', [i, As p VoidPtrType, size_arg E (type_of v)]), ul])
      | CmpXchgI p c n \<Rightarrow>
          ([lk], [(''recordCAS'', [i, As p VoidPtrType, As n Int64Type, size_arg E (type_of n)]), ul])
      | CallI (AsmRef asm t) as \<Rightarrow> plan_asm E I asm
      | CallI (FunRef f t) as \<Rightarrow> plan_call E I f
      | _ \<Rightarrow> ([], []))"

section \<open>The visitors carry out the plan\<close>

text \<open>From one zipper to another: the planned calls to the left and to the right, all new.\<close>

definition carried_out :: "tp_env \<Rightarrow> planned list \<times> planned list \<Rightarrow> zipper \<Rightarrow> zipper \<Rightarrow> bool" where
  "carried_out E p z z' \<longleftrightarrow>
     (\<exists>A B. zleft z' = zleft z @ A \<and> zright z' = B @ zright z \<and> zcur z' = zcur z \<and> zwf z'
        \<and> zfresh z \<le> zfresh z' \<and> (\<forall>i\<in>set (A @ B). zfresh z \<le> iref i)
        \<and> realised E [] (fst p) A \<and> realised E A (snd p) B)"

lemma carried_outI:
  "zleft z' = zleft z @ A \<Longrightarrow> zright z' = B @ zright z \<Longrightarrow> zcur z' = zcur z \<Longrightarrow> zwf z' \<Longrightarrow>
   zfresh z \<le> zfresh z' \<Longrightarrow> \<forall>i\<in>set (A @ B). zfresh z \<le> iref i \<Longrightarrow>
   realised E [] (fst p) A \<Longrightarrow> realised E A (snd p) B \<Longrightarrow> carried_out E p z z'"
  unfolding carried_out_def by blast

lemma carried_out_nothing: "zwf z \<Longrightarrow> carried_out E ([], []) z z"
  by (rule carried_outI [of _ _ "[]" "[]"]) simp_all

definition zcall :: "tp_env \<Rightarrow> string \<Rightarrow> val list \<Rightarrow> zipper \<Rightarrow> zipper" where
  "zcall E f args = zbefore (CallI (callee E f) args) VoidTy"

definition zcalli :: "tp_env \<Rightarrow> string \<Rightarrow> val list \<Rightarrow> zipper \<Rightarrow> inst" where
  "zcalli E f args = znew (CallI (callee E f) args) VoidTy"

definition ztext :: "string \<Rightarrow> zipper \<Rightarrow> val" where
  "ztext str z = CCast (GStr (length (zstrs z)) (length str + 1)) VoidPtrType"

definition zlock :: "tp_env \<Rightarrow> zipper \<Rightarrow> zipper" where
  "zlock E z = (let str = print_inst E (zcur z) in zcall E ''locking'' [ztext str z] (zstr str z))"

definition zunlock :: "tp_env \<Rightarrow> zipper \<Rightarrow> zipper" where
  "zunlock E z =
     (let str = print_inst E (zcur z)
      in zafter (CallI (callee E ''unlocking'') [ztext str z]) VoidTy (zstr str z))"

lemma zcur_calls [simp]:
  "zcur (zcall E f args z) = zcur z" "zcur (zlock E z) = zcur z" "zcur (zunlock E z) = zcur z"
  by (simp_all add: zcall_def zlock_def zunlock_def Let_def)

lemma zwf_calls [simp]:
  "zwf z \<Longrightarrow> zwf (zcall E f args z)" "zwf z \<Longrightarrow> zwf (zlock E z)" "zwf z \<Longrightarrow> zwf (zunlock E z)"
  by (simp_all add: zcall_def zlock_def zunlock_def Let_def)

lemma zcall_sel [simp]:
  "zleft (zcall E f args z) = zleft z @ [zcalli E f args z]" "zright (zcall E f args z) = zright z"
  "zfresh (zcall E f args z) = Suc (zfresh z)"
  by (simp_all add: zcall_def zcalli_def)

lemma zcalli_sel [simp]:
  "iref (zcalli E f args z) = zfresh z" "iop (zcalli E f args z) = CallI (callee E f) args"
  by (simp_all add: zcalli_def)

lemma zunlock_sel [simp]:
  "zleft (zunlock E z) = zleft z" "zfresh (zunlock E z) = Suc (zfresh z)"
  by (simp_all add: zunlock_def Let_def)

lemma zunlock_right:
  "\<exists>u w. zright (zunlock E z) = u # zright z \<and> iref u = zfresh z
     \<and> iop u = CallI (callee E ''unlocking'') [w] \<and> means pre Text w"
  by (simp add: zunlock_def Let_def ztext_def)

lemma call_before_zip [edit_simps]:
  "zwf z \<Longrightarrow> zcur z = I \<Longrightarrow>
   call_before E f args I (unzip z) = Some r \<longleftrightarrow> callable E f args \<and> r = (zcalli E f args z, unzip (zcall E f args z))"
  by (auto simp: call_before_def zcalli_def zcall_def create_before_zip)

lemma create_mul_zip [edit_simps]:
  "zwf z \<Longrightarrow> zcur z = I \<Longrightarrow>
   create_mul E a b I (unzip z) = Some r \<longleftrightarrow>
     mulIsValid E (type_of a) (type_of b)
     \<and> r = (znew (MulI a b) (type_of a) z, unzip (zbefore (MulI a b) (type_of a) z))"
  by (auto simp: create_mul_def create_before_zip)

lemma instrumentLock_zip [edit_simps]:
  "zwf z \<Longrightarrow> zcur z = I \<Longrightarrow>
   instrumentLock E I (unzip z) = Some s \<longleftrightarrow>
     callable E ''locking'' [ztext (print_inst E I) z] \<and> s = unzip (zlock E z)"
  by (auto simp: instrumentLock_def Let_def stringToGV_zip call_before_def create_before_zip zcall_def zlock_def ztext_def)

lemma instrumentUnlock_zip [edit_simps]:
  "zwf z \<Longrightarrow> zcur z = I \<Longrightarrow>
   instrumentUnlock E I (unzip z) = Some s \<longleftrightarrow>
     callable E ''unlocking'' [ztext (print_inst E I) z] \<and> s = unzip (zunlock E z)"
  by (auto simp: instrumentUnlock_def Let_def stringToGV_zip call_after_def create_after_zip
      zunlock_def ztext_def)

subsection \<open>Growing the left side\<close>

definition grown ::
  "tp_env \<Rightarrow> inst list \<Rightarrow> zipper \<Rightarrow> zipper \<Rightarrow> planned list \<Rightarrow> inst list \<Rightarrow> bool"
where
  "grown E pre z z' ps A \<longleftrightarrow>
     zwf z' \<and> zleft z' = zleft z @ A \<and> zright z' = zright z \<and> zcur z' = zcur z
     \<and> zfresh z \<le> zfresh z' \<and> (\<forall>i\<in>set A. zfresh z \<le> iref i) \<and> realised E pre ps A"

lemma means_mono: "means A a w \<Longrightarrow> set A \<subseteq> set B \<Longrightarrow> means B a w"
  by (cases a) (auto split: if_splits)

lemma realised_append:
  "realised E pre ps A \<Longrightarrow> realised E (pre @ A) qs C \<Longrightarrow> realised E pre (ps @ qs) (A @ C)"
  by (induction E pre ps A rule: realised.induct) (auto split: iop.splits list.splits)

lemma grown_refl: "zwf z \<Longrightarrow> grown E pre z z [] []"
  by (simp add: grown_def)

lemma grown_call:
  assumes "grown E pre z z' ps A" "list_all2 (means (pre @ A)) as ws"
  shows "grown E pre z (zcall E f ws z') (ps @ [(f, as)]) (A @ [zcalli E f ws z'])"
proof -
  have "realised E pre (ps @ [(f, as)]) (A @ [zcalli E f ws z'])"
    using assms by (intro realised_append) (simp_all add: grown_def)
  with assms(1) show ?thesis by (auto simp: grown_def)
qed

lemma grown_means: "grown E pre z z' ps A \<Longrightarrow> set A \<subseteq> set B \<Longrightarrow> means (pre @ A) a w \<Longrightarrow> means (pre @ B) a w"
  by (erule means_mono) auto

lemma grown_cast:
  assumes "grown E pre z z' ps A"
  shows "\<exists>C. grown E pre z (zcast V T z') ps (A @ C) \<and> means (pre @ A @ C) (As V T) (zcastv V T z')"
proof (cases "type_of V = T \<or> is_constant V")
  case True
  with assms show ?thesis by (intro exI [of _ "[]"]) (auto simp: zcast_def zcastv_def)
next
  case False
  let ?c = "znew (CastI V T) T z'"
  have "realised E pre (ps @ []) (A @ [?c])"
    using assms by (intro realised_append) (simp_all add: grown_def)
  with assms False have "grown E pre z (zcast V T z') ps (A @ [?c])"
    by (auto simp: grown_def zcast_def)
  with False show ?thesis by (intro exI [of _ "[?c]"]) (auto simp: zcastv_def)
qed

lemma grown_lock:
  assumes "zwf z"
  shows "\<exists>A. grown E [] z (zlock E z) [lk] A"
proof -
  let ?str = "print_inst E (zcur z)"
  let ?z = "zstr ?str z"
  have "grown E [] ?z (zcall E ''locking'' [ztext ?str z] ?z) ([] @ [lk]) ([] @ [zcalli E ''locking'' [ztext ?str z] ?z])"
    unfolding lk_def using assms by (intro grown_call grown_refl) (simp_all add: ztext_def)
  then show ?thesis by (auto simp: zlock_def Let_def grown_def)
qed

lemma lock_cast:
  assumes "zwf z"
  shows "\<exists>A. grown E [] z (zcast V T (zlock E z)) [lk] A \<and> means A (As V T) (zcastv V T (zlock E z))"
proof -
  obtain A where "grown E [] z (zlock E z) [lk] A" using grown_lock [OF assms] by blast
  from grown_cast [OF this, of V T] obtain C where
    "grown E [] z (zcast V T (zlock E z)) [lk] (A @ C)" "means ([] @ A @ C) (As V T) (zcastv V T (zlock E z))"
    by (elim exE conjE)
  then show ?thesis by (intro exI [of _ "A @ C"]) (simp del: means.simps)
qed

lemma lock_cast_cast:
  assumes "zwf z"
  shows "\<exists>A. grown E [] z (zcast W U (zcast V T (zlock E z))) [lk] A
    \<and> means A (As V T) (zcastv V T (zlock E z)) \<and> means A (As W U) (zcastv W U (zcast V T (zlock E z)))"
proof -
  obtain A where A: "grown E [] z (zcast V T (zlock E z)) [lk] A" "means A (As V T) (zcastv V T (zlock E z))"
    using lock_cast [OF assms] by blast
  from grown_cast [OF A(1), of W U] obtain C where
    "grown E [] z (zcast W U (zcast V T (zlock E z))) [lk] (A @ C)"
    "means ([] @ A @ C) (As W U) (zcastv W U (zcast V T (zlock E z)))"
    by (elim exE conjE)
  moreover have "means (A @ C) (As V T) (zcastv V T (zlock E z))"
    by (rule means_mono [OF A(2)]) simp
  ultimately show ?thesis by (intro exI [of _ "A @ C"]) (simp del: means.simps)
qed

declare means.simps(2) [simp del]

subsection \<open>Finishing an edit\<close>

lemma done_read:
  assumes "grown E [] z z1 ps A"
  shows "carried_out E (ps, [ul]) z (zunlock E z1)"
proof -
  obtain u w where u: "zright (zunlock E z1) = u # zright z1" "iref u = zfresh z1"
    "iop u = CallI (callee E ''unlocking'') [w]" "means A Text w"
    using zunlock_right by blast
  with assms show ?thesis
    by (intro carried_outI [of _ _ A "[u]"]) (simp_all add: grown_def ul_def)
qed

lemma done_none: "grown E [] z z1 ps A \<Longrightarrow> carried_out E (ps, []) z z1"
  by (rule carried_outI [of _ _ A "[]"]) (simp_all add: grown_def)

lemma left_new:
  assumes "zwf z1" "zfresh z1 \<le> iref J"
  shows "takeWhile (\<lambda>i. i \<noteq> J) (zleft z1 @ J # C) = zleft z1"
    "dropWhile (\<lambda>i. i \<noteq> J) (zleft z1 @ J # C) = J # C"
  using takeWhile_new [OF assms] dropWhile_new [OF assms] by simp_all

text \<open>
  The instruction is moved before \<open>J\<close>, the first of the calls in \<open>C\<close>: those end up after it.
\<close>

lemma done_write:
  assumes "grown E [] z z1 ps A" and "grown E A z1 z2 qs (J # C)"
  shows "carried_out E (ps, qs @ [ul]) z (zmove J (zunlock E z2))"
proof -
  obtain u w where u: "zright (zunlock E z2) = u # zright z2" "iref u = zfresh z2"
    "iop u = CallI (callee E ''unlocking'') [w]" "means (A @ J # C) Text w"
    using zunlock_right by blast
  have l: "zleft (zunlock E z2) = zleft z1 @ J # C" and fr: "zfresh z1 \<le> iref J" and w1: "zwf z1"
    using assms by (auto simp: grown_def)
  have "zleft (zmove J (zunlock E z2)) = zleft z @ A"
    and "zright (zmove J (zunlock E z2)) = ((J # C) @ [u]) @ zright z"
    using assms u(1) left_new [OF w1 fr, of C] l by (simp_all add: zmove_def grown_def)
  moreover have "realised E A (qs @ [ul]) ((J # C) @ [u])"
    using assms(2) u by (intro realised_append) (simp_all add: grown_def ul_def)
  moreover have "\<forall>i\<in>set (A @ (J # C) @ [u]). zfresh z \<le> iref i"
    using assms u(2) by (auto simp: grown_def)
  ultimately show ?thesis
    using assms by (intro carried_outI [of _ _ A "(J # C) @ [u]"]) (auto simp: grown_def)
qed

lemma done_write1:
  assumes "grown E [] z z1 ps A" "list_all2 (means A) as ws"
  shows "carried_out E (ps, [(f, as), ul]) z (zmove (zcalli E f ws z1) (zunlock E (zcall E f ws z1)))"
proof -
  have w: "zwf z1" using assms(1) by (simp add: grown_def)
  from grown_call [OF grown_refl [OF w, of E A], of as ws f] assms(2)
  have "grown E A z1 (zcall E f ws z1) [(f, as)] [zcalli E f ws z1]" by simp
  from done_write [OF assms(1) this] show ?thesis by simp
qed

lemma list_means_mono: "list_all2 (means A) as ws \<Longrightarrow> set A \<subseteq> set B \<Longrightarrow> list_all2 (means B) as ws"
  by (erule list_all2_mono) (erule means_mono)

lemma grown_call2:
  assumes "zwf z1" "list_all2 (means A) as ws" "list_all2 (means A) bs vs"
  shows "grown E A z1 (zcall E g vs (zcall E f ws z1)) [(f, as), (g, bs)]
    [zcalli E f ws z1, zcalli E g vs (zcall E f ws z1)]"
proof -
  from grown_call [OF grown_refl [OF assms(1), of E A], of as ws f] assms(2)
  have "grown E A z1 (zcall E f ws z1) [(f, as)] [zcalli E f ws z1]" by simp
  from grown_call [OF this, of bs vs g] list_means_mono [OF assms(3), of "A @ [zcalli E f ws z1]"]
  show ?thesis by (simp add: subset_insertI)
qed

lemma done_write2:
  assumes "grown E [] z z1 ps A" "list_all2 (means A) as ws" "list_all2 (means A) bs vs"
  shows "carried_out E (ps, [(f, as), (g, bs), ul]) z
    (zmove (zcalli E f ws z1) (zunlock E (zcall E g vs (zcall E f ws z1))))"
  using done_write [OF assms(1) grown_call2 [OF _ assms(2,3)]] assms(1) by (simp add: grown_def)

lemma done_write3:
  assumes "grown E [] z z1 ps A" "list_all2 (means A) as ws" "list_all2 (means A) bs vs"
    "list_all2 (means A) cs us"
  shows "carried_out E (ps, [(f, as), (g, bs), (h, cs), ul]) z
    (zmove (zcalli E f ws z1) (zunlock E (zcall E h us (zcall E g vs (zcall E f ws z1)))))"
proof -
  have "zwf z1" using assms(1) by (simp add: grown_def)
  from grown_call2 [OF this assms(2,3), of E g f]
  have "grown E A z1 (zcall E h us (zcall E g vs (zcall E f ws z1))) ([(f, as), (g, bs)] @ [(h, cs)])
     ([zcalli E f ws z1, zcalli E g vs (zcall E f ws z1)] @ [zcalli E h us (zcall E g vs (zcall E f ws z1))])"
    by (rule grown_call) (rule list_means_mono [OF assms(4)], auto)
  from done_write [OF assms(1) this [simplified]] show ?thesis by simp
qed

lemmas grown_call1 = grown_call [where pre = "[]", simplified]

subsection \<open>Loads, stores, branches\<close>

lemma visitBranchInst_plan:
  assumes "zwf z" "zcur z = I" "iop I = BranchI c" "visitBranchInst E I c (unzip z) = Some s"
  shows "\<exists>z'. s = unzip z' \<and> carried_out E (plan E I) z z'"
proof (cases c)
  case None
  then show ?thesis
    using assms carried_out_nothing [OF assms(1)] by (auto simp: visitBranchInst_def plan_def)
next
  case (Some v)
  have "grown E [] z (zcall E ''recordBr'' [inst_id E I] z) [(''recordBr'', [Lit (inst_id E I)])]
      [zcalli E ''recordBr'' [inst_id E I] z]"
    using grown_call1 [OF grown_refl [OF assms(1)], of "[Lit (inst_id E I)]" "[inst_id E I]" E "''recordBr''"]
    by simp
  from done_none [OF this] Some assms show ?thesis
    by (auto simp: visitBranchInst_def plan_def Let_def edit_simps)
qed

lemma visitLoadInst_plan:
  assumes "zwf z" "zcur z = I" "iop I = LoadI p" "visitLoadInst E I p (unzip z) = Some s"
  shows "\<exists>z'. s = unzip z' \<and> carried_out E (plan E I) z z'"
proof -
  obtain A where A: "grown E [] z (zcast p VoidPtrType (zlock E z)) [lk] A"
    "means A (As p VoidPtrType) (zcastv p VoidPtrType (zlock E z))"
    using lock_cast [OF assms(1)] by blast
  show ?thesis
    using done_read [OF grown_call1 [OF A(1)]] A(2) assms
    by (auto simp: visitLoadInst_def plan_def Let_def zip_simps call_before_zip instrumentLock_zip
        instrumentUnlock_zip size_arg_def bind_eq_Some_conv)
qed

lemmas visit_simps = zip_simps call_before_zip create_mul_zip instrumentLock_zip instrumentUnlock_zip

lemma visitStoreInst_plan:
  assumes "zwf z" "zcur z = I" "iop I = StoreI v p" "visitStoreInst E I v p (unzip z) = Some s"
  shows "\<exists>z'. s = unzip z' \<and> carried_out E (plan E I) z z'"
proof -
  obtain A where A: "grown E [] z (zcast p VoidPtrType (zlock E z)) [lk] A"
    "means A (As p VoidPtrType) (zcastv p VoidPtrType (zlock E z))"
    using lock_cast [OF assms(1)] by blast
  show ?thesis
    using done_write1 [OF A(1)] A(2) assms
    by (auto simp: visitStoreInst_def plan_def Let_def visit_simps size_arg_def bind_eq_Some_conv)
qed

lemma visitAtomicRMWInst_plan:
  assumes "zwf z" "zcur z = I" "iop I = RMWI p v" "visitAtomicRMWInst E I p v (unzip z) = Some s"
  shows "\<exists>z'. s = unzip z' \<and> carried_out E (plan E I) z z'"
proof -
  obtain A where A: "grown E [] z (zcast p VoidPtrType (zlock E z)) [lk] A"
    "means A (As p VoidPtrType) (zcastv p VoidPtrType (zlock E z))"
    using lock_cast [OF assms(1)] by blast
  show ?thesis
    using done_write1 [OF A(1)] A(2) assms
    by (auto simp: visitAtomicRMWInst_def plan_def Let_def visit_simps size_arg_def bind_eq_Some_conv)
qed

lemma visitAtomicCmpXchgInst_plan:
  assumes "zwf z" "zcur z = I" "iop I = CmpXchgI p c n" "visitAtomicCmpXchgInst E I p n (unzip z) = Some s"
  shows "\<exists>z'. s = unzip z' \<and> carried_out E (plan E I) z z'"
proof -
  obtain A where A:
    "grown E [] z (zcast n Int64Type (zcast p VoidPtrType (zlock E z))) [lk] A"
    "means A (As p VoidPtrType) (zcastv p VoidPtrType (zlock E z))"
    "means A (As n Int64Type) (zcastv n Int64Type (zcast p VoidPtrType (zlock E z)))"
    using lock_cast_cast [OF assms(1)] by blast
  show ?thesis
    using done_write1 [OF A(1)] A(2,3) assms
    by (auto simp: visitAtomicCmpXchgInst_def plan_def Let_def visit_simps size_arg_def bind_eq_Some_conv)
qed

subsection \<open>Known external functions\<close>

definition acts :: "tp_env \<Rightarrow> planned list \<times> planned list \<Rightarrow> zipper \<Rightarrow> bool \<times> edit \<Rightarrow> bool" where
  "acts E p z r \<longleftrightarrow> (\<exists>z'. r = (True, unzip z') \<and> carried_out E p z z')"

lemma opd_getOperand: "getOperand I k = Some v \<Longrightarrow> opd I k = v"
  by (simp add: getOperand_def nth_opt_def opd_def split: if_splits)

lemma opd_getArgOperand: "getArgOperand I k = Some v \<Longrightarrow> opd I k = v"
  by (cases "iop I") (auto simp: getArgOperand_def nth_opt_def opd_def nth_append split: if_splits)

lemmas opds = opd_getOperand opd_getArgOperand

lemmas plan_simps = Let_def visit_simps ptr_def bind_eq_Some_conv

text \<open>
  The shapes of these visitors: reads and writes with one or with two converted pointers.
\<close>

lemma act_n:
  assumes "zwf z" and "list_all2 (means []) as ws"
  shows "acts E ([lk], [(f, as), ul]) z
    (True, unzip (zmove (zcalli E f ws (zlock E z)) (zunlock E (zcall E f ws (zlock E z)))))"
proof -
  obtain A where "grown E [] z (zlock E z) [lk] A" using grown_lock [OF assms(1)] by blast
  from done_write1 [OF this list_means_mono [OF assms(2)]] show ?thesis by (auto simp: acts_def)
qed


lemma act_r:
  assumes "zwf z" and "z1 = zcast V T (zlock E z)"
    and "\<forall>A. means A (As V T) (zcastv V T (zlock E z)) \<longrightarrow> list_all2 (means A) as ws"
  shows "acts E ([lk, (f, as)], [ul]) z (True, unzip (zunlock E (zcall E f ws z1)))"
proof -
  obtain A where A: "grown E [] z z1 [lk] A" "means A (As V T) (zcastv V T (zlock E z))"
    using lock_cast [OF assms(1)] assms(2) by blast
  from done_read [OF grown_call1 [OF A(1) assms(3) [rule_format, OF A(2)]]] show ?thesis by (auto simp: acts_def)
qed

lemma then_read:
  assumes "\<exists>A. grown E [] z z1 ps A \<and> means A a0 w0 \<and> means A a1 w1"
    and "\<forall>A. means A a0 w0 \<longrightarrow> means A a1 w1 \<longrightarrow> list_all2 (means A) as ws"
  shows "\<exists>A. grown E [] z (zcall E f ws z1) (ps @ [(f, as)]) A \<and> means A a0 w0 \<and> means A a1 w1"
proof -
  obtain A where A: "grown E [] z z1 ps A" "means A a0 w0" "means A a1 w1" using assms(1) by blast
  let ?B = "A @ [zcalli E f ws z1]"
  have "means ?B a0 w0" "means ?B a1 w1" using A(2,3) by (auto elim: means_mono)
  with grown_call1 [OF A(1) assms(2) [rule_format, OF A(2,3)]] show ?thesis by blast
qed

lemma act_w1:
  assumes "zwf z" and "z1 = zcast V T (zlock E z)"
    and "\<forall>A. means A (As V T) (zcastv V T (zlock E z)) \<longrightarrow> list_all2 (means A) as ws"
  shows "acts E ([lk], [(f, as), ul]) z (True, unzip (zmove (zcalli E f ws z1) (zunlock E (zcall E f ws z1))))"
proof -
  obtain A where A: "grown E [] z z1 [lk] A" "means A (As V T) (zcastv V T (zlock E z))"
    using lock_cast [OF assms(1)] assms(2) by blast
  from done_write1 [OF A(1) assms(3) [rule_format, OF A(2)]] show ?thesis by (auto simp: acts_def)
qed

lemma act_w2:
  assumes "zwf z" and "z1 = zcast V T (zlock E z)"
    and "\<forall>A. means A (As V T) (zcastv V T (zlock E z)) \<longrightarrow> list_all2 (means A) as ws"
    and "\<forall>A. means A (As V T) (zcastv V T (zlock E z)) \<longrightarrow> list_all2 (means A) bs vs"
  shows "acts E ([lk], [(f, as), (g, bs), ul]) z (True, unzip (zmove (zcalli E f ws z1) (zunlock E (zcall E g vs (zcall E f ws z1)))))"
proof -
  obtain A where A: "grown E [] z z1 [lk] A" "means A (As V T) (zcastv V T (zlock E z))"
    using lock_cast [OF assms(1)] assms(2) by blast
  from done_write2 [OF A(1) assms(3) [rule_format, OF A(2)] assms(4) [rule_format, OF A(2)]] show ?thesis by (auto simp: acts_def)
qed

lemma act_w3:
  assumes "zwf z" and "z1 = zcast V T (zlock E z)"
    and "\<forall>A. means A (As V T) (zcastv V T (zlock E z)) \<longrightarrow> list_all2 (means A) as ws"
    and "\<forall>A. means A (As V T) (zcastv V T (zlock E z)) \<longrightarrow> list_all2 (means A) bs vs"
    and "\<forall>A. means A (As V T) (zcastv V T (zlock E z)) \<longrightarrow> list_all2 (means A) cs us"
  shows "acts E ([lk], [(f, as), (g, bs), (h, cs), ul]) z (True, unzip (zmove (zcalli E f ws z1) (zunlock E (zcall E h us (zcall E g vs (zcall E f ws z1))))))"
proof -
  obtain A where A: "grown E [] z z1 [lk] A" "means A (As V T) (zcastv V T (zlock E z))"
    using lock_cast [OF assms(1)] assms(2) by blast
  from done_write3 [OF A(1) assms(3) [rule_format, OF A(2)] assms(4) [rule_format, OF A(2)] assms(5) [rule_format, OF A(2)]] show ?thesis by (auto simp: acts_def)
qed

lemma reads1:
  assumes "zwf z" and "z1 = zcall E r rs (zcast W U (zcast V T (zlock E z)))"
    and "\<forall>A. means A (As V T) (zcastv V T (zlock E z)) \<longrightarrow> means A (As W U) (zcastv W U (zcast V T (zlock E z))) \<longrightarrow>
      list_all2 (means A) qs rs"
  shows "\<exists>A. grown E [] z z1 [lk, (r, qs)] A \<and> means A (As V T) (zcastv V T (zlock E z))
    \<and> means A (As W U) (zcastv W U (zcast V T (zlock E z)))"
  using then_read [OF lock_cast_cast [OF assms(1)], of V T E W U qs rs r, OF assms(3)] assms(2) by simp

lemma act_rw1:
  assumes "zwf z" and "z1 = zcall E r rs (zcast W U (zcast V T (zlock E z)))"
    and "\<forall>A. means A (As V T) (zcastv V T (zlock E z)) \<longrightarrow> means A (As W U) (zcastv W U (zcast V T (zlock E z))) \<longrightarrow>
      list_all2 (means A) qs rs"
    and "\<forall>A. means A (As V T) (zcastv V T (zlock E z)) \<longrightarrow> means A (As W U) (zcastv W U (zcast V T (zlock E z))) \<longrightarrow>
      list_all2 (means A) as ws"
  shows "acts E ([lk, (r, qs)], [(f, as), ul]) z (True, unzip (zmove (zcalli E f ws z1) (zunlock E (zcall E f ws z1))))"
proof -
  obtain A where A: "grown E [] z z1 [lk, (r, qs)] A" "means A (As V T) (zcastv V T (zlock E z))"
    "means A (As W U) (zcastv W U (zcast V T (zlock E z)))"
    using reads1 [OF assms(1-3)] by (elim exE conjE)
  from done_write1 [OF A(1) assms(4) [rule_format, OF A(2,3)]] show ?thesis by (auto simp: acts_def)
qed

lemma act_rw2:
  assumes "zwf z" and "z1 = zcall E r rs (zcast W U (zcast V T (zlock E z)))"
    and "\<forall>A. means A (As V T) (zcastv V T (zlock E z)) \<longrightarrow> means A (As W U) (zcastv W U (zcast V T (zlock E z))) \<longrightarrow>
      list_all2 (means A) qs rs"
    and "\<forall>A. means A (As V T) (zcastv V T (zlock E z)) \<longrightarrow> means A (As W U) (zcastv W U (zcast V T (zlock E z))) \<longrightarrow>
      list_all2 (means A) as ws"
    and "\<forall>A. means A (As V T) (zcastv V T (zlock E z)) \<longrightarrow> means A (As W U) (zcastv W U (zcast V T (zlock E z))) \<longrightarrow>
      list_all2 (means A) bs vs"
  shows "acts E ([lk, (r, qs)], [(f, as), (g, bs), ul]) z (True, unzip (zmove (zcalli E f ws z1) (zunlock E (zcall E g vs (zcall E f ws z1)))))"
proof -
  obtain A where A: "grown E [] z z1 [lk, (r, qs)] A" "means A (As V T) (zcastv V T (zlock E z))"
    "means A (As W U) (zcastv W U (zcast V T (zlock E z)))"
    using reads1 [OF assms(1-3)] by (elim exE conjE)
  from done_write2 [OF A(1) assms(4) [rule_format, OF A(2,3)] assms(5) [rule_format, OF A(2,3)]] show ?thesis by (auto simp: acts_def)
qed

lemma act_rw3:
  assumes "zwf z" and "z1 = zcall E r rs (zcast W U (zcast V T (zlock E z)))"
    and "\<forall>A. means A (As V T) (zcastv V T (zlock E z)) \<longrightarrow> means A (As W U) (zcastv W U (zcast V T (zlock E z))) \<longrightarrow>
      list_all2 (means A) qs rs"
    and "\<forall>A. means A (As V T) (zcastv V T (zlock E z)) \<longrightarrow> means A (As W U) (zcastv W U (zcast V T (zlock E z))) \<longrightarrow>
      list_all2 (means A) as ws"
    and "\<forall>A. means A (As V T) (zcastv V T (zlock E z)) \<longrightarrow> means A (As W U) (zcastv W U (zcast V T (zlock E z))) \<longrightarrow>
      list_all2 (means A) bs vs"
    and "\<forall>A. means A (As V T) (zcastv V T (zlock E z)) \<longrightarrow> means A (As W U) (zcastv W U (zcast V T (zlock E z))) \<longrightarrow>
      list_all2 (means A) cs us"
  shows "acts E ([lk, (r, qs)], [(f, as), (g, bs), (h, cs), ul]) z (True, unzip (zmove (zcalli E f ws z1) (zunlock E (zcall E h us (zcall E g vs (zcall E f ws z1))))))"
proof -
  obtain A where A: "grown E [] z z1 [lk, (r, qs)] A" "means A (As V T) (zcastv V T (zlock E z))"
    "means A (As W U) (zcastv W U (zcast V T (zlock E z)))"
    using reads1 [OF assms(1-3)] by (elim exE conjE)
  from done_write3 [OF A(1) assms(4) [rule_format, OF A(2,3)] assms(5) [rule_format, OF A(2,3)] assms(6) [rule_format, OF A(2,3)]] show ?thesis by (auto simp: acts_def)
qed

lemma reads2:
  assumes "zwf z" and "z1 = zcall E r' rs' (zcall E r rs (zcast W U (zcast V T (zlock E z))))"
    and "\<forall>A. means A (As V T) (zcastv V T (zlock E z)) \<longrightarrow> means A (As W U) (zcastv W U (zcast V T (zlock E z))) \<longrightarrow>
      list_all2 (means A) qs rs"
    and "\<forall>A. means A (As V T) (zcastv V T (zlock E z)) \<longrightarrow> means A (As W U) (zcastv W U (zcast V T (zlock E z))) \<longrightarrow>
      list_all2 (means A) qs' rs'"
  shows "\<exists>A. grown E [] z z1 [lk, (r, qs), (r', qs')] A \<and> means A (As V T) (zcastv V T (zlock E z))
    \<and> means A (As W U) (zcastv W U (zcast V T (zlock E z)))"
  using then_read [OF reads1 [OF assms(1) refl assms(3)], of qs' rs' r', OF assms(4)] assms(2) by simp

lemma act_rr:
  assumes "zwf z" and "z1 = zcall E r' rs' (zcall E r rs (zcast W U (zcast V T (zlock E z))))"
    and "\<forall>A. means A (As V T) (zcastv V T (zlock E z)) \<longrightarrow> means A (As W U) (zcastv W U (zcast V T (zlock E z))) \<longrightarrow>
      list_all2 (means A) qs rs"
    and "\<forall>A. means A (As V T) (zcastv V T (zlock E z)) \<longrightarrow> means A (As W U) (zcastv W U (zcast V T (zlock E z))) \<longrightarrow>
      list_all2 (means A) qs' rs'"
  shows "acts E ([lk, (r, qs), (r', qs')], [ul]) z (True, unzip (zunlock E z1))"
proof -
  obtain A where A: "grown E [] z z1 [lk, (r, qs), (r', qs')] A"
    using reads2 [OF assms] by (elim exE conjE)
  from done_read [OF A] show ?thesis by (auto simp: acts_def)
qed

lemma act_rrw:
  assumes "zwf z" and "z1 = zcall E r' rs' (zcall E r rs (zcast W U (zcast V T (zlock E z))))"
    and "\<forall>A. means A (As V T) (zcastv V T (zlock E z)) \<longrightarrow> means A (As W U) (zcastv W U (zcast V T (zlock E z))) \<longrightarrow>
      list_all2 (means A) qs rs"
    and "\<forall>A. means A (As V T) (zcastv V T (zlock E z)) \<longrightarrow> means A (As W U) (zcastv W U (zcast V T (zlock E z))) \<longrightarrow>
      list_all2 (means A) qs' rs'"
    and "\<forall>A. means A (As V T) (zcastv V T (zlock E z)) \<longrightarrow> means A (As W U) (zcastv W U (zcast V T (zlock E z))) \<longrightarrow>
      list_all2 (means A) as ws"
  shows "acts E ([lk, (r, qs), (r', qs')], [(f, as), ul]) z
    (True, unzip (zmove (zcalli E f ws z1) (zunlock E (zcall E f ws z1))))"
proof -
  obtain A where A: "grown E [] z z1 [lk, (r, qs), (r', qs')] A"
    "means A (As V T) (zcastv V T (zlock E z))" "means A (As W U) (zcastv W U (zcast V T (zlock E z)))"
    using reads2 [OF assms(1-4)] by (elim exE conjE)
  from done_write1 [OF A(1) assms(5) [rule_format, OF A(2,3)]] show ?thesis by (auto simp: acts_def)
qed

lemma special_memset_plan:
  assumes "zwf z" "zcur z = I" "special_memset E I (unzip z) = Some r" and i: "i = Lit (inst_id E I)"
  shows "acts E ([lk], [(''recordStore'', [i, ptr I 0, Lit (opd I 2)]), ul]) z r"
  using assms(2-)
  by (auto simp: special_memset_def plan_simps assms(1) dest!: opds simp del: One_nat_def
      intro!: act_w1 [OF assms(1)])

lemma special_fgets_plan:
  assumes "zwf z" "zcur z = I" "special_fgets E I (unzip z) = Some r" and i: "i = Lit (inst_id E I)"
  shows "acts E ([lk], [(''recordStrStore'', [i, ptr I 0]), ul]) z r"
  using assms(2-)
  by (auto simp: special_fgets_def plan_simps assms(1) dest!: opds simp del: One_nat_def
      intro!: act_w1 [OF assms(1)])

lemma special_snprintf_plan:
  assumes "zwf z" "zcur z = I" "special_snprintf E I (unzip z) = Some r" and i: "i = Lit (inst_id E I)"
  shows "acts E ([lk], [(''recordStore'', [i, ptr I 0, Lit (opd I 1)]), ul]) z r"
  using assms(2-)
  by (auto simp: special_snprintf_def plan_simps assms(1) dest!: opds simp del: One_nat_def
      intro!: act_w1 [OF assms(1)])

lemma special_strlen_plan:
  assumes "zwf z" "zcur z = I" "special_strlen E I (unzip z) = Some r" and i: "i = Lit (inst_id E I)"
  shows "acts E ([lk, (''recordStrLoad'', [i, ptr I 0])], [ul]) z r"
  using assms(2-)
  by (auto simp: special_strlen_def plan_simps assms(1) dest!: opds simp del: One_nat_def
      intro!: act_r [OF assms(1)])

lemma pmem_flush_call_plan:
  assumes "zwf z" "zcur z = I" "pmem_flush_call E I (unzip z) = Some r" and i: "i = Lit (inst_id E I)"
  shows "acts E ([lk], [(''recordFlushWrapper'', [i, ptr I 0, Lit (opd I 1)]), ul]) z r"
  using assms(2-)
  by (auto simp: pmem_flush_call_def plan_simps assms(1) dest!: opds simp del: One_nat_def
      intro!: act_w1 [OF assms(1)])

lemma pmem_drain_call_plan:
  assumes "zwf z" "zcur z = I" "pmem_drain_call E I (unzip z) = Some r" and i: "i = Lit (inst_id E I)"
  shows "acts E ([lk], [(''recordFence'', [i]), ul]) z r"
  using assms(2-)
  by (auto simp: pmem_drain_call_def plan_simps assms(1) dest!: opds simp del: One_nat_def
      intro!: act_n [OF assms(1)])

lemma pmem_persist_call_plan:
  assumes "zwf z" "zcur z = I" "pmem_persist_call E I (unzip z) = Some r" and i: "i = Lit (inst_id E I)"
  shows "acts E ([lk], [(''recordFlushWrapper'', [i, ptr I 0, Lit (opd I 1)]), (''recordFence'', [i]), ul]) z r"
  using assms(2-)
  by (auto simp: pmem_persist_call_def plan_simps assms(1) dest!: opds simp del: One_nat_def
      intro!: act_w2 [OF assms(1)])

lemma pmem_set_call_plan:
  assumes "zwf z" "zcur z = I" "pmem_set_call E I (unzip z) = Some r" and i: "i = Lit (inst_id E I)"
  shows "acts E ([lk], [(''recordStore'', [i, ptr I 0, Lit (opd I 2)]), ul]) z r"
  using assms(2-)
  by (auto simp: pmem_set_call_def plan_simps assms(1) dest!: opds simp del: One_nat_def
      intro!: act_w1 [OF assms(1)])

lemma pmem_set_nodrain_call_plan:
  assumes "zwf z" "zcur z = I" "pmem_set_nodrain_call E I (unzip z) = Some r" and i: "i = Lit (inst_id E I)"
  shows "acts E ([lk], [(''recordStore'', [i, ptr I 0, Lit (opd I 2)]), (''recordFlushWrapper'', [i, ptr I 0, Lit (opd I 2)]), ul]) z r"
  using assms(2-)
  by (auto simp: pmem_set_nodrain_call_def plan_simps assms(1) dest!: opds simp del: One_nat_def
      intro!: act_w2 [OF assms(1)])

lemma pmem_set_persist_call_plan:
  assumes "zwf z" "zcur z = I" "pmem_set_persist_call E I (unzip z) = Some r" and i: "i = Lit (inst_id E I)"
  shows "acts E ([lk], [(''recordStore'', [i, ptr I 0, Lit (opd I 2)]), (''recordFlushWrapper'', [i, ptr I 0, Lit (opd I 2)]), (''recordFence'', [i]), ul]) z r"
  using assms(2-)
  by (auto simp: pmem_set_persist_call_def plan_simps assms(1) dest!: opds simp del: One_nat_def
      intro!: act_w3 [OF assms(1)])

lemma special_strncpy_plan:
  assumes "zwf z" "zcur z = I" "special_strncpy E I (unzip z) = Some r" and i: "i = Lit (inst_id E I)"
  shows "acts E ([lk, (''recordStrLoad'', [i, ptr I 1])], [(''recordStrStore'', [i, ptr I 0]), ul]) z r"
  using assms(2-)
  by (auto simp: special_strncpy_def plan_simps assms(1) dest!: opds simp del: One_nat_def
      intro!: act_rw1 [OF assms(1)])

lemma special_strcat_plan:
  assumes "zwf z" "zcur z = I" "special_strcat E I (unzip z) = Some r" and i: "i = Lit (inst_id E I)"
  shows "acts E ([lk, (''recordStrLoad'', [i, ptr I 0]), (''recordStrLoad'', [i, ptr I 1])], [(''recordStrcatStore'', [i, ptr I 0, ptr I 1]), ul]) z r"
  using assms(2-)
  by (auto simp: special_strcat_def plan_simps assms(1) dest!: opds simp del: One_nat_def
      intro!: act_rrw [OF assms(1)])

lemma special_strcmp_plan:
  assumes "zwf z" "zcur z = I" "special_strcmp E I (unzip z) = Some r" and i: "i = Lit (inst_id E I)"
  shows "acts E ([lk, (''recordStrLoad'', [i, ptr I 0]), (''recordStrLoad'', [i, ptr I 1])], [ul]) z r"
  using assms(2-)
  by (auto simp: special_strcmp_def plan_simps assms(1) dest!: opds simp del: One_nat_def
      intro!: act_rr [OF assms(1)])

lemma pmem_copy_call_plan:
  assumes "zwf z" "zcur z = I" "pmem_copy_call E I (unzip z) = Some r" and i: "i = Lit (inst_id E I)"
  shows "acts E ([lk, (''recordLoad'', [i, ptr I 1, Lit (opd I 2)])], [(''recordStore'', [i, ptr I 0, Lit (opd I 2)]), ul]) z r"
  using assms(2-)
  by (auto simp: pmem_copy_call_def plan_simps assms(1) dest!: opds simp del: One_nat_def
      intro!: act_rw1 [OF assms(1)])

lemma pmem_copy_nodrain_call_plan:
  assumes "zwf z" "zcur z = I" "pmem_copy_nodrain_call E I (unzip z) = Some r" and i: "i = Lit (inst_id E I)"
  shows "acts E ([lk, (''recordLoad'', [i, ptr I 1, Lit (opd I 2)])], [(''recordStore'', [i, ptr I 0, Lit (opd I 2)]), (''recordFlushWrapper'', [i, ptr I 0, Lit (opd I 2)]), ul]) z r"
  using assms(2-)
  by (auto simp: pmem_copy_nodrain_call_def plan_simps assms(1) dest!: opds simp del: One_nat_def
      intro!: act_rw2 [OF assms(1)])

lemma pmem_copy_persist_call_plan:
  assumes "zwf z" "zcur z = I" "pmem_copy_persist_call E I (unzip z) = Some r" and i: "i = Lit (inst_id E I)"
  shows "acts E ([lk, (''recordLoad'', [i, ptr I 1, Lit (opd I 2)])], [(''recordStore'', [i, ptr I 0, Lit (opd I 2)]), (''recordFlushWrapper'', [i, ptr I 0, Lit (opd I 2)]), (''recordFence'', [i]), ul]) z r"
  using assms(2-)
  by (auto simp: pmem_copy_persist_call_def plan_simps assms(1) dest!: opds simp del: One_nat_def
      intro!: act_rw3 [OF assms(1)])

lemma special_strcpy_plan:
  assumes "zwf z" "zcur z = I" "special_copy E I name (unzip z) = Some r" "name = ''strcpy''" and i: "i = Lit (inst_id E I)"
  shows "acts E ([lk, (''recordStrLoad'', [i, ptr I 1])], [(''recordStrStore'', [i, ptr I 0]), ul]) z r"
  using assms(2-)
  by (auto simp: special_copy_def plan_simps assms(1) dest!: opds simp del: One_nat_def
      intro!: act_rw1 [OF assms(1)])

lemma special_memcpy_plan:
  assumes "zwf z" "zcur z = I" "special_copy E I name (unzip z) = Some r" "name \<noteq> ''strcpy''" and i: "i = Lit (inst_id E I)"
  shows "acts E ([lk, (''recordLoad'', [i, ptr I 1, Lit (opd I 2)])], [(''recordStore'', [i, ptr I 0, Lit (opd I 2)]), ul]) z r"
  using assms(2-)
  by (auto simp: special_copy_def plan_simps assms(1) dest!: opds simp del: One_nat_def
      intro!: act_rw1 [OF assms(1)])

text \<open>Moving the instruction before \<open>J\<close> without an unlocking call after it.\<close>

lemma done_move:
  assumes "grown E [] z z1 ps A" and "grown E A z1 z2 qs (J # C)"
  shows "carried_out E (ps, qs) z (zmove J z2)"
proof -
  have l: "zleft z2 = zleft z1 @ J # C" and fr: "zfresh z1 \<le> iref J" and w1: "zwf z1"
    using assms by (auto simp: grown_def)
  have "zleft (zmove J z2) = zleft z @ A" and "zright (zmove J z2) = (J # C) @ zright z"
    using assms left_new [OF w1 fr, of C] l by (simp_all add: zmove_def grown_def)
  then show ?thesis
    using assms by (intro carried_outI [of _ _ A "J # C"]) (auto simp: grown_def)
qed

lemma act_sync:
  assumes "zwf z" and "z1 = zcast V T z"
    and "\<forall>A. means A (As V T) (zcastv V T z) \<longrightarrow> list_all2 (means A) as ws"
  shows "acts E ([], [(f, as)]) z (True, unzip (zmove (zcalli E f ws z1) (zcall E f ws z1)))"
proof -
  obtain A where A: "grown E [] z z1 [] A" "means A (As V T) (zcastv V T z)"
    using grown_cast [OF grown_refl [OF assms(1), of E "[]"], of V T] assms(2) by auto
  then have "zwf z1" by (simp add: grown_def)
  from grown_call [OF grown_refl [OF this, of E A], of as ws f] assms(3) A(2)
  have "grown E A z1 (zcall E f ws z1) [(f, as)] [zcalli E f ws z1]" by simp
  from done_move [OF A(1) this] show ?thesis by (auto simp: acts_def)
qed

lemma visitLockCall_plan:
  assumes "zwf z" "zcur z = I" "visitLockCall E I name (unzip z) = Some r"
    "name \<in> set lock_functions \<or> name \<in> set unlock_functions"
  shows "acts E (plan_sync E I name) z r"
  using assms(2-)
  by (auto simp: visitLockCall_def plan_sync_def plan_simps assms(1) dest!: opds simp del: One_nat_def
      intro!: act_sync [OF assms(1)])

lemma visitMmapCall_plan:
  assumes "zwf z" "zcur z = I" "visitMmapCall E I name (unzip z) = Some r" "name = ''mmap''"
  shows "acts E (plan_sync E I name) z r"
  using assms(2-)
  by (auto simp: visitMmapCall_def plan_sync_def plan_simps assms(1) lock_functions_def
      unlock_functions_def dest!: opds simp del: One_nat_def intro!: act_n [OF assms(1)])

lemma alloc_call_plan:
  assumes "zwf z" "zcur z = I" "alloc_call E I (unzip z) = Some s" and i: "i = Lit (inst_id E I)"
  shows "acts E ([lk], [(''recordAlloc'', [i, ptr I 1, Lit (opd I 2)]), ul]) z (True, s)"
  using assms(2-)
  by (auto simp: alloc_call_def plan_simps assms(1) dest!: opds simp del: One_nat_def
      intro!: act_w1 [OF assms(1)])

lemma tx_alloc_call_plan:
  assumes "zwf z" "zcur z = I" "tx_alloc_call E I (unzip z) = Some s" and i: "i = Lit (inst_id E I)"
  shows "acts E ([lk], [(''recordTxAlloc'', [i, Lit (value_of I), Lit (opd I 0)]), ul]) z (True, s)"
  using assms(2-)
  by (auto simp: tx_alloc_call_def plan_simps assms(1) dest!: opds simp del: One_nat_def
      intro!: act_n [OF assms(1)])

subsection \<open>Inline assembly\<close>

text \<open>Here the unlocking call is placed after the record, which is the last one on the left.\<close>

lemma zafter_left_last:
  assumes "zleft z = L @ [J]" "J \<notin> set L"
  shows "zafter_left J op t z = zbefore op t z"
proof -
  have "takeWhile (\<lambda>i. i \<noteq> J) (L @ [J]) = L" "dropWhile (\<lambda>i. i \<noteq> J) (L @ [J]) = [J]"
    using assms(2) by (induction L) auto
  with assms(1) show ?thesis by (simp add: zafter_left_def zbefore_def)
qed

lemma zcalli_new: "zwf z \<Longrightarrow> zcalli E f ws z \<notin> set (zleft z)"
  using zleft_lt [of z "zcalli E f ws z"] by auto

lemma unlock_record_zip:
  assumes "zwf z1"
  shows "instrumentUnlock E (zcalli E f ws z1) (unzip (zcall E f ws z1)) = Some s \<longleftrightarrow>
    callable E ''unlocking'' [ztext (print_inst E (zcalli E f ws z1)) (zcall E f ws z1)]
    \<and> s = unzip (zcall E ''unlocking'' [ztext (print_inst E (zcalli E f ws z1)) (zcall E f ws z1)]
      (zstr (print_inst E (zcalli E f ws z1)) (zcall E f ws z1)))"
proof -
  let ?J = "zcalli E f ws z1" and ?z = "zcall E f ws z1"
  have "zafter_left ?J op t (zstr str ?z) = zbefore op t (zstr str ?z)" for op t str
    by (rule zafter_left_last [of _ "zleft z1"]) (simp_all add: zcalli_new [OF assms])
  then show ?thesis
    using assms
    by (auto simp: instrumentUnlock_def Let_def stringToGV_zip call_after_def create_after_left_zip
        ztext_def zcall_def [of E "''unlocking''"])
qed

lemma act_asm:
  assumes "grown E [] z z1 [lk] A" and "list_all2 (means A) as ws"
    and "instrumentUnlock E (zcalli E f ws z1) (unzip (zcall E f ws z1)) = Some s"
  shows "acts E ([lk], [(f, as), ul]) z (True, moveBefore (zcur z) (zcalli E f ws z1) s)"
proof -
  let ?J = "zcalli E f ws z1" and ?z = "zcall E f ws z1"
  let ?str = "print_inst E ?J"
  let ?z2 = "zcall E ''unlocking'' [ztext ?str ?z] (zstr ?str ?z)"
  have w: "zwf z1" "zcur z1 = zcur z" using assms(1) by (simp_all add: grown_def)
  from grown_call [OF grown_refl [OF w(1), of E A], of as ws f] assms(2)
  have "grown E A z1 (zstr ?str ?z) [(f, as)] [?J]" by (simp add: grown_def)
  from grown_call [OF this, of "[Text]" "[ztext ?str ?z]" "''unlocking''"]
  have "grown E A z1 ?z2 [(f, as), ul] (?J # [zcalli E ''unlocking'' [ztext ?str ?z] (zstr ?str ?z)])"
    by (simp add: ztext_def ul_def)
  from done_move [OF assms(1) this] w assms(3) show ?thesis
    by (auto simp: acts_def unlock_record_zip moveBefore_zip)
qed

lemma visitInlineAsm_plan:
  assumes "zwf z" "zcur z = I" "visitInlineAsm E I asm (unzip z) = Some (b, s)"
  shows "acts E (plan_asm E I asm) z (True, s)"
proof -
  consider (flush) "contains ''clflush $0'' asm \<or> contains ''xsaveopt $0'' asm"
    | (fence) "\<not> (contains ''clflush $0'' asm \<or> contains ''xsaveopt $0'' asm)" "contains ''mfence'' asm"
    | (xchg) "\<not> (contains ''clflush $0'' asm \<or> contains ''xsaveopt $0'' asm)"
        "\<not> contains ''mfence'' asm" "contains ''xchgq $0,$1'' asm"
    | (none) "\<not> (contains ''clflush $0'' asm \<or> contains ''xsaveopt $0'' asm)"
        "\<not> contains ''mfence'' asm" "\<not> contains ''xchgq $0,$1'' asm"
    by blast
  then show ?thesis
  proof cases
    case flush
    then obtain p where o: "getArgOperand I 0 = Some p"
      using assms(3) by (auto simp: visitInlineAsm_def Let_def bind_eq_Some_conv split: if_splits)
    obtain A where A: "grown E [] z (zcast p VoidPtrType (zlock E z)) [lk] A"
      "means A (As p VoidPtrType) (zcastv p VoidPtrType (zlock E z))"
      using lock_cast [OF assms(1)] by blast
    show ?thesis
      using act_asm [OF A(1)] A(2) flush assms o opd_getArgOperand [OF o]
      by (auto simp: visitInlineAsm_def plan_asm_def plan_simps split: if_splits)
  next
    case fence
    obtain A where A: "grown E [] z (zlock E z) [lk] A" using grown_lock [OF assms(1)] by blast
    show ?thesis
      using act_asm [OF A] fence assms
      by (auto simp: visitInlineAsm_def plan_asm_def plan_simps split: if_splits)
  next
    case xchg
    with assms show ?thesis
      by (auto simp: visitInlineAsm_def plan_asm_def plan_simps size_arg_def dest!: opds
          split: if_splits intro!: act_w1)
  next
    case none
    with assms carried_out_nothing [OF assms(1)] show ?thesis
      by (auto simp: visitInlineAsm_def plan_asm_def Let_def acts_def)
  qed
qed

subsection \<open>calloc and sprintf\<close>

lemma zmove_zmove:
  assumes "zleft z = L @ K # C @ J # D" "K \<notin> set L" "J \<notin> set (L @ K # C)"
  shows "zmove K (zmove J z) = zmove K z"
proof -
  have J: "takeWhile (\<lambda>i. i \<noteq> J) (zleft z) = L @ K # C" "dropWhile (\<lambda>i. i \<noteq> J) (zleft z) = J # D"
    using assms(1,3) by (auto simp: takeWhile_append dropWhile_append)
  have K: "takeWhile (\<lambda>i. i \<noteq> K) (L @ K # xs) = L" "dropWhile (\<lambda>i. i \<noteq> K) (L @ K # xs) = K # xs" for xs
    using assms(2) by (induction L) auto
  show ?thesis unfolding zmove_def using J assms(1) by (simp add: K)
qed

lemma special_calloc_plan:
  assumes "zwf z" "zcur z = I" "special_calloc E I (unzip z) = Some r" and i: "i = Lit (inst_id E I)"
  shows "acts E ([lk], [(''recordStore'', [i, As (value_of I) VoidPtrType, Prod (opd I 0) (opd I 1)]), ul]) z r"
proof -
  obtain a b where o: "getOperand I 0 = Some a" "getOperand I 1 = Some b"
    using assms(3) by (auto simp: special_calloc_def bind_eq_Some_conv)
  let ?z0 = "zlock E z"
  let ?K = "znew (MulI a b) (type_of a) ?z0" and ?z1 = "zbefore (MulI a b) (type_of a) ?z0"
  let ?z2 = "zcast (value_of I) VoidPtrType ?z1" and ?w = "zcastv (value_of I) VoidPtrType ?z1"
  let ?ws = "[inst_id E I, ?w, value_of ?K]" and ?as = "[i, As (value_of I) VoidPtrType, Prod a b]"
  let ?J = "zcalli E ''recordStore'' ?ws ?z2" and ?z3 = "zcall E ''recordStore'' ?ws ?z2"
  obtain A where A: "grown E [] z ?z0 [lk] A" using grown_lock [OF assms(1)] by blast
  then have w0: "zwf ?z0" by (simp add: grown_def)
  have "grown E A ?z0 ?z1 [] [?K]" using w0 by (simp add: grown_def)
  from grown_cast [OF this, of "value_of I" VoidPtrType] obtain C where
    C: "grown E A ?z0 ?z2 [] (?K # C)" "means (A @ ?K # C) (As (value_of I) VoidPtrType) ?w" by auto
  have "list_all2 (means (A @ ?K # C)) ?as ?ws" using C(2) i by simp
  from grown_call [OF C(1) this, of "''recordStore''"]
  have g: "grown E A ?z0 ?z3 [(''recordStore'', ?as)] (?K # C @ [?J])" by simp
  have w2: "zwf ?z2" using C(1) by (simp add: grown_def)
  have l: "zleft (zunlock E ?z3) = zleft ?z0 @ ?K # C @ ?J # []" using g by (simp add: grown_def)
  have "?K \<notin> set (zleft ?z0)" using zleft_lt [OF w0, of ?K] by auto
  moreover have "?J \<notin> set (zleft ?z0 @ ?K # C)"
    using zcalli_new [OF w2, of E "''recordStore''" ?ws] C(1) by (simp add: grown_def)
  ultimately have "zmove ?K (zmove ?J (zunlock E ?z3)) = zmove ?K (zunlock E ?z3)"
    using zmove_zmove [OF l] by simp
  moreover have "r = (True, unzip (zmove ?K (zmove ?J (zunlock E ?z3))))"
  proof -
    have w3: "zwf (zunlock E ?z3)" using w2 by simp
    have K: "?K \<in> set (zleft (zmove ?J (zunlock E ?z3)))"
      using l \<open>?J \<notin> set (zleft ?z0 @ ?K # C)\<close> by (auto simp: zmove_def takeWhile_append)
    show ?thesis
      using assms(1-3) o w2 K by (simp add: special_calloc_def plan_simps)
  qed
  ultimately show ?thesis
    using done_write [OF A g] opd_getOperand [OF o(1)] opd_getOperand [OF o(2)] by (auto simp: acts_def)
qed

lemma sprintf_loads_grown:
  assumes "grown E [] z z1 ps A" "means A a w" "zcur z = I" "sprintf_loads E iid I ops (unzip z1) = Some s"
  shows "\<exists>z2 B. s = unzip z2 \<and> means B a w
    \<and> grown E [] z z2 (ps @ map (\<lambda>p. (''recordStrLoad'', [Lit iid, Lit p]))
        (filter (\<lambda>p. type_of p = VoidPtrType) ops)) B"
  using assms
proof (induction ops arbitrary: z1 ps A)
  case Nil
  then show ?case by auto
next
  case (Cons p ops)
  show ?case
  proof (cases "type_of p = VoidPtrType")
    case True
    let ?z = "zcall E ''recordStrLoad'' [iid, p] z1" and ?c = "zcalli E ''recordStrLoad'' [iid, p] z1"
    have "grown E [] z ?z (ps @ [(''recordStrLoad'', [Lit iid, Lit p])]) (A @ [?c])"
      by (rule grown_call1 [OF Cons.prems(1)]) simp
    moreover have "means (A @ [?c]) a w" using Cons.prems(2) by (rule means_mono) auto
    moreover have "sprintf_loads E iid I ops (unzip ?z) = Some s"
      using Cons.prems True by (auto simp: grown_def bind_eq_Some_conv call_before_zip)
    ultimately show ?thesis using Cons.IH [OF _ _ Cons.prems(3)] True by force
  next
    case False
    with Cons.prems(4) have "sprintf_loads E iid I ops (unzip z1) = Some s" by simp
    from Cons.IH [OF Cons.prems(1-3) this] False show ?thesis by simp
  qed
qed

lemma special_sprintf_plan:
  assumes "zwf z" "zcur z = I" "special_sprintf E I (unzip z) = Some r" and i: "i = Lit (inst_id E I)"
  shows "acts E (lk # map (\<lambda>p. (''recordStrLoad'', [i, Lit p]))
      (filter (\<lambda>p. type_of p = VoidPtrType) (drop 2 (operands (iop I)))),
    [(''recordStrStore'', [i, ptr I 0]), ul]) z r"
proof -
  let ?ops = "drop 2 (operands (iop I))"
  from assms(1-3) obtain p s where o: "getOperand I 0 = Some p"
    and s: "sprintf_loads E (inst_id E I) I ?ops (unzip (zcast p VoidPtrType (zlock E z))) = Some s"
    and rest: "do {
      (recStore, s) \<leftarrow> call_before E ''recordStrStore'' [inst_id E I, zcastv p VoidPtrType (zlock E z)] I s;
      s \<leftarrow> instrumentUnlock E I s;
      Some (True, moveBefore I recStore s)
    } = Some r"
    by (auto simp: special_sprintf_def plan_simps)
  obtain A where A: "grown E [] z (zcast p VoidPtrType (zlock E z)) [lk] A"
    "means A (As p VoidPtrType) (zcastv p VoidPtrType (zlock E z))"
    using lock_cast [OF assms(1)] by blast
  from sprintf_loads_grown [OF A assms(2) s] obtain z2 B where z2: "s = unzip z2"
    "means B (As p VoidPtrType) (zcastv p VoidPtrType (zlock E z))"
    "grown E [] z z2 ([lk] @ map (\<lambda>p. (''recordStrLoad'', [Lit (inst_id E I), Lit p]))
        (filter (\<lambda>p. type_of p = VoidPtrType) ?ops)) B"
    by (elim exE conjE)
  then have "zwf z2" "zcur z2 = I" using assms(2) by (auto simp: grown_def)
  with done_write1 [OF z2(3)] z2(1,2) rest i opd_getOperand [OF o] show ?thesis
    by (auto simp: acts_def plan_simps)
qed

subsection \<open>All instructions\<close>

text \<open>A visitor of calls either does what is planned and says so, or changes nothing.\<close>

definition result_ok ::
  "tp_env \<Rightarrow> zipper \<Rightarrow> planned list \<times> planned list \<Rightarrow> (bool \<times> edit) option \<Rightarrow> bool"
where
  "result_ok E z p v \<longleftrightarrow>
     (\<forall>b s. v = Some (b, s) \<longrightarrow>
        (if p = ([], []) then \<not> b \<and> s = unzip z else b \<and> acts E p z (b, s)))"

lemma result_if:
  "(c \<Longrightarrow> result_ok E z p v) \<Longrightarrow> (\<not> c \<Longrightarrow> result_ok E z q w) \<Longrightarrow>
   result_ok E z (if c then p else q) (if c then v else w)"
  by simp

lemma result_act: "(\<And>r. v = Some r \<Longrightarrow> acts E p z r) \<Longrightarrow> p \<noteq> ([], []) \<Longrightarrow> result_ok E z p v"
  by (fastforce simp: result_ok_def acts_def)

lemma result_none: "result_ok E z ([], []) (Some (False, unzip z))"
  by (simp add: result_ok_def)

lemma special_copy_result:
  assumes "zwf z" "zcur z = I" "i = Lit (inst_id E I)"
  shows "result_ok E z
    (if name = ''strcpy''
     then ([lk, (''recordStrLoad'', [i, ptr I 1])], [(''recordStrStore'', [i, ptr I 0]), ul])
     else ([lk, (''recordLoad'', [i, ptr I 1, Lit (opd I 2)])],
           [(''recordStore'', [i, ptr I 0, Lit (opd I 2)]), ul])) (special_copy E I name (unzip z))"
  using special_strcpy_plan [OF assms(1,2) _ _ assms(3)] special_memcpy_plan [OF assms(1,2) _ _ assms(3)]
  by (cases "name = ''strcpy''") (auto intro!: result_act)

lemma visitSpecialCall_result:
  assumes "zwf z" "zcur z = I"
  shows "result_ok E z (plan_special E I name) (visitSpecialCall E I name (unzip z))"
  unfolding visitSpecialCall_def plan_special_def Let_def
  by (intro result_if result_none special_copy_result result_act;
      (rule special_memset_plan special_strncpy_plan special_strcat_plan special_strlen_plan
        special_strcmp_plan special_calloc_plan special_sprintf_plan special_fgets_plan
        special_snprintf_plan)?; (rule assms refl | assumption | simp))

lemma visitPmemCall_result:
  assumes "zwf z" "zcur z = I"
  shows "result_ok E z (plan_pmem E I name) (visitPmemCall E I name (unzip z))"
  unfolding visitPmemCall_def plan_pmem_def Let_def
  by (intro result_if result_none result_act;
      (rule pmem_flush_call_plan pmem_drain_call_plan pmem_persist_call_plan
        pmem_copy_nodrain_call_plan pmem_copy_persist_call_plan pmem_copy_call_plan
        pmem_set_nodrain_call_plan pmem_set_persist_call_plan pmem_set_call_plan)?;
      (rule assms refl | assumption | simp))

lemma visitSync_plan:
  assumes "zwf z" "zcur z = I" "visitLockCall E I name (unzip z) = Some (b, s)"
    and "\<not> b \<Longrightarrow> visitMmapCall E I name s = Some (b', s')"
  shows "acts E (plan_sync E I name) z (True, if b then s else s')"
proof (cases "name \<in> set lock_functions \<or> name \<in> set unlock_functions")
  case True
  from visitLockCall_plan [OF assms(1-3) True] have a: "acts E (plan_sync E I name) z (b, s)" .
  then have b by (auto simp: acts_def)
  with a show ?thesis by simp
next
  case False
  with assms(3) have b: "\<not> b" "s = unzip z" by (auto simp: visitLockCall_def)
  show ?thesis
  proof (cases "name = ''mmap''")
    case True
    from visitMmapCall_plan [OF assms(1,2) _ True] assms(4) [OF b(1)] b(2)
    have a: "acts E (plan_sync E I name) z (b', s')" by simp
    then have b' by (auto simp: acts_def)
    with a b(1) show ?thesis by simp
  next
    case no: False
    with False have "plan_sync E I name = ([], [])" by (simp add: plan_sync_def)
    with assms(4) [OF b(1)] no b carried_out_nothing [OF assms(1)] show ?thesis
      by (auto simp: visitMmapCall_def acts_def)
  qed
qed

lemma result_okD:
  assumes "result_ok E z p v" "v = Some (b, s)"
  shows "b = (p \<noteq> ([], []))" "b \<Longrightarrow> acts E p z (True, s)" "\<not> b \<Longrightarrow> s = unzip z"
  using assms by (auto simp: result_ok_def split: if_splits)

lemma plan_after_pmem:
  assumes "zwf z" "zcur z = I"
    and "Option.bind (visitPmemCall E I n (unzip z)) (\<lambda>(b, s).
      if b then Some s else Option.bind (visitLockCall E I n s) (\<lambda>(b, s).
        if b then Some s else map_option snd (visitMmapCall E I n s))) = Some s"
  shows "acts E (if plan_pmem E I n \<noteq> ([], []) then plan_pmem E I n else plan_sync E I n) z (True, s)"
proof -
  obtain b2 s2 where 2: "visitPmemCall E I n (unzip z) = Some (b2, s2)"
    and v2: "(if b2 then Some s2 else Option.bind (visitLockCall E I n s2) (\<lambda>(b, s).
        if b then Some s else map_option snd (visitMmapCall E I n s))) = Some s"
    using assms(3) by (auto simp: bind_eq_Some_conv)
  note r2 = result_okD [OF visitPmemCall_result [OF assms(1,2)] 2]
  show ?thesis
  proof (cases b2)
    case True
    with r2 v2 show ?thesis by simp
  next
    case False
    with r2 have s2: "s2 = unzip z" and p2: "plan_pmem E I n = ([], [])" by auto
    from v2 False s2 obtain b3 s3 where 3: "visitLockCall E I n (unzip z) = Some (b3, s3)"
      and v3: "(if b3 then Some s3 else map_option snd (visitMmapCall E I n s3)) = Some s"
      by (auto simp: bind_eq_Some_conv)
    have "\<not> b3 \<Longrightarrow> \<exists>b'. visitMmapCall E I n s3 = Some (b', s)" using v3 by auto
    then obtain b' where "\<not> b3 \<Longrightarrow> visitMmapCall E I n s3 = Some (b', s)" by blast
    from visitSync_plan [OF assms(1,2) 3 this] v3 p2 show ?thesis by (auto split: if_splits)
  qed
qed

lemma visitFunction_plan:
  assumes "zwf z" "zcur z = I" "visitCallInst E I (FunRef m t) (unzip z) = Some s"
  shows "acts E (plan_call E I m) z (True, s)"
proof -
  let ?n = "func_name E m"
  note v = assms(3) [unfolded visitCallInst_def, simplified val.case Let_def]
  consider (alloc) "?n = ''pmemobj_alloc''" | (tx) "?n = ''pmemobj_tx_alloc''"
    | (defined) "?n \<noteq> ''pmemobj_alloc''" "?n \<noteq> ''pmemobj_tx_alloc''" "\<not> declared E m"
    | (external) "?n \<noteq> ''pmemobj_alloc''" "?n \<noteq> ''pmemobj_tx_alloc''" "declared E m"
    by blast
  then show ?thesis
  proof cases
    case alloc
    with v alloc_call_plan [OF assms(1,2) _ refl] show ?thesis by (simp add: plan_call_def Let_def)
  next
    case tx
    with v tx_alloc_call_plan [OF assms(1,2) _ refl] show ?thesis by (simp add: plan_call_def Let_def)
  next
    case defined
    with v have "plan_call E I m = ([], [])" "s = unzip z" by (simp_all add: plan_call_def Let_def)
    then show ?thesis unfolding acts_def using carried_out_nothing [OF assms(1), of E] by auto
  next
    case external
    then obtain b1 s1 where 1: "visitSpecialCall E I ?n (unzip z) = Some (b1, s1)"
      and v1: "(if b1 then Some s1 else Option.bind (visitPmemCall E I ?n s1) (\<lambda>(b, s).
          if b then Some s else Option.bind (visitLockCall E I ?n s) (\<lambda>(b, s).
            if b then Some s else map_option snd (visitMmapCall E I ?n s)))) = Some s"
      using v by (auto simp: bind_eq_Some_conv)
    note r1 = result_okD [OF visitSpecialCall_result [OF assms(1,2)] 1]
    show ?thesis
      using r1 v1 external plan_after_pmem [OF assms(1,2), of E ?n s]
      by (cases b1) (auto simp: plan_call_def Let_def)
  qed
qed

lemma visitCallInst_plan:
  assumes "zwf z" "zcur z = I" "iop I = CallI f as" "visitCallInst E I f (unzip z) = Some s"
  shows "acts E (plan E I) z (True, s)"
proof (cases f)
  case (AsmRef asm t)
  with assms(4) obtain b where "visitInlineAsm E I asm (unzip z) = Some (b, s)"
    by (auto simp: visitCallInst_def)
  from visitInlineAsm_plan [OF assms(1,2) this] AsmRef assms(3) show ?thesis
    by (simp add: plan_def Let_def)
next
  case (FunRef m t)
  with visitFunction_plan [OF assms(1,2)] assms(3,4) show ?thesis by (simp add: plan_def Let_def)
qed (use assms carried_out_nothing [OF assms(1), of E] in
    \<open>auto simp: visitCallInst_def plan_def Let_def acts_def\<close>)

lemma visit_plan:
  assumes "zwf z" "zcur z = I" "visit E I (unzip z) = Some s"
  shows "\<exists>z'. s = unzip z' \<and> carried_out E (plan E I) z z'"
proof (cases "iop I")
  case (CallI f as)
  with visitCallInst_plan [OF assms(1,2)] assms(3) show ?thesis by (auto simp: acts_def)
next
  case (LoadI p)
  with visitLoadInst_plan [OF assms(1,2)] assms(3) show ?thesis by auto
next
  case (StoreI v p)
  with visitStoreInst_plan [OF assms(1,2)] assms(3) show ?thesis by auto
next
  case (RMWI p v)
  with visitAtomicRMWInst_plan [OF assms(1,2)] assms(3) show ?thesis by auto
next
  case (CmpXchgI p c n)
  with visitAtomicCmpXchgInst_plan [OF assms(1,2)] assms(3) show ?thesis by auto
next
  case (BranchI c)
  with visitBranchInst_plan [OF assms(1,2)] assms(3) show ?thesis by auto
qed (use assms(3) carried_out_nothing [OF assms(1), of E] in \<open>auto simp: plan_def\<close>)

end
