(* ===== verification/Tracer_Pass_Module.thy ===== *)
theory Tracer_Pass_Module
  imports Tracer_Pass_Correct
begin

text \<open>
  The pass on whole blocks, functions and modules: every instruction is surrounded by the calls
  planned for it, and without the new instructions the module is the one the pass was given.
\<close>

section \<open>Blocks\<close>

inductive woven :: "tp_env \<Rightarrow> block \<Rightarrow> block \<Rightarrow> bool" for E where
  woven_Nil: "woven E [] []"
| woven_Cons: "realised E [] (fst (plan E I)) A \<Longrightarrow> realised E A (snd (plan E I)) B \<Longrightarrow>
    woven E b b' \<Longrightarrow> woven E (I # b) (A @ I # B @ b')"

definition fresh_for :: "nat \<Rightarrow> block \<Rightarrow> bool" where
  "fresh_for n b \<longleftrightarrow> distinct (map iref b) \<and> (\<forall>i\<in>set b. iref i < n)"

text \<open>The instructions \<open>W\<close> of a block \<open>D @ W @ R\<close> are visited.\<close>

lemma visit_all_woven:
  assumes "visit_all E W \<lparr>blk = D @ W @ R, fresh = n, strs = g\<rparr> = Some s"
    and "fresh_for n (D @ W @ R)" and "m \<le> n" and "\<forall>i\<in>set W. iref i < m"
  shows "\<exists>b'. blk s = D @ b' @ R \<and> woven E W b' \<and> filter (\<lambda>i. iref i < m) b' = W
    \<and> n \<le> fresh s \<and> fresh_for (fresh s) (blk s)"
  using assms
proof (induction W arbitrary: D n g)
  case Nil
  then show ?case by (auto intro: woven_Nil)
next
  case (Cons I W)
  let ?z = "\<lparr>zleft = D, zcur = I, zright = W @ R, zfresh = n, zstrs = g\<rparr>"
  have u: "\<lparr>blk = D @ (I # W) @ R, fresh = n, strs = g\<rparr> = unzip ?z" by (simp add: unzip_def)
  have zw: "zwf ?z" using Cons.prems(2) by (simp add: fresh_for_def zwf_def)
  from Cons.prems(1) obtain s1 where s1: "visit E I (unzip ?z) = Some s1" "visit_all E W s1 = Some s"
    unfolding u by (auto simp del: visit.simps simp: bind_eq_Some_conv)
  from visit_plan [OF zw _ s1(1)] obtain z' where z': "s1 = unzip z'" "carried_out E (plan E I) ?z z'"
    by auto
  from z'(2) obtain A B where AB': "zleft z' = zleft ?z @ A" "zright z' = B @ zright ?z"
    "zcur z' = zcur ?z" "zwf z'" "zfresh ?z \<le> zfresh z'" "\<forall>i\<in>set (A @ B). zfresh ?z \<le> iref i"
    "realised E [] (fst (plan E I)) A" "realised E A (snd (plan E I)) B"
    unfolding carried_out_def by (elim exE conjE)
  note AB = AB' [unfolded zipper.select_convs]
  have "s1 = \<lparr>blk = (D @ A @ I # B) @ W @ R, fresh = zfresh z', strs = zstrs z'\<rparr>"
    using AB(1-3) z'(1) by (simp add: unzip_def)
  with s1(2) have v: "visit_all E W \<lparr>blk = (D @ A @ I # B) @ W @ R, fresh = zfresh z', strs = zstrs z'\<rparr> = Some s"
    by simp
  have f: "fresh_for (zfresh z') ((D @ A @ I # B) @ W @ R)"
    using AB(1-4) by (simp add: fresh_for_def zwf_def)
  have "m \<le> zfresh z'" "\<forall>i\<in>set W. iref i < m" using AB(5) Cons.prems(3,4) by simp_all
  from Cons.IH [OF v f this] obtain b' where b': "blk s = (D @ A @ I # B) @ b' @ R" "woven E W b'"
    "filter (\<lambda>i. iref i < m) b' = W" "zfresh z' \<le> fresh s" "fresh_for (fresh s) (blk s)"
    by (elim exE conjE)
  have "filter (\<lambda>i. iref i < m) A = []" "filter (\<lambda>i. iref i < m) B = []"
    using AB(6) Cons.prems(3) by (force simp: filter_empty_conv)+
  with b' AB(5,7,8) Cons.prems(4) show ?case
    by (intro exI [of _ "A @ I # B @ b'"]) (simp add: woven_Cons)
qed

lemma visit_block_woven:
  assumes "visit_block E b (n, g) = Some (b', n', g')" and "fresh_for n b" and "m \<le> n"
    and "\<forall>i\<in>set b. iref i < m"
  shows "woven E b b'" "filter (\<lambda>i. iref i < m) b' = b" "n \<le> n'" "fresh_for n' b'"
  using assms visit_all_woven [of E b "[]" "[]" n g _ m] by (auto simp: visit_block_def)

text \<open>The visit that adds an instruction.\<close>

lemma visit_all_adds:
  assumes "visit_all E W s = Some s'" "c \<notin> set (blk s)" "c \<in> set (blk s')"
  shows "\<exists>D I R s1 s2. W = D @ I # R \<and> visit_all E D s = Some s1 \<and> visit E I s1 = Some s2
    \<and> c \<notin> set (blk s1) \<and> c \<in> set (blk s2)"
  using assms
proof (induction W arbitrary: s)
  case (Cons I W)
  then obtain t where t: "visit E I s = Some t" "visit_all E W t = Some s'"
    by (auto simp: bind_eq_Some_conv simp del: visit.simps)
  show ?case
  proof (cases "c \<in> set (blk t)")
    case True
    with Cons.prems(2) t(1) show ?thesis
      by (intro exI [of _ "[]"] exI [of _ I] exI [of _ W] exI [of _ s] exI [of _ t]) simp
  next
    case False
    from Cons.IH [OF t(2) this Cons.prems(3)] obtain D J R s1 s2 where
      "W = D @ J # R" "visit_all E D t = Some s1" "visit E J s1 = Some s2" "c \<notin> set (blk s1)" "c \<in> set (blk s2)"
      by (elim exE conjE)
    with t(1) show ?thesis
      by (intro exI [of _ "I # D"] exI [of _ J] exI [of _ R] exI [of _ s1] exI [of _ s2]) (simp del: visit.simps)
  qed
qed simp

section \<open>Functions and modules\<close>

definition erase :: "nat \<Rightarrow> func \<Rightarrow> func" where
  "erase m F = F\<lparr>fblocks := map (filter (\<lambda>i. iref i < m)) (fblocks F)\<rparr>"

lemma visit_blocks_woven:
  assumes "visit_blocks E bs (n, g) = Some (bs', n', g')" and "m \<le> n"
    and "\<forall>b\<in>set bs. fresh_for m b"
  shows "list_all2 (woven E) bs bs' \<and> map (filter (\<lambda>i. iref i < m)) bs' = bs \<and> n \<le> n'"
  using assms
proof (induction bs arbitrary: n g bs')
  case (Cons b bs)
  from Cons.prems(1) obtain b1 n1 g1 bs1 where
    1: "visit_block E b (n, g) = Some (b1, n1, g1)"
    and 2: "visit_blocks E bs (n1, g1) = Some (bs1, n', g')" and bs': "bs' = b1 # bs1"
    by (auto simp: bind_eq_Some_conv)
  have "fresh_for n b" "\<forall>i\<in>set b. iref i < m"
    using Cons.prems(2,3) by (auto simp: fresh_for_def intro: less_le_trans)
  note w = visit_block_woven [OF 1 this(1) Cons.prems(2) this(2)]
  from Cons.IH [OF 2] w Cons.prems(2,3) bs' show ?case by auto
qed simp

lemma visit_funcs_woven:
  assumes "visit_funcs E Fs (n, g) = Some (Fs', n', g')" and "m \<le> n"
    and "\<forall>F\<in>set Fs. \<forall>b\<in>set (fblocks F). fresh_for m b"
  shows "list_all2 (\<lambda>F F'. list_all2 (woven E) (fblocks F) (fblocks F')) Fs Fs'
    \<and> map (erase m) Fs' = Fs \<and> map fname Fs' = map fname Fs \<and> n \<le> n'"
  using assms
proof (induction Fs arbitrary: n g Fs')
  case (Cons F Fs)
  from Cons.prems(1) obtain bs n1 g1 Fs1 where
    1: "visit_blocks E (fblocks F) (n, g) = Some (bs, n1, g1)"
    and 2: "visit_funcs E Fs (n1, g1) = Some (Fs1, n', g')" and Fs': "Fs' = F\<lparr>fblocks := bs\<rparr> # Fs1"
    by (auto simp: bind_eq_Some_conv)
  from visit_blocks_woven [OF 1 Cons.prems(2)] Cons.prems(3)
  have w: "list_all2 (woven E) (fblocks F) bs" "map (filter (\<lambda>i. iref i < m)) bs = fblocks F" "n \<le> n1"
    by auto
  with Cons.IH [OF 2] Cons.prems(2,3) Fs' show ?case by (auto simp: erase_def)
qed simp

lemma wf_module_blocks:
  assumes "wf_module M" "F \<in> set (funcs M)" "b \<in> set (fblocks F)"
  shows "fresh_for (nextref M) b"
proof -
  have "distinct (map iref (concat (map func_insts (funcs M))))"
    using assms(1) by (simp add: wf_module_def all_insts_def)
  then have "distinct (map iref (func_insts F))"
    using assms(2) by (auto simp: map_concat dest!: split_list)
  then have "distinct (map iref b)"
    using assms(3) by (auto simp: func_insts_def map_concat dest!: split_list)
  moreover have "set b \<subseteq> set (all_insts M)"
    using assms(2,3) by (auto simp: all_insts_def func_insts_def)
  ultimately show ?thesis using assms(1) by (auto simp: fresh_for_def wf_module_def)
qed

section \<open>Entry points\<close>

text \<open>An edit that only adds instructions that are new with respect to \<open>m\<close>.\<close>

definition adds :: "nat \<Rightarrow> edit \<Rightarrow> edit \<Rightarrow> bool" where
  "adds m s s' \<longleftrightarrow>
     filter (\<lambda>i. iref i < m) (blk s') = filter (\<lambda>i. iref i < m) (blk s) \<and> fresh s \<le> fresh s'"

lemma adds_refl: "adds m s s"
  by (simp add: adds_def)

lemma adds_trans: "adds m s t \<Longrightarrow> adds m t u \<Longrightarrow> adds m s u"
  by (simp add: adds_def)

lemma filter_insert_before: "\<not> P x \<Longrightarrow> filter P (insert_before r x b) = filter P b"
  by (induction b) auto

lemma adds_before: "m \<le> fresh s \<Longrightarrow> adds m s (snd (create_before op t I s))"
  by (simp add: adds_def create_before_def Let_def new_inst_def filter_insert_before)

lemma adds_call: "call_before E f args I s = Some (c, s') \<Longrightarrow> m \<le> fresh s \<Longrightarrow> adds m s s'"
  using adds_before [of m s "CallI (callee E f) args" VoidTy I]
  by (auto simp: call_before_def split: if_splits)

lemma adds_cast: "castTo A V T I s = Some (w, s') \<Longrightarrow> m \<le> fresh s \<Longrightarrow> adds m s s'"
  using adds_before [of m s "CastI V T" T I]
  by (auto simp: castTo_def adds_refl split_beta Let_def split: if_splits)

lemma adds_str: "adds m s (snd (stringToGV str s))"
  by (simp add: adds_def stringToGV_def)

lemma adds_fresh: "adds m s t \<Longrightarrow> m \<le> fresh s \<Longrightarrow> m \<le> fresh t"
  by (simp add: adds_def)

lemma adds_end_calls: "end_calls E f args is s = Some s' \<Longrightarrow> m \<le> fresh s \<Longrightarrow> adds m s s'"
proof (induction "is" arbitrary: s)
  case (Cons I "is")
  then obtain s1 where s1: "(if is_return I then map_option snd (call_before E f args I s) else Some s) = Some s1"
    "end_calls E f args is s1 = Some s'"
    by (auto simp: bind_eq_Some_conv)
  then have "adds m s s1" using Cons.prems(2) by (auto simp: adds_refl adds_call split: if_splits)
  with Cons.IH [OF s1(2)] Cons.prems(2) show ?case using adds_fresh adds_trans by blast
qed (simp add: adds_refl)

lemma adds_end_before_returns:
  assumes "m \<le> n" "end_before_returns E f args b n = Some (b', n')"
  shows "filter (\<lambda>i. iref i < m) b' = filter (\<lambda>i. iref i < m) b \<and> n \<le> n'"
  using assms adds_end_calls [of E f args b "\<lparr>blk = b, fresh = n, strs = []\<rparr>" _ m]
  by (auto simp: end_before_returns_def adds_def)

lemma adds_end_in_blocks:
  assumes "m \<le> n" "end_in_blocks E f args bs n = Some (bs', n')"
  shows "map (filter (\<lambda>i. iref i < m)) bs' = map (filter (\<lambda>i. iref i < m)) bs \<and> n \<le> n'"
  using assms
proof (induction bs arbitrary: n bs' n')
  case (Cons b bs)
  then obtain b1 n1 bs1 where 1: "end_before_returns E f args b n = Some (b1, n1)"
    and 2: "end_in_blocks E f args bs n1 = Some (bs1, n')" and bs': "bs' = b1 # bs1"
    by (auto simp: bind_eq_Some_conv)
  from adds_end_before_returns [OF Cons.prems(1) 1] Cons.IH [OF _ 2] Cons.prems(1) bs' show ?case by auto
qed simp

definition kept :: "nat \<Rightarrow> modl \<Rightarrow> modl \<Rightarrow> bool" where
  "kept m M M' \<longleftrightarrow>
     map (erase m) (funcs M') = map (erase m) (funcs M) \<and> map fname (funcs M') = map fname (funcs M)
     \<and> nextref M \<le> nextref M'"

lemma kept_put_func:
  assumes "getFunction M name = Some F" "distinct (map fname (funcs M))" "erase m F' = erase m F"
    "fname F' = fname F" "nextref M \<le> n"
  shows "kept m M ((put_func F' M)\<lparr>nextref := n, gvs := g\<rparr>)"
proof -
  have F: "F \<in> set (funcs M)" using assms(1) by (auto simp: getFunction_def find_Some_iff)
  have "G = F" if "G \<in> set (funcs M)" "fname G = fname F" for G
    using that F assms(2) by (auto simp: distinct_map dest: inj_onD)
  then show ?thesis using assms(3-5) by (auto simp: kept_def put_func_def comp_def)
qed

lemma open_entry_blk:
  assumes "open_entry F M = Some (I, s)"
  shows "fblocks F = blk s # tl (fblocks F)" "fresh s = nextref M"
  using assms by (auto simp: open_entry_def split: list.splits)

lemma erase_entry:
  assumes "open_entry F M = Some (I, s)" "adds m s s'"
  shows "erase m (F\<lparr>fblocks := blk s' # tl (fblocks F)\<rparr>) = erase m F"
proof -
  have "map (filter (\<lambda>i. iref i < m)) (blk s' # tl (fblocks F))
      = map (filter (\<lambda>i. iref i < m)) (blk s # tl (fblocks F))"
    using assms(2) by (simp add: adds_def)
  with open_entry_blk(1) [OF assms(1)] show ?thesis by (simp add: erase_def)
qed

lemma kept_close_entry:
  assumes "getFunction M name = Some F" "distinct (map fname (funcs M))"
    "open_entry F M = Some (I, s)" "adds m s s'"
  shows "kept m M (close_entry F s' M)"
  using kept_put_func [OF assms(1,2) erase_entry [OF assms(3,4)], of "fresh s'"]
    open_entry_blk(2) [OF assms(3)] assms(4)
  by (simp add: close_entry_def adds_def)

lemma kept_refl: "kept m M M"
  by (simp add: kept_def)

lemma kept_trans: "kept m M N \<Longrightarrow> kept m N L \<Longrightarrow> kept m M L"
  by (simp add: kept_def)

text \<open>What the steps of the pass after the visit keep.\<close>

definition keeps :: "(modl \<Rightarrow> modl option) \<Rightarrow> bool" where
  "keeps f \<longleftrightarrow>
     (\<forall>m M M'. m \<le> nextref M \<longrightarrow> distinct (map fname (funcs M)) \<longrightarrow> f M = Some M' \<longrightarrow> kept m M M')"

lemma keepsD: "keeps f \<Longrightarrow> f M = Some M' \<Longrightarrow> m \<le> nextref M \<Longrightarrow> distinct (map fname (funcs M)) \<Longrightarrow> kept m M M'"
  by (auto simp: keeps_def)

lemma keeps_then: "keeps f \<Longrightarrow> keeps g \<Longrightarrow> keeps (\<lambda>M. Option.bind (f M) g)"
  unfolding keeps_def [of "\<lambda>M. Option.bind (f M) g"]
proof (intro allI impI)
  fix m M M'
  assume f: "keeps f" and g: "keeps g" and m: "m \<le> nextref M" "distinct (map fname (funcs M))"
    and r: "Option.bind (f M) g = Some M'"
  from r obtain N where N: "f M = Some N" "g N = Some M'" by (auto simp: bind_eq_Some_conv)
  have k: "kept m M N" by (rule keepsD [OF f N(1) m])
  with m have "kept m N M'" by (intro keepsD [OF g N(2)]) (simp_all add: kept_def)
  with k show "kept m M M'" by (rule kept_trans)
qed

lemma keeps_api_call:
  assumes "\<And>M. f M = do {
      fn \<leftarrow> (case getFunction M a of None \<Rightarrow> getFunction M b | Some F \<Rightarrow> Some F);
      (I, s) \<leftarrow> open_entry fn M;
      (c, s) \<leftarrow> call_before E g args I s;
      Some (close_entry fn s M) }"
  shows "keeps f"
  unfolding keeps_def
proof (intro allI impI)
  fix m M M'
  assume m: "m \<le> nextref M" and d: "distinct (map fname (funcs M))" and r: "f M = Some M'"
  from r obtain fn I s s' c name where fn: "getFunction M name = Some fn" and
    o: "open_entry fn M = Some (I, s)" and s': "call_before E g args I s = Some (c, s')"
    and M': "M' = close_entry fn s' M"
    unfolding assms by (auto simp: bind_eq_Some_conv split: option.splits)
  show "kept m M M'" unfolding M'
    using kept_close_entry [OF fn d o] adds_call [OF s'] m open_entry_blk(2) [OF o] by simp
qed

lemma keeps_instrumentAPIBegin: "keeps (instrumentAPIBegin E)"
  by (rule keeps_api_call) (simp add: instrumentAPIBegin_def Let_def)

lemma keeps_instrumentAPIEnd: "keeps (instrumentAPIEnd E)"
  by (rule keeps_api_call) (simp add: instrumentAPIEnd_def Let_def)

lemma keeps_instrumentInit: "keeps (instrumentInit E f)"
  unfolding keeps_def
proof (intro allI impI)
  fix m M M'
  assume m: "m \<le> nextref M" and d: "distinct (map fname (funcs M))" and r: "instrumentInit E f M = Some M'"
  from r obtain fn I s s' c where fn: "getFunction M ''main'' = Some fn" and
    o: "open_entry fn M = Some (I, s)" and
    s': "call_before E ''recordInit'' [CCast (fst (stringToGV f s)) VoidPtrType] I (snd (stringToGV f s)) = Some (c, s')"
    and M': "M' = close_entry fn s' M"
    by (auto simp: instrumentInit_def bind_eq_Some_conv split_beta Let_def)
  have m: "m \<le> fresh s" using m open_entry_blk(2) [OF o] by simp
  then show "kept m M M'" unfolding M'
    using kept_close_entry [OF fn d o] adds_trans [OF adds_str adds_call [OF s']] adds_fresh [OF adds_str m]
    by blast
qed

lemma keeps_model_function:
  assumes "getFunction M name = Some fn" "m \<le> nextref M" "distinct (map fname (funcs M))"
    "model_function E b e fn M = Some M'"
  shows "kept m M M'"
proof -
  from assms(4) obtain I s t bs n V s1 s2 args c where o: "open_entry fn M = Some (I, s)" and
    s1: "castTo (castIsValid E) (ArgRef 0 t) VoidPtrType I s = Some (V, s1)" and
    s2: "call_before E b args I s1 = Some (c, s2)" and
    bs: "end_in_blocks E e args (blk s2 # tl (fblocks fn)) (fresh s2) = Some (bs, n)" and
    M': "M' = (put_func (fn\<lparr>fblocks := bs\<rparr>) M)\<lparr>nextref := n, gvs := strs s2\<rparr>"
    by (auto simp: model_function_def bind_eq_Some_conv Let_def)
  have m: "m \<le> fresh s" using assms(2) open_entry_blk(2) [OF o] by simp
  have a1: "adds m s s1" by (rule adds_cast [OF s1 m])
  have a: "adds m s s2" by (rule adds_trans [OF a1 adds_call [OF s2 adds_fresh [OF a1 m]]])
  from adds_end_in_blocks [OF adds_fresh [OF a m] bs] erase_entry [OF o a]
  have e: "erase m (fn\<lparr>fblocks := bs\<rparr>) = erase m fn" by (simp add: erase_def)
  have "nextref M \<le> n"
    using adds_end_in_blocks [OF adds_fresh [OF a m] bs] a open_entry_blk(2) [OF o]
    by (simp add: adds_def)
  then show ?thesis unfolding M' using kept_put_func [OF assms(1,3) e] by simp
qed

lemma keeps_model_functions: "keeps (model_functions E b e names)"
proof (induction names)
  case Nil
  show ?case by (simp add: keeps_def kept_refl)
next
  case (Cons name names)
  show ?case unfolding keeps_def
  proof (intro allI impI)
    fix m M M'
    assume m: "m \<le> nextref M" and d: "distinct (map fname (funcs M))"
      and r: "model_functions E b e (name # names) M = Some M'"
    show "kept m M M'"
    proof (cases "getFunction M name")
      case None
      with r keepsD [OF Cons _ m d] show ?thesis by simp
    next
      case (Some fn)
      with r obtain N where N: "model_function E b e fn M = Some N" "model_functions E b e names N = Some M'"
        by (auto simp: bind_eq_Some_conv)
      note k = keeps_model_function [OF Some m d N(1)]
      from k m d have "kept m N M'" by (intro keepsD [OF Cons N(2)]) (simp_all add: kept_def)
      with k show ?thesis by (rule kept_trans)
    qed
  qed
qed

lemma runOnModule_stages:
  assumes "runOnModule lib f T q M = Some M'"
  shows "\<exists>E Fs n g N. E = tp_env_of lib T q M \<and>
    visit_funcs E (funcs M) (nextref M, gvs M) = Some (Fs, n, g) \<and>
    N = M\<lparr>funcs := Fs, nextref := n, gvs := g\<rparr> \<and>
    (wf_module M \<longrightarrow> kept (nextref M) N M')"
proof -
  let ?E = "tp_env_of lib T q M"
  let ?post = "\<lambda>N. do {
       M \<leftarrow> instrumentInit ?E f N;
       M \<leftarrow> instrumentAPIBegin ?E M;
       M \<leftarrow> instrumentAPIEnd ?E M;
       M \<leftarrow> instrumentLockModeling ?E (lock_modeling_set T) M;
       instrumentUnlockModeling ?E (unlock_modeling_set T) M
     }"
  have post: "keeps ?post"
    unfolding instrumentLockModeling_def instrumentUnlockModeling_def
    by (intro keeps_then keeps_instrumentInit keeps_instrumentAPIBegin keeps_instrumentAPIEnd
        keeps_model_functions)
  from assms obtain Fs n g where v: "visit_funcs ?E (funcs M) (nextref M, gvs M) = Some (Fs, n, g)"
    and p: "?post (M\<lparr>funcs := Fs, nextref := n, gvs := g\<rparr>) = Some M'"
    by (auto simp: runOnModule_def Let_def bind_eq_Some_conv)
  have "kept (nextref M) (M\<lparr>funcs := Fs, nextref := n, gvs := g\<rparr>) M'" if w: "wf_module M"
    using visit_funcs_woven [OF v, of "nextref M"] wf_module_blocks [OF w] w
    by (intro keepsD [OF post p]) (auto simp: wf_module_def)
  with v show ?thesis by blast
qed

theorem runOnModule_erase:
  assumes "runOnModule lib f T q M = Some M'" "wf_module M"
  shows "map (erase (nextref M)) (funcs M') = funcs M"
proof -
  from runOnModule_stages [OF assms(1)] assms(2) obtain E Fs n g where
    v: "visit_funcs E (funcs M) (nextref M, gvs M) = Some (Fs, n, g)"
    and k: "kept (nextref M) (M\<lparr>funcs := Fs, nextref := n, gvs := g\<rparr>) M'"
    by auto
  from visit_funcs_woven [OF v order.refl] wf_module_blocks [OF assms(2)]
  have "map (erase (nextref M)) Fs = funcs M" by blast
  with k show ?thesis by (simp add: kept_def)
qed

end
