(* ===== verification/Tracer_Pass_Types.thy ===== *)
theory Tracer_Pass_Types
  imports Tracer_Pass_Module
begin

text \<open>
  The calls the pass adds: they go to functions of the run time, have the types these functions
  were declared with, and carry the number of the instruction they stand for.
\<close>

section \<open>Types\<close>

fun parg_ty :: "parg \<Rightarrow> ty" where
  "parg_ty (Lit v) = type_of v"
| "parg_ty (As v t) = t"
| "parg_ty (Prod a b) = type_of a"
| "parg_ty Text = VoidPtrType"

lemma means_type: "means pre a w \<Longrightarrow> type_of w = parg_ty a"
  by (cases a) (auto simp: means.simps(2) value_of_def split: if_splits)

lemma means_types: "list_all2 (means pre) as ws \<Longrightarrow> map type_of ws = map parg_ty as"
  by (induction rule: list_all2_induct) (simp_all add: means_type)

text \<open>
  The operand that is a length in a call of a library function, which the pass hands to the run
  time as it is.
\<close>

definition length_operand :: "string \<Rightarrow> nat option" where
  "length_operand name =
     (if take 12 name = ''llvm.memset.'' \<or> take 12 name = ''llvm.memcpy.'' \<or> take 13 name = ''llvm.memmove.''
        \<or> take 8 name = ''pmem_mem'' \<or> name = ''pmemobj_alloc'' then Some 2
      else if name \<in> {''snprintf'', ''pmem_flush'', ''pmem_persist'', ''pmem_msync'', ''mmap''} then Some 1
      else if name \<in> {''calloc'', ''pmemobj_tx_alloc''} then Some 0
      else None)"

text \<open>A call of a library function that passes lengths as 64-bit integers.\<close>

definition lengths_64 :: "tp_env \<Rightarrow> inst \<Rightarrow> bool" where
  "lengths_64 E I \<longleftrightarrow>
     (case iop I of
        CallI (FunRef f t) as \<Rightarrow>
          (case length_operand (func_name E f) of None \<Rightarrow> True | Some k \<Rightarrow> type_of (opd I k) = Int64Type)
          \<and> (func_name E f = ''mmap'' \<longrightarrow> ity I = VoidPtrType)
          \<and> (func_name E f = ''pmemobj_tx_alloc'' \<longrightarrow> ity I = OIDType)
      | _ \<Rightarrow> True)"

definition typed :: "planned \<Rightarrow> bool" where
  "typed p \<longleftrightarrow> map_of rt_functions (fst p) = Some (map parg_ty (snd p))"

lemma typed_lk: "typed lk" "typed ul"
  by (simp_all add: typed_def lk_def ul_def rt_functions_def)

lemma type_inst_id: "type_of (inst_id E I) = Int32Type"
  by (simp add: inst_id_def const_id_def Int32Type_def)

lemma parg_ty_size: "parg_ty (size_arg E t) = Int64Type"
  by (simp add: size_arg_def const_int_def Int64Type_def)

lemma parg_ty_ptr: "parg_ty (ptr I k) = VoidPtrType"
  by (simp add: ptr_def)

lemma typed_rt:
  "typed (f, [a]) \<longleftrightarrow> map_of rt_functions f = Some [parg_ty a]"
  "typed (f, [a, b]) \<longleftrightarrow> map_of rt_functions f = Some [parg_ty a, parg_ty b]"
  "typed (f, [a, b, c]) \<longleftrightarrow> map_of rt_functions f = Some [parg_ty a, parg_ty b, parg_ty c]"
  "typed (f, [a, b, c, d]) \<longleftrightarrow> map_of rt_functions f = Some [parg_ty a, parg_ty b, parg_ty c, parg_ty d]"
  by (simp_all add: typed_def)

lemma rt_function_types:
  "map_of rt_functions ''recordBr'' = Some [Int32Type]"
  "map_of rt_functions ''recordFence'' = Some [Int32Type]"
  "map_of rt_functions ''recordLoad'' = Some [Int32Type, VoidPtrType, Int64Type]"
  "map_of rt_functions ''recordStrLoad'' = Some [Int32Type, VoidPtrType]"
  "map_of rt_functions ''recordStore'' = Some [Int32Type, VoidPtrType, Int64Type]"
  "map_of rt_functions ''recordAtomicStore'' = Some [Int32Type, VoidPtrType, Int64Type]"
  "map_of rt_functions ''recordCAS'' = Some [Int32Type, VoidPtrType, Int64Type, Int64Type]"
  "map_of rt_functions ''recordStrStore'' = Some [Int32Type, VoidPtrType]"
  "map_of rt_functions ''recordStrcatStore'' = Some [Int32Type, VoidPtrType, VoidPtrType]"
  "map_of rt_functions ''recordFlush'' = Some [Int32Type, VoidPtrType]"
  "map_of rt_functions ''recordFlushWrapper'' = Some [Int32Type, VoidPtrType, Int64Type]"
  "map_of rt_functions ''recordAlloc'' = Some [Int32Type, VoidPtrType, Int64Type]"
  "map_of rt_functions ''recordTxAlloc'' = Some [Int32Type, OIDType, Int64Type]"
  "map_of rt_functions ''recordMmap'' = Some [Int32Type, VoidPtrType, Int64Type]"
  "map_of rt_functions ''recordLock'' = Some [Int32Type, VoidPtrType]"
  "map_of rt_functions ''recordUnlock'' = Some [Int32Type, VoidPtrType]"
  by (simp_all add: rt_functions_def)

lemmas typing = typed_lk typed_rt rt_function_types type_inst_id parg_ty_size parg_ty_ptr value_of_def

definition all_typed :: "planned list \<times> planned list \<Rightarrow> bool" where
  "all_typed p \<longleftrightarrow> (\<forall>c\<in>set (fst p @ snd p). typed c)"

lemma all_typed_if: "(c \<Longrightarrow> all_typed p) \<Longrightarrow> (\<not> c \<Longrightarrow> all_typed q) \<Longrightarrow> all_typed (if c then p else q)"
  by simp

lemma all_typed_pair: "all_typed (ps, qs) \<longleftrightarrow> list_all typed ps \<and> list_all typed qs"
  by (auto simp: all_typed_def list_all_iff)

lemma plan_asm_typed: "all_typed (plan_asm E I asm)"
  by (simp add: all_typed_pair plan_asm_def Let_def typing)

lemma plan_special_typed:
  assumes "\<And>k. length_operand name = Some k \<Longrightarrow> type_of (opd I k) = Int64Type"
  shows "all_typed (plan_special E I name)"
proof -
  have "take 12 name = ''llvm.memset.'' \<or> take 12 name = ''llvm.memcpy.'' \<or> take 13 name = ''llvm.memmove.'' \<Longrightarrow>
      type_of (opd I 2) = Int64Type"
    unfolding length_operand_def by (rule assms [unfolded length_operand_def], rule if_P) blast
  then have "take 12 name = ''llvm.memset.'' \<Longrightarrow> type_of (opd I 2) = Int64Type"
    "take 12 name = ''llvm.memcpy.'' \<or> take 13 name = ''llvm.memmove.'' \<or> name = ''strcpy'' \<Longrightarrow>
      name \<noteq> ''strcpy'' \<Longrightarrow> type_of (opd I 2) = Int64Type"
    by blast+
  moreover have "name = ''calloc'' \<Longrightarrow> type_of (opd I 0) = Int64Type"
    by (rule assms) (simp add: length_operand_def)
  moreover have "name = ''snprintf'' \<Longrightarrow> type_of (opd I 1) = Int64Type"
    by (rule assms) (simp add: length_operand_def)
  ultimately show ?thesis
    unfolding plan_special_def Let_def
    by (intro all_typed_if; simp add: all_typed_pair typing list_all_iff del: One_nat_def)
qed

lemma plan_pmem_typed:
  assumes "\<And>k. length_operand name = Some k \<Longrightarrow> type_of (opd I k) = Int64Type"
  shows "all_typed (plan_pmem E I name)"
proof -
  have "take 8 name = ''pmem_mem'' \<Longrightarrow> type_of (opd I 2) = Int64Type"
    by (rule assms) (simp add: length_operand_def)
  moreover from this have "name = ''pmem_memmove_nodrain'' \<or> name = ''pmem_memcpy_nodrain'' \<Longrightarrow> type_of (opd I 2) = Int64Type"
    "name = ''pmem_memmove_persist'' \<or> name = ''pmem_memcpy_persist'' \<Longrightarrow> type_of (opd I 2) = Int64Type"
    "name = ''pmem_memmove'' \<or> name = ''pmem_memcpy'' \<Longrightarrow> type_of (opd I 2) = Int64Type"
    by auto
  moreover have "name \<in> {''pmem_flush'', ''pmem_persist'', ''pmem_msync''} \<Longrightarrow> type_of (opd I 1) = Int64Type"
    by (rule assms) (auto simp: length_operand_def)
  ultimately show ?thesis
    unfolding plan_pmem_def Let_def
    by (intro all_typed_if; simp add: all_typed_pair typing del: One_nat_def)
qed

lemma plan_sync_typed:
  assumes "name = ''mmap'' \<Longrightarrow> type_of (opd I 1) = Int64Type \<and> ity I = VoidPtrType"
  shows "all_typed (plan_sync E I name)"
  unfolding plan_sync_def Let_def using assms
  by (intro all_typed_if; simp add: all_typed_pair typing del: One_nat_def)

lemma plan_call_typed:
  assumes "lengths_64 E I" "iop I = CallI (FunRef f t) as"
  shows "all_typed (plan_call E I f)"
proof -
  let ?n = "func_name E f"
  have k: "type_of (opd I k) = Int64Type" if "length_operand ?n = Some k" for k
    using assms that by (simp add: lengths_64_def)
  have "?n = ''pmemobj_alloc'' \<Longrightarrow> type_of (opd I 2) = Int64Type"
    "?n = ''pmemobj_tx_alloc'' \<Longrightarrow> type_of (opd I 0) = Int64Type \<and> ity I = OIDType"
    "?n = ''mmap'' \<Longrightarrow> type_of (opd I 1) = Int64Type \<and> ity I = VoidPtrType"
    using assms by (simp_all add: lengths_64_def length_operand_def)
  with plan_special_typed [OF k] plan_pmem_typed [OF k] plan_sync_typed [of ?n I]
  show ?thesis unfolding plan_call_def Let_def
    by (intro all_typed_if; simp add: all_typed_pair typing del: One_nat_def)
qed

lemma plan_typed: "lengths_64 E I \<Longrightarrow> all_typed (plan E I)"
  by (auto simp: plan_def Let_def plan_asm_typed plan_call_typed split: iop.splits val.splits option.splits)
    (simp_all add: all_typed_pair typing)

section \<open>Where an added call comes from\<close>

lemma realised_call:
  "realised E pre ps A \<Longrightarrow> c \<in> set A \<Longrightarrow> iop c = CallI f ws \<Longrightarrow>
   \<exists>g as pre'. (g, as) \<in> set ps \<and> f = callee E g \<and> list_all2 (means pre') as ws"
proof (induction A arbitrary: pre ps)
  case (Cons d A)
  show ?case
  proof (cases "c = d")
    case True
    with Cons.prems(1,3) show ?thesis by (auto split: list.splits)
  next
    case False
    from Cons.prems(1) obtain pre' ps' where r: "realised E pre' ps' A" "set ps' \<subseteq> set ps"
      by (auto split: iop.splits list.splits)
    with Cons.IH [OF r(1)] Cons.prems(2,3) False show ?thesis by auto
  qed
qed simp

lemma realised_kinds:
  "realised E pre ps A \<Longrightarrow> c \<in> set A \<Longrightarrow>
   (\<exists>f ws. iop c = CallI f ws) \<or> (\<exists>v t. iop c = CastI v t) \<or> (\<exists>a b. iop c = MulI a b)"
  by (induction E pre ps A rule: realised.induct) (auto split: iop.splits list.splits)

lemma woven_call:
  "woven E b b' \<Longrightarrow> c \<in> set b' \<Longrightarrow> c \<notin> set b \<Longrightarrow> iop c = CallI f ws \<Longrightarrow>
   \<exists>I\<in>set b. \<exists>g as pre. (g, as) \<in> set (fst (plan E I) @ snd (plan E I)) \<and> f = callee E g
     \<and> list_all2 (means pre) as ws"
proof (induction rule: woven.induct)
  case (woven_Cons I A B b b')
  then consider "c \<in> set A" | "c \<in> set B" | "c \<in> set b'" by auto
  then show ?case
  proof cases
    case 1
    from realised_call [OF woven_Cons(1) this woven_Cons.prems(3)] show ?thesis by fastforce
  next
    case 2
    from realised_call [OF woven_Cons(2) this woven_Cons.prems(3)] show ?thesis by fastforce
  next
    case 3
    with woven_Cons show ?thesis by auto
  qed
qed simp

text \<open>A call that the visit of \<open>I\<close> adds is one of the calls planned for \<open>I\<close>.\<close>

lemma visit_call:
  assumes "zwf z" "zcur z = I" "visit E I (unzip z) = Some s"
    and "c \<notin> set (blk (unzip z))" "c \<in> set (blk s)" "iop c = CallI f ws"
  shows "\<exists>g as pre. (g, as) \<in> set (fst (plan E I) @ snd (plan E I)) \<and> f = callee E g \<and> list_all2 (means pre) as ws"
proof -
  obtain z' where z': "s = unzip z'" "carried_out E (plan E I) z z'" using visit_plan [OF assms(1-3)] by blast
  from z'(2) obtain A B where AB: "zleft z' = zleft z @ A" "zright z' = B @ zright z" "zcur z' = zcur z"
    "realised E [] (fst (plan E I)) A" "realised E A (snd (plan E I)) B"
    unfolding carried_out_def by (elim exE conjE)
  with assms(4,5) z'(1) have "c \<in> set A \<or> c \<in> set B" by (auto simp: unzip_def)
  then show ?thesis
    using realised_call [OF AB(4) _ assms(6)] realised_call [OF AB(5) _ assms(6)] by fastforce
qed

lemma block_call:
  assumes "visit_block E b (n, g) = Some (b', n', g')" "fresh_for n b" "c \<in> set b' - set b" "iop c = CallI f ws"
  shows "\<exists>D I R s1 s2. b = D @ I # R \<and> visit_all E D \<lparr>blk = b, fresh = n, strs = g\<rparr> = Some s1 \<and> visit E I s1 = Some s2
    \<and> c \<notin> set (blk s1) \<and> c \<in> set (blk s2)
    \<and> (\<exists>h as pre. (h, as) \<in> set (fst (plan E I) @ snd (plan E I)) \<and> f = callee E h \<and> list_all2 (means pre) as ws)"
proof -
  from assms(1) obtain s' where "visit_all E b \<lparr>blk = b, fresh = n, strs = g\<rparr> = Some s'" "blk s' = b'"
    by (auto simp: visit_block_def)
  with assms(3) visit_all_adds [of E b "\<lparr>blk = b, fresh = n, strs = g\<rparr>" s' c] obtain D I R s1 s2 where
    s: "b = D @ I # R" "visit_all E D \<lparr>blk = b, fresh = n, strs = g\<rparr> = Some s1" "visit E I s1 = Some s2"
    "c \<notin> set (blk s1)" "c \<in> set (blk s2)"
    by auto
  have "visit_all E D \<lparr>blk = [] @ D @ I # R, fresh = n, strs = g\<rparr> = Some s1" "fresh_for n ([] @ D @ I # R)"
    "\<forall>i\<in>set D. iref i < n"
    using s(1,2) assms(2) by (simp_all add: fresh_for_def)
  from visit_all_woven [OF this(1,2) order.refl this(3)] obtain d where
    d: "blk s1 = d @ I # R" "fresh_for (fresh s1) (blk s1)" by auto
  let ?z = "\<lparr>zleft = d, zcur = I, zright = R, zfresh = fresh s1, zstrs = strs s1\<rparr>"
  have u: "s1 = unzip ?z" using d(1) by (simp add: unzip_def)
  have "zwf ?z" using d by (simp add: zwf_def fresh_for_def)
  from visit_call [OF this, of I E s2 c f ws] s assms(4) u show ?thesis by (metis zipper.select_convs(2))
qed

section \<open>The declared callees\<close>

lemma declare_all_other: "f \<notin> fst ` set fs \<Longrightarrow> fst (declare_all fs (cs, M)) f = cs f"
proof (induction fs arbitrary: cs M)
  case (Cons p fs)
  then show ?case by (cases p) (simp add: split_beta)
qed simp

lemma getOrInsertFunction_type: "type_of (fst (getOrInsertFunction name ret args M)) = PtrTy (FunTy ret args)"
  by (simp add: getOrInsertFunction_def Let_def split: option.splits)

lemma declare_all_type:
  "distinct (map fst fs) \<Longrightarrow> (f, args) \<in> set fs \<Longrightarrow>
   \<exists>v. fst (declare_all fs (cs, M)) f = Some v \<and> type_of v = PtrTy (FunTy VoidTy args)"
proof (induction fs arbitrary: cs M)
  case (Cons p fs)
  obtain g as where p: "p = (g, as)" by (cases p)
  show ?case
  proof (cases "(f, args) = (g, as)")
    case True
    with Cons.prems(1) p show ?thesis
      by (simp add: split_beta declare_all_other getOrInsertFunction_type image_iff)
  next
    case False
    with Cons.prems(2) p have "(f, args) \<in> set fs" by auto
    from Cons.IH [OF _ this] Cons.prems(1) p show ?thesis by (simp add: split_beta)
  qed
qed simp

lemma callee_type:
  assumes "T = fst (doInitialization order file0 file1 M)" "map_of rt_functions f = Some args"
  shows "type_of (callee (tp_env_of lib T q N) f) = PtrTy (FunTy VoidTy args)"
proof -
  have "distinct (map fst rt_functions)" by (simp add: rt_functions_def)
  from declare_all_type [OF this map_of_SomeD [OF assms(2)], of Map.empty M] assms(1) show ?thesis
    by (auto simp: tp_env_of_def doInitialization_def split_beta Let_def)
qed

section \<open>The numbers in the calls\<close>

definition numbered :: "tp_env \<Rightarrow> inst \<Rightarrow> planned \<Rightarrow> bool" where
  "numbered E I p \<longleftrightarrow> p = lk \<or> p = ul \<or> (\<exists>as. snd p = Lit (inst_id E I) # as)"

lemma numbered_simps [simp]:
  "numbered E I lk" "numbered E I ul" "numbered E I (f, Lit (inst_id E I) # as)"
  by (simp_all add: numbered_def)

definition all_numbered :: "tp_env \<Rightarrow> inst \<Rightarrow> planned list \<times> planned list \<Rightarrow> bool" where
  "all_numbered E I p \<longleftrightarrow> (\<forall>c\<in>set (fst p @ snd p). numbered E I c)"

lemma all_numbered_if: "all_numbered E I p \<Longrightarrow> all_numbered E I q \<Longrightarrow> all_numbered E I (if c then p else q)"
  by simp

lemma plan_call_numbered:
  "all_numbered E I (plan_asm E I asm)" "all_numbered E I (plan_special E I name)"
  "all_numbered E I (plan_pmem E I name)" "all_numbered E I (plan_sync E I name)"
  unfolding plan_special_def plan_pmem_def plan_sync_def plan_asm_def Let_def
  by (intro all_numbered_if; simp add: all_numbered_def)+

lemma plan_numbered: "all_numbered E I (plan E I)"
proof -
  have "all_numbered E I (plan_call E I f)" for f
    unfolding plan_call_def Let_def
    by (intro all_numbered_if plan_call_numbered) (simp_all add: all_numbered_def)
  then show ?thesis
    by (auto simp: plan_def Let_def plan_call_numbered split: iop.splits val.splits option.splits)
      (simp_all add: all_numbered_def)
qed

lemma plan_monitored: "plan E I \<noteq> ([], []) \<Longrightarrow> monitored (iop I)"
  by (auto simp: plan_def Let_def split: iop.splits option.splits)

end
