(* ===== verification/Tracer_Pass_Total.thy ===== *)
theory Tracer_Pass_Total
  imports Tracer_Pass_Types
begin

text \<open>
  When the pass returns. A visitor takes operands of a call by position, checks the number of operands
  of an assembler statement, and hands operands to LLVM, which asserts that a cast is valid and that
  the arguments of a call have the types of its parameters. All this is fine when the program calls
  the library functions with the arguments that their prototypes have, and exchanges integers of at
  most 64 bits.
\<close>

section \<open>What a visitor needs\<close>

definition c_arity :: "string \<Rightarrow> nat" where
  "c_arity name =
     (if take 12 name = ''llvm.memset.'' \<or> take 12 name = ''llvm.memcpy.'' \<or> take 13 name = ''llvm.memmove.''
        \<or> take 8 name = ''pmem_mem'' then 3
      else if name \<in> set lock_functions \<or> name \<in> set unlock_functions then 1
      else case map_of
          [(''strcpy'', 2), (''strncpy'', 3), (''__strncpy_chk'', 4), (''strcat'', 2), (''strlen'', 1),
           (''strcmp'', 2), (''calloc'', 2), (''sprintf'', 2), (''fgets'', 3), (''snprintf'', 3),
           (''pmem_flush'', 2), (''pmem_persist'', 2), (''pmem_msync'', 2), (''mmap'', 6),
           (''pmemobj_alloc'', 6), (''pmemobj_tx_alloc'', 2)] name of
        Some n \<Rightarrow> n | None \<Rightarrow> 0)"

definition asm_arity_ok :: "string \<Rightarrow> nat \<Rightarrow> bool" where
  "asm_arity_ok asm n \<longleftrightarrow>
     (if contains ''clflush $0'' asm \<or> contains ''xsaveopt $0'' asm then n = 1 \<or> n = 2
      else if contains ''mfence'' asm then n = 0
      else if contains ''xchgq $0,$1'' asm then n = 2
      else True)"

definition complete_call :: "tp_env \<Rightarrow> inst \<Rightarrow> bool" where
  "complete_call E I \<longleftrightarrow>
     (case iop I of
        CallI (FunRef f t) as \<Rightarrow> c_arity (func_name E f) \<le> length as
      | CallI (AsmRef asm t) as \<Rightarrow> asm_arity_ok asm (length as)
      | _ \<Rightarrow> True)"

text \<open>The arguments of the library functions that are pointers and that the pass looks at.\<close>

definition pointer_operands :: "string \<Rightarrow> nat list" where
  "pointer_operands name =
     (if take 12 name = ''llvm.memset.'' then [0]
      else if take 12 name = ''llvm.memcpy.'' \<or> take 13 name = ''llvm.memmove.'' then [0, 1]
      else if take 11 name = ''pmem_memset'' then [0]
      else if take 8 name = ''pmem_mem'' then [0, 1]
      else if name \<in> set lock_functions \<or> name \<in> set unlock_functions then [0]
      else case map_of
          [(''strcpy'', [0, 1]), (''strncpy'', [0, 1]), (''__strncpy_chk'', [0, 1]), (''strcat'', [0, 1]),
           (''strlen'', [0]), (''strcmp'', [0, 1]), (''sprintf'', [0]), (''fgets'', [0]), (''snprintf'', [0]),
           (''pmem_flush'', [0]), (''pmem_persist'', [0]), (''pmem_msync'', [0]), (''pmemobj_alloc'', [1])] name of
        Some ks \<Rightarrow> ks | None \<Rightarrow> [])"

fun is_pointer :: "ty \<Rightarrow> bool" where
  "is_pointer (PtrTy t) = True"
| "is_pointer _ = False"

definition ptr_at :: "inst \<Rightarrow> nat \<Rightarrow> bool" where
  "ptr_at I k \<longleftrightarrow> is_pointer (type_of (opd I k))"

definition len_at :: "inst \<Rightarrow> nat \<Rightarrow> bool" where
  "len_at I k \<longleftrightarrow> type_of (opd I k) = Int64Type"

fun at_most_64 :: "ty \<Rightarrow> bool" where
  "at_most_64 (IntTy w) \<longleftrightarrow> w \<le> 64"
| "at_most_64 _ \<longleftrightarrow> False"

text \<open>The pointers are pointers, and the new value of a compare-and-swap fits into 64 bits.\<close>

definition operands_ok :: "tp_env \<Rightarrow> inst \<Rightarrow> bool" where
  "operands_ok E I \<longleftrightarrow>
     (case iop I of
        LoadI p \<Rightarrow> is_pointer (type_of p)
      | StoreI v p \<Rightarrow> is_pointer (type_of p)
      | RMWI p v \<Rightarrow> is_pointer (type_of p)
      | CmpXchgI p c n \<Rightarrow> is_pointer (type_of p) \<and> at_most_64 (type_of n)
      | CallI (FunRef f t) as \<Rightarrow>
          (\<forall>k\<in>set (pointer_operands (func_name E f)). ptr_at I k)
          \<and> (func_name E f = ''calloc'' \<longrightarrow> is_pointer (ity I) \<and> len_at I 1)
      | CallI (AsmRef asm t) as \<Rightarrow>
          contains ''clflush $0'' asm \<or> contains ''xsaveopt $0'' asm \<or> contains ''xchgq $0,$1'' asm \<longrightarrow>
          as = [] \<or> ptr_at I 0
      | _ \<Rightarrow> True)"

text \<open>
  The callees are the functions of the run time, with their types, and LLVM makes what its language
  reference allows: casts between pointers and zero extensions of integers, calls with the types of
  the parameters, products of integers of one type.
\<close>

definition runtime_ok :: "tp_env \<Rightarrow> bool" where
  "runtime_ok E \<longleftrightarrow>
     (\<forall>f args. map_of rt_functions f = Some args \<longrightarrow> type_of (callee E f) = PtrTy (FunTy VoidTy args))
     \<and> (\<forall>S T. castIsValid E (PtrTy S) (PtrTy T)) \<and> (\<forall>v w. v < w \<longrightarrow> castIsValid E (IntTy v) (IntTy w))
     \<and> (\<forall>R Ts. callIsValid E (PtrTy (FunTy R Ts)) Ts) \<and> (\<forall>w. mulIsValid E (IntTy w) (IntTy w))"

definition llvm_accepts :: "tp_lib \<Rightarrow> bool" where
  "llvm_accepts lib \<longleftrightarrow>
     (\<forall>S T. lib_castIsValid lib (PtrTy S) (PtrTy T)) \<and> (\<forall>v w. v < w \<longrightarrow> lib_castIsValid lib (IntTy v) (IntTy w))
     \<and> (\<forall>R Ts. lib_callIsValid lib (PtrTy (FunTy R Ts)) Ts) \<and> (\<forall>w. lib_mulIsValid lib (IntTy w) (IntTy w))"

section \<open>The steps of a visitor\<close>

lemma callable_rt: "runtime_ok E \<Longrightarrow> map_of rt_functions f = Some (map type_of args) \<Longrightarrow> callable E f args"
  by (simp add: runtime_ok_def callable_def)

lemma lock_some:
  "runtime_ok E \<Longrightarrow> instrumentLock E I s \<noteq> None" "runtime_ok E \<Longrightarrow> instrumentUnlock E I s \<noteq> None"
  using callable_rt [of E "''locking''"] callable_rt [of E "''unlocking''"]
  by (simp_all add: instrumentLock_def instrumentUnlock_def split_beta Let_def call_before_def call_after_def
      rt_functions_def)

lemma castable_pointer: "runtime_ok E \<Longrightarrow> is_pointer (type_of V) \<Longrightarrow> castable (castIsValid E) V VoidPtrType"
  by (cases "type_of V") (simp_all add: castable_def runtime_ok_def VoidPtrType_def)

lemma castable_64: "runtime_ok E \<Longrightarrow> at_most_64 (type_of V) \<Longrightarrow> castable (castIsValid E) V Int64Type"
  by (cases "type_of V") (auto simp: castable_def runtime_ok_def Int64Type_def le_less)

lemma castTo_some: "castable A V T \<Longrightarrow> \<exists>w s'. castTo A V T I s = Some (w, s') \<and> type_of w = T"
  by (auto simp: castTo_def castable_def split_beta Let_def create_before_def new_inst_def value_of_def)

text \<open>Rules for the steps: each leaves what the step needs and the rest of the visitor.\<close>

lemma some_lock: "runtime_ok E \<Longrightarrow> (\<And>s'. f s' \<noteq> None) \<Longrightarrow> Option.bind (instrumentLock E I s) f \<noteq> None"
  using lock_some(1) [of E I s] by (cases "instrumentLock E I s") simp_all

lemma some_unlock: "runtime_ok E \<Longrightarrow> (\<And>s'. f s' \<noteq> None) \<Longrightarrow> Option.bind (instrumentUnlock E I s) f \<noteq> None"
  using lock_some(2) [of E I s] by (cases "instrumentUnlock E I s") simp_all

lemma some_cast:
  "castable A V T \<Longrightarrow> (\<And>w s'. type_of w = T \<Longrightarrow> f w s' \<noteq> None) \<Longrightarrow>
   Option.bind (castTo A V T I s) (\<lambda>(w, s'). f w s') \<noteq> None"
  using castTo_some [of A V T I s] by auto

lemma some_call:
  assumes "runtime_ok E" "map_of rt_functions g = Some (map type_of args)" "\<And>c s'. f c s' \<noteq> None"
  shows "Option.bind (call_before E g args I s) (\<lambda>(c, s'). f c s') \<noteq> None"
  using callable_rt [OF assms(1,2)] assms(3) by (simp add: call_before_def split_beta)

lemma some_mul:
  assumes "runtime_ok E" "type_of a = Int64Type" "type_of b = Int64Type"
    "\<And>c s'. type_of (value_of c) = Int64Type \<Longrightarrow> f c s' \<noteq> None"
  shows "Option.bind (create_mul E a b I s) (\<lambda>(c, s'). f c s') \<noteq> None"
  using assms
  by (simp add: create_mul_def split_beta create_before_def Let_def new_inst_def value_of_def Int64Type_def runtime_ok_def)

lemma some_operand:
  "k < length (operands (iop I)) \<Longrightarrow> f (opd I k) \<noteq> None \<Longrightarrow> Option.bind (getOperand I k) f \<noteq> None"
  by (simp add: getOperand_def nth_opt_def opd_def)

lemma some_arg:
  "k < length (call_args (iop I)) \<Longrightarrow> f (opd I k) \<noteq> None \<Longrightarrow> Option.bind (getArgOperand I k) f \<noteq> None"
  by (cases "iop I") (simp_all add: getArgOperand_def nth_opt_def opd_def nth_append)

lemma some_if: "(c \<Longrightarrow> x \<noteq> None) \<Longrightarrow> (\<not> c \<Longrightarrow> y \<noteq> None) \<Longrightarrow> (if c then x else y) \<noteq> None"
  by simp

lemmas some_steps =
  some_lock some_unlock some_cast some_call some_mul some_operand some_arg some_if lock_some option.distinct(2)

lemmas some_facts =
  castable_pointer castable_64 rt_function_types type_inst_id ptr_at_def len_at_def

lemma type_const_int: "type_of (const_int 64 n) = Int64Type"
  by (simp add: const_int_def Int64Type_def)

section \<open>Visitors\<close>

lemma visit_memory_some:
  assumes "runtime_ok E"
  shows "is_pointer (type_of p) \<Longrightarrow> visitLoadInst E I p s \<noteq> None"
    "is_pointer (type_of p) \<Longrightarrow> visitStoreInst E I v p s \<noteq> None"
    "is_pointer (type_of p) \<Longrightarrow> visitAtomicRMWInst E I p v s \<noteq> None"
    "is_pointer (type_of p) \<Longrightarrow> at_most_64 (type_of n) \<Longrightarrow> visitAtomicCmpXchgInst E I p n s \<noteq> None"
  unfolding visitLoadInst_def visitStoreInst_def visitAtomicRMWInst_def visitAtomicCmpXchgInst_def Let_def
  by (intro some_steps assms; simp add: some_facts assms type_const_int)+

lemma visitBranchInst_some: "runtime_ok E \<Longrightarrow> visitBranchInst E I c s \<noteq> None"
  using callable_rt [of E "''recordBr''" "[inst_id E I]"]
  by (simp add: visitBranchInst_def call_before_def Let_def rt_function_types type_inst_id)

lemma visitInlineAsm_some:
  assumes "runtime_ok E" "iop I = CallI f as" "asm_arity_ok asm (length as)"
    and "contains ''clflush $0'' asm \<or> contains ''xsaveopt $0'' asm \<or> contains ''xchgq $0,$1'' asm \<longrightarrow> as = [] \<or> ptr_at I 0"
  shows "visitInlineAsm E I asm s \<noteq> None"
  unfolding visitInlineAsm_def Let_def
  by (intro some_steps assms(1); use assms(2-) in \<open>auto simp: asm_arity_ok_def some_facts assms(1) type_const_int split: if_splits\<close>)

lemma special_some:
  assumes "runtime_ok E" "iop I = CallI f as"
  shows "2 \<le> length as \<and> ptr_at I 0 \<and> len_at I 2 \<Longrightarrow> special_memset E I s \<noteq> None"
    "2 \<le> length as \<and> ptr_at I 0 \<and> ptr_at I 1 \<and> (name \<noteq> ''strcpy'' \<longrightarrow> len_at I 2) \<Longrightarrow> special_copy E I name s \<noteq> None"
    "1 \<le> length as \<and> ptr_at I 0 \<and> ptr_at I 1 \<Longrightarrow> special_strncpy E I s \<noteq> None"
    "1 \<le> length as \<and> ptr_at I 0 \<and> ptr_at I 1 \<Longrightarrow> special_strcat E I s \<noteq> None"
    "ptr_at I 0 \<Longrightarrow> special_strlen E I s \<noteq> None"
    "1 \<le> length as \<and> ptr_at I 0 \<and> ptr_at I 1 \<Longrightarrow> special_strcmp E I s \<noteq> None"
    "1 \<le> length as \<and> is_pointer (ity I) \<and> len_at I 0 \<and> len_at I 1 \<Longrightarrow> special_calloc E I s \<noteq> None"
    "ptr_at I 0 \<Longrightarrow> special_fgets E I s \<noteq> None"
    "1 \<le> length as \<and> ptr_at I 0 \<and> len_at I 1 \<Longrightarrow> special_snprintf E I s \<noteq> None"
  unfolding special_memset_def special_copy_def special_strncpy_def special_strcat_def special_strlen_def
    special_strcmp_def special_calloc_def special_fgets_def special_snprintf_def Let_def
  by (intro some_steps assms(1); simp add: assms(1,2) some_facts value_of_def del: One_nat_def length_greater_0_conv)+

lemma sprintf_loads_some:
  assumes "runtime_ok E"
  shows "sprintf_loads E (inst_id E I) I ops s \<noteq> None"
proof (induction ops arbitrary: s)
  case (Cons p ops)
  have "callable E ''recordStrLoad'' [inst_id E I, p]" if "type_of p = VoidPtrType"
    using that by (intro callable_rt assms) (simp add: some_facts)
  with Cons show ?case by (simp add: call_before_def)
qed simp

lemma special_sprintf_some:
  assumes "runtime_ok E" "iop I = CallI f as" "ptr_at I 0"
  shows "special_sprintf E I s \<noteq> None"
proof -
  have loads: "Option.bind (sprintf_loads E (inst_id E I) I ops s) k \<noteq> None" if "\<And>s. k s \<noteq> None" for ops s k
    using sprintf_loads_some [OF assms(1), of I ops s] that by (cases "sprintf_loads E (inst_id E I) I ops s") simp_all
  show ?thesis
    unfolding special_sprintf_def Let_def
    by (intro some_steps loads assms(1); simp add: assms(1,2) assms(3) [unfolded ptr_at_def] some_facts)
qed

lemma pmem_some:
  assumes "runtime_ok E" "iop I = CallI f as"
  shows "1 \<le> length as \<and> ptr_at I 0 \<and> len_at I 1 \<Longrightarrow> pmem_flush_call E I s \<noteq> None"
    "pmem_drain_call E I s \<noteq> None"
    "1 \<le> length as \<and> ptr_at I 0 \<and> len_at I 1 \<Longrightarrow> pmem_persist_call E I s \<noteq> None"
    "2 \<le> length as \<and> ptr_at I 0 \<and> ptr_at I 1 \<and> len_at I 2 \<Longrightarrow> pmem_copy_nodrain_call E I s \<noteq> None"
    "2 \<le> length as \<and> ptr_at I 0 \<and> ptr_at I 1 \<and> len_at I 2 \<Longrightarrow> pmem_copy_persist_call E I s \<noteq> None"
    "2 \<le> length as \<and> ptr_at I 0 \<and> ptr_at I 1 \<and> len_at I 2 \<Longrightarrow> pmem_copy_call E I s \<noteq> None"
    "2 \<le> length as \<and> ptr_at I 0 \<and> len_at I 2 \<Longrightarrow> pmem_set_nodrain_call E I s \<noteq> None"
    "2 \<le> length as \<and> ptr_at I 0 \<and> len_at I 2 \<Longrightarrow> pmem_set_persist_call E I s \<noteq> None"
    "2 \<le> length as \<and> ptr_at I 0 \<and> len_at I 2 \<Longrightarrow> pmem_set_call E I s \<noteq> None"
  unfolding pmem_flush_call_def pmem_drain_call_def pmem_persist_call_def pmem_copy_nodrain_call_def
    pmem_copy_persist_call_def pmem_copy_call_def pmem_set_nodrain_call_def pmem_set_persist_call_def
    pmem_set_call_def Let_def
  by (intro some_steps assms(1); simp add: assms(1,2) some_facts del: One_nat_def length_greater_0_conv)+

lemma sync_some:
  assumes "runtime_ok E" "iop I = CallI f as"
  shows "(name \<in> set lock_functions \<or> name \<in> set unlock_functions \<longrightarrow> 1 \<le> length as \<and> ptr_at I 0) \<Longrightarrow> visitLockCall E I name s \<noteq> None"
    "(name = ''mmap'' \<longrightarrow> 1 \<le> length as \<and> len_at I 1 \<and> ity I = VoidPtrType) \<Longrightarrow> visitMmapCall E I name s \<noteq> None"
    "2 \<le> length as \<Longrightarrow> ptr_at I 1 \<Longrightarrow> len_at I 2 \<Longrightarrow> alloc_call E I s \<noteq> None"
    "len_at I 0 \<Longrightarrow> ity I = OIDType \<Longrightarrow> tx_alloc_call E I s \<noteq> None"
  unfolding visitLockCall_def visitMmapCall_def alloc_call_def tx_alloc_call_def Let_def
  by (intro some_steps assms(1); simp add: assms(1,2) some_facts value_of_def del: One_nat_def length_greater_0_conv)+

subsection \<open>By name\<close>

lemma c_arity_mem:
  "take 12 name = ''llvm.memset.'' \<or> take 12 name = ''llvm.memcpy.'' \<or> take 13 name = ''llvm.memmove.''
     \<or> take 8 name = ''pmem_mem'' \<Longrightarrow> c_arity name = 3"
  unfolding c_arity_def by (rule if_P)

lemma c_arity_lock:
  "name \<in> set lock_functions \<or> name \<in> set unlock_functions \<Longrightarrow> 1 \<le> c_arity name"
  by (simp add: c_arity_def)

lemma c_arity_values:
  "c_arity ''strcpy'' = 2" "c_arity ''strncpy'' = 3" "c_arity ''__strncpy_chk'' = 4" "c_arity ''strcat'' = 2"
  "c_arity ''strcmp'' = 2" "c_arity ''calloc'' = 2" "c_arity ''snprintf'' = 3" "c_arity ''pmem_flush'' = 2"
  "c_arity ''pmem_persist'' = 2" "c_arity ''pmem_msync'' = 2" "c_arity ''mmap'' = 6"
  "c_arity ''pmemobj_alloc'' = 6" "c_arity ''pmemobj_tx_alloc'' = 2"
  by (simp_all add: c_arity_def lock_functions_def unlock_functions_def)

lemma pointer_operands_memset: "take 12 name = ''llvm.memset.'' \<Longrightarrow> pointer_operands name = [0]"
  unfolding pointer_operands_def by (rule if_P)

lemma pointer_operands_memcpy:
  "take 12 name \<noteq> ''llvm.memset.'' \<Longrightarrow> take 12 name = ''llvm.memcpy.'' \<or> take 13 name = ''llvm.memmove.'' \<Longrightarrow>
   pointer_operands name = [0, 1]"
  unfolding pointer_operands_def by (subst if_not_P, assumption, rule if_P)

lemma pointer_operands_names:
  "pointer_operands ''strcpy'' = [0, 1]" "pointer_operands ''strncpy'' = [0, 1]" "pointer_operands ''__strncpy_chk'' = [0, 1]"
  "pointer_operands ''strcat'' = [0, 1]" "pointer_operands ''strlen'' = [0]" "pointer_operands ''strcmp'' = [0, 1]"
  "pointer_operands ''sprintf'' = [0]" "pointer_operands ''fgets'' = [0]" "pointer_operands ''snprintf'' = [0]"
  "pointer_operands ''pmem_flush'' = [0]" "pointer_operands ''pmem_persist'' = [0]" "pointer_operands ''pmem_msync'' = [0]"
  "pointer_operands ''pmemobj_alloc'' = [1]"
  "pointer_operands ''pmem_memmove_nodrain'' = [0, 1]" "pointer_operands ''pmem_memcpy_nodrain'' = [0, 1]"
  "pointer_operands ''pmem_memmove_persist'' = [0, 1]" "pointer_operands ''pmem_memcpy_persist'' = [0, 1]"
  "pointer_operands ''pmem_memmove'' = [0, 1]" "pointer_operands ''pmem_memcpy'' = [0, 1]"
  "pointer_operands ''pmem_memset_nodrain'' = [0]" "pointer_operands ''pmem_memset_persist'' = [0]"
  "pointer_operands ''pmem_memset'' = [0]"
  by (simp_all add: pointer_operands_def lock_functions_def unlock_functions_def)

lemma pointer_operands_lock: "name \<in> set lock_functions \<or> name \<in> set unlock_functions \<Longrightarrow> pointer_operands name = [0]"
  by (auto simp: pointer_operands_def lock_functions_def unlock_functions_def)

lemma length_operand_values:
  "take 12 name = ''llvm.memset.'' \<or> take 12 name = ''llvm.memcpy.'' \<or> take 13 name = ''llvm.memmove.'' \<Longrightarrow>
     length_operand name = Some 2"
  "take 8 name = ''pmem_mem'' \<Longrightarrow> length_operand name = Some 2"
  "length_operand ''snprintf'' = Some 1" "length_operand ''pmem_flush'' = Some 1" "length_operand ''pmem_persist'' = Some 1"
  "length_operand ''pmem_msync'' = Some 1" "length_operand ''mmap'' = Some 1" "length_operand ''calloc'' = Some 0"
  "length_operand ''pmemobj_tx_alloc'' = Some 0" "length_operand ''pmemobj_alloc'' = Some 2"
  unfolding length_operand_def by (rule if_P, blast) (simp_all)

text \<open>What is asked of a call of the function of this name.\<close>

definition call_ok :: "inst \<Rightarrow> string \<Rightarrow> val list \<Rightarrow> bool" where
  "call_ok I name as \<longleftrightarrow> c_arity name \<le> length as \<and> (\<forall>k\<in>set (pointer_operands name). ptr_at I k)
     \<and> (\<forall>k. length_operand name = Some k \<longrightarrow> len_at I k)
     \<and> (name = ''calloc'' \<longrightarrow> is_pointer (ity I) \<and> len_at I 1)
     \<and> (name = ''mmap'' \<longrightarrow> ity I = VoidPtrType) \<and> (name = ''pmemobj_tx_alloc'' \<longrightarrow> ity I = OIDType)"

lemma call_okD:
  assumes "call_ok I name as"
  shows "n \<le> c_arity name \<Longrightarrow> n \<le> length as" "k \<in> set (pointer_operands name) \<Longrightarrow> ptr_at I k"
    "length_operand name = Some k \<Longrightarrow> len_at I k"
  using assms by (auto simp: call_ok_def)

lemma call_ok_copy:
  assumes "call_ok I name as" "take 12 name \<noteq> ''llvm.memset.''"
    "take 12 name = ''llvm.memcpy.'' \<or> take 13 name = ''llvm.memmove.'' \<or> name = ''strcpy''"
  shows "2 \<le> length as \<and> ptr_at I 0 \<and> ptr_at I 1 \<and> (name \<noteq> ''strcpy'' \<longrightarrow> len_at I 2)"
proof -
  consider (str) "name = ''strcpy''" | (mem) "take 12 name = ''llvm.memcpy.'' \<or> take 13 name = ''llvm.memmove.''"
    "name \<noteq> ''strcpy''" using assms(3) by blast
  then show ?thesis
  proof cases
    case str
    with call_okD [OF assms(1)] show ?thesis by (simp add: c_arity_values pointer_operands_names)
  next
    case mem
    then have "c_arity name = 3" "length_operand name = Some 2"
      by (blast intro: c_arity_mem length_operand_values)+
    with call_okD [OF assms(1)] pointer_operands_memcpy [OF assms(2) mem(1)] show ?thesis by simp
  qed
qed

lemma call_ok_special:
  assumes "call_ok I name as"
  shows "take 12 name = ''llvm.memset.'' \<Longrightarrow> 2 \<le> length as \<and> ptr_at I 0 \<and> len_at I 2"
    "name = ''strncpy'' \<or> name = ''__strncpy_chk'' \<Longrightarrow> 1 \<le> length as \<and> ptr_at I 0 \<and> ptr_at I 1"
    "name = ''strcat'' \<Longrightarrow> 1 \<le> length as \<and> ptr_at I 0 \<and> ptr_at I 1"
    "name = ''strlen'' \<Longrightarrow> ptr_at I 0"
    "name = ''strcmp'' \<Longrightarrow> 1 \<le> length as \<and> ptr_at I 0 \<and> ptr_at I 1"
    "name = ''calloc'' \<Longrightarrow> 1 \<le> length as \<and> is_pointer (ity I) \<and> len_at I 0 \<and> len_at I 1"
    "name = ''sprintf'' \<Longrightarrow> ptr_at I 0" "name = ''fgets'' \<Longrightarrow> ptr_at I 0"
    "name = ''snprintf'' \<Longrightarrow> 1 \<le> length as \<and> ptr_at I 0 \<and> len_at I 1"
proof -
  note c = call_okD [OF assms]
  have calloc: "name = ''calloc'' \<Longrightarrow> is_pointer (ity I) \<and> len_at I 1" using assms by (simp add: call_ok_def)
  show "take 12 name = ''llvm.memset.'' \<Longrightarrow> 2 \<le> length as \<and> ptr_at I 0 \<and> len_at I 2"
    by (intro conjI c) (simp_all add: c_arity_mem pointer_operands_memset length_operand_values)
  show "name = ''strncpy'' \<or> name = ''__strncpy_chk'' \<Longrightarrow> 1 \<le> length as \<and> ptr_at I 0 \<and> ptr_at I 1"
    by (intro conjI c; elim disjE; simp add: c_arity_values pointer_operands_names)
  show "name = ''calloc'' \<Longrightarrow> 1 \<le> length as \<and> is_pointer (ity I) \<and> len_at I 0 \<and> len_at I 1"
    using calloc c(1) [of 1] c(3) [of 0] by (simp add: c_arity_values length_operand_values)
qed (intro conjI call_okD [OF assms]; simp add: c_arity_values pointer_operands_names length_operand_values)+

lemma visitSpecialCall_some:
  assumes "runtime_ok E" "iop I = CallI f as" "call_ok I name as"
  shows "visitSpecialCall E I name s \<noteq> None"
proof -
  note d = special_some [OF assms(1,2)] and n = call_ok_special [OF assms(3)]
  show ?thesis
    unfolding visitSpecialCall_def
    by (intro some_if option.distinct(2) d(1) [OF n(1)] d(2) [OF call_ok_copy [OF assms(3)]] d(3) [OF n(2)]
        d(4) [OF n(3)] d(5) [OF n(4)] d(6) [OF n(5)] d(7) [OF n(6)] special_sprintf_some [OF assms(1,2) n(7)]
        d(8) [OF n(8)] d(9) [OF n(9)]; assumption)
qed

lemma call_ok_pmem:
  assumes "call_ok I name as"
  shows "name = ''pmem_flush'' \<Longrightarrow> 1 \<le> length as \<and> ptr_at I 0 \<and> len_at I 1"
    "name = ''pmem_persist'' \<or> name = ''pmem_msync'' \<Longrightarrow> 1 \<le> length as \<and> ptr_at I 0 \<and> len_at I 1"
    "name = ''pmem_memmove_nodrain'' \<or> name = ''pmem_memcpy_nodrain'' \<Longrightarrow> 2 \<le> length as \<and> ptr_at I 0 \<and> ptr_at I 1 \<and> len_at I 2"
    "name = ''pmem_memmove_persist'' \<or> name = ''pmem_memcpy_persist'' \<Longrightarrow> 2 \<le> length as \<and> ptr_at I 0 \<and> ptr_at I 1 \<and> len_at I 2"
    "name = ''pmem_memmove'' \<or> name = ''pmem_memcpy'' \<Longrightarrow> 2 \<le> length as \<and> ptr_at I 0 \<and> ptr_at I 1 \<and> len_at I 2"
    "name = ''pmem_memset_nodrain'' \<Longrightarrow> 2 \<le> length as \<and> ptr_at I 0 \<and> len_at I 2"
    "name = ''pmem_memset_persist'' \<Longrightarrow> 2 \<le> length as \<and> ptr_at I 0 \<and> len_at I 2"
    "name = ''pmem_memset'' \<Longrightarrow> 2 \<le> length as \<and> ptr_at I 0 \<and> len_at I 2"
  by (intro conjI call_okD [OF assms]; (elim disjE)?;
      simp add: c_arity_values c_arity_mem pointer_operands_names length_operand_values)+

lemma visitPmemCall_some:
  assumes "runtime_ok E" "iop I = CallI f as" "call_ok I name as"
  shows "visitPmemCall E I name s \<noteq> None"
proof -
  note d = pmem_some [OF assms(1,2)] and n = call_ok_pmem [OF assms(3)]
  show ?thesis
    unfolding visitPmemCall_def
    by (intro some_if option.distinct(2) d(1) [OF n(1)] d(2) d(3) [OF n(2)] d(4) [OF n(3)] d(5) [OF n(4)]
        d(6) [OF n(5)] d(7) [OF n(6)] d(8) [OF n(7)] d(9) [OF n(8)]; assumption)
qed

lemma visitSync_some:
  assumes "runtime_ok E" "iop I = CallI f as" "call_ok I name as"
  shows "visitLockCall E I name s \<noteq> None" "visitMmapCall E I name s \<noteq> None"
proof -
  have "name \<in> set lock_functions \<or> name \<in> set unlock_functions \<longrightarrow> 1 \<le> length as \<and> ptr_at I 0"
    using c_arity_lock [of name] pointer_operands_lock [of name]
    by (intro impI conjI call_okD [OF assms(3)]) simp_all
  then show "visitLockCall E I name s \<noteq> None" by (rule sync_some(1) [OF assms(1,2)])
  have "name = ''mmap'' \<longrightarrow> 1 \<le> length as \<and> len_at I 1 \<and> ity I = VoidPtrType"
    using assms(3) call_okD [OF assms(3)] by (auto simp: call_ok_def c_arity_values length_operand_values)
  then show "visitMmapCall E I name s \<noteq> None" by (rule sync_some(2) [OF assms(1,2)])
qed

definition instrumentable :: "tp_env \<Rightarrow> inst \<Rightarrow> bool" where
  "instrumentable E I \<longleftrightarrow> complete_call E I \<and> lengths_64 E I \<and> operands_ok E I"

lemma instrumentable_call: "instrumentable E I \<Longrightarrow> iop I = CallI (FunRef m t) as \<Longrightarrow> call_ok I (func_name E m) as"
  by (auto simp: instrumentable_def complete_call_def lengths_64_def operands_ok_def call_ok_def len_at_def split: option.splits)

lemma bind_some: "x \<noteq> None \<Longrightarrow> (\<And>y. f y \<noteq> None) \<Longrightarrow> Option.bind x f \<noteq> None"
  by (cases x) simp_all

lemma visit_some:
  assumes "runtime_ok E" "instrumentable E I"
  shows "visit E I s \<noteq> None"
proof (cases "iop I")
  case (CallI g as)
  show ?thesis
  proof (cases g)
    case (FunRef m t)
    with CallI have I: "iop I = CallI (FunRef m t) as" by simp
    let ?n = "func_name E m"
    note c = instrumentable_call [OF assms(2) I]
    have a: "?n = ''pmemobj_alloc'' \<Longrightarrow> 2 \<le> length as \<and> ptr_at I 1 \<and> len_at I 2"
      "?n = ''pmemobj_tx_alloc'' \<Longrightarrow> len_at I 0 \<and> ity I = OIDType"
      using c by (auto simp: call_ok_def c_arity_values pointer_operands_names length_operand_values)
    have "visitCallInst E I (FunRef m t) s \<noteq> None"
      unfolding visitCallInst_def Let_def val.case split_def
      by (intro some_if bind_some visitSpecialCall_some [OF assms(1) I c] visitPmemCall_some [OF assms(1) I c]
          visitSync_some(1) [OF assms(1) I c] sync_some(3,4) [OF assms(1) I])
        (use a visitSync_some(2) [OF assms(1) I c] in simp_all)
    then show ?thesis by (simp add: I)
  next
    case (AsmRef asm t)
    with CallI have "iop I = CallI (AsmRef asm t) as" by simp
    with assms visitInlineAsm_some [OF assms(1) this, of asm s] show ?thesis
      by (simp add: instrumentable_def complete_call_def operands_ok_def visitCallInst_def)
  qed (use CallI in \<open>simp_all add: visitCallInst_def\<close>)
qed (use assms in \<open>simp_all add: instrumentable_def operands_ok_def visit_memory_some visitBranchInst_some\<close>)

section \<open>Blocks and functions\<close>

lemma visit_all_some:
  "runtime_ok E \<Longrightarrow> \<forall>I\<in>set b. instrumentable E I \<Longrightarrow> \<exists>s'. visit_all E b s = Some s'"
proof (induction b arbitrary: s)
  case (Cons I b)
  from visit_some [of E I s] Cons.prems obtain s1 where "visit E I s = Some s1" by auto
  with Cons show ?case by (simp del: visit.simps)
qed simp

lemma visit_blocks_some:
  "runtime_ok E \<Longrightarrow> \<forall>b\<in>set bs. \<forall>I\<in>set b. instrumentable E I \<Longrightarrow> \<exists>r. visit_blocks E bs c = Some r"
proof (induction bs arbitrary: c)
  case (Cons b bs)
  obtain n g where c: "c = (n, g)" by (cases c)
  from visit_all_some [of E b "\<lparr>blk = b, fresh = n, strs = g\<rparr>"] Cons.prems
  obtain r where "visit_block E b c = Some r" by (auto simp: c visit_block_def)
  moreover obtain r' where "visit_blocks E bs (snd r) = Some r'"
    using Cons.IH [of "snd r"] Cons.prems by auto
  ultimately show ?case by (simp add: split_beta)
qed simp

lemma visit_funcs_some:
  "runtime_ok E \<Longrightarrow> \<forall>F\<in>set Fs. \<forall>I\<in>set (func_insts F). instrumentable E I \<Longrightarrow> \<exists>r. visit_funcs E Fs c = Some r"
proof (induction Fs arbitrary: c)
  case (Cons F Fs)
  from visit_blocks_some [of E "fblocks F" c] Cons.prems obtain r where r: "visit_blocks E (fblocks F) c = Some r"
    by (auto simp: func_insts_def)
  moreover obtain r' where "visit_funcs E Fs (snd r) = Some r'"
    using Cons.IH [of "snd r"] Cons.prems by auto
  ultimately show ?case by (simp add: split_beta)
qed simp

section \<open>Entry points\<close>

text \<open>A function whose first block has an instruction that is neither a phi nor a landing pad.\<close>

fun ordinary :: "inst \<Rightarrow> bool" where
  "ordinary i \<longleftrightarrow> (case iop i of PhiI vs \<Rightarrow> False | PadI \<Rightarrow> False | _ \<Rightarrow> True)"

definition enterable :: "nat \<Rightarrow> func \<Rightarrow> bool" where
  "enterable m F \<longleftrightarrow> (\<exists>b bs. fblocks F = b # bs \<and> (\<exists>i\<in>set b. iref i < m \<and> ordinary i))"

lemma ordinary_insertion:
  assumes "i \<in> set b" "ordinary i"
  shows "getFirstInsertionPt b \<noteq> None"
proof -
  let ?r = "dropWhile (\<lambda>i. case iop i of PhiI vs \<Rightarrow> True | _ \<Rightarrow> False) b"
  have "i \<in> set ?r"
    using assms by (induction b) (auto split: iop.splits)
  then obtain j r where r: "?r = j # r" "i = j \<or> i \<in> set r" by (cases ?r) auto
  with assms(2) have "iop j = PadI \<longrightarrow> r \<noteq> []" by auto
  with r(1) show ?thesis by (simp add: getFirstInsertionPt_def Let_def nth_opt_def)
qed

lemma enterable_open: "enterable m F \<Longrightarrow> \<exists>I s. open_entry F M = Some (I, s)"
  using ordinary_insertion by (fastforce simp: enterable_def open_entry_def)

lemma enterable_erase: "enterable m (erase m F) = enterable m F"
  by (auto simp: enterable_def erase_def Cons_eq_map_conv)

lemma getFunction_erase:
  assumes "map (erase m) (funcs M') = map (erase m) (funcs M)" "map fname (funcs M') = map fname (funcs M)"
  shows "rel_option (\<lambda>F' F. erase m F' = erase m F) (getFunction M' name) (getFunction M name)"
proof -
  have "list_all2 (\<lambda>F' F. erase m F' = erase m F \<and> fname F' = fname F) (funcs M') (funcs M)"
    using assms by (simp add: list_all2_conv_all_nth list_eq_iff_nth_eq)
  then show ?thesis unfolding getFunction_def by (induction rule: list_all2_induct) auto
qed

definition entry_ok :: "nat \<Rightarrow> modl \<Rightarrow> string \<Rightarrow> bool" where
  "entry_ok m M name \<longleftrightarrow> (case getFunction M name of None \<Rightarrow> False | Some F \<Rightarrow> enterable m F)"

definition api_ok :: "nat \<Rightarrow> modl \<Rightarrow> string \<Rightarrow> string \<Rightarrow> bool" where
  "api_ok m M name mangled \<longleftrightarrow>
     (case getFunction M name of None \<Rightarrow> entry_ok m M mangled | Some F \<Rightarrow> enterable m F)"

definition model_ok :: "nat \<Rightarrow> modl \<Rightarrow> string \<Rightarrow> bool" where
  "model_ok m M name \<longleftrightarrow>
     (case getFunction M name of
        None \<Rightarrow> True | Some F \<Rightarrow> enterable m F \<and> (\<exists>t ts. fargs F = PtrTy t # ts))"

text \<open>
  What the pass needs besides its instructions: \<open>main\<close> and the two API marks have bodies, and the
  modelled functions that the module has have a body and a pointer as first argument.
\<close>

definition ready :: "nat \<Rightarrow> string list \<Rightarrow> modl \<Rightarrow> bool" where
  "ready m models M \<longleftrightarrow>
     m \<le> nextref M \<and> distinct (map fname (funcs M)) \<and> entry_ok m M ''main''
     \<and> api_ok m M ''api_begin'' ''_Z9api_beginv'' \<and> api_ok m M ''api_end'' ''_Z7api_endv''
     \<and> (\<forall>name\<in>set models. model_ok m M name)"

lemma fargs_erase: "fargs (erase m F) = fargs F"
  by (simp add: erase_def)

lemma erase_eqD: "erase m F' = erase m F \<Longrightarrow> enterable m F' = enterable m F \<and> fargs F' = fargs F"
  using fargs_erase [of m F] fargs_erase [of m F'] enterable_erase [of m F] enterable_erase [of m F']
  by simp

lemma kept_entry_ok:
  assumes "kept m M M'"
  shows "entry_ok m M' name = entry_ok m M name" "model_ok m M' name = model_ok m M name"
  using getFunction_erase [of m M' M name] assms
    erase_eqD [of m "the (getFunction M' name)" "the (getFunction M name)"]
  by (cases "getFunction M' name"; cases "getFunction M name";
      simp add: kept_def entry_ok_def model_ok_def)+

lemma kept_api_ok: "kept m M M' \<Longrightarrow> api_ok m M' a b = api_ok m M a b"
  using getFunction_erase [of m M' M a] kept_entry_ok(1) [of m M M' b]
    erase_eqD [of m "the (getFunction M' a)" "the (getFunction M a)"]
  by (cases "getFunction M' a"; cases "getFunction M a"; simp add: kept_def api_ok_def)

lemma kept_ready: "kept m M M' \<Longrightarrow> ready m models M \<Longrightarrow> ready m models M'"
  by (simp add: ready_def kept_entry_ok kept_api_ok) (simp add: kept_def)

text \<open>A step that returns on modules that are ready, and keeps them.\<close>

definition total :: "nat \<Rightarrow> string list \<Rightarrow> (modl \<Rightarrow> modl option) \<Rightarrow> bool" where
  "total m models f \<longleftrightarrow> (\<forall>M. ready m models M \<longrightarrow> (\<exists>M'. f M = Some M' \<and> ready m models M'))"

lemma totalI: "(\<And>M. ready m models M \<Longrightarrow> f M \<noteq> None) \<Longrightarrow> keeps f \<Longrightarrow> total m models f"
  unfolding total_def
proof (intro allI impI)
  fix M
  assume d: "\<And>M. ready m models M \<Longrightarrow> f M \<noteq> None" and k: "keeps f" and r: "ready m models M"
  from d [OF r] obtain M' where M': "f M = Some M'" by blast
  have "kept m M M'" using r by (intro keepsD [OF k M']) (simp_all add: ready_def)
  with M' r kept_ready show "\<exists>M'. f M = Some M' \<and> ready m models M'" by blast
qed

lemma total_then: "total m models f \<Longrightarrow> total m models g \<Longrightarrow> total m models (\<lambda>M. Option.bind (f M) g)"
  unfolding total_def by fastforce

lemma total_Some: "total m models Some"
  by (simp add: total_def)

lemma rt_entry_types:
  "map_of rt_functions ''recordInit'' = Some [VoidPtrType]"
  "map_of rt_functions ''recordAPIBegin'' = Some [Int32Type]" "map_of rt_functions ''recordAPIEnd'' = Some [Int32Type]"
  "map_of rt_functions ''recordLockBegin'' = Some [Int32Type, VoidPtrType]"
  "map_of rt_functions ''recordLockEnd'' = Some [Int32Type, VoidPtrType]"
  "map_of rt_functions ''recordUnlockBegin'' = Some [Int32Type, VoidPtrType]"
  "map_of rt_functions ''recordUnlockEnd'' = Some [Int32Type, VoidPtrType]"
  by (simp_all add: rt_functions_def)

lemma type_const_32: "type_of (const_int 32 n) = Int32Type"
  by (simp add: const_int_def Int32Type_def)

lemma total_instrumentInit:
  assumes "runtime_ok E"
  shows "total m models (instrumentInit E f)"
proof (rule totalI)
  fix M
  assume "ready m models M"
  then have "entry_ok m M ''main''" by (simp add: ready_def)
  then obtain F where F: "getFunction M ''main'' = Some F" "enterable m F"
    by (auto simp: entry_ok_def split: option.splits)
  then obtain I s where o: "open_entry F M = Some (I, s)" using enterable_open [of m F M] by blast
  show "instrumentInit E f M \<noteq> None"
    unfolding instrumentInit_def F o Let_def stringToGV_def Option.bind.bind_lunit prod.case
    by (intro some_call assms option.distinct(2)) (simp add: rt_entry_types)
qed (rule keeps_instrumentInit)

lemma api_ok_open:
  assumes "api_ok m M a b"
  shows "\<exists>F I s. (case getFunction M a of None \<Rightarrow> getFunction M b | Some F \<Rightarrow> Some F) = Some F
    \<and> open_entry F M = Some (I, s)"
  using assms enterable_open by (fastforce simp: api_ok_def entry_ok_def split: option.splits)

lemma total_instrumentAPIBegin:
  assumes "runtime_ok E"
  shows "total m models (instrumentAPIBegin E)"
proof (rule totalI)
  fix M
  assume "ready m models M"
  then have "api_ok m M ''api_begin'' ''_Z9api_beginv''" by (simp add: ready_def)
  then obtain F I s where o: "(case getFunction M ''api_begin'' of None \<Rightarrow> getFunction M ''_Z9api_beginv'' | Some F \<Rightarrow> Some F) = Some F"
    "open_entry F M = Some (I, s)"
    using api_ok_open by blast
  show "instrumentAPIBegin E M \<noteq> None"
    unfolding instrumentAPIBegin_def o Let_def Option.bind.bind_lunit prod.case
    by (intro some_call assms option.distinct(2)) (simp add: rt_entry_types type_const_32)
qed (rule keeps_instrumentAPIBegin)

lemma total_instrumentAPIEnd:
  assumes "runtime_ok E"
  shows "total m models (instrumentAPIEnd E)"
proof (rule totalI)
  fix M
  assume "ready m models M"
  then have "api_ok m M ''api_end'' ''_Z7api_endv''" by (simp add: ready_def)
  then obtain F I s where o: "(case getFunction M ''api_end'' of None \<Rightarrow> getFunction M ''_Z7api_endv'' | Some F \<Rightarrow> Some F) = Some F"
    "open_entry F M = Some (I, s)"
    using api_ok_open by blast
  show "instrumentAPIEnd E M \<noteq> None"
    unfolding instrumentAPIEnd_def o Let_def Option.bind.bind_lunit prod.case
    by (intro some_call assms option.distinct(2)) (simp add: rt_entry_types type_const_32)
qed (rule keeps_instrumentAPIEnd)

lemma model_functions_Cons:
  "model_functions E b e (name # names) =
     (\<lambda>M. Option.bind (model_functions E b e [name] M) (model_functions E b e names))"
  by (auto simp: fun_eq_iff split: option.splits bind_splits)

lemma end_calls_some: "callable E e args \<Longrightarrow> end_calls E e args is s \<noteq> None"
  by (induction "is" arbitrary: s) (simp_all add: call_before_def)

lemma end_in_blocks_some: "callable E e args \<Longrightarrow> \<exists>bs' n'. end_in_blocks E e args bs n = Some (bs', n')"
proof (induction bs arbitrary: n)
  case (Cons b bs)
  obtain s where "end_calls E e args b \<lparr>blk = b, fresh = n, strs = []\<rparr> = Some s"
    using end_calls_some [OF Cons.prems] by blast
  moreover obtain bs' n' where "end_in_blocks E e args bs (fresh s) = Some (bs', n')"
    using Cons.IH [OF Cons.prems] by blast
  ultimately show ?case by (simp add: end_before_returns_def)
qed simp

lemma model_function_some:
  assumes "runtime_ok E" "map_of rt_functions b = Some [Int32Type, VoidPtrType]"
    "map_of rt_functions e = Some [Int32Type, VoidPtrType]" "enterable m fn" "fargs fn = PtrTy t # ts"
  shows "model_function E b e fn M \<noteq> None"
proof -
  obtain I s where o: "open_entry fn M = Some (I, s)" using enterable_open [OF assms(4)] by blast
  have a: "nth_opt (fargs fn) 0 = Some (PtrTy t)" by (simp add: nth_opt_def assms(5))
  have ends: "Option.bind (end_in_blocks E e [const_int 32 (- 1), w] bs n) (\<lambda>(bs, n). k bs n) \<noteq> None"
    if w: "type_of w = VoidPtrType" and k: "\<And>bs n. k bs n \<noteq> None" for w bs n and k :: "block list \<Rightarrow> nat \<Rightarrow> modl option"
  proof -
    have "callable E e [const_int 32 (- 1), w]" using assms(1,3) w by (intro callable_rt) (simp_all add: type_const_32)
    from end_in_blocks_some [OF this, of bs n] obtain bs' n' where
      "end_in_blocks E e [const_int 32 (- 1), w] bs n = Some (bs', n')" by blast
    with k [of bs' n'] show ?thesis by simp
  qed
  show ?thesis
    unfolding model_function_def o a Let_def Option.bind.bind_lunit prod.case
    by (intro some_cast some_call ends assms(1) option.distinct(2))
      (simp_all add: castable_pointer assms(1,2) type_const_32)
qed

lemma total_model_functions:
  assumes "runtime_ok E" "map_of rt_functions b = Some [Int32Type, VoidPtrType]"
    "map_of rt_functions e = Some [Int32Type, VoidPtrType]"
  shows "set names \<subseteq> set models \<Longrightarrow> total m models (model_functions E b e names)"
proof (induction names)
  case Nil
  show ?case using total_Some by (simp add: total_def)
next
  case (Cons name names)
  have "total m models (model_functions E b e [name])"
  proof (rule totalI)
    fix M
    assume "ready m models M"
    with Cons.prems have ok: "model_ok m M name" by (simp add: ready_def)
    show "model_functions E b e [name] M \<noteq> None"
    proof (cases "getFunction M name")
      case (Some F)
      with ok obtain t ts where F: "enterable m F" "fargs F = PtrTy t # ts" by (auto simp: model_ok_def)
      obtain N where "model_function E b e F M = Some N" using model_function_some [OF assms F, of M] by blast
      with Some show ?thesis by simp
    qed simp
  qed (rule keeps_model_functions)
  from total_then [OF this Cons.IH] Cons.prems show ?case by (subst model_functions_Cons) simp
qed

lemma runtime_declared:
  "llvm_accepts lib \<Longrightarrow> runtime_ok (tp_env_of lib (fst (doInitialization order file0 file1 M)) q N)"
  using callee_type [OF refl] by (simp add: runtime_ok_def llvm_accepts_def) (simp add: tp_env_of_def)

lemma runOnModule_total:
  assumes wf: "wf_module M" and T: "T = fst (doInitialization order file0 file1 M0)" and lib: "llvm_accepts lib"
    and calls: "\<forall>I\<in>set (all_insts M). instrumentable (tp_env_of lib T q M) I"
    and ready: "ready (nextref M) (lock_modeling_set T @ unlock_modeling_set T) M"
  shows "\<exists>M'. runOnModule lib f T q M = Some M'"
proof -
  let ?E = "tp_env_of lib T q M" and ?m = "nextref M"
  let ?models = "lock_modeling_set T @ unlock_modeling_set T"
  have rt: "runtime_ok ?E" unfolding T using lib by (rule runtime_declared)
  from calls visit_funcs_some [OF rt, of "funcs M" "(?m, gvs M)"] obtain Fs n g where
    v: "visit_funcs ?E (funcs M) (?m, gvs M) = Some (Fs, n, g)"
    by (auto simp: all_insts_def)
  let ?N = "M\<lparr>funcs := Fs, nextref := n, gvs := g\<rparr>"
  from visit_funcs_woven [OF v order.refl] wf_module_blocks [OF wf]
  have w: "map (erase ?m) Fs = funcs M" "map fname Fs = map fname (funcs M)" "?m \<le> n" by blast+
  have "map (erase ?m) Fs = map (erase ?m) (map (erase ?m) Fs)" by (simp add: erase_def comp_def)
  with w have "kept ?m M ?N" by (simp add: kept_def)
  then have "ready ?m ?models ?N" by (rule kept_ready [OF _ ready])
  moreover have "total ?m ?models (\<lambda>N. do {
       M \<leftarrow> instrumentInit ?E f N;
       M \<leftarrow> instrumentAPIBegin ?E M;
       M \<leftarrow> instrumentAPIEnd ?E M;
       M \<leftarrow> instrumentLockModeling ?E (lock_modeling_set T) M;
       instrumentUnlockModeling ?E (unlock_modeling_set T) M
     })"
    unfolding instrumentLockModeling_def instrumentUnlockModeling_def
    by (intro total_then total_instrumentInit total_instrumentAPIBegin total_instrumentAPIEnd
        total_model_functions rt rt_entry_types) simp_all
  ultimately show ?thesis using v by (auto simp: total_def runOnModule_def Let_def)
qed

section \<open>A pass that does not return\<close>

text \<open>An exchange of a value that LLVM does not cast fails the assertion, wherever it stands.\<close>

lemma visit_swap_none:
  assumes "iop I = CmpXchgI p c n" "type_of n \<noteq> Int64Type" "\<not> castIsValid E (type_of n) Int64Type"
  shows "visit E I s = None"
proof -
  have "castTo (castIsValid E) n Int64Type I s = None" for s using assms by (simp add: castTo_def)
  with assms(1) show ?thesis by (auto simp: visitAtomicCmpXchgInst_def split: Option.bind_splits prod.splits)
qed

lemma visit_all_visits: "visit_all E b s = Some s' \<Longrightarrow> I \<in> set b \<Longrightarrow> \<exists>s1. visit E I s1 \<noteq> None"
  by (induction b arbitrary: s) (auto simp: bind_eq_Some_conv simp del: visit.simps)

lemma visit_blocks_visits:
  "visit_blocks E bs c = Some r \<Longrightarrow> b \<in> set bs \<Longrightarrow> I \<in> set b \<Longrightarrow> \<exists>s1. visit E I s1 \<noteq> None"
  using visit_all_visits
  by (induction bs arbitrary: c r)
    (fastforce simp: bind_eq_Some_conv visit_block_def simp del: visit.simps split: prod.splits)+

lemma visit_funcs_visits:
  "visit_funcs E Fs c = Some r \<Longrightarrow> F \<in> set Fs \<Longrightarrow> I \<in> set (func_insts F) \<Longrightarrow> \<exists>s1. visit E I s1 \<noteq> None"
proof (induction Fs arbitrary: c r)
  case (Cons G Fs)
  then obtain bs d r' where 1: "visit_blocks E (fblocks G) c = Some (bs, d)" and 2: "visit_funcs E Fs d = Some r'"
    by (auto simp: bind_eq_Some_conv)
  show ?case
  proof (cases "F = G")
    case True
    with Cons.prems(3) visit_blocks_visits [OF 1] show ?thesis by (auto simp: func_insts_def simp del: visit.simps)
  next
    case False
    with Cons.IH [OF 2] Cons.prems show ?thesis by simp
  qed
qed simp

lemma runOnModule_swap_none:
  assumes "I \<in> set (all_insts M)" "iop I = CmpXchgI p c n" "type_of n \<noteq> Int64Type"
    "\<not> lib_castIsValid lib (type_of n) Int64Type"
  shows "runOnModule lib f T q M = None"
proof (rule ccontr)
  let ?E = "tp_env_of lib T q M"
  assume "runOnModule lib f T q M \<noteq> None"
  then obtain M' where "runOnModule lib f T q M = Some M'" by blast
  then obtain r where "visit_funcs ?E (funcs M) (nextref M, gvs M) = Some r"
    by (auto simp: runOnModule_def Let_def bind_eq_Some_conv)
  moreover from assms(1) obtain F where "F \<in> set (funcs M)" "I \<in> set (func_insts F)" by (auto simp: all_insts_def)
  ultimately obtain s where "visit ?E I s \<noteq> None" using visit_funcs_visits by blast
  moreover have "\<not> castIsValid ?E (type_of n) Int64Type" using assms(4) by (simp add: tp_env_of_def)
  ultimately show False using visit_swap_none [of I p c n ?E s] assms(2,3) by (simp del: visit.simps)
qed

end
