(* ===== verification/Pass_Properties.thy ===== *)
theory Pass_Properties
  imports Tracer_Pass_Total
begin

text \<open>
  The properties of the passes, each with an instance on a small program: a \<open>main\<close> that stores,
  loads, flushes and returns, and the two API marks.
\<close>

definition demo_main :: func where
  "demo_main = \<lparr>fname = ''main'', fret = Int32Type, fargs = [],
     fblocks = [[\<lparr>iref = 0, iop = StoreI (CInt 64 5) (ArgRef 0 (PtrTy Int64Type)), ity = VoidTy, iloc = Some (''a.c'', 3)\<rparr>,
                 \<lparr>iref = 1, iop = LoadI (ArgRef 0 (PtrTy Int64Type)), ity = Int64Type, iloc = Some (''a.c'', 4)\<rparr>,
                 \<lparr>iref = 2, iop = CallI (FunRef ''pmem_flush'' (OtherTy 1)) [ArgRef 0 VoidPtrType, CInt 64 8], ity = VoidTy, iloc = Some (''a.c'', 5)\<rparr>,
                 \<lparr>iref = 3, iop = ReturnI None, ity = VoidTy, iloc = None\<rparr>]]\<rparr>"

definition demo_mark :: "string \<Rightarrow> nat \<Rightarrow> func" where
  "demo_mark name r = \<lparr>fname = name, fret = VoidTy, fargs = [],
     fblocks = [[\<lparr>iref = r, iop = ReturnI None, ity = VoidTy, iloc = None\<rparr>]]\<rparr>"

definition demo_module :: modl where
  "demo_module = \<lparr>funcs = [demo_main, demo_mark ''api_begin'' 4, demo_mark ''api_end'' 5],
     gvs = [], nextref = 6, dgls = None\<rparr>"

definition demo_lib :: tp_lib where
  "demo_lib = \<lparr>lib_store_size = (\<lambda>_. 8), lib_demangle = (\<lambda>_. None), lib_print = (\<lambda>_. ''i''),
     lib_castIsValid = (\<lambda>S T. case (S, T) of (PtrTy _, PtrTy _) \<Rightarrow> True | (IntTy v, IntTy w) \<Rightarrow> v \<le> w | _ \<Rightarrow> False),
     lib_callIsValid = (\<lambda>F Ts. case F of PtrTy (FunTy R Us) \<Rightarrow> Us = Ts | _ \<Rightarrow> False),
     lib_mulIsValid = (\<lambda>S T. case S of IntTy w \<Rightarrow> T = S | _ \<Rightarrow> False)\<rparr>"

lemma demo_llvm: "llvm_accepts demo_lib"
  by (simp add: llvm_accepts_def demo_lib_def)

definition demo_query :: query where
  "demo_query = (case numbered_query demo_module of Some q \<Rightarrow> q | None \<Rightarrow> empty_query)"

definition demo_pass :: "tp \<times> modl" where
  "demo_pass = doInitialization (\<lambda>xs. xs) [] [] demo_module"

definition demo_tp_env :: tp_env where
  "demo_tp_env = tp_env_of demo_lib (fst demo_pass) demo_query demo_module"

lemma demo_insts: "all_insts demo_module =
  hd (fblocks demo_main) @ concat (fblocks (demo_mark ''api_begin'' 4)) @ concat (fblocks (demo_mark ''api_end'' 5))"
  by (simp add: all_insts_def func_insts_def demo_module_def demo_main_def demo_mark_def)

lemma demo_monitored: "monitored_insts demo_module = take 3 (hd (fblocks demo_main))"
  by (simp add: monitored_insts_def demo_insts demo_main_def demo_mark_def)

lemma demo_wf: "wf_module demo_module"
  by (simp add: wf_module_def demo_insts) (simp add: demo_module_def demo_main_def demo_mark_def)

lemma demo_numberable: "numberable demo_module"
proof -
  have "length (monitored_insts demo_module) = 3" by (simp add: demo_monitored demo_main_def)
  moreover have "dgls demo_module = None" by (simp add: demo_module_def)
  ultimately show ?thesis using demo_wf by (simp add: numberable_def)
qed

lemma demo_query_eq: "numbered_query demo_module = Some demo_query"
  using numbered_query_eq [OF demo_numberable] by (simp add: demo_query_def)

definition demo_run_env :: tp_env where
  "demo_run_env = tp_env_of demo_lib (fst demo_pass) demo_query (snd demo_pass)"

lemma demo_demangle: "func_name demo_tp_env f = f" "func_name demo_run_env f = f"
  by (simp_all add: func_name_def demo_tp_env_def demo_run_env_def tp_env_of_def demo_lib_def)

lemma demo_lengths: "I \<in> set (hd (fblocks demo_main)) \<Longrightarrow> lengths_64 demo_tp_env I"
  by (auto simp: demo_main_def lengths_64_def demo_demangle length_operand_def opd_def Int64Type_def)

lemma demo_instrumentable: "I \<in> set (hd (fblocks demo_main)) \<Longrightarrow> instrumentable demo_tp_env I"
  using demo_lengths [of I]
  by (auto simp: demo_main_def instrumentable_def complete_call_def operands_ok_def demo_demangle c_arity_values
      pointer_operands_names ptr_at_def opd_def VoidPtrType_def)

lemma demo_runtime: "runtime_ok demo_tp_env"
  unfolding demo_tp_env_def demo_pass_def by (rule runtime_declared [OF demo_llvm])

lemma demo_block: "\<exists>b' n' g'. visit_block demo_tp_env (hd (fblocks demo_main)) (6, []) = Some (b', n', g')"
  using visit_all_some [OF demo_runtime, of "hd (fblocks demo_main)"] demo_instrumentable
  by (fastforce simp: visit_block_def)

lemma demo_fresh: "fresh_for 6 (hd (fblocks demo_main))"
  by (simp add: fresh_for_def demo_main_def)

definition declares :: "modl \<Rightarrow> modl \<Rightarrow> bool" where
  "declares M N \<longleftrightarrow>
     (\<exists>Ds. funcs N = funcs M @ Ds \<and> (\<forall>D\<in>set Ds. fblocks D = [])) \<and> nextref N = nextref M
     \<and> (distinct (map fname (funcs M)) \<longrightarrow> distinct (map fname (funcs N)))"

lemma declares_trans: "declares M N \<Longrightarrow> declares N L \<Longrightarrow> declares M L"
  unfolding declares_def by (elim exE conjE) auto

lemma declares_one: "declares M (snd (getOrInsertFunction f ret args M))"
  by (auto simp: declares_def getOrInsertFunction_def Let_def getFunction_def find_None_iff split: option.splits)

lemma declares_all: "declares M (snd (declare_all fs (cs, M)))"
proof (induction fs arbitrary: cs M)
  case (Cons p fs)
  obtain f args where p: "p = (f, args)" by (cases p)
  show ?case
    using declares_trans [OF declares_one Cons.IH] by (simp add: p split_beta)
qed (simp add: declares_def)

text \<open>Declaring the run time adds declarations and no instruction.\<close>

lemma demo_declared:
  "all_insts (snd demo_pass) = all_insts demo_module" "nextref (snd demo_pass) = 6"
  "distinct (map fname (funcs (snd demo_pass)))"
  "getFunction (snd demo_pass) ''main'' = Some demo_main"
  "getFunction (snd demo_pass) ''api_begin'' = Some (demo_mark ''api_begin'' 4)"
  "getFunction (snd demo_pass) ''api_end'' = Some (demo_mark ''api_end'' 5)"
proof -
  have s: "snd demo_pass = snd (declare_all rt_functions (Map.empty, demo_module))"
    by (simp add: demo_pass_def doInitialization_def split_beta Let_def)
  obtain Ds where Ds: "funcs (snd demo_pass) = funcs demo_module @ Ds" "\<forall>D\<in>set Ds. fblocks D = []"
    "nextref (snd demo_pass) = nextref demo_module"
    "distinct (map fname (funcs demo_module)) \<longrightarrow> distinct (map fname (funcs (snd demo_pass)))"
    using declares_all [of demo_module rt_functions Map.empty] unfolding s declares_def by blast
  from Ds show "all_insts (snd demo_pass) = all_insts demo_module" "nextref (snd demo_pass) = 6"
    by (simp_all add: all_insts_def func_insts_def demo_module_def)
  show "distinct (map fname (funcs (snd demo_pass)))"
    using Ds(1,4) demo_wf by (simp add: wf_module_def)
  show "getFunction (snd demo_pass) ''main'' = Some demo_main"
    "getFunction (snd demo_pass) ''api_begin'' = Some (demo_mark ''api_begin'' 4)"
    "getFunction (snd demo_pass) ''api_end'' = Some (demo_mark ''api_end'' 5)"
    by (simp_all add: getFunction_def Ds(1) demo_module_def demo_main_def demo_mark_def)
qed

lemma demo_pass_wf: "wf_module (snd demo_pass)"
  using demo_wf demo_declared(1-3) by (simp add: wf_module_def) (simp add: demo_module_def)

lemma demo_pass_ready:
  "ready (nextref (snd demo_pass)) (lock_modeling_set (fst demo_pass) @ unlock_modeling_set (fst demo_pass))
     (snd demo_pass)"
  by (simp add: ready_def demo_declared entry_ok_def api_ok_def)
    (simp add: enterable_def demo_main_def demo_mark_def demo_pass_def doInitialization_def split_beta Let_def
      getlines_def)

lemma demo_run_instrumentable:
  "\<forall>I\<in>set (all_insts (snd demo_pass)).
     instrumentable (tp_env_of demo_lib (fst demo_pass) demo_query (snd demo_pass)) I"
  unfolding demo_run_env_def [symmetric] demo_declared(1)
  by (simp add: demo_insts demo_main_def demo_mark_def instrumentable_def complete_call_def lengths_64_def operands_ok_def
      demo_demangle c_arity_values pointer_operands_names length_operand_values ptr_at_def opd_def VoidPtrType_def
      Int64Type_def)

lemma demo_pass_fst: "fst demo_pass = fst (doInitialization (\<lambda>xs. xs) [] [] demo_module)"
  by (simp add: demo_pass_def)

section \<open>Numbers\<close>

text \<open>
  C8: numbering a module without numbers and with less than \<open>2 ^ 32\<close> monitored instructions
  succeeds; the monitored instructions get the numbers from one on in program order, every other
  instruction gets zero, and a number leads back to its instruction.
\<close>

theorem numbers_identify:
  assumes "numberable M"
  shows "\<exists>q. QueryLoadStoreNumbers (LoadStoreNumberPass M) = Some q
    \<and> map (\<lambda>I. unat (getID q (iref I))) (monitored_insts M) = [1..<Suc (length (monitored_insts M))]
    \<and> (\<forall>r. (getID q r = 0) = (r \<notin> iref ` set (monitored_insts M)))
    \<and> (\<forall>i r. (getInstByID q i = Some r) = (i \<noteq> 0 \<and> getID q r = i))"
proof -
  obtain q where q: "numbered_query M = Some q" using lsnum.number_total [OF assms] by blast
  have "(getInstByID q i = Some r) = (i \<noteq> 0 \<and> getID q r = i)" for i r
  proof
    assume r: "getInstByID q i = Some r"
    then have "getID q r = i" by (rule lsnum.idof_instof [OF assms q])
    moreover from r have "r \<in> set (map iref (monitored_insts M))"
      by (auto simp: lsnum.instof_iff [OF assms q])
    ultimately show "i \<noteq> 0 \<and> getID q r = i" using lsnum.idof_zero_iff [OF assms q, of r] by auto
  next
    assume "i \<noteq> 0 \<and> getID q r = i"
    with lsnum.idof_zero_iff [OF assms q, of r] lsnum.instof_idof [OF assms q, of r]
    show "getInstByID q i = Some r" by auto
  qed
  with q lsnum.idof_image [OF assms q] lsnum.idof_zero_iff [OF assms q] show ?thesis
    by (intro exI [of _ q]) (simp add: numbered_query_def comp_def)
qed

theorem numbers_identify_witness:
  "\<exists>q. QueryLoadStoreNumbers (LoadStoreNumberPass demo_module) = Some q
     \<and> map (\<lambda>I. unat (getID q (iref I))) (monitored_insts demo_module) = [1, 2, 3] \<and> getID q 3 = 0"
  using numbers_identify [OF demo_numberable] by (auto simp: demo_monitored demo_main_def)

text \<open>
  C24: the source map has one line for each numbered instruction, in program order, with the number
  that the query returns for it: the separate count of the printing pass agrees with the numbering.
\<close>

theorem source_map_agrees:
  assumes "numberable M" "QueryLoadStoreNumbers (LoadStoreNumberPass M) = Some q"
  shows "PrintSrcMap M = map (\<lambda>I. src_map_line I (getID q (iref I))) (monitored_insts M)"
  using PrintSrcMap_eq assms by (simp add: numbered_query_def)

theorem source_map_agrees_witness:
  "\<exists>q. QueryLoadStoreNumbers (LoadStoreNumberPass demo_module) = Some q
     \<and> PrintSrcMap demo_module = map (\<lambda>I. src_map_line I (getID q (iref I))) (monitored_insts demo_module)
     \<and> length (PrintSrcMap demo_module) = 3"
proof -
  have q: "QueryLoadStoreNumbers (LoadStoreNumberPass demo_module) = Some demo_query"
    using demo_query_eq by (simp add: numbered_query_def)
  from source_map_agrees [OF demo_numberable q] q show ?thesis
    by (simp add: demo_monitored demo_main_def)
qed

text \<open>
  C25: given the numbers of any monitored instructions, separated by commas, the fence map prints
  each of them with the place of its instruction.
\<close>

theorem fence_map_places:
  assumes "numberable M" "QueryLoadStoreNumbers (LoadStoreNumberPass M) = Some q"
    "set is \<subseteq> set (monitored_insts M)" "is \<noteq> []"
  shows "FenceSrcMap M q (join_with (CHR '','') (map (\<lambda>I. to_base 10 (unat (getID q (iref I)))) is)) =
    Some (map (\<lambda>I. to_base 10 (unat (getID q (iref I))) @ '','' @ locateSrcInfo I) is)"
  using FenceSrcMap_eq [of M q "is"] assms by (simp add: numbered_query_def id_text_def [abs_def])

theorem fence_map_places_witness:
  "\<exists>q. QueryLoadStoreNumbers (LoadStoreNumberPass demo_module) = Some q
     \<and> (let is = monitored_insts demo_module
        in FenceSrcMap demo_module q (join_with (CHR '','') (map (\<lambda>I. to_base 10 (unat (getID q (iref I)))) is)) =
             Some (map (\<lambda>I. to_base 10 (unat (getID q (iref I))) @ '','' @ locateSrcInfo I) is))"
proof -
  have q: "QueryLoadStoreNumbers (LoadStoreNumberPass demo_module) = Some demo_query"
    using demo_query_eq by (simp add: numbered_query_def)
  from fence_map_places [OF demo_numberable q order.refl] q show ?thesis
    by (simp add: demo_monitored demo_main_def Let_def)
qed

section \<open>Instrumentation\<close>

text \<open>
  C4: the destructive edits of the visitors implement the plan of each instruction: the block the
  pass leaves is the block it was given with, around each instruction, exactly the planned
  run-time calls in their order, preceded by the conversions they use.
\<close>

theorem blocks_are_woven:
  assumes "visit_block E b (n, g) = Some (b', n', g')" "fresh_for n b"
  shows "woven E b b'"
  using visit_block_woven(1) [OF assms, of n] assms(2) by (simp add: fresh_for_def)

theorem blocks_are_woven_witness:
  "\<exists>b' n' g'. visit_block demo_tp_env (hd (fblocks demo_main)) (6, []) = Some (b', n', g')
     \<and> woven demo_tp_env (hd (fblocks demo_main)) b'"
  using demo_block blocks_are_woven [OF _ demo_fresh, of demo_tp_env "[]"] by blast

text \<open>
  C6: the pass only adds: without the instructions it created, the module it returns has the
  functions, blocks and instructions of the module it was given, in the same order.
\<close>

theorem pass_only_adds:
  assumes "runOnModule lib f T q M = Some M'" "wf_module M"
  shows "map (erase (nextref M)) (funcs M') = funcs M"
  using assms by (rule runOnModule_erase)

theorem pass_only_adds_witness:
  "\<exists>M'. runOnModule demo_lib ''trace'' (fst demo_pass) demo_query (snd demo_pass) = Some M'
     \<and> map (erase 6) (funcs M') = funcs (snd demo_pass)"
  using runOnModule_total [OF demo_pass_wf demo_pass_fst demo_llvm demo_run_instrumentable demo_pass_ready]
    pass_only_adds [OF _ demo_pass_wf] demo_declared(2)
  by metis

text \<open>
  C22: no assertion of the pass or of LLVM fails on a well-formed module that has \<open>main\<close> and the two
  API marks, whose modelled functions have a body and a pointer as first argument, that calls the
  known library functions with the arguments of their prototypes, and that exchanges integers of at
  most 64 bits: the pass returns. Of LLVM it is assumed that it makes the casts, calls and products
  its language reference allows. The condition on exchanges is needed: the pass does not return on a
  module that exchanges a value that LLVM does not cast to 64 bits, such as a pointer.
\<close>

theorem pass_returns:
  assumes "wf_module M" "T = fst (doInitialization order file0 file1 M0)"
  shows "(llvm_accepts lib \<and> (\<forall>I\<in>set (all_insts M). instrumentable (tp_env_of lib T q M) I)
      \<and> ready (nextref M) (lock_modeling_set T @ unlock_modeling_set T) M
      \<longrightarrow> (\<exists>M'. runOnModule lib f T q M = Some M'))
    \<and> ((\<exists>I\<in>set (all_insts M). \<exists>p c n. iop I = CmpXchgI p c n \<and> type_of n \<noteq> Int64Type
          \<and> \<not> lib_castIsValid lib (type_of n) Int64Type)
      \<longrightarrow> runOnModule lib f T q M = None)"
  using runOnModule_total [OF assms] runOnModule_swap_none by blast

definition demo_swap :: modl where
  "demo_swap = \<lparr>funcs = [\<lparr>fname = ''main'', fret = Int32Type, fargs = [],
     fblocks = [[\<lparr>iref = 0, iop = CmpXchgI (ArgRef 0 (PtrTy VoidPtrType)) (ArgRef 1 VoidPtrType) (ArgRef 2 VoidPtrType),
        ity = StructTy [VoidPtrType, IntTy 1], iloc = None\<rparr>]]\<rparr>], gvs = [], nextref = 1, dgls = None\<rparr>"

text \<open>The small program is instrumented; one that exchanges pointers is not.\<close>

theorem pass_returns_witness:
  "(\<exists>M'. runOnModule demo_lib ''trace'' (fst demo_pass) demo_query (snd demo_pass) = Some M')
   \<and> runOnModule demo_lib ''trace'' (fst demo_pass) demo_query demo_swap = None"
proof
  show "\<exists>M'. runOnModule demo_lib ''trace'' (fst demo_pass) demo_query (snd demo_pass) = Some M'"
    using pass_returns [OF demo_pass_wf demo_pass_fst, of demo_lib demo_query "''trace''"]
      demo_llvm demo_run_instrumentable demo_pass_ready by blast
  have "wf_module demo_swap" by (simp add: wf_module_def all_insts_def func_insts_def demo_swap_def)
  from pass_returns [OF this demo_pass_fst, of demo_lib demo_query "''trace''"]
  show "runOnModule demo_lib ''trace'' (fst demo_pass) demo_query demo_swap = None"
    by (auto simp: all_insts_def func_insts_def demo_swap_def demo_lib_def VoidPtrType_def Int64Type_def)
qed

text \<open>
  C23: every call the pass adds to a block is well typed: the callee is a pointer to a function
  that returns nothing and takes exactly the types of the arguments, provided the program passes
  lengths as 64-bit integers to the library functions it calls.
\<close>

theorem added_calls_typed:
  assumes "visit_block (tp_env_of lib (fst (doInitialization order file0 file1 M0)) q M) b (n, g) = Some (b', n', g')"
    and "fresh_for n b"
    and "\<forall>I\<in>set b. lengths_64 (tp_env_of lib (fst (doInitialization order file0 file1 M0)) q M) I"
    and "c \<in> set b' - set b" "iop c = CallI f ws"
  shows "type_of f = PtrTy (FunTy VoidTy (map type_of ws))"
proof -
  let ?E = "tp_env_of lib (fst (doInitialization order file0 file1 M0)) q M"
  have "woven ?E b b'"
    using visit_block_woven(1) [OF assms(1,2), of n] assms(2) by (simp add: fresh_for_def)
  from woven_call [OF this, of c f ws] assms(4,5) obtain I h as pre where
    I: "I \<in> set b" "(h, as) \<in> set (fst (plan ?E I) @ snd (plan ?E I))" and f: "f = callee ?E h"
    and ws: "list_all2 (means pre) as ws"
    by auto
  from I assms(3) have "typed (h, as)" using plan_typed [of ?E I] by (auto simp: all_typed_def)
  then have "map_of rt_functions h = Some (map type_of ws)"
    by (simp add: typed_def means_types [OF ws])
  from callee_type [OF refl this] f show ?thesis by simp
qed

theorem added_calls_typed_witness:
  "\<exists>b' n' g'. visit_block demo_tp_env (hd (fblocks demo_main)) (6, []) = Some (b', n', g')
     \<and> (\<forall>c\<in>set b' - set (hd (fblocks demo_main)). \<forall>f ws. iop c = CallI f ws \<longrightarrow>
          type_of f = PtrTy (FunTy VoidTy (map type_of ws)))"
proof -
  obtain b' n' g' where v: "visit_block demo_tp_env (hd (fblocks demo_main)) (6, []) = Some (b', n', g')"
    using demo_block by blast
  have e: "demo_tp_env = tp_env_of demo_lib (fst (doInitialization (\<lambda>xs. xs) [] [] demo_module)) demo_query demo_module"
    by (simp add: demo_tp_env_def demo_pass_def)
  from added_calls_typed [OF v [unfolded e] demo_fresh] demo_lengths [unfolded e] v
  show ?thesis by blast
qed

text \<open>
  C7: every call that the pass adds to a block of a numbered module is added by the visit of one
  instruction of the block, and unless it is one of the brackets \<open>locking\<close> and \<open>unlocking\<close>, it carries
  a number that is not zero and that leads back to this very instruction.
\<close>

theorem added_calls_numbered:
  assumes "numberable M" "QueryLoadStoreNumbers (LoadStoreNumberPass M) = Some q" "numbers E = q"
    and "visit_block E b (n, g) = Some (b', n', g')" "fresh_for n b" "set b \<subseteq> set (all_insts M)"
    and "c \<in> set b' - set b" "iop c = CallI f ws"
  shows "\<exists>D I R s1 s2. b = D @ I # R \<and> visit_all E D \<lparr>blk = b, fresh = n, strs = g\<rparr> = Some s1
    \<and> visit E I s1 = Some s2 \<and> c \<notin> set (blk s1) \<and> c \<in> set (blk s2)
    \<and> (f = callee E ''locking'' \<or> f = callee E ''unlocking'' \<or>
         (\<exists>i ws'. ws = const_id i # ws' \<and> i \<noteq> 0 \<and> getInstByID q i = Some (iref I)))"
proof -
  from block_call [OF assms(4,5,7,8)] obtain D I R s1 s2 h as pre where
    s: "b = D @ I # R" "visit_all E D \<lparr>blk = b, fresh = n, strs = g\<rparr> = Some s1" "visit E I s1 = Some s2"
    "c \<notin> set (blk s1)" "c \<in> set (blk s2)"
    and p: "(h, as) \<in> set (fst (plan E I) @ snd (plan E I))" "f = callee E h" "list_all2 (means pre) as ws"
    by (elim exE conjE)
  let ?i = "getID q (iref I)"
  have "plan E I \<noteq> ([], [])" using p(1) by force
  moreover have "I \<in> set (all_insts M)" using s(1) assms(6) by auto
  ultimately have "I \<in> set (monitored_insts M)" using plan_monitored [of E I] by (auto simp: monitored_insts_def)
  moreover have q: "numbered_query M = Some q" using assms(2) by (simp add: numbered_query_def)
  ultimately have i: "?i \<noteq> 0" "getInstByID q ?i = Some (iref I)"
    using lsnum.idof_zero_iff [OF assms(1) q, of "iref I"] lsnum.instof_idof [OF assms(1) q, of "iref I"]
    by simp_all
  have "numbered E I (h, as)" using plan_numbered [of E I] p(1) by (auto simp: all_numbered_def)
  then consider "h = ''locking''" | "h = ''unlocking''" | as' where "as = Lit (inst_id E I) # as'"
    by (auto simp: numbered_def lk_def ul_def)
  then have "f = callee E ''locking'' \<or> f = callee E ''unlocking'' \<or>
      (\<exists>i ws'. ws = const_id i # ws' \<and> i \<noteq> 0 \<and> getInstByID q i = Some (iref I))"
  proof cases
    case 3
    with p(3) obtain ws' where "ws = inst_id E I # ws'" by (auto simp: list_all2_Cons1)
    then have "ws = const_id ?i # ws'" by (simp add: inst_id_def assms(3))
    with i show ?thesis by blast
  qed (simp_all add: p(2))
  with s show ?thesis by blast
qed

theorem added_calls_numbered_witness:
  "\<exists>b' n' g'. visit_block demo_tp_env (hd (fblocks demo_main)) (6, []) = Some (b', n', g')
     \<and> (\<forall>c\<in>set b' - set (hd (fblocks demo_main)). \<forall>f ws. iop c = CallI f ws \<longrightarrow>
          (\<exists>D I R s1 s2. hd (fblocks demo_main) = D @ I # R
             \<and> visit_all demo_tp_env D \<lparr>blk = hd (fblocks demo_main), fresh = 6, strs = []\<rparr> = Some s1
             \<and> visit demo_tp_env I s1 = Some s2 \<and> c \<notin> set (blk s1) \<and> c \<in> set (blk s2)
             \<and> (f = callee demo_tp_env ''locking'' \<or> f = callee demo_tp_env ''unlocking'' \<or>
                  (\<exists>i ws'. ws = const_id i # ws' \<and> i \<noteq> 0 \<and> getInstByID demo_query i = Some (iref I)))))"
proof -
  obtain b' n' g' where v: "visit_block demo_tp_env (hd (fblocks demo_main)) (6, []) = Some (b', n', g')"
    using demo_block by blast
  have q: "QueryLoadStoreNumbers (LoadStoreNumberPass demo_module) = Some demo_query"
    using demo_query_eq by (simp add: numbered_query_def)
  have "numbers demo_tp_env = demo_query" by (simp add: demo_tp_env_def tp_env_of_def)
  moreover have "set (hd (fblocks demo_main)) \<subseteq> set (all_insts demo_module)" by (auto simp: demo_insts)
  ultimately show ?thesis
    using added_calls_numbered [OF demo_numberable q _ v demo_fresh] v by blast
qed

end
