(* ===== verification/Lps.thy ===== *)
theory Lps
  imports Numbering "HOL-Library.Monad_Syntax"
begin

text \<open>
  The pass of \<open>tracer/print_lps_from_brs.cpp\<close>: from the conditional branches named in a file it
  looks for the loads and compare-and-swaps that the conditions depend on. The search terminates
  and finds exactly the dependencies. Values are compared as the pass compares addresses; the
  arguments of different functions are not told apart, which does not matter since an argument
  leads nowhere.
\<close>

section \<open>The search\<close>

text \<open>\<open>None\<close> is a null pointer where the pass needs a value.\<close>

definition parent_block :: "modl \<Rightarrow> nat \<Rightarrow> block" where
  "parent_block M r =
     (case find (\<lambda>b. \<exists>i\<in>set b. iref i = r) (concat (map fblocks (funcs M))) of None \<Rightarrow> [] | Some b \<Rightarrow> b)"

definition stored_values :: "val \<Rightarrow> block \<Rightarrow> val list" where
  "stored_values p bb =
     concat (map (\<lambda>i. case iop i of StoreI v p' \<Rightarrow> if p' = p then [v] else [] | _ \<Rightarrow> []) bb)"

definition returned_value :: "block \<Rightarrow> val list option" where
  "returned_value bb =
     (if bb = [] then None
      else case iop (last bb) of
             ReturnI None \<Rightarrow> None
           | ReturnI (Some v) \<Rightarrow> Some [v]
           | _ \<Rightarrow> Some [])"

fun returned_values :: "block list \<Rightarrow> val list option" where
  "returned_values [] = Some []"
| "returned_values (bb # bbs) =
     do { v \<leftarrow> returned_value bb; vs \<leftarrow> returned_values bbs; Some (v @ vs) }"

definition called_values :: "modl \<Rightarrow> val \<Rightarrow> val list option" where
  "called_values M f =
     (case f of
        FunRef name t \<Rightarrow>
          (case getFunction M name of None \<Rightarrow> Some [] | Some F \<Rightarrow> returned_values (fblocks F))
      | _ \<Rightarrow> Some [])"

text \<open>The values looked at after \<open>V\<close>.\<close>

definition lp_next :: "modl \<Rightarrow> val \<Rightarrow> val list option" where
  "lp_next M V =
     (case V of
        InstRef r t \<Rightarrow>
          (case inst_by_ref M r of
             None \<Rightarrow> Some []
           | Some I \<Rightarrow>
               (case iop I of
                  LoadI p \<Rightarrow> Some (stored_values p (parent_block M r))
                | CmpXchgI p c n \<Rightarrow> Some []
                | CallI f as \<Rightarrow> map_option (\<lambda>vs. as @ vs) (called_values M f)
                | _ \<Rightarrow> Some (operands (iop I))))
      | _ \<Rightarrow> Some [])"

fun lp_of :: "modl \<Rightarrow> val \<Rightarrow> nat option" where
  "lp_of M (InstRef r t) =
     (case inst_by_ref M r of
        None \<Rightarrow> None
      | Some I \<Rightarrow> (case iop I of LoadI p \<Rightarrow> Some r | CmpXchgI p c n \<Rightarrow> Some r | _ \<Rightarrow> None))"
| "lp_of M _ = None"

definition insert_lp :: "modl \<Rightarrow> val \<Rightarrow> nat list \<Rightarrow> nat list" where
  "insert_lp M V LPs = (case lp_of M V of None \<Rightarrow> LPs | Some r \<Rightarrow> List.insert r LPs)"

definition push :: "val \<Rightarrow> val list \<times> val list \<Rightarrow> val list \<times> val list" where
  "push next_v = (\<lambda>(todo, visited).
     if \<not> is_constant next_v \<and> next_v \<notin> set visited then (todo @ [next_v], visited @ [next_v])
     else (todo, visited))"

text \<open>What a visit appends to the queue and to the visited values.\<close>

fun pushed :: "val list \<Rightarrow> val list \<Rightarrow> val list" where
  "pushed visited [] = []"
| "pushed visited (v # vs) =
     (if \<not> is_constant v \<and> v \<notin> set visited then v # pushed (visited @ [v]) vs else pushed visited vs)"

lemma fold_push: "fold push vs (todo, visited) = (todo @ pushed visited vs, visited @ pushed visited vs)"
  by (induction vs arbitrary: todo visited) (simp_all add: push_def)

lemma set_pushed: "set (pushed visited vs) = {v \<in> set vs. \<not> is_constant v \<and> v \<notin> set visited}"
  by (induction vs arbitrary: visited) auto

lemma distinct_pushed: "distinct (pushed visited vs)"
  by (induction vs arbitrary: visited) (auto simp: set_pushed)

section \<open>Termination\<close>

text \<open>All values that are operands somewhere.\<close>

definition lp_values :: "modl \<Rightarrow> val set" where
  "lp_values M = (\<Union>I\<in>set (all_insts M). set (operands (iop I)))"

lemma finite_lp_values: "finite (lp_values M)"
  by (simp add: lp_values_def)

lemma stored_values_iff: "v \<in> set (stored_values p b) \<longleftrightarrow> (\<exists>i\<in>set b. iop i = StoreI v p)"
proof (induction b)
  case (Cons i b)
  then show ?case by (cases "iop i") (auto simp: stored_values_def)
qed (simp add: stored_values_def)

lemma stored_values_operands: "v \<in> set (stored_values p b) \<Longrightarrow> \<exists>i\<in>set b. v \<in> set (operands (iop i))"
  unfolding stored_values_iff by (elim bexE, rule bexI) simp_all

lemma returned_value_operands:
  "returned_value b = Some vs \<Longrightarrow> v \<in> set vs \<Longrightarrow> \<exists>i\<in>set b. v \<in> set (operands (iop i))"
  by (rule bexI [of _ "last b"]) (auto simp: returned_value_def split: if_splits iop.splits option.splits)

lemma returned_values_operands:
  "returned_values bs = Some vs \<Longrightarrow> v \<in> set vs \<Longrightarrow> \<exists>b\<in>set bs. \<exists>i\<in>set b. v \<in> set (operands (iop i))"
proof (induction bs arbitrary: vs)
  case (Cons b bs)
  then show ?case
    using returned_value_operands [of b] by (fastforce simp: bind_eq_Some_conv)
qed simp

lemma block_insts: "F \<in> set (funcs M) \<Longrightarrow> b \<in> set (fblocks F) \<Longrightarrow> i \<in> set b \<Longrightarrow> i \<in> set (all_insts M)"
  by (auto simp: all_insts_def func_insts_def)

lemma find_in_set: "find P xs = Some x \<Longrightarrow> x \<in> set xs \<and> P x"
  by (auto simp: find_Some_iff)

lemma parent_block_insts:
  assumes "i \<in> set (parent_block M r)"
  shows "i \<in> set (all_insts M)"
proof (cases "find (\<lambda>b. \<exists>i\<in>set b. iref i = r) (concat (map fblocks (funcs M)))")
  case (Some b)
  with assms find_in_set [OF Some] block_insts show ?thesis by (auto simp: parent_block_def)
qed (use assms in \<open>simp add: parent_block_def\<close>)

lemma called_values_operands:
  assumes "called_values M f = Some vs"
  shows "set vs \<subseteq> lp_values M"
proof (cases "\<exists>name t F. f = FunRef name t \<and> getFunction M name = Some F")
  case True
  then obtain name t F where f: "f = FunRef name t" and F: "getFunction M name = Some F" by blast
  have "F \<in> set (funcs M)" using find_in_set [OF F [unfolded getFunction_def]] by simp
  moreover from assms f F have "returned_values (fblocks F) = Some vs" by (simp add: called_values_def)
  ultimately show ?thesis
    using returned_values_operands block_insts by (fastforce simp: lp_values_def)
qed (use assms in \<open>auto simp: called_values_def split: val.splits option.splits\<close>)

lemma inst_by_ref_in: "inst_by_ref M r = Some I \<Longrightarrow> I \<in> set (all_insts M) \<and> iref I = r"
  unfolding inst_by_ref_def by (rule find_in_set)

lemma lp_next_operands:
  assumes "lp_next M V = Some vs"
  shows "set vs \<subseteq> lp_values M"
proof (cases "\<exists>r t I. V = InstRef r t \<and> inst_by_ref M r = Some I")
  case True
  then obtain r t I where V: "V = InstRef r t" and I: "inst_by_ref M r = Some I" by blast
  have ops: "set (operands (iop I)) \<subseteq> lp_values M"
    using inst_by_ref_in [OF I] by (auto simp: lp_values_def)
  have "set (stored_values p (parent_block M r)) \<subseteq> lp_values M" for p
    using stored_values_operands parent_block_insts by (fastforce simp: lp_values_def)
  with assms ops called_values_operands [of M] show ?thesis
    by (fastforce simp: lp_next_def V I split: iop.splits)
qed (use assms in \<open>auto simp: lp_next_def split: val.splits option.splits\<close>)

function bfs :: "modl \<Rightarrow> val list \<Rightarrow> val list \<Rightarrow> nat list \<Rightarrow> nat list option" where
  "bfs M [] visited LPs = Some LPs"
| "bfs M (V # todo) visited LPs =
     (case lp_next M V of
        None \<Rightarrow> None
      | Some vs \<Rightarrow>
          (let (todo', visited') = fold push vs (todo, visited)
           in bfs M todo' visited' (insert_lp M V LPs)))"
  by pat_completeness auto

lemma push_measure:
  assumes "lp_next M V = Some vs"
  shows "card (lp_values M - set (visited @ pushed visited vs)) + length (todo @ pushed visited vs)
    < Suc (card (lp_values M - set visited) + length todo)"
proof -
  let ?new = "pushed visited vs"
  have new: "set ?new \<subseteq> lp_values M - set visited"
    using lp_next_operands [OF assms] by (auto simp: set_pushed)
  have "lp_values M - set (visited @ ?new) = (lp_values M - set visited) - set ?new" by auto
  then have "card (lp_values M - set (visited @ ?new)) + length ?new = card (lp_values M - set visited)"
    using new card_Diff_subset [of "set ?new"] card_mono [OF _ new] finite_lp_values [of M]
    by (simp add: distinct_card [OF distinct_pushed])
  then show ?thesis by simp
qed

termination bfs
  by (relation "measure (\<lambda>(M, todo, visited, LPs). card (lp_values M - set visited) + length todo)")
    (simp_all add: fold_push push_measure del: length_append set_append)

lemma bfs_Cons:
  "bfs M (V # todo) visited LPs =
     (case lp_next M V of
        None \<Rightarrow> None
      | Some vs \<Rightarrow> bfs M (todo @ pushed visited vs) (visited @ pushed visited vs) (insert_lp M V LPs))"
  by (simp add: fold_push split: option.splits)

section \<open>The pass\<close>

definition get_lps_from_br :: "modl \<Rightarrow> val \<Rightarrow> nat list \<Rightarrow> nat list option" where
  "get_lps_from_br M cond LPs = bfs M [cond] [cond] LPs"

text \<open>
  \<open>init\<close>: each line names an instruction by its number, which must be a conditional branch. The
  set of branches is kept without repetition.
\<close>

definition read_branch :: "modl \<Rightarrow> query \<Rightarrow> string \<Rightarrow> inst option" where
  "read_branch M q id_str =
     do {
       iid \<leftarrow> stol id_str;
       r \<leftarrow> getInstByID q (word_of_int iid);
       I \<leftarrow> inst_by_ref M r;
       (case iop I of BranchI (Some c) \<Rightarrow> Some I | _ \<Rightarrow> None)
     }"

fun read_branches :: "modl \<Rightarrow> query \<Rightarrow> string list \<Rightarrow> inst list \<Rightarrow> inst list option" where
  "read_branches M q [] BIs = Some BIs"
| "read_branches M q (id_str # ids) BIs =
     do { BI \<leftarrow> read_branch M q id_str; read_branches M q ids (List.insert BI BIs) }"

fun condition :: "inst \<Rightarrow> val option" where
  "condition I = (case iop I of BranchI c \<Rightarrow> c | _ \<Rightarrow> None)"

fun lps_from_brs :: "modl \<Rightarrow> inst list \<Rightarrow> nat list \<Rightarrow> nat list option" where
  "lps_from_brs M [] LPs = Some LPs"
| "lps_from_brs M (BI # BIs) LPs =
     do { c \<leftarrow> condition BI; LPs \<leftarrow> get_lps_from_br M c LPs; lps_from_brs M BIs LPs }"

text \<open>
  \<open>order\<close> and \<open>order'\<close> are the orders in which the two unordered sets are iterated; \<open>brs\<close> is the
  text of the input file, and the result is the list of lines of the output file.
\<close>

definition PrintLpsFromBrs ::
  "(inst list \<Rightarrow> inst list) \<Rightarrow> (nat list \<Rightarrow> nat list) \<Rightarrow> modl \<Rightarrow> query \<Rightarrow> string \<Rightarrow> string list option"
where
  "PrintLpsFromBrs order order' M q brs =
     do {
       BIs \<leftarrow> read_branches M q (getlines newline brs) [];
       LPs \<leftarrow> lps_from_brs M (order BIs) [];
       Some (map (\<lambda>lp. to_base 10 (unat (getID q lp))) (order' LPs))
     }"

section \<open>Correctness\<close>

text \<open>\<open>W\<close> is a value that \<open>V\<close> is computed from in one step of the search.\<close>

inductive feeds :: "modl \<Rightarrow> val \<Rightarrow> val \<Rightarrow> bool" for M where
  feeds: "lp_next M V = Some vs \<Longrightarrow> W \<in> set vs \<Longrightarrow> \<not> is_constant W \<Longrightarrow> feeds M V W"

inductive_cases feedsE: "feeds M V W"

abbreviation depends :: "modl \<Rightarrow> val \<Rightarrow> val \<Rightarrow> bool" where
  "depends M \<equiv> (feeds M)\<^sup>*\<^sup>*"

definition defined_from :: "modl \<Rightarrow> val \<Rightarrow> bool" where
  "defined_from M c \<longleftrightarrow> (\<forall>V. depends M c V \<longrightarrow> lp_next M V \<noteq> None)"

definition lp_refs :: "modl \<Rightarrow> val set \<Rightarrow> nat set" where
  "lp_refs M S = {r. \<exists>V\<in>S. lp_of M V = Some r}"

lemma set_insert_lp: "set (insert_lp M V LPs) = lp_refs M {V} \<union> set LPs"
  by (auto simp: insert_lp_def lp_refs_def split: option.splits)

text \<open>
  Of the visited values, those before the queue are finished: their successors were visited and
  their program points were recorded.
\<close>

definition explored :: "modl \<Rightarrow> val \<Rightarrow> val list \<Rightarrow> val list \<Rightarrow> bool" where
  "explored M c D todo \<longleftrightarrow>
     c \<in> set (D @ todo) \<and> (\<forall>V\<in>set (D @ todo). depends M c V)
     \<and> (\<forall>V\<in>set D. lp_next M V \<noteq> None \<and> (\<forall>W. feeds M V W \<longrightarrow> W \<in> set (D @ todo)))"

lemma explored_start: "explored M c [] [c]"
  by (simp add: explored_def)

lemma explored_end:
  assumes "explored M c D []"
  shows "set D = {V. depends M c V}" "defined_from M c"
proof -
  have "V \<in> set D" if "depends M c V" for V
    using that
  proof (induction rule: rtranclp_induct)
    case base
    with assms show ?case by (simp add: explored_def)
  next
    case (step V W)
    with assms show ?case by (auto simp: explored_def)
  qed
  then have sub: "{V. depends M c V} \<subseteq> set D" by blast
  with assms show "set D = {V. depends M c V}" unfolding explored_def by (intro equalityI) auto
  show "defined_from M c" unfolding defined_from_def
  proof (intro allI impI)
    fix V
    assume "depends M c V"
    with sub have "V \<in> set D" by blast
    with assms show "lp_next M V \<noteq> None" unfolding explored_def by blast
  qed
qed

lemma explored_step:
  assumes "explored M c D (V # todo)" "lp_next M V = Some vs"
  shows "explored M c (D @ [V]) (todo @ pushed (D @ V # todo) vs)"
proof -
  have V: "depends M c V" using assms(1) by (simp add: explored_def)
  have "depends M c W" if "W \<in> set (pushed (D @ V # todo) vs)" for W
    using that assms(2) by (intro rtranclp.rtrancl_into_rtrancl [OF V] feeds.feeds) (auto simp: set_pushed)
  moreover have "W \<in> set (D @ V # todo) \<union> set (pushed (D @ V # todo) vs)" if "feeds M V W" for W
    using that assms(2) by (auto simp: set_pushed elim!: feedsE)
  ultimately show ?thesis using assms by (auto simp: explored_def)
qed

lemma bfs_correct:
  assumes "explored M c D todo" "lp_refs M (set D) \<subseteq> set LPs"
  shows "case bfs M todo (D @ todo) LPs of
      None \<Rightarrow> \<not> defined_from M c
    | Some LPs' \<Rightarrow> defined_from M c \<and> set LPs' = set LPs \<union> lp_refs M {V. depends M c V}"
  using assms
proof (induction M todo "D @ todo" LPs arbitrary: D rule: bfs.induct)
  case (1 M LPs)
  from explored_end [OF 1(1)] 1(2) show ?case by auto
next
  case (2 M V todo LPs D)
  have V: "depends M c V" using 2(2) by (simp add: explored_def)
  show ?case
  proof (cases "lp_next M V")
    case None
    with V have "\<not> defined_from M c" by (auto simp: defined_from_def)
    with None show ?thesis by simp
  next
    case (Some vs)
    let ?new = "pushed (D @ V # todo) vs"
    have "lp_refs M (set (D @ [V])) \<subseteq> set (insert_lp M V LPs)"
      using 2(3) by (auto simp: set_insert_lp lp_refs_def)
    from 2(1) [OF Some refl _ explored_step [OF 2(2) Some], unfolded fold_push, OF _ this]
    have "case bfs M (todo @ ?new) (D @ V # todo @ ?new) (insert_lp M V LPs) of
        None \<Rightarrow> \<not> defined_from M c
      | Some LPs' \<Rightarrow> defined_from M c \<and> set LPs' = set (insert_lp M V LPs) \<union> lp_refs M {V. depends M c V}"
      by (simp add: fold_push)
    moreover have "lp_refs M {V} \<subseteq> lp_refs M {V. depends M c V}" using V by (auto simp: lp_refs_def)
    ultimately show ?thesis
      by (auto simp: bfs_Cons Some set_insert_lp simp del: bfs.simps split: option.splits)
  qed
qed

lemma get_lps_from_br_correct:
  "case get_lps_from_br M c LPs of
     None \<Rightarrow> \<not> defined_from M c
   | Some LPs' \<Rightarrow> defined_from M c \<and> set LPs' = set LPs \<union> lp_refs M {V. depends M c V}"
  using bfs_correct [OF explored_start, of M LPs c] by (simp add: get_lps_from_br_def lp_refs_def)

lemma lps_from_brs_correct:
  assumes "\<forall>BI\<in>set BIs. \<exists>c. condition BI = Some c \<and> defined_from M c"
  shows "\<exists>LPs'. lps_from_brs M BIs LPs = Some LPs'
    \<and> set LPs' = set LPs \<union> (\<Union>BI\<in>set BIs. lp_refs M {V. depends M (the (condition BI)) V})"
  using assms
proof (induction BIs arbitrary: LPs)
  case (Cons BI BIs)
  then obtain c where c: "condition BI = Some c" "defined_from M c" by auto
  with get_lps_from_br_correct [of M c LPs] obtain L where
    L: "get_lps_from_br M c LPs = Some L" "set L = set LPs \<union> lp_refs M {V. depends M c V}"
    by (auto split: option.splits)
  from Cons.IH [of L] Cons.prems obtain L' where "lps_from_brs M BIs L = Some L'"
    "set L' = set L \<union> (\<Union>BI\<in>set BIs. lp_refs M {V. depends M (the (condition BI)) V})"
    by auto
  with c L show ?case by (simp del: condition.simps add: Un_assoc)
qed simp

section \<open>Dependencies\<close>

text \<open>
  What the value of an instruction is computed from: for a load, the values that stores of its block
  put at the same pointer; for a call, the arguments and the values that the called function returns;
  for any other instruction but a compare-and-swap, its operands. Constants are left out.
\<close>

inductive data_dep :: "modl \<Rightarrow> val \<Rightarrow> val \<Rightarrow> bool" for M where
  dep_load: "F \<in> set (funcs M) \<Longrightarrow> b \<in> set (fblocks F) \<Longrightarrow> I \<in> set b \<Longrightarrow> iop I = LoadI p \<Longrightarrow>
    S \<in> set b \<Longrightarrow> iop S = StoreI v p \<Longrightarrow> \<not> is_constant v \<Longrightarrow> data_dep M (InstRef (iref I) t) v"
| dep_argument: "I \<in> set (all_insts M) \<Longrightarrow> iop I = CallI f as \<Longrightarrow> v \<in> set as \<Longrightarrow>
    \<not> is_constant v \<Longrightarrow> data_dep M (InstRef (iref I) t) v"
| dep_result: "I \<in> set (all_insts M) \<Longrightarrow> iop I = CallI (FunRef name ft) as \<Longrightarrow> F \<in> set (funcs M) \<Longrightarrow>
    fname F = name \<Longrightarrow> b \<in> set (fblocks F) \<Longrightarrow> b \<noteq> [] \<Longrightarrow> iop (last b) = ReturnI (Some v) \<Longrightarrow>
    \<not> is_constant v \<Longrightarrow> data_dep M (InstRef (iref I) t) v"
| dep_operand: "I \<in> set (all_insts M) \<Longrightarrow> (\<And>p. iop I \<noteq> LoadI p) \<Longrightarrow> (\<And>p c n. iop I \<noteq> CmpXchgI p c n) \<Longrightarrow>
    (\<And>f as. iop I \<noteq> CallI f as) \<Longrightarrow> v \<in> set (operands (iop I)) \<Longrightarrow> \<not> is_constant v \<Longrightarrow>
    data_dep M (InstRef (iref I) t) v"

text \<open>A call of a function one of whose blocks ends in a return without a value, or has no end.\<close>

inductive no_result :: "modl \<Rightarrow> val \<Rightarrow> bool" for M where
  no_result: "I \<in> set (all_insts M) \<Longrightarrow> iop I = CallI (FunRef name ft) as \<Longrightarrow> F \<in> set (funcs M) \<Longrightarrow>
    fname F = name \<Longrightarrow> b \<in> set (fblocks F) \<Longrightarrow> b = [] \<or> iop (last b) = ReturnI None \<Longrightarrow>
    no_result M (InstRef (iref I) t)"


text \<open>The loads and compare-and-swaps that a condition depends on.\<close>

definition sources :: "modl \<Rightarrow> val \<Rightarrow> nat set" where
  "sources M c = {iref I | I t. I \<in> set (all_insts M) \<and> (data_dep M)\<^sup>*\<^sup>* c (InstRef (iref I) t)
     \<and> ((\<exists>p. iop I = LoadI p) \<or> (\<exists>p e n. iop I = CmpXchgI p e n))}"

definition computed :: "modl \<Rightarrow> val \<Rightarrow> bool" where
  "computed M c \<longleftrightarrow> (\<forall>V. (data_dep M)\<^sup>*\<^sup>* c V \<longrightarrow> \<not> no_result M V)"

subsection \<open>The search follows the dependencies\<close>

lemma wf_inst_by_ref: "wf_module M \<Longrightarrow> inst_by_ref M r = Some I \<longleftrightarrow> I \<in> set (all_insts M) \<and> iref I = r"
  using inst_by_ref_eq [of M I] inst_by_ref_in [of M r I] by auto

lemma wf_getFunction:
  assumes "wf_module M"
  shows "getFunction M name = Some F \<longleftrightarrow> F \<in> set (funcs M) \<and> fname F = name"
proof
  assume "getFunction M name = Some F"
  then show "F \<in> set (funcs M) \<and> fname F = name" unfolding getFunction_def by (rule find_in_set)
next
  assume F: "F \<in> set (funcs M) \<and> fname F = name"
  then obtain G where G: "getFunction M name = Some G"
    by (cases "getFunction M name") (auto simp: getFunction_def find_None_iff)
  then have "G \<in> set (funcs M) \<and> fname G = name" unfolding getFunction_def by (rule find_in_set)
  with F assms have "G = F" by (auto simp: wf_module_def distinct_map dest: inj_onD)
  with G show "getFunction M name = Some F" by simp
qed

lemma find_at: "find P xs = None \<Longrightarrow> P y \<Longrightarrow> find P (xs @ y # ys) = Some y"
  by (induction xs) (auto split: if_splits)

lemma wf_parent_block:
  assumes "wf_module M" "F \<in> set (funcs M)" "b \<in> set (fblocks F)" "I \<in> set b"
  shows "parent_block M (iref I) = b"
proof -
  let ?bs = "concat (map fblocks (funcs M))"
  have "concat (map func_insts Fs) = concat (concat (map fblocks Fs))" for Fs
    by (induction Fs) (simp_all add: func_insts_def)
  then have "all_insts M = concat ?bs" by (simp add: all_insts_def)
  then have d: "distinct (map iref (concat ?bs))" using assms(1) by (simp add: wf_module_def)
  have "b \<in> set ?bs" using assms(2,3) by auto
  then obtain xs ys where bs: "?bs = xs @ b # ys" by (meson split_list)
  from d have "distinct (map iref (concat xs) @ map iref b @ map iref (concat ys))"
    by (simp only: bs concat_append concat.simps map_append)
  then have "iref ` set (concat xs) \<inter> iref ` set b = {}"
    by (simp only: distinct_append set_append set_map) blast
  then have "iref I \<notin> iref ` set (concat xs)" using assms(4) by blast
  then have "find (\<lambda>b. \<exists>i\<in>set b. iref i = iref I) xs = None"
    unfolding find_None_iff set_concat image_iff by (metis UN_I)
  from find_at [OF this, of b ys] assms(4)
  have "find (\<lambda>b. \<exists>i\<in>set b. iref i = iref I) (xs @ b # ys) = Some b" by blast
  then show ?thesis by (simp only: parent_block_def bs option.case)
qed

lemma returned_values_None: "returned_values bs = None \<longleftrightarrow> (\<exists>b\<in>set bs. b = [] \<or> iop (last b) = ReturnI None)"
proof (induction bs)
  case (Cons b bs)
  have "returned_value b = None \<longleftrightarrow> b = [] \<or> iop (last b) = ReturnI None"
    by (auto simp: returned_value_def split: iop.splits option.splits)
  with Cons show ?case by (auto simp: bind_eq_None_conv split: Option.bind_splits)
qed simp

lemma returned_values_Some:
  "returned_values bs = Some vs \<Longrightarrow> v \<in> set vs \<longleftrightarrow> (\<exists>b\<in>set bs. b \<noteq> [] \<and> iop (last b) = ReturnI (Some v))"
proof (induction bs arbitrary: vs)
  case (Cons b bs)
  from Cons.prems obtain us ws where r: "returned_value b = Some us" "returned_values bs = Some ws" "vs = us @ ws"
    by (auto simp: bind_eq_Some_conv)
  then have "v \<in> set us \<longleftrightarrow> b \<noteq> [] \<and> iop (last b) = ReturnI (Some v)"
    by (auto simp: returned_value_def split: if_splits iop.splits option.splits)
  with Cons.IH [OF r(2)] r(3) show ?case by auto
qed simp

lemma called_values_None:
  assumes "wf_module M"
  shows "called_values M f = None \<longleftrightarrow> (\<exists>name ft F b. f = FunRef name ft \<and> F \<in> set (funcs M) \<and> fname F = name
    \<and> b \<in> set (fblocks F) \<and> (b = [] \<or> iop (last b) = ReturnI None))"
proof (cases "\<exists>name ft F. f = FunRef name ft \<and> getFunction M name = Some F")
  case True
  then obtain name ft F where F: "f = FunRef name ft" "getFunction M name = Some F" by blast
  moreover have "G = F" if "G \<in> set (funcs M)" "fname G = name" for G
    using that F(2) wf_getFunction [OF assms, of name G] by simp
  ultimately show ?thesis
    using wf_getFunction [OF assms, of name F] by (auto simp: called_values_def returned_values_None)
next
  case False
  then have "called_values M f = Some []" by (auto simp: called_values_def split: val.splits option.splits)
  moreover have "\<not> (f = FunRef name ft \<and> F \<in> set (funcs M) \<and> fname F = name)" for name ft F
    using False wf_getFunction [OF assms, of name F] by auto
  ultimately show ?thesis by auto
qed

lemma called_values_Some:
  assumes "wf_module M" "called_values M f = Some vs"
  shows "v \<in> set vs \<longleftrightarrow> (\<exists>name ft F b. f = FunRef name ft \<and> F \<in> set (funcs M) \<and> fname F = name
    \<and> b \<in> set (fblocks F) \<and> b \<noteq> [] \<and> iop (last b) = ReturnI (Some v))"
proof (cases "\<exists>name ft F. f = FunRef name ft \<and> getFunction M name = Some F")
  case True
  then obtain name ft F where F: "f = FunRef name ft" "getFunction M name = Some F" by blast
  with assms(2) have "returned_values (fblocks F) = Some vs" by (simp add: called_values_def)
  moreover have "G = F" if "G \<in> set (funcs M)" "fname G = name" for G
    using that F(2) wf_getFunction [OF assms(1), of name G] by simp
  ultimately show ?thesis
    using returned_values_Some [of "fblocks F" vs v] F wf_getFunction [OF assms(1), of name F] by auto
next
  case False
  then have "vs = []" using assms(2) by (auto simp: called_values_def split: val.splits option.splits)
  moreover have "\<not> (f = FunRef name ft \<and> F \<in> set (funcs M) \<and> fname F = name)" for name ft F
    using False wf_getFunction [OF assms(1), of name F] by auto
  ultimately show ?thesis by auto
qed

lemma lp_next_None:
  assumes "wf_module M"
  shows "lp_next M V = None \<longleftrightarrow> no_result M V"
proof
  assume "lp_next M V = None"
  then obtain r t I f as where V: "V = InstRef r t" and I: "inst_by_ref M r = Some I" "iop I = CallI f as"
    and f: "called_values M f = None"
    by (auto simp: lp_next_def split: val.splits option.splits iop.splits)
  then show "no_result M V"
    using wf_inst_by_ref [OF assms, of r I] unfolding called_values_None [OF assms]
    by (auto intro: no_result.no_result)
next
  assume "no_result M V"
  then show "lp_next M V = None"
  proof cases
    case (no_result I name ft as F b t)
    then have "called_values M (FunRef name ft) = None" unfolding called_values_None [OF assms] by blast
    with no_result show ?thesis using wf_inst_by_ref [OF assms, of "iref I" I] by (simp add: lp_next_def)
  qed
qed

lemma lp_next_deps:
  assumes "wf_module M" "lp_next M V = Some vs"
  shows "data_dep M V W \<longleftrightarrow> W \<in> set vs \<and> \<not> is_constant W"
proof
  assume "data_dep M V W"
  then show "W \<in> set vs \<and> \<not> is_constant W"
  proof cases
    case (dep_load F b I p S t)
    then have "I \<in> set (all_insts M)" by (blast intro: block_insts)
    with dep_load assms wf_parent_block [OF assms(1), of F b I] show ?thesis
      by (auto simp: lp_next_def inst_by_ref_eq stored_values_iff)
  next
    case (dep_argument I f as t)
    with assms show ?thesis by (auto simp: lp_next_def inst_by_ref_eq)
  next
    case (dep_result I name ft as F b t)
    with assms obtain us where us: "called_values M (FunRef name ft) = Some us" "vs = as @ us"
      by (auto simp: lp_next_def inst_by_ref_eq)
    with dep_result called_values_Some [OF assms(1) us(1), of W] show ?thesis by auto
  next
    case (dep_operand I t)
    with assms show ?thesis by (auto simp: lp_next_def inst_by_ref_eq split: iop.splits)
  qed
next
  assume W: "W \<in> set vs \<and> \<not> is_constant W"
  then obtain r t I where V: "V = InstRef r t" and I: "inst_by_ref M r = Some I"
    using assms(2) by (auto simp: lp_next_def split: val.splits option.splits)
  then have i: "I \<in> set (all_insts M)" "iref I = r" using wf_inst_by_ref [OF assms(1)] by auto
  then obtain F b where b: "F \<in> set (funcs M)" "b \<in> set (fblocks F)" "I \<in> set b"
    by (auto simp: all_insts_def func_insts_def)
  note vs = assms(2) [unfolded lp_next_def V val.case I option.case]
  show "data_dep M V W"
  proof (cases "iop I")
    case (LoadI p)
    with vs W wf_parent_block [OF assms(1) b] i(2) obtain S where "S \<in> set b" "iop S = StoreI W p"
      by (auto simp: stored_values_iff)
    with dep_load [OF b LoadI this] W V i(2) show ?thesis by simp
  next
    case (CallI f as)
    with vs obtain us where us: "called_values M f = Some us" "vs = as @ us" by auto
    with W consider "W \<in> set as" | "W \<in> set us" by auto
    then show ?thesis
    proof cases
      case 1
      with dep_argument [OF i(1) CallI] W V i(2) show ?thesis by simp
    next
      case 2
      with called_values_Some [OF assms(1) us(1)] obtain name ft F b where
        "f = FunRef name ft" "F \<in> set (funcs M)" "fname F = name" "b \<in> set (fblocks F)" "b \<noteq> []"
        "iop (last b) = ReturnI (Some W)" by auto
      with dep_result [OF i(1), of name ft as F b W] CallI W V i(2) show ?thesis by simp
    qed
  qed (use vs W V i dep_operand [OF i(1), of W t] in \<open>auto split: option.splits\<close>)
qed

lemma feeds_iff:
  assumes "wf_module M"
  shows "feeds M V W \<longleftrightarrow> data_dep M V W \<and> \<not> no_result M V"
proof (cases "lp_next M V")
  case None
  then show ?thesis using lp_next_None [OF assms, of V] by (auto elim!: feedsE)
next
  case (Some vs)
  then have "\<not> no_result M V" using lp_next_None [OF assms, of V] by auto
  then show ?thesis using lp_next_deps [OF assms Some] Some by (auto elim: feedsE intro: feeds.feeds)
qed

lemma depends_data_dep: "wf_module M \<Longrightarrow> depends M c V \<Longrightarrow> (data_dep M)\<^sup>*\<^sup>* c V"
  by (erule rtranclp_mono [THEN predicate2D, rotated]) (auto simp: feeds_iff)

lemma data_dep_depends:
  assumes "wf_module M" "defined_from M c" "(data_dep M)\<^sup>*\<^sup>* c V"
  shows "depends M c V"
  using assms(3)
proof (induction rule: rtranclp_induct)
  case (step V W)
  from step.IH assms(2) have "lp_next M V \<noteq> None" by (simp add: defined_from_def)
  with step.hyps(2) have "feeds M V W" by (simp add: feeds_iff [OF assms(1)] lp_next_None [OF assms(1)])
  with step.IH show ?case by (rule rtranclp.rtrancl_into_rtrancl)
qed simp

lemma computed_iff:
  assumes "wf_module M"
  shows "computed M c \<longleftrightarrow> defined_from M c"
proof
  assume "computed M c"
  then show "defined_from M c"
    using depends_data_dep [OF assms] lp_next_None [OF assms] by (auto simp: computed_def defined_from_def)
next
  assume "defined_from M c"
  then show "computed M c"
    using data_dep_depends [OF assms] lp_next_None [OF assms] by (auto simp: computed_def defined_from_def)
qed

lemma depends_iff: "wf_module M \<Longrightarrow> computed M c \<Longrightarrow> depends M c V \<longleftrightarrow> (data_dep M)\<^sup>*\<^sup>* c V"
  using depends_data_dep data_dep_depends computed_iff by blast

lemma lp_of_iff:
  assumes "wf_module M"
  shows "lp_of M V = Some r \<longleftrightarrow> (\<exists>I t. V = InstRef (iref I) t \<and> r = iref I \<and> I \<in> set (all_insts M)
    \<and> ((\<exists>p. iop I = LoadI p) \<or> (\<exists>p e n. iop I = CmpXchgI p e n)))"
proof
  assume l: "lp_of M V = Some r"
  then obtain t I where V: "V = InstRef r t" and I: "inst_by_ref M r = Some I"
    by (cases V) (auto split: option.splits iop.splits)
  with l have "(\<exists>p. iop I = LoadI p) \<or> (\<exists>p e n. iop I = CmpXchgI p e n)" by (auto split: iop.splits)
  with V inst_by_ref_in [OF I] show "\<exists>I t. V = InstRef (iref I) t \<and> r = iref I \<and> I \<in> set (all_insts M)
    \<and> ((\<exists>p. iop I = LoadI p) \<or> (\<exists>p e n. iop I = CmpXchgI p e n))" by blast
qed (auto simp: inst_by_ref_eq [OF assms])

lemma sources_eq: "wf_module M \<Longrightarrow> computed M c \<Longrightarrow> lp_refs M {V. depends M c V} = sources M c"
  unfolding lp_refs_def sources_def by (simp add: lp_of_iff depends_iff) blast

section \<open>From the file to the output\<close>

lemma id_text_newline: "newline \<notin> set (id_text q I)"
proof
  assume "newline \<in> set (id_text q I)"
  then have "\<not> is_space newline"
    using to_base_digits digit_not_sign by (fastforce simp: id_text_def)
  then show False by (simp add: is_space_def newline_def)
qed

lemma stol_id_text: "stol (id_text q I) = Some (int (unat (getID q (iref I))))"
proof -
  have "unat (getID q (iref I)) < 2 ^ LENGTH(32)" by (rule unsigned_less)
  then show ?thesis unfolding id_text_def by (intro stol_to_base) simp
qed

lemma read_branch_eq:
  assumes "numberable M" "numbered_query M = Some q" "I \<in> set (monitored_insts M)" "condition I = Some c"
  shows "read_branch M q (id_text q I) = Some I"
proof -
  have "getInstByID q (getID q (iref I)) = Some (iref I)"
    using lsnum.instof_idof [OF assms(1,2), of "iref I"] assms(3) by simp
  moreover have "inst_by_ref M (iref I) = Some I"
    using assms by (intro inst_by_ref_eq) (auto simp: numberable_def monitored_insts_def)
  moreover have "iop I = BranchI (Some c)" using assms(4) by (auto split: iop.splits)
  ultimately show ?thesis by (simp add: read_branch_def stol_id_text)
qed

lemma read_branches_eq:
  assumes "numberable M" "numbered_query M = Some q"
    "\<forall>I\<in>set Bs. I \<in> set (monitored_insts M) \<and> (\<exists>c. condition I = Some c)"
  shows "\<exists>BIs'. read_branches M q (map (id_text q) Bs) BIs = Some BIs' \<and> set BIs' = set BIs \<union> set Bs"
  using assms(3)
proof (induction Bs arbitrary: BIs)
  case (Cons B Bs)
  then have "read_branch M q (id_text q B) = Some B"
    using read_branch_eq [OF assms(1,2)] by (auto simp del: condition.simps)
  with Cons.IH [of "List.insert B BIs"] Cons.prems show ?case by auto
qed simp

text \<open>
  C21: given the numbers of conditional branches of a numbered module, the pass terminates and
  prints the numbers of exactly those loads and compare-and-swaps that some condition depends on,
  provided no value on the way is the result of a function that returns nothing.
\<close>

theorem lps_found:
  assumes "numberable M" "QueryLoadStoreNumbers (LoadStoreNumberPass M) = Some q"
    and Bs: "\<forall>B\<in>set Bs. B \<in> set (monitored_insts M) \<and> (\<exists>c. iop B = BranchI (Some c) \<and> computed M c)"
    and orders: "\<And>xs. set (order xs) = set xs" "\<And>xs. set (order' xs) = set xs"
  shows "\<exists>out. PrintLpsFromBrs order order' M q (unlines (map (id_text q) Bs)) = Some out
    \<and> set out = {to_base 10 (unat (getID q lp)) | lp B c. B \<in> set Bs \<and> iop B = BranchI (Some c) \<and> lp \<in> sources M c}"
proof -
  have q: "numbered_query M = Some q" using assms(2) by (simp add: numbered_query_def)
  have wf: "wf_module M" using assms(1) by (simp add: numberable_def)
  have c: "\<forall>B\<in>set Bs. B \<in> set (monitored_insts M) \<and> (\<exists>c. condition B = Some c \<and> defined_from M c)"
    using Bs computed_iff [OF wf] by fastforce
  have "getlines newline (unlines (map (id_text q) Bs)) = map (id_text q) Bs"
    using split_unlines [of "map (id_text q) Bs"] by (simp add: getlines_def Let_def id_text_newline)
  moreover obtain BIs where "read_branches M q (map (id_text q) Bs) [] = Some BIs" "set BIs = set Bs"
    using read_branches_eq [OF assms(1) q, of Bs "[]"] c by auto
  moreover obtain LPs where "lps_from_brs M (order BIs) [] = Some LPs"
    "set LPs = (\<Union>B\<in>set Bs. lp_refs M {V. depends M (the (condition B)) V})"
    using lps_from_brs_correct [of "order BIs" M "[]"] c calculation(3) orders(1)
    by (auto simp del: condition.simps)
  moreover have "lp_refs M {V. depends M (the (condition B)) V} = {lp. \<exists>c. iop B = BranchI (Some c) \<and> lp \<in> sources M c}"
    if "B \<in> set Bs" for B
    using that Bs sources_eq [OF wf] by fastforce
  ultimately show ?thesis by (auto simp: PrintLpsFromBrs_def orders(2))
qed

text \<open>
  A branch on a value made from a compare-and-swap and from the result of a call, whose argument is
  loaded and which returns what it loads.
\<close>

definition demo_branches :: modl where
  "demo_branches = \<lparr>funcs = [\<lparr>fname = ''f'', fret = VoidTy, fargs = [PtrTy Int64Type],
     fblocks = [[\<lparr>iref = 0, iop = LoadI (ArgRef 0 (PtrTy Int64Type)), ity = Int64Type, iloc = None\<rparr>,
                 \<lparr>iref = 1, iop = CmpXchgI (ArgRef 0 (PtrTy Int64Type)) (CInt 64 0) (CInt 64 1), ity = IntTy 1, iloc = None\<rparr>,
                 \<lparr>iref = 2, iop = CallI (FunRef ''g'' (OtherTy 1)) [InstRef 0 Int64Type], ity = IntTy 1, iloc = None\<rparr>,
                 \<lparr>iref = 3, iop = OtherI 0 [InstRef 1 (IntTy 1), InstRef 2 (IntTy 1)], ity = IntTy 1, iloc = None\<rparr>,
                 \<lparr>iref = 4, iop = BranchI (Some (InstRef 3 (IntTy 1))), ity = VoidTy, iloc = None\<rparr>]]\<rparr>,
       \<lparr>fname = ''g'', fret = IntTy 1, fargs = [Int64Type],
     fblocks = [[\<lparr>iref = 5, iop = LoadI (COther 7 (PtrTy (IntTy 1))), ity = IntTy 1, iloc = None\<rparr>,
                 \<lparr>iref = 6, iop = ReturnI (Some (InstRef 5 (IntTy 1))), ity = VoidTy, iloc = None\<rparr>]]\<rparr>],
     gvs = [], nextref = 7, dgls = None\<rparr>"

definition demo_branch :: inst where
  "demo_branch = \<lparr>iref = 4, iop = BranchI (Some (InstRef 3 (IntTy 1))), ity = VoidTy, iloc = None\<rparr>"

lemma demo_branch_lps: "\<exists>LPs. get_lps_from_br demo_branches (InstRef 3 (IntTy 1)) [] = Some LPs \<and> set LPs = {0, 1, 5}"
  by (simp add: get_lps_from_br_def lp_next_def inst_by_ref_def all_insts_def func_insts_def demo_branches_def
      push_def insert_lp_def parent_block_def stored_values_def called_values_def getFunction_def returned_value_def
      Let_def) auto

theorem lps_found_witness:
  "\<exists>q out. QueryLoadStoreNumbers (LoadStoreNumberPass demo_branches) = Some q
     \<and> PrintLpsFromBrs (\<lambda>xs. xs) (\<lambda>xs. xs) demo_branches q (unlines [id_text q demo_branch]) = Some out
     \<and> set out = (\<lambda>lp. to_base 10 (unat (getID q lp))) ` {0, 1, 5}"
proof -
  have n: "numberable demo_branches"
    by (simp add: numberable_def wf_module_def monitored_insts_def all_insts_def func_insts_def demo_branches_def)
  then have wf: "wf_module demo_branches" by (simp add: numberable_def)
  from lsnum.number_total [OF n] obtain q where
    q: "QueryLoadStoreNumbers (LoadStoreNumberPass demo_branches) = Some q"
    by (auto simp: numbered_query_def)
  obtain LPs where L: "get_lps_from_br demo_branches (InstRef 3 (IntTy 1)) [] = Some LPs" "set LPs = {0, 1, 5}"
    using demo_branch_lps by blast
  have c: "computed demo_branches (InstRef 3 (IntTy 1))"
    "lp_refs demo_branches {V. depends demo_branches (InstRef 3 (IntTy 1)) V} = {0, 1, 5}"
    using get_lps_from_br_correct [of demo_branches "InstRef 3 (IntTy 1)" "[]", unfolded L(1) option.case] L(2)
    by (simp_all add: computed_iff [OF wf])
  have "\<forall>B\<in>set [demo_branch]. B \<in> set (monitored_insts demo_branches)
      \<and> (\<exists>c. iop B = BranchI (Some c) \<and> computed demo_branches c)"
    using c(1) by (simp add: demo_branch_def monitored_insts_def all_insts_def func_insts_def demo_branches_def)
  from lps_found [OF n q this, of "\<lambda>xs. xs" "\<lambda>xs. xs"] q c(2) [unfolded sources_eq [OF wf c(1)]] show ?thesis
    by (fastforce simp: demo_branch_def)
qed

end
