(* ===== verification/Value_Reader.thy ===== *)
theory Value_Reader
  imports Durinn_Prelude
begin

text \<open>
  The reader of stored values of \<open>tracer/StoreValueReader.h\<close>: values are read one after the other
  from a mapped file, and a value never spans two blocks of the writer's cache.
\<close>

record reader =
  currOffset :: u64
  rvalues :: u64
  file_bytes :: "8 word list"
  StoreValueCacheBytes :: u64

text \<open>
  \<open>init\<close>: the address of the mapping and the size of the cache come from the system.
\<close>

definition init :: "u64 \<Rightarrow> 8 word list \<Rightarrow> u64 \<Rightarrow> reader" where
  "init addr bytes cache = \<lparr>currOffset = 0, rvalues = addr, file_bytes = bytes, StoreValueCacheBytes = cache\<rparr>"

text \<open>Division by an empty cache and reads outside the mapping are undefined.\<close>

definition checkCacheBoundaryAndUpdateCurrOffset :: "u64 \<Rightarrow> reader \<Rightarrow> reader option" where
  "checkCacheBoundaryAndUpdateCurrOffset len R =
     (let currAddr = rvalues R + currOffset R; nextAddr = currAddr + len; S = StoreValueCacheBytes R in
      if S = 0 then None
      else if nextAddr mod S > 0 \<and> nextAddr div S > currAddr div S then
        (let currAddr = nextAddr - nextAddr mod S in Some (R\<lparr>currOffset := currAddr - rvalues R\<rparr>))
      else Some R)"

definition getNextValue :: "u64 \<Rightarrow> reader \<Rightarrow> (8 word list \<times> reader) option" where
  "getNextValue len R =
     (case checkCacheBoundaryAndUpdateCurrOffset len R of
        None \<Rightarrow> None
      | Some R \<Rightarrow>
          (let k = unat (currOffset R) in
           if length (file_bytes R) < k + unat len then None
           else Some (take (unat len) (drop k (file_bytes R)), R\<lparr>currOffset := currOffset R + len\<rparr>)))"

definition moveCurrOffset :: "u64 \<Rightarrow> reader \<Rightarrow> reader option" where
  "moveCurrOffset len R =
     map_option (\<lambda>R. R\<lparr>currOffset := currOffset R + len\<rparr>) (checkCacheBoundaryAndUpdateCurrOffset len R)"

section \<open>Blocks\<close>

text \<open>The mapping lies in the address space.\<close>

definition reader_ok :: "reader \<Rightarrow> bool" where
  "reader_ok R \<longleftrightarrow>
     StoreValueCacheBytes R \<noteq> 0 \<and> unat (currOffset R) \<le> length (file_bytes R)
     \<and> unat (rvalues R) + length (file_bytes R) < 2 ^ 64"

text \<open>The place where a value of length \<open>n\<close> after place \<open>a\<close> starts, in blocks of size \<open>S\<close>.\<close>

definition value_start :: "nat \<Rightarrow> nat \<Rightarrow> nat \<Rightarrow> nat" where
  "value_start S a n = (if 0 < (a + n) mod S \<and> a div S < (a + n) div S then (a + n) div S * S else a)"

lemma value_start_ge: "0 < S \<Longrightarrow> a \<le> value_start S a n"
  by (simp add: value_start_def div_less_iff_less_mult)

lemma value_start_le: "value_start S a n \<le> a + n"
  by (simp add: value_start_def)

lemma value_start_block:
  assumes "0 < n" "n \<le> S"
  shows "(value_start S a n + n - 1) div S = value_start S a n div S"
proof (cases "0 < (a + n) mod S \<and> a div S < (a + n) div S")
  case True
  obtain m where m: "n = Suc m" using assms(1) gr0_implies_Suc by blast
  then have "(q * S + m) div S = q" for q using assms(2) by (simp add: div_mult_self3)
  with True assms m show ?thesis by (simp add: value_start_def)
next
  case False
  have le: "a div S \<le> (a + n - 1) div S" using assms(1) by (intro div_le_mono) simp
  have "(a + n - 1) div S \<le> a div S"
  proof (cases "(a + n) mod S = 0")
    case True
    then obtain k where k: "a + n = k * S" by (metis mod_0_imp_dvd dvd_def mult.commute)
    from k assms have "(a + n - 1) div S < k" by (simp add: div_less_iff_less_mult)
    moreover from k assms have "k - 1 \<le> a div S"
      by (simp add: less_eq_div_iff_mult_less_eq diff_mult_distrib)
    ultimately show ?thesis by simp
  next
    case m: False
    with False have "(a + n) div S \<le> a div S" by simp
    moreover have "(a + n - 1) div S \<le> (a + n) div S" by (intro div_le_mono) simp
    ultimately show ?thesis by (rule order_trans [rotated])
  qed
  with le False show ?thesis by (auto simp: value_start_def)
qed

text \<open>The address arithmetic of the reader does not wrap and computes that place.\<close>

lemma check_eq:
  assumes "reader_ok R" "unat (rvalues R) + unat (currOffset R) + unat len < 2 ^ 64"
  shows "\<exists>off. checkCacheBoundaryAndUpdateCurrOffset len R = Some (R\<lparr>currOffset := off\<rparr>)
    \<and> unat (rvalues R) + unat off =
        value_start (unat (StoreValueCacheBytes R)) (unat (rvalues R) + unat (currOffset R)) (unat len)"
proof -
  define c n S where "c = rvalues R + currOffset R" and "n = c + len" and "S = StoreValueCacheBytes R"
  define x where "x = n - n mod S"
  have c: "unat c = unat (rvalues R) + unat (currOffset R)"
    unfolding c_def using assms(2) by (intro unat_add_lem [THEN iffD1]) simp
  have n: "unat n = unat c + unat len"
    unfolding n_def using assms(2) c by (intro unat_add_lem [THEN iffD1]) simp
  have S: "0 < unat S" "S \<noteq> 0" using assms(1) by (simp_all add: S_def reader_ok_def unat_gt_0)
  have cond: "(n mod S > 0 \<and> n div S > c div S) = (0 < unat n mod unat S \<and> unat c div unat S < unat n div unat S)"
    by (simp add: word_less_nat_alt unat_mod unat_div)
  have x: "unat x = unat n div unat S * unat S"
    unfolding x_def by (simp add: unat_sub word_le_nat_alt unat_mod minus_mod_eq_div_mult [symmetric])
  have check: "checkCacheBoundaryAndUpdateCurrOffset len R =
      Some (R\<lparr>currOffset := if n mod S > 0 \<and> n div S > c div S then x - rvalues R else currOffset R\<rparr>)"
    using S by (simp add: checkCacheBoundaryAndUpdateCurrOffset_def Let_def c_def n_def S_def x_def)
  show ?thesis
  proof (cases "n mod S > 0 \<and> n div S > c div S")
    case True
    then have "unat (rvalues R) \<le> unat x" using cond x c S by (simp add: div_less_iff_less_mult)
    then have "unat (x - rvalues R) = unat x - unat (rvalues R)"
      by (intro unat_sub) (simp add: word_le_nat_alt)
    with True cond x c n S \<open>unat (rvalues R) \<le> unat x\<close> check show ?thesis
      by (intro exI [of _ "x - rvalues R"]) (simp add: value_start_def S_def)
  next
    case False
    then have "checkCacheBoundaryAndUpdateCurrOffset len R = Some (R\<lparr>currOffset := currOffset R\<rparr>)"
      unfolding check by (simp only: if_False)
    moreover have "value_start (unat S) (unat c) (unat len) = unat c"
      using False cond n by (auto simp: value_start_def)
    ultimately show ?thesis using c by (intro exI [of _ "currOffset R"]) (simp add: S_def)
  qed
qed

text \<open>
  C26: a value that is not longer than a cache block is read from one block, at or after the
  current place; the reader then stands behind it and its state stays well formed.
\<close>

theorem value_in_one_block:
  assumes "reader_ok R" "0 < unat len" "unat len \<le> unat (StoreValueCacheBytes R)"
    and "unat (rvalues R) + unat (currOffset R) + 2 * unat len < 2 ^ 64" "getNextValue len R = Some (v, R')"
  shows "\<exists>k. v = take (unat len) (drop k (file_bytes R)) \<and> length v = unat len \<and> unat (currOffset R) \<le> k
    \<and> unat (currOffset R') = k + unat len \<and> reader_ok R'
    \<and> (\<forall>j<unat len. (unat (rvalues R) + k + j) div unat (StoreValueCacheBytes R)
         = (unat (rvalues R) + k) div unat (StoreValueCacheBytes R))"
proof -
  let ?S = "unat (StoreValueCacheBytes R)" and ?v = "unat (rvalues R)" and ?a = "unat (rvalues R) + unat (currOffset R)"
  have "?a + unat len < 2 ^ 64" using assms(4) by simp
  from check_eq [OF assms(1) this] obtain off where
    off: "checkCacheBoundaryAndUpdateCurrOffset len R = Some (R\<lparr>currOffset := off\<rparr>)"
    "?v + unat off = value_start ?S ?a (unat len)" by blast
  let ?k = "unat off"
  from assms(5) off(1) have g: "?k + unat len \<le> length (file_bytes R)"
    "v = take (unat len) (drop ?k (file_bytes R))" "R' = R\<lparr>currOffset := off + len\<rparr>"
    by (auto simp: getNextValue_def Let_def split: if_splits)
  have "0 < ?S" using assms(2,3) by linarith
  with value_start_ge [of ?S ?a "unat len"] off(2) have ge: "unat (currOffset R) \<le> ?k" by simp
  have "?k + unat len < 2 ^ 64" using g(1) assms(1) by (simp add: reader_ok_def)
  then have "unat (off + len) = ?k + unat len" by (intro unat_add_lem [THEN iffD1]) simp
  moreover have "(?v + ?k + j) div ?S = (?v + ?k) div ?S" if "j < unat len" for j
  proof -
    have "(?v + ?k + j) div ?S \<le> (?v + ?k + unat len - 1) div ?S" using that by (intro div_le_mono) simp
    also have "\<dots> = (?v + ?k) div ?S" using value_start_block [OF assms(2,3), of ?a] off(2) by simp
    finally show ?thesis using div_le_mono [of "?v + ?k" "?v + ?k + j" ?S] by simp
  qed
  ultimately show ?thesis
    using g ge assms(1) by (intro exI [of _ ?k]) (auto simp: reader_ok_def)
qed

theorem value_in_one_block_witness:
  "\<exists>v R'. getNextValue 4 \<lparr>currOffset = 6, rvalues = 4096, file_bytes = replicate 32 7, StoreValueCacheBytes = 8\<rparr> = Some (v, R')
     \<and> length v = 4 \<and> unat (currOffset R') = 12"
proof -
  let ?R = "\<lparr>currOffset = 6, rvalues = 4096, file_bytes = replicate 32 7, StoreValueCacheBytes = 8\<rparr> :: reader"
  have g: "getNextValue 4 ?R = Some (replicate 4 7, ?R\<lparr>currOffset := 12\<rparr>)"
    by (simp add: getNextValue_def checkCacheBoundaryAndUpdateCurrOffset_def Let_def min_def)
  have "reader_ok ?R" by (simp add: reader_ok_def)
  from value_in_one_block [OF this _ _ _ g] g show ?thesis by simp
qed

end
