(* ===== verification/Pmem_Flush.thy ===== *)
theory Pmem_Flush
  imports Cache_Line "HOL-Library.Monad_Syntax"
begin

text \<open>
  libpmem on x86-64: what the library asks of the processor. The state is the memory as the program
  sees it and the list of the instructions that matter for persistence. Flushing
  (\<open>libpmem/x86_64/flush.h\<close>), draining and \<open>pmem_persist\<close> (\<open>libpmem/pmem.c\<close>) are here, with a
  specification of which bytes may still be lost. The annotations for pmemcheck are in the list too;
  they change nothing.
\<close>

section \<open>The processor\<close>

datatype flush_instr = Clflush | Clflushopt | Clwb

datatype hw_op =
    HStore addr nat
  | HNtStore addr nat
  | HFlush flush_instr addr
  | HSfence
  | HMsync addr u64
  | HPmcFlush addr u64
  | HPmcFence

record pm =
  pmem :: memory
  hw :: "hw_op list"

definition emit :: "hw_op \<Rightarrow> pm \<Rightarrow> pm" where
  "emit i s = s\<lparr>hw := hw s @ [i]\<rparr>"

lemma emit_sel [simp]: "pmem (emit i s) = pmem s" "hw (emit i s) = hw s @ [i]"
  by (simp_all add: emit_def)

text \<open>
  Bytes that may be lost at a crash: those that were stored and not written back since (\<open>fst\<close>),
  and those whose write-back has started and is not fenced (\<open>snd\<close>). \<open>clflush\<close> is ordered with the
  stores around it, the two newer instructions are not. A streaming store goes around the cache.
\<close>

definition span :: "addr \<Rightarrow> nat \<Rightarrow> addr set" where
  "span a n = {b. unat (b - a) < n}"

definition line :: "addr \<Rightarrow> addr set" where
  "line a = {b. unat b div 64 = unat a div 64}"

fun at_risk :: "hw_op \<Rightarrow> addr set \<times> addr set \<Rightarrow> addr set \<times> addr set" where
  "at_risk (HStore a n) (D, P) = (D \<union> span a n, P - span a n)"
| "at_risk (HNtStore a n) (D, P) = (D - span a n, P \<union> span a n)"
| "at_risk (HFlush Clflush a) (D, P) = (D - line a, P - line a)"
| "at_risk (HFlush _ a) (D, P) = (D - line a, P \<union> (D \<inter> line a))"
| "at_risk HSfence (D, P) = (D, {})"
| "at_risk (HMsync a n) (D, P) = (D - span a (unat n), P - span a (unat n))"
| "at_risk (HPmcFlush _ _) (D, P) = (D, P)"
| "at_risk HPmcFence (D, P) = (D, P)"

definition risks :: "pm \<Rightarrow> addr set \<times> addr set" where
  "risks s = fold at_risk (hw s) ({}, {})"

abbreviation dirty :: "pm \<Rightarrow> addr set" where
  "dirty s \<equiv> fst (risks s)"

abbreviation pending :: "pm \<Rightarrow> addr set" where
  "pending s \<equiv> snd (risks s)"

definition durable :: "pm \<Rightarrow> addr set \<Rightarrow> bool" where
  "durable s A \<longleftrightarrow> A \<inter> (dirty s \<union> pending s) = {}"

lemma risks_emit: "risks (emit i s) = at_risk i (risks s)"
  by (simp add: risks_def)

section \<open>Flush functions\<close>

definition FLUSH_ALIGN :: u64 where
  "FLUSH_ALIGN = 64"

definition flush_clflush_nolog :: "addr \<Rightarrow> u64 \<Rightarrow> pm \<Rightarrow> pm option" where
  "flush_clflush_nolog addr len =
     walk_lines (\<lambda>uptr. emit (HFlush Clflush uptr)) (addr AND NOT (FLUSH_ALIGN - 1)) (addr + len)"

definition flush_clflushopt_nolog :: "addr \<Rightarrow> u64 \<Rightarrow> pm \<Rightarrow> pm option" where
  "flush_clflushopt_nolog addr len =
     walk_lines (\<lambda>uptr. emit (HFlush Clflushopt uptr)) (addr AND NOT (FLUSH_ALIGN - 1)) (addr + len)"

definition flush_clwb_nolog :: "addr \<Rightarrow> u64 \<Rightarrow> pm \<Rightarrow> pm option" where
  "flush_clwb_nolog addr len =
     walk_lines (\<lambda>uptr. emit (HFlush Clwb uptr)) (addr AND NOT (FLUSH_ALIGN - 1)) (addr + len)"

definition flush_empty_nolog :: "addr \<Rightarrow> u64 \<Rightarrow> pm \<Rightarrow> pm option" where
  "flush_empty_nolog addr len s = Some (emit (HPmcFlush addr len) s)"

text \<open>The functions that are stored in \<open>struct pmem_funcs\<close>, by name.\<close>

datatype flush_func = Flush_clflush | Flush_clflushopt | Flush_clwb | Flush_empty

datatype fence_func = Predrain_fence_empty | Predrain_memory_barrier

fun call_flush :: "flush_func \<Rightarrow> addr \<Rightarrow> u64 \<Rightarrow> pm \<Rightarrow> pm option" where
  "call_flush Flush_clflush = flush_clflush_nolog"
| "call_flush Flush_clflushopt = flush_clflushopt_nolog"
| "call_flush Flush_clwb = flush_clwb_nolog"
| "call_flush Flush_empty = flush_empty_nolog"

fun call_fence :: "fence_func \<Rightarrow> pm \<Rightarrow> pm" where
  "call_fence Predrain_fence_empty s = emit HPmcFence s"
| "call_fence Predrain_memory_barrier s = emit HSfence s"

datatype isa = SSE2 | AVX | AVX512F

datatype mem_func = Nodrain_generic | Nodrain_libc | Nodrain_simd isa flush_func

datatype is_pmem_func = Is_pmem_detect | Is_pmem_always | Is_pmem_never

record pmem_funcs =
  predrain_fence :: fence_func
  flush :: flush_func
  is_pmem :: "is_pmem_func option"
  memmove_nodrain :: mem_func
  memset_nodrain :: mem_func
  deep_flush :: flush_func

definition pmem_drain :: "pmem_funcs \<Rightarrow> pm \<Rightarrow> pm" where
  "pmem_drain F s = call_fence (predrain_fence F) s"

definition pmem_deep_flush :: "pmem_funcs \<Rightarrow> addr \<Rightarrow> u64 \<Rightarrow> pm \<Rightarrow> pm option" where
  "pmem_deep_flush F addr len s = call_flush (deep_flush F) addr len s"

definition pmem_flush :: "pmem_funcs \<Rightarrow> addr \<Rightarrow> u64 \<Rightarrow> pm \<Rightarrow> pm option" where
  "pmem_flush F addr len s = call_flush (flush F) addr len s"

definition pmem_persist :: "pmem_funcs \<Rightarrow> addr \<Rightarrow> u64 \<Rightarrow> pm \<Rightarrow> pm option" where
  "pmem_persist F addr len s = do { s \<leftarrow> pmem_flush F addr len s; Some (pmem_drain F s) }"

text \<open>
  \<open>msync\<close> returns \<open>ret\<close>; when it succeeds it has written back the pages of its range. The range
  is annotated as persistent in both cases.
\<close>

definition pmem_msync :: "u64 \<Rightarrow> int \<Rightarrow> addr \<Rightarrow> u64 \<Rightarrow> pm \<Rightarrow> int \<times> pm" where
  "pmem_msync Pagesize ret addr len s =
     (let len = len + (addr AND (Pagesize - 1));
          uptr = addr AND NOT (Pagesize - 1)
      in (ret, emit HPmcFence (emit (HPmcFlush uptr len) (if ret < 0 then s else emit (HMsync uptr len) s))))"

section \<open>Lines and ranges\<close>

lemma span_nat:
  "unat a + n \<le> 2 ^ 64 \<Longrightarrow> span a n = {b. unat a \<le> unat b \<and> unat b < unat a + n}"
proof (rule set_eqI)
  fix b :: addr
  assume le: "unat a + n \<le> 2 ^ 64"
  show "b \<in> span a n \<longleftrightarrow> b \<in> {b. unat a \<le> unat b \<and> unat b < unat a + n}"
  proof (cases "a \<le> b")
    case True
    then have "unat (b - a) = unat b - unat a" by (rule unat_sub)
    with True show ?thesis by (auto simp: span_def word_le_nat_alt)
  next
    case False
    then have lt: "unat b < unat a" by (simp add: word_le_nat_alt)
    then have "unat (b - a) = 2 ^ 64 + unat b - unat a"
      by (simp add: unat_sub_if' unat_sub_if_size word_size)
    with lt le show ?thesis by (simp add: span_def)
  qed
qed

lemma span_0 [simp]: "span a 0 = {}"
  by (simp add: span_def)

text \<open>The bytes of the cache lines that a range touches.\<close>

definition lines_touched :: "addr \<Rightarrow> nat \<Rightarrow> addr set" where
  "lines_touched a n =
     {b. 64 * (unat a div 64) \<le> 64 * (unat b div 64) \<and> 64 * (unat b div 64) < unat a + n}"

lemma span_touched:
  assumes "unat a + n \<le> 2 ^ 64"
  shows "span a n \<subseteq> lines_touched a n"
proof
  fix b
  assume "b \<in> span a n"
  with assms have b: "unat a \<le> unat b" "unat b < unat a + n" by (simp_all add: span_nat)
  from b(1) have "unat a div 64 \<le> unat b div 64" by (rule div_le_mono)
  moreover have "64 * (unat b div 64) \<le> unat b" by simp
  ultimately show "b \<in> lines_touched a n" using b by (simp add: lines_touched_def)
qed

fun instr_of :: "flush_func \<Rightarrow> flush_instr" where
  "instr_of Flush_clflush = Clflush"
| "instr_of Flush_clflushopt = Clflushopt"
| "instr_of Flush_clwb = Clwb"
| "instr_of Flush_empty = Clwb"

lemma flush_mask: "(a :: addr) AND NOT (FLUSH_ALIGN - 1) = get_aligned_addr_64 a"
  by (simp add: FLUSH_ALIGN_def get_aligned_addr_64_def CACHELINE_MASK_def CACHELINE_SIZE_def)

interpretation fl: line_walk "\<lambda>p. emit (HFlush (instr_of f) p)" "\<lambda>p n. call_flush f p (of_nat n)"
  "\<lambda>p n. f \<noteq> Flush_empty \<and> unat p + n + 64 \<le> 2 ^ 64" for f
  by unfold_locales
    (simp, cases f, simp_all add: flush_clflush_nolog_def flush_clflushopt_nolog_def flush_clwb_nolog_def flush_mask)

definition flush_lines :: "addr \<Rightarrow> nat \<Rightarrow> addr list" where
  "flush_lines a n = map of_nat (lines_from (64 * (unat a div 64)) (unat a + n))"

lemma call_flush_eq:
  assumes "f \<noteq> Flush_empty" "unat a + unat n + 64 \<le> 2 ^ 64"
  shows "call_flush f a n s = Some (fold (\<lambda>p. emit (HFlush (instr_of f) p)) (flush_lines a (unat n)) s)"
  using fl.walk_eq [of f a "unat n" s] assms by (simp add: flush_lines_def)

lemma fold_emit: "fold (\<lambda>p. emit (g p)) ps s = s\<lparr>hw := hw s @ map g ps\<rparr>"
  by (induction ps arbitrary: s) (simp_all add: emit_def)

lemma unat_of_nat_line: "x < 2 ^ 64 \<Longrightarrow> unat (of_nat x :: addr) = x"
  by (simp add: unat_of_nat)

lemma lines_flushed:
  assumes "unat a + n + 64 \<le> 2 ^ 64"
  shows "(\<Union>p\<in>set (flush_lines a n). line p) = lines_touched a n"
proof (rule set_eqI)
  fix b
  have "b \<in> (\<Union>p\<in>set (flush_lines a n). line p) \<longleftrightarrow>
      (\<exists>x. 64 dvd x \<and> 64 * (unat a div 64) \<le> x \<and> x < unat a + n \<and> unat b div 64 = unat (of_nat x :: addr) div 64)"
    by (auto simp: flush_lines_def set_lines_from line_def)
  also have "\<dots> \<longleftrightarrow>
      (\<exists>x. 64 dvd x \<and> 64 * (unat a div 64) \<le> x \<and> x < unat a + n \<and> unat b div 64 = x div 64)"
    using assms by (intro ex_cong) (auto simp: unat_of_nat_line)
  also have "\<dots> \<longleftrightarrow> b \<in> lines_touched a n"
  proof
    assume "b \<in> lines_touched a n"
    then show "\<exists>x. 64 dvd x \<and> 64 * (unat a div 64) \<le> x \<and> x < unat a + n \<and> unat b div 64 = x div 64"
      by (intro exI [of _ "64 * (unat b div 64)"]) (simp add: lines_touched_def)
  next
    assume "\<exists>x. 64 dvd x \<and> 64 * (unat a div 64) \<le> x \<and> x < unat a + n \<and> unat b div 64 = x div 64"
    then show "b \<in> lines_touched a n" by (auto simp: lines_touched_def)
  qed
  finally show "b \<in> (\<Union>p\<in>set (flush_lines a n). line p) \<longleftrightarrow> b \<in> lines_touched a n" .
qed

lemma fold_flush_risk:
  "fold at_risk (map (HFlush i) ps) (D, P) =
     (let L = (\<Union>p\<in>set ps. line p) in (D - L, if i = Clflush then P - L else P \<union> (D \<inter> L)))"
  by (induction ps arbitrary: D P) (cases i; auto simp: Let_def)+

lemma call_flush_effect:
  assumes "f \<noteq> Flush_empty" "unat a + unat n + 64 \<le> 2 ^ 64"
  shows "\<exists>s'. call_flush f a n s = Some s' \<and> pmem s' = pmem s
    \<and> hw s' = hw s @ map (HFlush (instr_of f)) (flush_lines a (unat n))
    \<and> dirty s' = dirty s - lines_touched a (unat n)
    \<and> pending s' = (if f = Flush_clflush then pending s - lines_touched a (unat n)
        else pending s \<union> (dirty s \<inter> lines_touched a (unat n)))"
proof -
  let ?s = "s\<lparr>hw := hw s @ map (HFlush (instr_of f)) (flush_lines a (unat n))\<rparr>"
  have "call_flush f a n s = Some ?s" by (simp add: call_flush_eq [OF assms] fold_emit)
  moreover have "risks ?s = fold at_risk (map (HFlush (instr_of f)) (flush_lines a (unat n))) (risks s)"
    by (simp add: risks_def)
  then have "risks ?s = (dirty s - lines_touched a (unat n),
      if instr_of f = Clflush then pending s - lines_touched a (unat n)
      else pending s \<union> (dirty s \<inter> lines_touched a (unat n)))"
    by (cases "risks s") (simp add: fold_flush_risk Let_def lines_flushed [OF assms(2)])
  moreover have "instr_of f = Clflush \<longleftrightarrow> f = Flush_clflush" using assms(1) by (cases f) simp_all
  ultimately show ?thesis by (intro exI [of _ ?s]) simp
qed

section \<open>Persisting\<close>

text \<open>
  The functions fit together: the cache is flushed, and a flush that is not ordered by itself is
  followed by a fence.
\<close>

definition funcs_ok :: "pmem_funcs \<Rightarrow> bool" where
  "funcs_ok F \<longleftrightarrow>
     flush F \<noteq> Flush_empty \<and> flush F = deep_flush F
     \<and> (flush F \<noteq> Flush_clflush \<longrightarrow> predrain_fence F = Predrain_memory_barrier)"

lemma pmem_drain_risks:
  "dirty (pmem_drain F s) = dirty s"
  "pending (pmem_drain F s) = (if predrain_fence F = Predrain_fence_empty then pending s else {})"
  by (cases "predrain_fence F"; cases "risks s"; simp add: pmem_drain_def risks_emit)+

lemma pmem_drain_mem [simp]: "pmem (pmem_drain F s) = pmem s"
  by (cases "predrain_fence F") (simp_all add: pmem_drain_def)

lemma pmem_persist_effect:
  assumes "funcs_ok F" "unat a + unat n + 64 \<le> 2 ^ 64"
  shows "\<exists>s'. pmem_persist F a n s = Some s' \<and> pmem s' = pmem s
    \<and> dirty s' = dirty s - lines_touched a (unat n) \<and> pending s' \<inter> lines_touched a (unat n) = {}"
proof -
  obtain s1 where s1: "call_flush (flush F) a n s = Some s1" "pmem s1 = pmem s"
    "dirty s1 = dirty s - lines_touched a (unat n)"
    "pending s1 = (if flush F = Flush_clflush then pending s - lines_touched a (unat n)
        else pending s \<union> (dirty s \<inter> lines_touched a (unat n)))"
    using call_flush_effect [of "flush F" a n s] assms by (auto simp: funcs_ok_def)
  have "pending (pmem_drain F s1) \<inter> lines_touched a (unat n) = {}"
    using assms(1) s1(4) by (auto simp: pmem_drain_risks funcs_ok_def)
  with s1 show ?thesis by (simp add: pmem_persist_def pmem_flush_def pmem_drain_risks)
qed

end
