(* ===== verification/Pmem_Memops.thy ===== *)
theory Pmem_Memops
  imports Pmem_Flush
begin

text \<open>
  The portable copy and fill of libpmem (\<open>libpmem/memops_generic.c\<close>): bytes up to an aligned
  address, then cache lines and words with eight-byte stores, flushing what was written, upwards or
  downwards when the ranges overlap. The result is that of \<open>memmove\<close> and \<open>memset\<close>, what was
  written is flushed, and aligned ranges are written with aligned eight-byte stores only.
\<close>

section \<open>Flags and stores\<close>

definition PMEM_F_MEM_NODRAIN :: u32 where "PMEM_F_MEM_NODRAIN = push_bit 0 1"
definition PMEM_F_MEM_NONTEMPORAL :: u32 where "PMEM_F_MEM_NONTEMPORAL = push_bit 1 1"
definition PMEM_F_MEM_TEMPORAL :: u32 where "PMEM_F_MEM_TEMPORAL = push_bit 2 1"
definition PMEM_F_MEM_WC :: u32 where "PMEM_F_MEM_WC = push_bit 3 1"
definition PMEM_F_MEM_WB :: u32 where "PMEM_F_MEM_WB = push_bit 4 1"
definition PMEM_F_MEM_NOFLUSH :: u32 where "PMEM_F_MEM_NOFLUSH = push_bit 5 1"

definition UTIL_CACHELINE_SIZE :: u64 where
  "UTIL_CACHELINE_SIZE = 64"

definition pmem_flush_flags :: "pmem_funcs \<Rightarrow> addr \<Rightarrow> u64 \<Rightarrow> u32 \<Rightarrow> pm \<Rightarrow> pm option" where
  "pmem_flush_flags F addr len flags s =
     (if flags AND PMEM_F_MEM_NOFLUSH = 0 then pmem_flush F addr len s else Some s)"

definition store_bytes :: "addr \<Rightarrow> u8 list \<Rightarrow> pm \<Rightarrow> pm" where
  "store_bytes p bs s =
     emit (HStore p (length bs))
       (s\<lparr>pmem := (\<lambda>a. let i = unat (a - p) in if i < length bs then bs ! i else pmem s a)\<rparr>)"

definition load8 :: "addr \<Rightarrow> pm \<Rightarrow> u8 list" where
  "load8 p s = bytes_at (pmem s) p 8"

section \<open>Copying\<close>

text \<open>
  \<open>cpy128\<close>, \<open>cpy64\<close> and \<open>cpy8\<close>: all words are loaded before the first is stored.
\<close>

definition cpy_words :: "nat \<Rightarrow> addr \<Rightarrow> addr \<Rightarrow> pm \<Rightarrow> pm" where
  "cpy_words w dst src s =
     (let tmp = map (\<lambda>i. load8 (src + of_nat (8 * i)) s) [0..<w]
      in fold (\<lambda>i. store_bytes (dst + of_nat (8 * i)) (tmp ! i)) [0..<w] s)"

definition cpy128 :: "addr \<Rightarrow> addr \<Rightarrow> pm \<Rightarrow> pm" where
  "cpy128 = cpy_words 16"

definition cpy64 :: "addr \<Rightarrow> addr \<Rightarrow> pm \<Rightarrow> pm" where
  "cpy64 = cpy_words 8"

definition cpy8 :: "addr \<Rightarrow> addr \<Rightarrow> pm \<Rightarrow> pm" where
  "cpy8 = cpy_words 1"

definition copy_byte :: "addr \<Rightarrow> addr \<Rightarrow> nat \<Rightarrow> pm \<Rightarrow> pm" where
  "copy_byte cdst csrc i s = store_bytes (cdst + of_nat i) [pmem s (csrc + of_nat i)] s"

definition bytes_up :: "addr \<Rightarrow> addr \<Rightarrow> u64 \<Rightarrow> pm \<Rightarrow> pm" where
  "bytes_up cdst csrc cnt = fold (copy_byte cdst csrc) [0..<unat cnt]"

definition bytes_down :: "addr \<Rightarrow> addr \<Rightarrow> u64 \<Rightarrow> pm \<Rightarrow> pm" where
  "bytes_down cdst csrc cnt = fold (copy_byte cdst csrc) (rev [0..<unat cnt])"

text \<open>
  The loops over blocks of \<open>w\<close> bytes: \<open>cpy\<close> copies a block and \<open>fl\<close> says whether it is flushed at
  once. \<open>None\<close> is a loop that does not end.
\<close>

partial_function (option) blocks_up ::
  "pmem_funcs \<Rightarrow> (addr \<Rightarrow> addr \<Rightarrow> pm \<Rightarrow> pm) \<Rightarrow> u64 \<Rightarrow> bool \<Rightarrow> u32 \<Rightarrow> addr \<Rightarrow> addr \<Rightarrow> u64 \<Rightarrow> pm
    \<Rightarrow> (addr \<times> addr \<times> u64 \<times> pm) option"
where
  "blocks_up F cpy w fl flags dst8 src8 len s =
     (if len \<ge> w then
        Option.bind (if fl then pmem_flush_flags F dst8 w flags (cpy dst8 src8 s) else Some (cpy dst8 src8 s))
          (\<lambda>s. blocks_up F cpy w fl flags (dst8 + w) (src8 + w) (len - w) s)
      else Some (dst8, src8, len, s))"

partial_function (option) blocks_down ::
  "pmem_funcs \<Rightarrow> (addr \<Rightarrow> addr \<Rightarrow> pm \<Rightarrow> pm) \<Rightarrow> u64 \<Rightarrow> bool \<Rightarrow> u32 \<Rightarrow> addr \<Rightarrow> addr \<Rightarrow> u64 \<Rightarrow> pm
    \<Rightarrow> (addr \<times> addr \<times> u64 \<times> pm) option"
where
  "blocks_down F cpy w fl flags dst8 src8 len s =
     (if len \<ge> w then
        Option.bind
          (if fl then pmem_flush_flags F (dst8 - w) w flags (cpy (dst8 - w) (src8 - w) s)
           else Some (cpy (dst8 - w) (src8 - w) s))
          (\<lambda>s. blocks_down F cpy w fl flags (dst8 - w) (src8 - w) (len - w) s)
      else Some (dst8, src8, len, s))"

text \<open>The parts of the upward copy: to the first aligned address, and what is left after the lines.\<close>

definition head_up ::
  "pmem_funcs \<Rightarrow> addr \<Rightarrow> addr \<Rightarrow> u64 \<Rightarrow> u32 \<Rightarrow> pm \<Rightarrow> (addr \<times> addr \<times> u64 \<times> pm) option"
where
  "head_up F cdst csrc len flags s =
     (let cnt = cdst AND 7 in
      if cnt > 0 then
        let cnt = 8 - cnt; cnt = (if cnt > len then len else cnt) in
        do {
          s \<leftarrow> pmem_flush_flags F cdst cnt flags (bytes_up cdst csrc cnt s);
          Some (cdst + cnt, csrc + cnt, len - cnt, s)
        }
      else Some (cdst, csrc, len, s))"

definition tail_up :: "pmem_funcs \<Rightarrow> addr \<Rightarrow> addr \<Rightarrow> u64 \<Rightarrow> u32 \<Rightarrow> pm \<Rightarrow> pm option" where
  "tail_up F dst8 src8 len flags s =
     do {
       let remaining = len;
       (dst8, src8, len, s) \<leftarrow> blocks_up F cpy8 8 False flags dst8 src8 len s;
       let s = bytes_up dst8 src8 len s;
       let cdst = dst8 + len;
       (if remaining \<noteq> 0 then pmem_flush_flags F (cdst - remaining) remaining flags s else Some s)
     }"

definition memmove_up :: "pmem_funcs \<Rightarrow> addr \<Rightarrow> addr \<Rightarrow> u64 \<Rightarrow> u32 \<Rightarrow> pm \<Rightarrow> pm option" where
  "memmove_up F cdst csrc len flags s =
     do {
       (cdst, csrc, len, s) \<leftarrow> head_up F cdst csrc len flags s;
       (dst8, src8, len, s) \<leftarrow>
         (if UTIL_CACHELINE_SIZE = 128 then blocks_up F cpy128 128 True flags cdst csrc len s
          else Some (cdst, csrc, len, s));
       (dst8, src8, len, s) \<leftarrow> blocks_up F cpy64 64 True flags dst8 src8 len s;
       tail_up F dst8 src8 len flags s
     }"

text \<open>The downward copy starts behind the ranges.\<close>

definition head_down ::
  "pmem_funcs \<Rightarrow> addr \<Rightarrow> addr \<Rightarrow> u64 \<Rightarrow> u32 \<Rightarrow> pm \<Rightarrow> (addr \<times> addr \<times> u64 \<times> pm) option"
where
  "head_down F cdst csrc len flags s =
     (let cnt = cdst AND 7 in
      if cnt > 0 then
        let cnt = (if cnt > len then len else cnt); cdst = cdst - cnt; csrc = csrc - cnt; len = len - cnt in
        do {
          s \<leftarrow> pmem_flush_flags F cdst cnt flags (bytes_down cdst csrc cnt s);
          Some (cdst, csrc, len, s)
        }
      else Some (cdst, csrc, len, s))"

definition tail_down :: "pmem_funcs \<Rightarrow> addr \<Rightarrow> addr \<Rightarrow> u64 \<Rightarrow> u32 \<Rightarrow> pm \<Rightarrow> pm option" where
  "tail_down F dst8 src8 len flags s =
     do {
       let remaining = len;
       (dst8, src8, len, s) \<leftarrow> blocks_down F cpy8 8 False flags dst8 src8 len s;
       let cdst = dst8 - len;
       let csrc = src8 - len;
       let s = bytes_down cdst csrc len s;
       (if remaining \<noteq> 0 then pmem_flush_flags F cdst remaining flags s else Some s)
     }"

definition memmove_down :: "pmem_funcs \<Rightarrow> addr \<Rightarrow> addr \<Rightarrow> u64 \<Rightarrow> u32 \<Rightarrow> pm \<Rightarrow> pm option" where
  "memmove_down F cdst csrc len flags s =
     do {
       (cdst, csrc, len, s) \<leftarrow> head_down F (cdst + len) (csrc + len) len flags s;
       (dst8, src8, len, s) \<leftarrow>
         (if UTIL_CACHELINE_SIZE = 128 then blocks_down F cpy128 128 True flags cdst csrc len s
          else Some (cdst, csrc, len, s));
       (dst8, src8, len, s) \<leftarrow> blocks_down F cpy64 64 True flags dst8 src8 len s;
       tail_down F dst8 src8 len flags s
     }"

definition memmove_nodrain_generic :: "pmem_funcs \<Rightarrow> addr \<Rightarrow> addr \<Rightarrow> u64 \<Rightarrow> u32 \<Rightarrow> pm \<Rightarrow> pm option" where
  "memmove_nodrain_generic F dst src len flags s =
     (if dst - src \<ge> len then memmove_up F dst src len flags s
      else memmove_down F dst src len flags s)"

section \<open>Filling\<close>

definition le_bytes :: "u64 \<Rightarrow> u8 list" where
  "le_bytes x = map (\<lambda>i. ucast (drop_bit (8 * i) x)) [0..<8]"

definition store8 :: "addr \<Rightarrow> u64 \<Rightarrow> pm \<Rightarrow> pm" where
  "store8 dst c = store_bytes dst (le_bytes c)"

definition store8s :: "nat \<Rightarrow> u64 \<Rightarrow> addr \<Rightarrow> pm \<Rightarrow> pm" where
  "store8s w tmp dst8 = fold (\<lambda>i. store8 (dst8 + of_nat (8 * i)) tmp) [0..<w]"

definition bytes_fill :: "addr \<Rightarrow> u8 \<Rightarrow> u64 \<Rightarrow> pm \<Rightarrow> pm" where
  "bytes_fill cdst c cnt = fold (\<lambda>i. store_bytes (cdst + of_nat i) [c]) [0..<unat cnt]"

partial_function (option) blocks_fill ::
  "pmem_funcs \<Rightarrow> (addr \<Rightarrow> pm \<Rightarrow> pm) \<Rightarrow> u64 \<Rightarrow> bool \<Rightarrow> u32 \<Rightarrow> addr \<Rightarrow> u64 \<Rightarrow> pm
    \<Rightarrow> (addr \<times> u64 \<times> pm) option"
where
  "blocks_fill F st w fl flags dst8 len s =
     (if len \<ge> w then
        Option.bind (if fl then pmem_flush_flags F dst8 w flags (st dst8 s) else Some (st dst8 s))
          (\<lambda>s. blocks_fill F st w fl flags (dst8 + w) (len - w) s)
      else Some (dst8, len, s))"

definition head_fill ::
  "pmem_funcs \<Rightarrow> addr \<Rightarrow> u8 \<Rightarrow> u64 \<Rightarrow> u32 \<Rightarrow> pm \<Rightarrow> (addr \<times> u64 \<times> pm) option"
where
  "head_fill F cdst c len flags s =
     (let cnt = cdst AND 7 in
      if cnt > 0 then
        let cnt = 8 - cnt; cnt = (if cnt > len then len else cnt) in
        do {
          s \<leftarrow> pmem_flush_flags F cdst cnt flags (bytes_fill cdst c cnt s);
          Some (cdst + cnt, len - cnt, s)
        }
      else Some (cdst, len, s))"

definition fill_word :: "u8 \<Rightarrow> u64" where
  "fill_word c =
     (let u = ucast c
      in push_bit 56 u OR push_bit 48 u OR push_bit 40 u OR push_bit 32 u OR
         push_bit 24 u OR push_bit 16 u OR push_bit 8 u OR u)"

definition tail_fill :: "pmem_funcs \<Rightarrow> addr \<Rightarrow> u8 \<Rightarrow> u64 \<Rightarrow> u32 \<Rightarrow> pm \<Rightarrow> pm option" where
  "tail_fill F dst8 c len flags s =
     do {
       let remaining = len;
       (dst8, len, s) \<leftarrow> blocks_fill F (store8s 1 (fill_word c)) 8 False flags dst8 len s;
       let s = bytes_fill dst8 c len s;
       let cdst = dst8 + len;
       (if remaining \<noteq> 0 then pmem_flush_flags F (cdst - remaining) remaining flags s else Some s)
     }"

definition memset_nodrain_generic :: "pmem_funcs \<Rightarrow> addr \<Rightarrow> u32 \<Rightarrow> u64 \<Rightarrow> u32 \<Rightarrow> pm \<Rightarrow> pm option" where
  "memset_nodrain_generic F dst c len flags s =
     do {
       let c = ucast c;
       (cdst, len, s) \<leftarrow> head_fill F dst c len flags s;
       (dst8, len, s) \<leftarrow>
         (if UTIL_CACHELINE_SIZE = 128 then blocks_fill F (store8s 16 (fill_word c)) 128 True flags cdst len s
          else Some (cdst, len, s));
       (dst8, len, s) \<leftarrow> blocks_fill F (store8s 8 (fill_word c)) 64 True flags dst8 len s;
       tail_fill F dst8 c len flags s
     }"

end
