(* ===== verification/Pmem_Memops_Correct.thy ===== *)
theory Pmem_Memops_Correct
  imports Pmem_Memops
begin

text \<open>
  Correctness of the portable copy and fill: the memory they leave, which bytes they leave at risk,
  and the stores they use.
\<close>

section \<open>Copies of blocks\<close>

definition copy_chunk :: "addr \<Rightarrow> addr \<Rightarrow> nat \<Rightarrow> memory \<Rightarrow> memory" where
  "copy_chunk d c n m = (\<lambda>a. if unat (a - d) < n then m (c + (a - d)) else m a)"

definition fill_chunk :: "addr \<Rightarrow> u8 \<Rightarrow> nat \<Rightarrow> memory \<Rightarrow> memory" where
  "fill_chunk d b n m = (\<lambda>a. if unat (a - d) < n then b else m a)"

lemma unat_minus_of_nat:
  assumes "k < 2 ^ 64"
  shows "unat (i - of_nat k :: addr) = (if k \<le> unat i then unat i - k else unat i + 2 ^ 64 - k)"
proof -
  have "unat (of_nat k :: addr) = k" using assms by (simp add: unat_of_nat)
  then show ?thesis by (simp add: unat_sub_if' unat_sub_if_size word_size word_le_nat_alt)
qed

lemma unat_lt_64: "unat (x :: addr) < 2 ^ 64"
  using unsigned_less [of x] by simp

lemma unat_minus_le: "k \<le> unat len \<Longrightarrow> unat (len - of_nat k :: addr) = unat len - k"
  using unat_minus_of_nat [of k len] unat_lt_64 [of len] by simp

lemma unat_plus_nat: "unat d + k < 2 ^ 64 \<Longrightarrow> unat (d + of_nat k :: addr) = unat d + k"
  by (subst unat_plus_no_overflow) (simp_all add: unat_of_nat_line)

lemma of_nat_unat_64: "of_nat (unat (x :: addr)) = x"
  by simp

lemma shift_offset: "a - (d + x) = (a - d) - (x :: addr)"
  by (simp add: diff_diff_eq)

lemma copy_chunk_0 [simp]: "copy_chunk d c 0 m = m"
  by (simp add: copy_chunk_def)

lemma fill_chunk_0 [simp]: "fill_chunk d b 0 m = m"
  by (simp add: fill_chunk_def)

text \<open>Upwards: what was already written is not read later.\<close>

lemma copy_chunk_up:
  assumes "a + b \<le> unat (d - c)"
  shows "copy_chunk (d + of_nat a) (c + of_nat a) b (copy_chunk d c a m) = copy_chunk d c (a + b) m"
proof (rule ext)
  fix x
  define \<delta> i where "\<delta> = d - c" and "i = x - d"
  have \<delta>: "a + b \<le> unat \<delta>" using assms by (simp add: \<delta>_def)
  have "unat \<delta> < 2 ^ 64" using unsigned_less [of \<delta>] by simp
  with \<delta> have a: "a < 2 ^ 64 \<or> b = 0" "a + b < 2 ^ 64" "a < 2 ^ 64" by auto
  have j: "x - (d + of_nat a) = i - of_nat a" by (simp add: i_def shift_offset)
  have j': "unat (i - of_nat a) = (if a \<le> unat i then unat i - a else unat i + 2 ^ 64 - a)"
    by (rule unat_minus_of_nat [OF a(3)])
  have s: "c + of_nat a + (i - of_nat a) = c + i" by simp
  have o: "(c + i) - d = i - \<delta>" by (simp add: \<delta>_def)
  have o': "unat (i - \<delta>) = (if unat \<delta> \<le> unat i then unat i - unat \<delta> else unat i + 2 ^ 64 - unat \<delta>)"
    using unat_minus_of_nat [OF \<open>unat \<delta> < 2 ^ 64\<close>, of i] by simp
  show "copy_chunk (d + of_nat a) (c + of_nat a) b (copy_chunk d c a m) x = copy_chunk d c (a + b) m x"
    unfolding copy_chunk_def j s i_def [symmetric] o j' o'
    using \<delta> a \<open>unat \<delta> < 2 ^ 64\<close> by (auto split: if_splits)
qed

text \<open>Downwards: the same from the other end.\<close>

lemma copy_chunk_down:
  assumes "unat (d - c) + a + b \<le> 2 ^ 64"
  shows "copy_chunk d c a (copy_chunk (d + of_nat a) (c + of_nat a) b m) = copy_chunk d c (a + b) m"
proof (cases "b = 0")
  case False
  show ?thesis
  proof (rule ext)
    fix x
    define \<delta> i where "\<delta> = d - c" and "i = x - d"
    have \<delta>: "unat \<delta> + a + b \<le> 2 ^ 64" using assms by (simp add: \<delta>_def)
    with False have a: "a < 2 ^ 64" "unat \<delta> + a < 2 ^ 64" by auto
    have j: "x - (d + of_nat a) = i - of_nat a" by (simp add: i_def shift_offset)
    have j': "unat (i - of_nat a) = (if a \<le> unat i then unat i - a else unat i + 2 ^ 64 - a)"
      by (rule unat_minus_of_nat [OF a(1)])
    have s: "c + of_nat a + (i - of_nat a) = c + i" by simp
    have "of_nat (unat \<delta> + a) = \<delta> + of_nat a" by simp
    then have o: "(c + i) - (d + of_nat a) = i - of_nat (unat \<delta> + a)" by (simp add: \<delta>_def)
    have o': "unat (i - of_nat (unat \<delta> + a)) =
        (if unat \<delta> + a \<le> unat i then unat i - (unat \<delta> + a) else unat i + 2 ^ 64 - (unat \<delta> + a))"
      by (rule unat_minus_of_nat [OF a(2)])
    show "copy_chunk d c a (copy_chunk (d + of_nat a) (c + of_nat a) b m) x = copy_chunk d c (a + b) m x"
      unfolding copy_chunk_def j s i_def [symmetric] o j' o'
      using \<delta> a by (auto split: if_splits)
  qed
qed (simp add: copy_chunk_def)

lemma fill_chunk_append:
  assumes "a + b \<le> 2 ^ 64"
  shows "fill_chunk (d + of_nat a) v b (fill_chunk d v a m) = fill_chunk d v (a + b) m"
proof (cases "b = 0")
  case False
  with assms have a: "a < 2 ^ 64" by simp
  show ?thesis
    using assms by (auto simp: fill_chunk_def shift_offset unat_minus_of_nat [OF a] fun_eq_iff)
qed simp

lemma span_append:
  assumes "a + b \<le> 2 ^ 64"
  shows "span d (a + b) = span d a \<union> span (d + of_nat a) b"
proof (cases "b = 0")
  case False
  with assms have a: "a < 2 ^ 64" by simp
  show ?thesis
    using assms by (auto simp: span_def shift_offset unat_minus_of_nat [OF a])
qed simp

section \<open>What a step leaves behind\<close>

text \<open>Stores to \<open>R\<close>; stores to \<open>R\<close> that were flushed; and the two by the flags.\<close>

definition writes :: "addr set \<Rightarrow> pm \<Rightarrow> pm \<Rightarrow> bool" where
  "writes R s s' \<longleftrightarrow> dirty s' \<subseteq> dirty s \<union> R \<and> pending s' \<subseteq> pending s - R"

definition settles :: "pmem_funcs \<Rightarrow> addr set \<Rightarrow> pm \<Rightarrow> pm \<Rightarrow> bool" where
  "settles F R s s' \<longleftrightarrow>
     dirty s' \<subseteq> dirty s - R \<and> (flush F = Flush_clflush \<longrightarrow> pending s' \<subseteq> pending s - R)"

definition flushing :: "pmem_funcs \<Rightarrow> u32 \<Rightarrow> bool" where
  "flushing F flags \<longleftrightarrow> flags AND PMEM_F_MEM_NOFLUSH = 0 \<and> flush F \<noteq> Flush_empty"

definition outcome :: "pmem_funcs \<Rightarrow> bool \<Rightarrow> u32 \<Rightarrow> addr set \<Rightarrow> pm \<Rightarrow> pm \<Rightarrow> bool" where
  "outcome F fl flags R s s' \<longleftrightarrow> (if fl \<and> flushing F flags then settles F R s s' else writes R s s')"

definition aligned_stores :: "pm \<Rightarrow> pm \<Rightarrow> bool" where
  "aligned_stores s s' \<longleftrightarrow>
     (\<exists>ops. hw s' = hw s @ ops \<and> (\<forall>a n. HStore a n \<in> set ops \<longrightarrow> n = 8 \<and> 8 dvd unat a))"

lemma writes_trans: "writes R s t \<Longrightarrow> writes R' t u \<Longrightarrow> writes (R \<union> R') s u"
  unfolding writes_def by blast

lemma settles_trans: "settles F R s t \<Longrightarrow> settles F R' t u \<Longrightarrow> settles F (R \<union> R') s u"
  unfolding settles_def by blast

lemma outcome_trans: "outcome F fl flags R s t \<Longrightarrow> outcome F fl flags R' t u \<Longrightarrow> outcome F fl flags (R \<union> R') s u"
  unfolding outcome_def using writes_trans settles_trans by (auto split: if_splits)

lemma outcome_refl: "outcome F fl flags {} s s"
  by (simp add: outcome_def writes_def settles_def)

lemma outcome_nothing: "writes {} s t \<Longrightarrow> outcome F fl flags {} s t"
  by (simp add: outcome_def writes_def settles_def)

lemma aligned_refl: "aligned_stores s s"
  by (simp add: aligned_stores_def)

lemma aligned_trans: "aligned_stores s t \<Longrightarrow> aligned_stores t u \<Longrightarrow> aligned_stores s u"
  unfolding aligned_stores_def by (elim exE conjE) auto

lemma pmem_store_bytes:
  "pmem (store_bytes p bs s) = (\<lambda>a. if unat (a - p) < length bs then bs ! unat (a - p) else pmem s a)"
  by (simp add: store_bytes_def Let_def)

lemma writes_store: "writes (span p (length bs)) s (store_bytes p bs s)"
  by (cases "risks s") (simp add: writes_def store_bytes_def risks_emit risks_def)

lemma aligned_store: "length bs = 8 \<Longrightarrow> 8 dvd unat p \<Longrightarrow> aligned_stores s (store_bytes p bs s)"
  by (auto simp: aligned_stores_def store_bytes_def)

lemma unat_add_aligned:
  assumes "8 dvd unat (d :: addr)" "8 dvd k"
  shows "8 dvd unat (d + of_nat k)"
proof -
  have "(8 :: nat) dvd 2 ^ LENGTH(64)" by simp
  then show ?thesis
    using assms by (simp add: unat_word_ariths unat_of_nat dvd_mod_iff mod_add_right_eq)
qed

lemma cpy_words_upto:
  assumes "8 * k \<le> 2 ^ 64" "\<And>i. i < k \<Longrightarrow> tmp ! i = bytes_at (pmem s) (src + of_nat (8 * i)) 8"
  shows "let s' = fold (\<lambda>i. store_bytes (dst + of_nat (8 * i)) (tmp ! i)) [0..<k] s in
    pmem s' = copy_chunk dst src (8 * k) (pmem s) \<and> writes (span dst (8 * k)) s s'
    \<and> (8 dvd unat dst \<longrightarrow> aligned_stores s s')"
  using assms
proof (induction k)
  case 0
  then show ?case by (simp add: writes_def aligned_refl)
next
  case (Suc k)
  let ?f = "\<lambda>i. store_bytes (dst + of_nat (8 * i)) (tmp ! i)"
  let ?s = "fold ?f [0..<k] s" and ?p = "dst + of_nat (8 * k)"
  have IH: "pmem ?s = copy_chunk dst src (8 * k) (pmem s)" "writes (span dst (8 * k)) s ?s"
    "8 dvd unat dst \<Longrightarrow> aligned_stores s ?s"
    using Suc by (simp_all add: Let_def)
  have tmp: "tmp ! k = bytes_at (pmem s) (src + of_nat (8 * k)) 8" using Suc.prems(2) by simp
  have e: "fold ?f [0..<Suc k] s = store_bytes ?p (tmp ! k) ?s" by simp
  have k: "8 * k < 2 ^ 64" using Suc.prems(1) by simp
  have "pmem (store_bytes ?p (tmp ! k) ?s) = copy_chunk dst src (8 * k + 8) (pmem s)"
  proof (rule ext)
    fix a
    have "src + of_nat (8 * k) + (a - ?p) = src + (a - dst)" by simp
    with k Suc.prems(1) show "pmem (store_bytes ?p (tmp ! k) ?s) a = copy_chunk dst src (8 * k + 8) (pmem s) a"
      unfolding pmem_store_bytes IH(1) tmp copy_chunk_def shift_offset unat_minus_of_nat [OF k]
      by (auto simp: unat_minus_of_nat [OF k] shift_offset split: if_splits)
  qed
  moreover have "writes (span dst (8 * k) \<union> span ?p 8) s (store_bytes ?p (tmp ! k) ?s)"
    using writes_trans [OF IH(2) writes_store [of ?p "tmp ! k" ?s]] tmp by simp
  then have "writes (span dst (8 * k + 8)) s (store_bytes ?p (tmp ! k) ?s)"
    using span_append [of "8 * k" 8 dst] Suc.prems(1) by simp
  moreover have "aligned_stores s (store_bytes ?p (tmp ! k) ?s)" if "8 dvd unat dst"
    using aligned_trans [OF IH(3) [OF that]] aligned_store tmp unat_add_aligned [OF that, of "8 * k"] by simp
  ultimately show ?case unfolding e Let_def by (simp add: add.commute)
qed

lemma flush_flags_ok:
  assumes "writes R s s1" "R \<subseteq> span a (unat n)" "unat a + unat n + 64 \<le> 2 ^ 64"
  shows "\<exists>s2. pmem_flush_flags F a n flags s1 = Some s2 \<and> pmem s2 = pmem s1
    \<and> outcome F True flags R s s2 \<and> aligned_stores s1 s2"
proof (cases "flushing F flags")
  case True
  then have f: "flush F \<noteq> Flush_empty" by (simp add: flushing_def)
  have L: "R \<subseteq> lines_touched a (unat n)"
    using assms(2,3) span_touched [of a "unat n"] by simp
  from call_flush_effect [OF f assms(3), of s1] obtain s2 where
    s2: "call_flush (flush F) a n s1 = Some s2" "pmem s2 = pmem s1"
    "hw s2 = hw s1 @ map (HFlush (instr_of (flush F))) (flush_lines a (unat n))"
    "dirty s2 = dirty s1 - lines_touched a (unat n)"
    "pending s2 = (if flush F = Flush_clflush then pending s1 - lines_touched a (unat n)
        else pending s1 \<union> (dirty s1 \<inter> lines_touched a (unat n)))"
    by blast
  have "settles F R s s2"
    using assms(1) L s2(4,5) by (auto simp: settles_def writes_def)
  moreover have "aligned_stores s1 s2" using s2(3) by (auto simp: aligned_stores_def)
  moreover have "pmem_flush_flags F a n flags s1 = Some s2"
    using True s2(1) by (simp add: pmem_flush_flags_def pmem_flush_def flushing_def)
  ultimately show ?thesis using True s2(2) by (auto simp: outcome_def)
next
  case False
  let ?s = "emit (HPmcFlush a n) s1"
  from False consider "pmem_flush_flags F a n flags s1 = Some s1" | "pmem_flush_flags F a n flags s1 = Some ?s"
    by (cases "flags AND PMEM_F_MEM_NOFLUSH = 0")
      (simp_all add: pmem_flush_flags_def pmem_flush_def flushing_def flush_empty_nolog_def)
  moreover have "risks ?s = risks s1" by (cases "risks s1") (simp add: risks_emit)
  moreover have "aligned_stores s1 ?s" by (simp add: aligned_stores_def)
  ultimately show ?thesis
    using False assms(1) by cases (auto simp: outcome_def aligned_refl writes_def)
qed

section \<open>Loops over blocks\<close>

text \<open>The contract of the functions that copy one block, and the loops that call them.\<close>

locale block_copier =
  fixes cpy :: "addr \<Rightarrow> addr \<Rightarrow> pm \<Rightarrow> pm" and w :: u64
  assumes w_pos: "0 < unat w" and w_small: "unat w \<le> 128" and w_words: "8 dvd unat w"
    and cpy_mem: "pmem (cpy d c s) = copy_chunk d c (unat w) (pmem s)"
    and cpy_writes: "writes (span d (unat w)) s (cpy d c s)"
    and cpy_aligned: "8 dvd unat d \<Longrightarrow> aligned_stores s (cpy d c s)"
begin

lemma one_block:
  assumes "unat d + unat w + 64 \<le> 2 ^ 64"
  shows "\<exists>s'. (if fl then pmem_flush_flags F d w flags (cpy d c s) else Some (cpy d c s)) = Some s'
    \<and> pmem s' = copy_chunk d c (unat w) (pmem s) \<and> outcome F fl flags (span d (unat w)) s s'
    \<and> (8 dvd unat d \<longrightarrow> aligned_stores s s')"
proof (cases fl)
  case True
  from flush_flags_ok [OF cpy_writes order.refl assms, of F flags c s] obtain s' where
    "pmem_flush_flags F d w flags (cpy d c s) = Some s'" "pmem s' = pmem (cpy d c s)"
    "outcome F True flags (span d (unat w)) s s'" "aligned_stores (cpy d c s) s'"
    by blast
  with True aligned_trans [OF cpy_aligned] show ?thesis by (auto simp: cpy_mem)
next
  case False
  then show ?thesis using cpy_writes cpy_aligned by (simp add: cpy_mem outcome_def)
qed

lemma len_step:
  assumes "w \<le> len"
  shows "unat (len - w) = unat len - unat w" "unat w \<le> unat len"
    "unat len div unat w * unat w = unat w + (unat len - unat w) div unat w * unat w"
proof -
  show le: "unat w \<le> unat len" using assms by (simp add: word_le_nat_alt)
  show "unat (len - w) = unat len - unat w" using assms by (rule unat_sub)
  show "unat len div unat w * unat w = unat w + (unat len - unat w) div unat w * unat w"
    using le w_pos by (simp add: le_div_geq)
qed

lemma blocks_up_eq:
  "unat dst + unat len + 64 \<le> 2 ^ 64 \<Longrightarrow> unat len \<le> unat (dst - src) \<Longrightarrow>
   \<exists>s'. let k = unat len div unat w * unat w in
     blocks_up F cpy w fl flags dst src len s = Some (dst + of_nat k, src + of_nat k, len - of_nat k, s')
     \<and> pmem s' = copy_chunk dst src k (pmem s) \<and> outcome F fl flags (span dst k) s s'
     \<and> (8 dvd unat dst \<longrightarrow> aligned_stores s s')"
proof (induction "unat len" arbitrary: dst src len s rule: less_induct)
  case less
  show ?case
  proof (cases "w \<le> len")
    case True
    note l = len_step [OF True]
    have b: "unat dst + unat w + 64 \<le> 2 ^ 64" using less.prems(1) l(2) by simp
    then have dw: "unat (dst + w) = unat dst + unat w" by (intro unat_plus_no_overflow) simp
    from one_block [OF b, of fl F flags src s] obtain s1 where
      s1: "(if fl then pmem_flush_flags F dst w flags (cpy dst src s) else Some (cpy dst src s)) = Some s1"
      "pmem s1 = copy_chunk dst src (unat w) (pmem s)" "outcome F fl flags (span dst (unat w)) s s1"
      "8 dvd unat dst \<Longrightarrow> aligned_stores s s1" by blast
    define k' where "k' = unat (len - w) div unat w * unat w"
    have k: "unat len div unat w * unat w = unat w + k'" using l(1,3) by (simp add: k'_def)
    have k'_le: "k' \<le> unat len - unat w" using l(1) by (simp add: k'_def)
    have lt: "unat (len - w) < unat len" using l(1,2) w_pos by simp
    have p1: "unat (dst + w) + unat (len - w) + 64 \<le> 2 ^ 64" using less.prems(1) dw l(1,2) by simp
    have p2: "unat (len - w) \<le> unat ((dst + w) - (src + w))" using less.prems(2) l(1) by simp
    from less.hyps [OF lt p1 p2, of s1] obtain s' where
      s': "blocks_up F cpy w fl flags (dst + w) (src + w) (len - w) s1 =
          Some (dst + w + of_nat k', src + w + of_nat k', len - w - of_nat k', s')"
      "pmem s' = copy_chunk (dst + w) (src + w) k' (pmem s1)" "outcome F fl flags (span (dst + w) k') s1 s'"
      "8 dvd unat (dst + w) \<Longrightarrow> aligned_stores s1 s'"
      by (auto simp: Let_def k'_def)
    have wk: "of_nat (unat w + k') = w + of_nat k'" by simp
    have "blocks_up F cpy w fl flags dst src len s =
        Some (dst + of_nat (unat w + k'), src + of_nat (unat w + k'), len - of_nat (unat w + k'), s')"
      unfolding wk using s'(1) True
      by (subst blocks_up.simps) (simp add: s1(1) add.assoc diff_diff_eq)
    moreover have "pmem s' = copy_chunk dst src (unat w + k') (pmem s)"
      using copy_chunk_up [of "unat w" k' dst src "pmem s"] k'_le l(2) less.prems(2)
      by (simp add: s'(2) s1(2))
    moreover have "outcome F fl flags (span dst (unat w + k')) s s'"
      using outcome_trans [OF s1(3) s'(3)] span_append [of "unat w" k' dst] k'_le l(2) less.prems(1) by simp
    moreover have "aligned_stores s s'" if "8 dvd unat dst"
      using aligned_trans [OF s1(4) [OF that] s'(4)] that dw w_words by simp
    ultimately show ?thesis unfolding k Let_def by blast
  next
    case False
    then have "unat len div unat w = 0" by (simp add: word_le_nat_alt not_le)
    with False show ?thesis
      by (subst blocks_up.simps) (simp add: outcome_refl aligned_refl)
  qed
qed

lemma blocks_down_eq:
  "unat dst + unat len + 64 \<le> 2 ^ 64 \<Longrightarrow> unat (dst - src) + unat len \<le> 2 ^ 64 \<Longrightarrow>
   \<exists>s'. let k = unat len div unat w * unat w; r = len - of_nat k in
     blocks_down F cpy w fl flags (dst + len) (src + len) len s = Some (dst + r, src + r, r, s')
     \<and> pmem s' = copy_chunk (dst + r) (src + r) k (pmem s) \<and> outcome F fl flags (span (dst + r) k) s s'
     \<and> (8 dvd unat (dst + len) \<longrightarrow> aligned_stores s s')"
proof (induction "unat len" arbitrary: len s rule: less_induct)
  case less
  show ?case
  proof (cases "w \<le> len")
    case True
    note l = len_step [OF True]
    let ?l = "len - w"
    have e: "dst + len - w = dst + ?l" "src + len - w = src + ?l" by simp_all
    have dl: "unat (dst + ?l) = unat dst + unat ?l" "unat (dst + len) = unat dst + unat len"
      using less.prems(1) l(1,2) by (intro unat_plus_no_overflow; simp)+
    have b: "unat (dst + ?l) + unat w + 64 \<le> 2 ^ 64" using less.prems(1) dl l(1,2) by simp
    from one_block [OF b, of fl F flags "src + ?l" s] obtain s1 where
      s1: "(if fl then pmem_flush_flags F (dst + ?l) w flags (cpy (dst + ?l) (src + ?l) s)
            else Some (cpy (dst + ?l) (src + ?l) s)) = Some s1"
      "pmem s1 = copy_chunk (dst + ?l) (src + ?l) (unat w) (pmem s)"
      "outcome F fl flags (span (dst + ?l) (unat w)) s s1"
      "8 dvd unat (dst + ?l) \<Longrightarrow> aligned_stores s s1" by blast
    define k' r where "k' = unat ?l div unat w * unat w" and "r = ?l - of_nat k'"
    have k: "unat len div unat w * unat w = k' + unat w" using l(1,3) by (simp add: k'_def)
    have r: "len - of_nat (k' + unat w) = r" by (simp add: r_def)
    have k'_le: "k' \<le> unat ?l" by (simp add: k'_def)
    have lt: "unat ?l < unat len" using l(1,2) w_pos by simp
    have p1: "unat dst + unat ?l + 64 \<le> 2 ^ 64" using less.prems(1) l(1) by simp
    have p2: "unat (dst - src) + unat ?l \<le> 2 ^ 64" using less.prems(2) l(1) by simp
    from less.hyps [OF lt p1 p2, of s1] obtain s' where
      s': "blocks_down F cpy w fl flags (dst + ?l) (src + ?l) ?l s1 = Some (dst + r, src + r, r, s')"
      "pmem s' = copy_chunk (dst + r) (src + r) k' (pmem s1)" "outcome F fl flags (span (dst + r) k') s1 s'"
      "8 dvd unat (dst + ?l) \<Longrightarrow> aligned_stores s1 s'"
      by (auto simp: Let_def k'_def r_def)
    have rk: "dst + r + of_nat k' = dst + ?l" "src + r + of_nat k' = src + ?l" by (simp_all add: r_def)
    have "blocks_down F cpy w fl flags (dst + len) (src + len) len s = Some (dst + r, src + r, r, s')"
      unfolding blocks_down.simps [of F cpy w fl flags "dst + len" "src + len"] e s1(1)
      using s'(1) True by simp
    moreover have "pmem s' = copy_chunk (dst + r) (src + r) (k' + unat w) (pmem s)"
      using copy_chunk_down [of "dst + r" "src + r" k' "unat w" "pmem s"] k'_le l(1,2) less.prems(2)
      by (simp add: s'(2) s1(2) rk)
    moreover have "outcome F fl flags (span (dst + r) (k' + unat w)) s s'"
      using outcome_trans [OF s1(3) s'(3)] span_append [of k' "unat w" "dst + r"] k'_le l(1,2) less.prems(1)
      by (simp add: rk Un_commute)
    moreover have "aligned_stores s s'" if "8 dvd unat (dst + len)"
    proof -
      have "8 dvd unat (dst + ?l)" using that dl l(1,2) w_words by (simp add: dvd_diff_nat)
      then show ?thesis using aligned_trans [OF s1(4) s'(4)] by simp
    qed
    ultimately show ?thesis unfolding k r Let_def by blast
  next
    case False
    then have "unat len div unat w = 0" by (simp add: word_le_nat_alt not_le)
    with False show ?thesis
      by (subst blocks_down.simps) (simp add: outcome_refl aligned_refl)
  qed
qed

end

lemma cpy_words_copier:
  assumes "0 < w" "w \<le> 16"
  shows "block_copier (cpy_words w) (of_nat (8 * w))"
proof -
  have w: "unat (of_nat (8 * w) :: u64) = 8 * w" using assms(2) by (intro unat_of_nat_line) simp
  have c: "pmem (cpy_words w d c s) = copy_chunk d c (8 * w) (pmem s) \<and> writes (span d (8 * w)) s (cpy_words w d c s)
      \<and> (8 dvd unat d \<longrightarrow> aligned_stores s (cpy_words w d c s))" for d c s
    using cpy_words_upto [of w "map (\<lambda>i. load8 (c + of_nat (8 * i)) s) [0..<w]" s c d] assms(2)
    by (simp add: cpy_words_def load8_def Let_def)
  show ?thesis
    by unfold_locales (use assms c w in \<open>simp_all del: of_nat_mult\<close>)
qed

interpretation c128: block_copier cpy128 128
  using cpy_words_copier [of 16] by (simp add: cpy128_def)

interpretation c64: block_copier cpy64 64
  using cpy_words_copier [of 8] by (simp add: cpy64_def)

interpretation c8: block_copier cpy8 8
  using cpy_words_copier [of 1] by (simp add: cpy8_def)

section \<open>Loops over bytes\<close>

lemma copy_byte_step:
  "pmem (copy_byte d c i s) = copy_chunk (d + of_nat i) (c + of_nat i) 1 (pmem s)"
  "writes (span (d + of_nat i) 1) s (copy_byte d c i s)"
proof -
  have e: "a = d + of_nat i" if "unat (a - (d + of_nat i)) = 0" for a
    using that by (simp add: unat_eq_0)
  show "pmem (copy_byte d c i s) = copy_chunk (d + of_nat i) (c + of_nat i) 1 (pmem s)"
    by (auto simp: copy_byte_def pmem_store_bytes copy_chunk_def fun_eq_iff dest!: e)
  show "writes (span (d + of_nat i) 1) s (copy_byte d c i s)"
    using writes_store [of "d + of_nat i" "[pmem s (c + of_nat i)]" s] by (simp add: copy_byte_def)
qed

lemma bytes_up_eq:
  assumes "unat n \<le> unat (d - c)"
  shows "pmem (bytes_up d c n s) = copy_chunk d c (unat n) (pmem s)"
    "writes (span d (unat n)) s (bytes_up d c n s)"
proof -
  have "pmem (fold (copy_byte d c) [0..<k] s) = copy_chunk d c k (pmem s)
      \<and> writes (span d k) s (fold (copy_byte d c) [0..<k] s)" if "k \<le> unat (d - c)" for k
    using that
  proof (induction k)
    case (Suc k)
    have "k + 1 \<le> 2 ^ 64" using Suc.prems unat_lt_64 [of "d - c"] by simp
    with Suc copy_chunk_up [of k 1 d c "pmem s"] show ?case
      using writes_trans [OF _ copy_byte_step(2) [of d k "fold (copy_byte d c) [0..<k] s" c]]
        span_append [of k 1 d] by (simp add: copy_byte_step)
  qed (simp add: writes_def)
  from this [OF assms] show "pmem (bytes_up d c n s) = copy_chunk d c (unat n) (pmem s)"
    "writes (span d (unat n)) s (bytes_up d c n s)"
    by (simp_all add: bytes_up_def)
qed

lemma bytes_down_eq:
  assumes "unat (d - c) + unat n \<le> 2 ^ 64"
  shows "pmem (bytes_down d c n s) = copy_chunk d c (unat n) (pmem s)"
    "writes (span d (unat n)) s (bytes_down d c n s)"
proof -
  have "pmem (fold (copy_byte d c) (rev [0..<k]) s) = copy_chunk d c k (pmem s)
      \<and> writes (span d k) s (fold (copy_byte d c) (rev [0..<k]) s)" if "unat (d - c) + k \<le> 2 ^ 64" for k
    using that
  proof (induction k arbitrary: s)
    case (Suc k)
    let ?s = "copy_byte d c k s"
    have IH: "pmem (fold (copy_byte d c) (rev [0..<k]) ?s) = copy_chunk d c k (pmem ?s)"
      "writes (span d k) ?s (fold (copy_byte d c) (rev [0..<k]) ?s)"
      using Suc by simp_all
    have "k + 1 \<le> 2 ^ 64" using Suc.prems by simp
    with IH copy_chunk_down [of d c k 1 "pmem s"] Suc.prems show ?case
      using writes_trans [OF copy_byte_step(2) IH(2)] span_append [of k 1 d]
      by (simp add: copy_byte_step Un_commute)
  qed (simp add: writes_def)
  from this [OF assms] show "pmem (bytes_down d c n s) = copy_chunk d c (unat n) (pmem s)"
    "writes (span d (unat n)) s (bytes_down d c n s)"
    by (simp_all add: bytes_down_def)
qed

section \<open>The copy\<close>

definition moved :: "pmem_funcs \<Rightarrow> u32 \<Rightarrow> addr \<Rightarrow> addr \<Rightarrow> nat \<Rightarrow> pm \<Rightarrow> pm \<Rightarrow> bool" where
  "moved F flags d c n s s' \<longleftrightarrow>
     pmem s' = copy_chunk d c n (pmem s) \<and> outcome F True flags (span d n) s s'"

lemma moved_0: "moved F flags d c 0 s s"
  by (simp add: moved_def outcome_refl)

lemma moved_up:
  assumes "moved F flags d c a s t" "moved F flags (d + of_nat a) (c + of_nat a) b t u" "a + b \<le> unat (d - c)"
  shows "moved F flags d c (a + b) s u"
proof -
  have "span d (a + b) = span d a \<union> span (d + of_nat a) b"
    using assms(3) unat_lt_64 [of "d - c"] by (intro span_append) simp
  with assms copy_chunk_up [OF assms(3)] outcome_trans show ?thesis by (auto simp: moved_def)
qed

lemma moved_down:
  assumes "moved F flags (d + of_nat a) (c + of_nat a) b s t" "moved F flags d c a t u"
    "unat (d - c) + a + b \<le> 2 ^ 64"
  shows "moved F flags d c (a + b) s u"
proof -
  have "span d (a + b) = span (d + of_nat a) b \<union> span d a"
    using assms(3) span_append [of a b d] by (simp add: Un_commute)
  with assms copy_chunk_down [OF assms(3)] outcome_trans show ?thesis by (auto simp: moved_def)
qed

lemma low_bits: "unat (d AND 7 :: addr) = unat d mod 8"
proof -
  have "d AND 7 = take_bit 3 d" by (simp add: take_bit_eq_mask mask_eq_exp_minus_1)
  then show ?thesis
    using take_bit_eq_mod [of 3 "unat d"] by (simp add: unsigned_take_bit_eq)
qed

lemma head_up_ok:
  assumes "unat d + unat len + 64 \<le> 2 ^ 64" "unat len \<le> unat (d - c)"
  shows "\<exists>h s'. head_up F d c len flags s = Some (d + of_nat h, c + of_nat h, len - of_nat h, s')
    \<and> h \<le> unat len \<and> moved F flags d c h s s' \<and> (8 dvd unat d \<longrightarrow> h = 0 \<and> s' = s)"
proof (cases "d AND 7 = 0")
  case True
  then show ?thesis by (intro exI [of _ 0] exI [of _ s]) (simp add: head_up_def moved_0)
next
  case False
  define cnt :: u64 where "cnt = (if 8 - (d AND 7) > len then len else 8 - (d AND 7))"
  have cnt: "unat cnt \<le> unat len" by (auto simp: cnt_def word_less_nat_alt not_less)
  have b: "unat d + unat cnt + 64 \<le> 2 ^ 64" "unat cnt \<le> unat (d - c)" using assms cnt by simp_all
  from flush_flags_ok [OF bytes_up_eq(2) [OF b(2)] order.refl b(1), of F flags s] obtain s' where
    "pmem_flush_flags F d cnt flags (bytes_up d c cnt s) = Some s'" "pmem s' = pmem (bytes_up d c cnt s)"
    "outcome F True flags (span d (unat cnt)) s s'" by blast
  then have "head_up F d c len flags s = Some (d + cnt, c + cnt, len - cnt, s')" "moved F flags d c (unat cnt) s s'"
    using False by (simp_all add: head_up_def Let_def cnt_def [symmetric] word_gt_0 moved_def bytes_up_eq [OF b(2)])
  moreover have "\<not> 8 dvd unat d" using False low_bits [of d] by (auto simp: dvd_eq_mod_eq_0 unat_eq_0 [symmetric])
  ultimately show ?thesis using cnt by (intro exI [of _ "unat cnt"] exI [of _ s']) simp
qed

lemma tail_up_ok:
  assumes "unat d + unat len + 64 \<le> 2 ^ 64" "unat len \<le> unat (d - c)"
  shows "\<exists>s'. tail_up F d c len flags s = Some s' \<and> moved F flags d c (unat len) s s'
    \<and> (8 dvd unat d \<and> 8 dvd unat len \<longrightarrow> aligned_stores s s')"
proof -
  define k where "k = unat len div 8 * 8"
  have k: "k \<le> unat len" by (simp add: k_def)
  have ku: "unat (len - of_nat k) = unat len - k" by (rule unat_minus_le [OF k])
  from c8.blocks_up_eq [OF assms, of F False flags s] obtain s1 where
    s1: "blocks_up F cpy8 8 False flags d c len s = Some (d + of_nat k, c + of_nat k, len - of_nat k, s1)"
    "pmem s1 = copy_chunk d c k (pmem s)" "writes (span d k) s s1" "8 dvd unat d \<Longrightarrow> aligned_stores s s1"
    by (auto simp: Let_def k_def outcome_def)
  let ?s = "bytes_up (d + of_nat k) (c + of_nat k) (len - of_nat k) s1"
  have o: "unat (len - of_nat k) \<le> unat (d + of_nat k - (c + of_nat k))" using assms(2) ku by simp
  have m: "pmem ?s = copy_chunk d c (unat len) (pmem s)"
    using copy_chunk_up [of k "unat len - k" d c "pmem s"] assms(2) k by (simp add: bytes_up_eq [OF o] s1(2) ku)
  have w: "writes (span d (unat len)) s ?s"
    using writes_trans [OF s1(3) bytes_up_eq(2) [OF o]] span_append [of k "unat len - k" d] assms(1) k
    by (simp add: ku)
  have e: "d + of_nat k + (len - of_nat k) - len = d" by simp
  from flush_flags_ok [OF w order.refl assms(1), of F flags] obtain s' where
    s': "pmem_flush_flags F d len flags ?s = Some s'" "pmem s' = pmem ?s"
    "outcome F True flags (span d (unat len)) s s'" "aligned_stores ?s s'" by blast
  have r: "tail_up F d c len flags s = Some (if len = 0 then ?s else s')"
    using s'(1) by (simp add: tail_up_def s1(1) Let_def e)
  have "moved F flags d c (unat len) s (if len = 0 then ?s else s')"
    using m w s'(2,3) outcome_nothing by (auto simp: moved_def)
  moreover have "aligned_stores s (if len = 0 then ?s else s')" if "8 dvd unat d" "8 dvd unat len"
  proof -
    from that(2) have "len - of_nat k = 0" using ku by (simp add: k_def unat_eq_0 [symmetric])
    then have "?s = s1" by (simp add: bytes_up_def)
    with s1(4) [OF that(1)] s'(4) aligned_trans show ?thesis by auto
  qed
  ultimately show ?thesis using r by blast
qed

lemma memmove_up_ok:
  assumes "unat d + unat len + 64 \<le> 2 ^ 64" "unat len \<le> unat (d - c)"
  shows "\<exists>s'. memmove_up F d c len flags s = Some s' \<and> moved F flags d c (unat len) s s'
    \<and> (8 dvd unat d \<and> 8 dvd unat len \<longrightarrow> aligned_stores s s')"
proof -
  obtain h s1 where h: "head_up F d c len flags s = Some (d + of_nat h, c + of_nat h, len - of_nat h, s1)"
    "h \<le> unat len" "moved F flags d c h s s1" "8 dvd unat d \<Longrightarrow> h = 0 \<and> s1 = s"
    using head_up_ok [OF assms, of F flags s] by blast
  define d1 c1 l1 where "d1 = d + of_nat h" and "c1 = c + of_nat h" and "l1 = len - of_nat h"
  have l1: "unat l1 = unat len - h" by (simp add: l1_def unat_minus_le [OF h(2)])
  have d1: "unat d1 = unat d + h" unfolding d1_def using h(2) assms(1) by (intro unat_plus_nat) simp
  have b1: "unat d1 + unat l1 + 64 \<le> 2 ^ 64" "unat l1 \<le> unat (d1 - c1)"
    using assms h(2) d1 l1 by (simp_all add: d1_def c1_def)
  define k where "k = unat l1 div 64 * 64"
  have k: "k \<le> unat l1" "8 dvd k" by (simp_all add: k_def)
  obtain s2 where s2: "blocks_up F cpy64 64 True flags d1 c1 l1 s1 = Some (d1 + of_nat k, c1 + of_nat k, l1 - of_nat k, s2)"
    "moved F flags d1 c1 k s1 s2" "8 dvd unat d1 \<Longrightarrow> aligned_stores s1 s2"
    using c64.blocks_up_eq [OF b1, of F True flags s1] by (auto simp: Let_def k_def moved_def)
  have l2: "unat (l1 - of_nat k) = unat l1 - k" by (rule unat_minus_le [OF k(1)])
  have d2: "unat (d1 + of_nat k) = unat d1 + k" using k(1) b1(1) by (intro unat_plus_nat) simp
  have b2: "unat (d1 + of_nat k) + unat (l1 - of_nat k) + 64 \<le> 2 ^ 64"
    "unat (l1 - of_nat k) \<le> unat (d1 + of_nat k - (c1 + of_nat k))"
    using b1 k(1) d2 l2 by simp_all
  obtain s3 where s3: "tail_up F (d1 + of_nat k) (c1 + of_nat k) (l1 - of_nat k) flags s2 = Some s3"
    "moved F flags (d1 + of_nat k) (c1 + of_nat k) (unat l1 - k) s2 s3"
    "8 dvd unat (d1 + of_nat k) \<Longrightarrow> 8 dvd unat l1 - k \<Longrightarrow> aligned_stores s2 s3"
    using tail_up_ok [OF b2, of F flags s2] l2 by auto
  have "memmove_up F d c len flags s = Some s3"
    using h(1) s2(1) s3(1) by (simp add: memmove_up_def UTIL_CACHELINE_SIZE_def d1_def c1_def l1_def)
  moreover have "moved F flags d1 c1 (unat l1) s1 s3"
    using moved_up [OF s2(2) s3(2)] k(1) b1(2) by simp
  then have "moved F flags d c (unat len) s s3"
    using moved_up [OF h(3), of "unat l1" s3] h(2) l1 assms(2) by (simp add: d1_def c1_def)
  moreover have "aligned_stores s s3" if "8 dvd unat d" "8 dvd unat len"
    using h(4) [OF that(1)] that aligned_trans [OF s2(3) s3(3)] k l1 d1 d2 by (simp add: dvd_diff_nat)
  ultimately show ?thesis by blast
qed

lemma head_down_ok:
  assumes "unat d + unat len + 64 \<le> 2 ^ 64" "unat (d - c) + unat len \<le> 2 ^ 64"
  shows "\<exists>h s'. head_down F (d + len) (c + len) len flags s
      = Some (d + (len - of_nat h), c + (len - of_nat h), len - of_nat h, s')
    \<and> h \<le> unat len \<and> moved F flags (d + (len - of_nat h)) (c + (len - of_nat h)) h s s'
    \<and> (8 dvd unat (d + len) \<longrightarrow> h = 0 \<and> s' = s)"
proof (cases "(d + len) AND 7 = 0")
  case True
  then show ?thesis by (intro exI [of _ 0] exI [of _ s]) (simp add: head_down_def moved_0)
next
  case False
  define cnt :: u64 where "cnt = (if (d + len) AND 7 > len then len else (d + len) AND 7)"
  have cnt: "unat cnt \<le> unat len" by (auto simp: cnt_def word_less_nat_alt not_less)
  have u: "unat (len - cnt) = unat len - unat cnt" using cnt unat_minus_le [of "unat cnt" len] by simp
  have e: "d + len - cnt = d + (len - cnt)" "c + len - cnt = c + (len - cnt)" by simp_all
  have "unat (d + (len - cnt)) = unat d + unat (len - cnt)"
    using assms(1) u by (intro unat_plus_no_overflow) simp
  then have b: "unat (d + (len - cnt)) + unat cnt + 64 \<le> 2 ^ 64"
    "unat (d + (len - cnt) - (c + (len - cnt))) + unat cnt \<le> 2 ^ 64"
    using assms cnt u by simp_all
  from flush_flags_ok [OF bytes_down_eq(2) [OF b(2)] order.refl b(1), of F flags s] obtain s' where
    "pmem_flush_flags F (d + (len - cnt)) cnt flags (bytes_down (d + (len - cnt)) (c + (len - cnt)) cnt s) = Some s'"
    "pmem s' = pmem (bytes_down (d + (len - cnt)) (c + (len - cnt)) cnt s)"
    "outcome F True flags (span (d + (len - cnt)) (unat cnt)) s s'" by blast
  then have "head_down F (d + len) (c + len) len flags s = Some (d + (len - cnt), c + (len - cnt), len - cnt, s')"
    "moved F flags (d + (len - cnt)) (c + (len - cnt)) (unat cnt) s s'"
    using False
    by (simp_all add: head_down_def Let_def cnt_def [symmetric] word_gt_0 moved_def bytes_down_eq [OF b(2)] e)
  moreover have "\<not> 8 dvd unat (d + len)"
    using False low_bits [of "d + len"] by (auto simp: dvd_eq_mod_eq_0 unat_eq_0 [symmetric])
  ultimately show ?thesis using cnt by (intro exI [of _ "unat cnt"] exI [of _ s']) simp
qed

lemma tail_down_ok:
  assumes "unat d + unat len + 64 \<le> 2 ^ 64" "unat (d - c) + unat len \<le> 2 ^ 64"
  shows "\<exists>s'. tail_down F (d + len) (c + len) len flags s = Some s' \<and> moved F flags d c (unat len) s s'
    \<and> (8 dvd unat (d + len) \<and> 8 dvd unat len \<longrightarrow> aligned_stores s s')"
proof -
  define k r where "k = unat len div 8 * 8" and "r = len - of_nat k"
  have k: "k \<le> unat len" by (simp add: k_def)
  have r: "unat r = unat len - k" by (simp add: r_def unat_minus_le [OF k])
  from c8.blocks_down_eq [OF assms, of F False flags s] obtain s1 where
    s1: "blocks_down F cpy8 8 False flags (d + len) (c + len) len s = Some (d + r, c + r, r, s1)"
    "pmem s1 = copy_chunk (d + r) (c + r) k (pmem s)" "writes (span (d + r) k) s s1"
    "8 dvd unat (d + len) \<Longrightarrow> aligned_stores s s1"
    by (auto simp: Let_def k_def r_def outcome_def)
  let ?s = "bytes_down d c r s1"
  have o: "unat (d - c) + unat r \<le> 2 ^ 64" using assms(2) r by simp
  have m: "pmem ?s = copy_chunk d c (unat len) (pmem s)"
    using copy_chunk_down [of d c "unat r" k "pmem s", unfolded of_nat_unat_64] assms(2) k r by (simp add: bytes_down_eq [OF o] s1(2))
  have w: "writes (span d (unat len)) s ?s"
    using writes_trans [OF s1(3) bytes_down_eq(2) [OF o]] span_append [of "unat r" k d, unfolded of_nat_unat_64] assms(1) k r
    by (simp add: Un_commute)
  from flush_flags_ok [OF w order.refl assms(1), of F flags] obtain s' where
    s': "pmem_flush_flags F d len flags ?s = Some s'" "pmem s' = pmem ?s"
    "outcome F True flags (span d (unat len)) s s'" "aligned_stores ?s s'" by blast
  have t: "tail_down F (d + len) (c + len) len flags s = Some (if len = 0 then ?s else s')"
    using s'(1) by (simp add: tail_down_def s1(1) Let_def)
  have "moved F flags d c (unat len) s (if len = 0 then ?s else s')"
    using m w s'(2,3) outcome_nothing by (auto simp: moved_def)
  moreover have "aligned_stores s (if len = 0 then ?s else s')" if "8 dvd unat (d + len)" "8 dvd unat len"
  proof -
    from that(2) have "r = 0" using r by (simp add: k_def unat_eq_0 [symmetric])
    then have "?s = s1" by (simp add: bytes_down_def)
    with s1(4) [OF that(1)] s'(4) aligned_trans show ?thesis by auto
  qed
  ultimately show ?thesis using t by blast
qed

lemma memmove_down_ok:
  assumes "unat d + unat len + 64 \<le> 2 ^ 64" "unat (d - c) + unat len \<le> 2 ^ 64"
  shows "\<exists>s'. memmove_down F d c len flags s = Some s' \<and> moved F flags d c (unat len) s s'
    \<and> (8 dvd unat d \<and> 8 dvd unat len \<longrightarrow> aligned_stores s s')"
proof -
  obtain h s1 where h: "head_down F (d + len) (c + len) len flags s
      = Some (d + (len - of_nat h), c + (len - of_nat h), len - of_nat h, s1)" "h \<le> unat len"
    "moved F flags (d + (len - of_nat h)) (c + (len - of_nat h)) h s s1"
    "8 dvd unat (d + len) \<Longrightarrow> h = 0 \<and> s1 = s"
    using head_down_ok [OF assms, of F flags s] by blast
  define l1 where "l1 = len - of_nat h"
  have l1: "unat l1 = unat len - h" by (simp add: l1_def unat_minus_le [OF h(2)])
  have b1: "unat d + unat l1 + 64 \<le> 2 ^ 64" "unat (d - c) + unat l1 \<le> 2 ^ 64" using assms l1 by simp_all
  define k l2 where "k = unat l1 div 64 * 64" and "l2 = l1 - of_nat k"
  have k: "k \<le> unat l1" "8 dvd k" by (simp_all add: k_def)
  have l2: "unat l2 = unat l1 - k" by (simp add: l2_def unat_minus_le [OF k(1)])
  obtain s2 where s2: "blocks_down F cpy64 64 True flags (d + l1) (c + l1) l1 s1 = Some (d + l2, c + l2, l2, s2)"
    "moved F flags (d + l2) (c + l2) k s1 s2" "8 dvd unat (d + l1) \<Longrightarrow> aligned_stores s1 s2"
    using c64.blocks_down_eq [OF b1, of F True flags s1] by (auto simp: Let_def k_def l2_def moved_def)
  have b2: "unat d + unat l2 + 64 \<le> 2 ^ 64" "unat (d - c) + unat l2 \<le> 2 ^ 64" using b1 l2 by simp_all
  obtain s3 where s3: "tail_down F (d + l2) (c + l2) l2 flags s2 = Some s3" "moved F flags d c (unat l2) s2 s3"
    "8 dvd unat (d + l2) \<Longrightarrow> 8 dvd unat l2 \<Longrightarrow> aligned_stores s2 s3"
    using tail_down_ok [OF b2, of F flags s2] by auto
  have "memmove_down F d c len flags s = Some s3"
    using h(1) s2(1) s3(1) by (simp add: memmove_down_def UTIL_CACHELINE_SIZE_def l1_def)
  moreover have "moved F flags d c (unat l1) s1 s3"
    using moved_down [of F flags d "unat l2" c k s1 s2 s3, unfolded of_nat_unat_64] s2(2) s3(2) k(1) l2 b1(2) by simp
  then have "moved F flags d c (unat len) s s3"
    using moved_down [of F flags d "unat l1" c h s s1 s3, unfolded of_nat_unat_64] h(2,3) l1 assms(2) by (simp add: l1_def)
  moreover have "aligned_stores s s3" if "8 dvd unat d" "8 dvd unat len"
  proof -
    have "unat (d + x) = unat d + unat x" if "unat x \<le> unat len" for x
      using that assms(1) by (intro unat_plus_no_overflow) simp
    with that l1 l2 k have "8 dvd unat (d + len)" "h = 0 \<Longrightarrow> 8 dvd unat (d + l1)" "h = 0 \<Longrightarrow> 8 dvd unat (d + l2)"
      "h = 0 \<Longrightarrow> 8 dvd unat l2" by (simp_all add: dvd_diff_nat)
    with h(4) aligned_trans [OF s2(3) s3(3)] show ?thesis by simp
  qed
  ultimately show ?thesis by blast
qed

theorem memmove_nodrain_generic_ok:
  assumes "unat d + unat len + 64 \<le> 2 ^ 64" "unat c + unat len \<le> 2 ^ 64"
  shows "\<exists>s'. memmove_nodrain_generic F d c len flags s = Some s' \<and> moved F flags d c (unat len) s s'
    \<and> (8 dvd unat d \<and> 8 dvd unat len \<longrightarrow> aligned_stores s s')"
proof (cases "d - c \<ge> len")
  case True
  with memmove_up_ok [OF assms(1), of c F flags s] show ?thesis
    by (simp add: memmove_nodrain_generic_def word_le_nat_alt)
next
  case False
  have "unat (d - c) + unat len \<le> 2 ^ 64"
  proof (cases "c \<le> d")
    case True
    then show ?thesis using assms(1) by (simp add: unat_sub)
  next
    case lt: False
    then have "unat d < unat c" by (simp add: word_le_nat_alt)
    then have "unat (d - c) = unat d + 2 ^ 64 - unat c" using unat_minus_of_nat [OF unat_lt_64, of d c] by simp
    with False assms(2) show ?thesis by (simp add: word_le_nat_alt)
  qed
  with memmove_down_ok [OF assms(1) this, of F flags s] False show ?thesis
    by (simp add: memmove_nodrain_generic_def)
qed

end
