(* ===== verification/Pmem_Memset_Correct.thy ===== *)
theory Pmem_Memset_Correct
  imports Pmem_Memops_Correct
begin

text \<open>Correctness of the portable fill, along the lines of the copy.\<close>

section \<open>Blocks\<close>

lemma le_bytes_fill: "le_bytes (fill_word c) = replicate 8 c"
proof (rule nth_equalityI)
  fix i
  assume "i < length (le_bytes (fill_word c))"
  then have i: "i < 8" by (simp add: le_bytes_def)
  have "ucast (drop_bit (8 * i) (fill_word c)) = c"
  proof (rule bit_word_eqI)
    fix n
    assume n: "n < LENGTH(8)"
    have "i \<in> {0, 1, 2, 3, 4, 5, 6, 7}" using i by (simp, presburger)
    then show "bit (ucast (drop_bit (8 * i) (fill_word c)) :: u8) n = bit c n"
      using n by (elim insertE emptyE; simp add: fill_word_def Let_def bit_simps) (auto dest: bit_imp_le_length)
  qed
  with i show "le_bytes (fill_word c) ! i = replicate 8 c ! i" by (simp add: le_bytes_def)
qed (simp add: le_bytes_def)

lemma pmem_store_same: "pmem (store_bytes p (replicate n v) s) = fill_chunk p v n (pmem s)"
  by (auto simp: pmem_store_bytes fill_chunk_def)

lemma store8_ok:
  "pmem (store8 p (fill_word v) s) = fill_chunk p v 8 (pmem s)"
  "writes (span p 8) s (store8 p (fill_word v) s)"
  "8 dvd unat p \<Longrightarrow> aligned_stores s (store8 p (fill_word v) s)"
  using writes_store [of p "replicate 8 v" s] aligned_store [of "replicate 8 v" p s]
  by (simp_all add: store8_def le_bytes_fill pmem_store_same)

lemma store8s_ok:
  assumes "8 * w \<le> 2 ^ 64"
  shows "pmem (store8s w (fill_word v) d s) = fill_chunk d v (8 * w) (pmem s)
    \<and> writes (span d (8 * w)) s (store8s w (fill_word v) d s)
    \<and> (8 dvd unat d \<longrightarrow> aligned_stores s (store8s w (fill_word v) d s))"
  using assms
proof (induction w)
  case 0
  then show ?case by (simp add: store8s_def writes_def aligned_refl)
next
  case (Suc w)
  let ?s = "store8s w (fill_word v) d s" and ?p = "d + of_nat (8 * w)"
  have IH: "pmem ?s = fill_chunk d v (8 * w) (pmem s)" "writes (span d (8 * w)) s ?s"
    "8 dvd unat d \<Longrightarrow> aligned_stores s ?s"
    using Suc by simp_all
  have e: "store8s (Suc w) (fill_word v) d s = store8 ?p (fill_word v) ?s" by (simp add: store8s_def)
  have "8 * w + 8 \<le> 2 ^ 64" using Suc.prems by simp
  note a = fill_chunk_append [OF this, of d v "pmem s"] span_append [OF this, of d]
  have "aligned_stores s (store8 ?p (fill_word v) ?s)" if "8 dvd unat d"
    by (rule aligned_trans [OF IH(3) [OF that] store8_ok(3)]) (simp add: unat_add_aligned [OF that] del: of_nat_mult)
  moreover have "writes (span d (8 * w + 8)) s (store8 ?p (fill_word v) ?s)"
    using writes_trans [OF IH(2) store8_ok(2) [of ?p ?s v]] a(2) by simp
  moreover have "pmem (store8 ?p (fill_word v) ?s) = fill_chunk d v (8 * w + 8) (pmem s)"
    using a(1) by (simp add: store8_ok(1) IH(1))
  ultimately show ?case unfolding e by (simp add: add.commute)
qed

lemma bytes_fill_eq:
  "pmem (bytes_fill d v n s) = fill_chunk d v (unat n) (pmem s)"
  "writes (span d (unat n)) s (bytes_fill d v n s)"
proof -
  let ?f = "\<lambda>i. store_bytes (d + of_nat i) [v]"
  have "pmem (fold ?f [0..<k] s) = fill_chunk d v k (pmem s) \<and> writes (span d k) s (fold ?f [0..<k] s)"
    if "k \<le> 2 ^ 64" for k
    using that
  proof (induction k)
    case (Suc k)
    have k: "k + 1 \<le> 2 ^ 64" using Suc.prems by simp
    have "pmem (?f k t) = fill_chunk (d + of_nat k) v 1 (pmem t)" for t
      using pmem_store_same [of "d + of_nat k" 1 v t] by simp
    with Suc fill_chunk_append [OF k, of d v "pmem s"] span_append [OF k, of d] show ?case
      using writes_trans [OF _ writes_store [of "d + of_nat k" "[v]" "fold ?f [0..<k] s"]] by simp
  qed (simp add: writes_def)
  from this [of "unat n"] show "pmem (bytes_fill d v n s) = fill_chunk d v (unat n) (pmem s)"
    "writes (span d (unat n)) s (bytes_fill d v n s)"
    using unat_lt_64 [of n] by (simp_all add: bytes_fill_def)
qed

section \<open>Loops\<close>

locale block_filler =
  fixes st :: "addr \<Rightarrow> pm \<Rightarrow> pm" and w :: u64 and v :: u8
  assumes w_pos: "0 < unat w" and w_words: "8 dvd unat w"
    and st_mem: "pmem (st d s) = fill_chunk d v (unat w) (pmem s)"
    and st_writes: "writes (span d (unat w)) s (st d s)"
    and st_aligned: "8 dvd unat d \<Longrightarrow> aligned_stores s (st d s)"
begin

lemma one_block:
  assumes "unat d + unat w + 64 \<le> 2 ^ 64"
  shows "\<exists>s'. (if fl then pmem_flush_flags F d w flags (st d s) else Some (st d s)) = Some s'
    \<and> pmem s' = fill_chunk d v (unat w) (pmem s) \<and> outcome F fl flags (span d (unat w)) s s'
    \<and> (8 dvd unat d \<longrightarrow> aligned_stores s s')"
proof (cases fl)
  case True
  from flush_flags_ok [OF st_writes order.refl assms, of F flags s] obtain s' where
    "pmem_flush_flags F d w flags (st d s) = Some s'" "pmem s' = pmem (st d s)"
    "outcome F True flags (span d (unat w)) s s'" "aligned_stores (st d s) s'"
    by blast
  with True aligned_trans [OF st_aligned] show ?thesis by (auto simp: st_mem)
next
  case False
  then show ?thesis using st_writes st_aligned by (simp add: st_mem outcome_def)
qed

lemma blocks_fill_eq:
  "unat dst + unat len + 64 \<le> 2 ^ 64 \<Longrightarrow>
   \<exists>s'. let k = unat len div unat w * unat w in
     blocks_fill F st w fl flags dst len s = Some (dst + of_nat k, len - of_nat k, s')
     \<and> pmem s' = fill_chunk dst v k (pmem s) \<and> outcome F fl flags (span dst k) s s'
     \<and> (8 dvd unat dst \<longrightarrow> aligned_stores s s')"
proof (induction "unat len" arbitrary: dst len s rule: less_induct)
  case less
  show ?case
  proof (cases "w \<le> len")
    case True
    have l: "unat w \<le> unat len" "unat (len - w) = unat len - unat w"
      using True by (simp_all add: word_le_nat_alt unat_sub)
    define k' where "k' = unat (len - w) div unat w * unat w"
    have k: "unat len div unat w * unat w = unat w + k'"
      using l w_pos by (simp add: k'_def le_div_geq)
    have k'_le: "k' \<le> unat len - unat w" using l(2) by (simp add: k'_def)
    have b: "unat dst + unat w + 64 \<le> 2 ^ 64" using less.prems l(1) by simp
    then have dw: "unat (dst + w) = unat dst + unat w" by (intro unat_plus_no_overflow) simp
    from one_block [OF b, of fl F flags s] obtain s1 where
      s1: "(if fl then pmem_flush_flags F dst w flags (st dst s) else Some (st dst s)) = Some s1"
      "pmem s1 = fill_chunk dst v (unat w) (pmem s)" "outcome F fl flags (span dst (unat w)) s s1"
      "8 dvd unat dst \<Longrightarrow> aligned_stores s s1" by blast
    have lt: "unat (len - w) < unat len" using l w_pos by simp
    have p1: "unat (dst + w) + unat (len - w) + 64 \<le> 2 ^ 64" using less.prems dw l by simp
    from less.hyps [OF lt p1, of s1] obtain s' where
      s': "blocks_fill F st w fl flags (dst + w) (len - w) s1 = Some (dst + w + of_nat k', len - w - of_nat k', s')"
      "pmem s' = fill_chunk (dst + w) v k' (pmem s1)" "outcome F fl flags (span (dst + w) k') s1 s'"
      "8 dvd unat (dst + w) \<Longrightarrow> aligned_stores s1 s'"
      by (auto simp: Let_def k'_def)
    have wk: "of_nat (unat w + k') = w + of_nat k'" by simp
    have le: "unat w + k' \<le> 2 ^ 64" using k'_le l(1) less.prems by simp
    have "blocks_fill F st w fl flags dst len s =
        Some (dst + of_nat (unat w + k'), len - of_nat (unat w + k'), s')"
      unfolding wk blocks_fill.simps [of F st w fl flags dst len] s1(1)
      using s'(1) True by (simp add: add.assoc diff_diff_eq)
    moreover have "pmem s' = fill_chunk dst v (unat w + k') (pmem s)"
      using fill_chunk_append [OF le, of dst v "pmem s"] by (simp add: s'(2) s1(2))
    moreover have "outcome F fl flags (span dst (unat w + k')) s s'"
      using outcome_trans [OF s1(3) s'(3)] span_append [OF le, of dst] by simp
    moreover have "aligned_stores s s'" if "8 dvd unat dst"
      using aligned_trans [OF s1(4) [OF that] s'(4)] that dw w_words by simp
    ultimately show ?thesis unfolding k Let_def by blast
  next
    case False
    then have "unat len div unat w = 0" by (simp add: word_le_nat_alt not_le)
    with False show ?thesis
      by (subst blocks_fill.simps) (simp add: outcome_refl aligned_refl)
  qed
qed

end

interpretation f128: block_filler "store8s 16 (fill_word v)" 128 v for v
  by unfold_locales (use store8s_ok [of 16 v] in simp_all)

interpretation f64: block_filler "store8s 8 (fill_word v)" 64 v for v
  by unfold_locales (use store8s_ok [of 8 v] in simp_all)

interpretation f8: block_filler "store8s 1 (fill_word v)" 8 v for v
  by unfold_locales (use store8s_ok [of 1 v] in simp_all)

section \<open>The fill\<close>

definition filled :: "pmem_funcs \<Rightarrow> u32 \<Rightarrow> addr \<Rightarrow> u8 \<Rightarrow> nat \<Rightarrow> pm \<Rightarrow> pm \<Rightarrow> bool" where
  "filled F flags d v n s s' \<longleftrightarrow>
     pmem s' = fill_chunk d v n (pmem s) \<and> outcome F True flags (span d n) s s'"

lemma filled_0: "filled F flags d v 0 s s"
  by (simp add: filled_def outcome_refl)

lemma filled_append:
  assumes "filled F flags d v a s t" "filled F flags (d + of_nat a) v b t u" "a + b \<le> 2 ^ 64"
  shows "filled F flags d v (a + b) s u"
  using assms fill_chunk_append [OF assms(3)] span_append [OF assms(3)] outcome_trans
  by (auto simp: filled_def)

lemma head_fill_ok:
  assumes "unat d + unat len + 64 \<le> 2 ^ 64"
  shows "\<exists>h s'. head_fill F d v len flags s = Some (d + of_nat h, len - of_nat h, s')
    \<and> h \<le> unat len \<and> filled F flags d v h s s' \<and> (8 dvd unat d \<longrightarrow> h = 0 \<and> s' = s)"
proof (cases "d AND 7 = 0")
  case True
  then show ?thesis by (intro exI [of _ 0] exI [of _ s]) (simp add: head_fill_def filled_0)
next
  case False
  define cnt :: u64 where "cnt = (if 8 - (d AND 7) > len then len else 8 - (d AND 7))"
  have cnt: "unat cnt \<le> unat len" by (auto simp: cnt_def word_less_nat_alt not_less)
  have b: "unat d + unat cnt + 64 \<le> 2 ^ 64" using assms cnt by simp
  from flush_flags_ok [OF bytes_fill_eq(2) order.refl b, of F flags v s] obtain s' where
    "pmem_flush_flags F d cnt flags (bytes_fill d v cnt s) = Some s'" "pmem s' = pmem (bytes_fill d v cnt s)"
    "outcome F True flags (span d (unat cnt)) s s'" by blast
  then have "head_fill F d v len flags s = Some (d + cnt, len - cnt, s')" "filled F flags d v (unat cnt) s s'"
    using False by (simp_all add: head_fill_def Let_def cnt_def [symmetric] word_gt_0 filled_def bytes_fill_eq)
  moreover have "\<not> 8 dvd unat d" using False low_bits [of d] by (auto simp: dvd_eq_mod_eq_0 unat_eq_0 [symmetric])
  ultimately show ?thesis using cnt by (intro exI [of _ "unat cnt"] exI [of _ s']) simp
qed

lemma tail_fill_ok:
  assumes "unat d + unat len + 64 \<le> 2 ^ 64"
  shows "\<exists>s'. tail_fill F d v len flags s = Some s' \<and> filled F flags d v (unat len) s s'
    \<and> (8 dvd unat d \<and> 8 dvd unat len \<longrightarrow> aligned_stores s s')"
proof -
  define k where "k = unat len div 8 * 8"
  have k: "k \<le> unat len" by (simp add: k_def)
  have ku: "unat (len - of_nat k) = unat len - k" by (rule unat_minus_le [OF k])
  from f8.blocks_fill_eq [OF assms, of F v False flags s] obtain s1 where
    s1: "blocks_fill F (store8s 1 (fill_word v)) 8 False flags d len s = Some (d + of_nat k, len - of_nat k, s1)"
    "pmem s1 = fill_chunk d v k (pmem s)" "writes (span d k) s s1" "8 dvd unat d \<Longrightarrow> aligned_stores s s1"
    by (auto simp: Let_def k_def outcome_def)
  let ?s = "bytes_fill (d + of_nat k) v (len - of_nat k) s1"
  have le: "k + (unat len - k) \<le> 2 ^ 64" using k unat_lt_64 [of len] by simp
  have m: "pmem ?s = fill_chunk d v (unat len) (pmem s)"
    using fill_chunk_append [OF le, of d v "pmem s"] k by (simp add: bytes_fill_eq s1(2) ku)
  have w: "writes (span d (unat len)) s ?s"
    using writes_trans [OF s1(3) bytes_fill_eq(2)] span_append [OF le, of d] k ku by (metis le_add_diff_inverse)
  have e: "d + of_nat k + (len - of_nat k) - len = d" by simp
  from flush_flags_ok [OF w order.refl assms, of F flags] obtain s' where
    s': "pmem_flush_flags F d len flags ?s = Some s'" "pmem s' = pmem ?s"
    "outcome F True flags (span d (unat len)) s s'" "aligned_stores ?s s'" by blast
  have r: "tail_fill F d v len flags s = Some (if len = 0 then ?s else s')"
    unfolding tail_fill_def Let_def s1(1) using s'(1) e by simp
  have "filled F flags d v (unat len) s (if len = 0 then ?s else s')"
    using m w s'(2,3) outcome_nothing by (auto simp: filled_def)
  moreover have "aligned_stores s (if len = 0 then ?s else s')" if "8 dvd unat d" "8 dvd unat len"
  proof -
    from that(2) have "len - of_nat k = 0" using ku by (simp add: k_def unat_eq_0 [symmetric])
    then have "?s = s1" by (simp add: bytes_fill_def)
    with s1(4) [OF that(1)] s'(4) aligned_trans show ?thesis by auto
  qed
  ultimately show ?thesis using r by blast
qed

theorem memset_nodrain_generic_ok:
  assumes "unat d + unat len + 64 \<le> 2 ^ 64"
  shows "\<exists>s'. memset_nodrain_generic F d c len flags s = Some s' \<and> filled F flags d (ucast c) (unat len) s s'
    \<and> (8 dvd unat d \<and> 8 dvd unat len \<longrightarrow> aligned_stores s s')"
proof -
  define v :: u8 where "v = ucast c"
  obtain h s1 where h: "head_fill F d v len flags s = Some (d + of_nat h, len - of_nat h, s1)"
    "h \<le> unat len" "filled F flags d v h s s1" "8 dvd unat d \<Longrightarrow> h = 0 \<and> s1 = s"
    using head_fill_ok [OF assms, of F v flags s] by blast
  define d1 l1 where "d1 = d + of_nat h" and "l1 = len - of_nat h"
  have l1: "unat l1 = unat len - h" by (simp add: l1_def unat_minus_le [OF h(2)])
  have d1: "unat d1 = unat d + h" unfolding d1_def using h(2) assms by (intro unat_plus_nat) simp
  have b1: "unat d1 + unat l1 + 64 \<le> 2 ^ 64" using assms h(2) d1 l1 by simp
  define k where "k = unat l1 div 64 * 64"
  have k: "k \<le> unat l1" "8 dvd k" by (simp_all add: k_def)
  obtain s2 where s2: "blocks_fill F (store8s 8 (fill_word v)) 64 True flags d1 l1 s1 = Some (d1 + of_nat k, l1 - of_nat k, s2)"
    "filled F flags d1 v k s1 s2" "8 dvd unat d1 \<Longrightarrow> aligned_stores s1 s2"
    using f64.blocks_fill_eq [OF b1, of F v True flags s1] by (auto simp: Let_def k_def filled_def)
  have l2: "unat (l1 - of_nat k) = unat l1 - k" by (rule unat_minus_le [OF k(1)])
  have d2: "unat (d1 + of_nat k) = unat d1 + k" using k(1) b1 by (intro unat_plus_nat) simp
  have b2: "unat (d1 + of_nat k) + unat (l1 - of_nat k) + 64 \<le> 2 ^ 64" using b1 k(1) d2 l2 by simp
  obtain s3 where s3: "tail_fill F (d1 + of_nat k) v (l1 - of_nat k) flags s2 = Some s3"
    "filled F flags (d1 + of_nat k) v (unat l1 - k) s2 s3"
    "8 dvd unat (d1 + of_nat k) \<Longrightarrow> 8 dvd unat l1 - k \<Longrightarrow> aligned_stores s2 s3"
    using tail_fill_ok [OF b2, of F v flags s2] l2 by auto
  have "memset_nodrain_generic F d c len flags s = Some s3"
    using h(1) s2(1) s3(1) by (simp add: memset_nodrain_generic_def UTIL_CACHELINE_SIZE_def d1_def l1_def v_def Let_def)
  moreover have "filled F flags d1 v (unat l1) s1 s3"
    using filled_append [OF s2(2) s3(2)] k(1) b1 by simp
  then have "filled F flags d v (unat len) s s3"
    using filled_append [OF h(3), of "unat l1" s3] h(2) l1 assms by (simp add: d1_def)
  moreover have "aligned_stores s s3" if "8 dvd unat d" "8 dvd unat len"
    using h(4) [OF that(1)] that aligned_trans [OF s2(3) s3(3)] k l1 d1 d2 by (simp add: dvd_diff_nat)
  ultimately show ?thesis unfolding v_def by blast
qed

end
