(* ===== verification/Pmem_Simd.thy ===== *)
theory Pmem_Simd
  imports Pmem_Memops
begin

text \<open>
  The vector routines of libpmem (\<open>libpmem/x86_64/memcpy\<close> and \<open>libpmem/x86_64/memset\<close>): copies and
  fills with the registers of SSE2, AVX and AVX512F, through the cache or around it. Each is built
  once for every way of flushing. A store that needs an aligned address faults elsewhere, so the
  routines return an option; \<open>None\<close> is also a failed assertion or a loop that does not end.
\<close>

section \<open>Variants\<close>

datatype variant = V_clflush | V_clflushopt | V_clwb | V_empty | V_noflush

fun v_flush :: "variant \<Rightarrow> addr \<Rightarrow> u64 \<Rightarrow> pm \<Rightarrow> pm option" where
  "v_flush V_clflush = flush_clflush_nolog"
| "v_flush V_clflushopt = flush_clflushopt_nolog"
| "v_flush V_clwb = flush_clwb_nolog"
| "v_flush V_empty = flush_empty_nolog"
| "v_flush V_noflush = (\<lambda>addr len. Some)"

fun flush64b :: "variant \<Rightarrow> addr \<Rightarrow> pm \<Rightarrow> pm" where
  "flush64b V_clflush a = emit (HFlush Clflush a)"
| "flush64b V_clflushopt a = emit (HFlush Clflushopt a)"
| "flush64b V_clwb a = emit (HFlush Clwb a)"
| "flush64b V_empty a = emit (HPmcFlush a 64)"
| "flush64b V_noflush a = (\<lambda>s. s)"

fun maybe_barrier :: "variant \<Rightarrow> pm \<Rightarrow> pm" where
  "maybe_barrier V_clflush = emit HSfence"
| "maybe_barrier V_clflushopt = (\<lambda>s. s)"
| "maybe_barrier V_clwb = (\<lambda>s. s)"
| "maybe_barrier V_empty = emit HSfence"
| "maybe_barrier V_noflush = emit HSfence"

section \<open>Registers and stores\<close>

text \<open>
  \<open>Storeu\<close> is a plain store or \<open>storeu\<close>, \<open>Store\<close> the aligned one; \<open>Stream\<close> and \<open>Movnti\<close> are the
  streaming stores of a vector and of a general register.
\<close>

datatype store_kind = Storeu | Store | Stream | Movnti

definition nt_store_bytes :: "addr \<Rightarrow> u8 list \<Rightarrow> pm \<Rightarrow> pm" where
  "nt_store_bytes p bs s =
     emit (HNtStore p (length bs))
       (s\<lparr>pmem := (\<lambda>a. let i = unat (a - p) in if i < length bs then bs ! i else pmem s a)\<rparr>)"

definition put :: "store_kind \<Rightarrow> addr \<Rightarrow> u8 list \<Rightarrow> pm \<Rightarrow> pm option" where
  "put k p bs s =
     (if (k = Store \<or> k = Stream) \<and> \<not> length bs dvd unat p then None
      else Some (if k = Stream \<or> k = Movnti then nt_store_bytes p bs s else store_bytes p bs s))"

fun puts :: "store_kind \<Rightarrow> addr \<Rightarrow> (nat \<times> u8 list) list \<Rightarrow> pm \<Rightarrow> pm option" where
  "puts k dest [] s = Some s"
| "puts k dest ((off, bs) # ps) s = Option.bind (put k (dest + of_nat off) bs s) (puts k dest ps)"

text \<open>All registers are loaded before the first is stored.\<close>

definition move_regs :: "store_kind \<Rightarrow> (nat \<times> nat) list \<Rightarrow> addr \<Rightarrow> addr \<Rightarrow> pm \<Rightarrow> pm option" where
  "move_regs k rs dest src s =
     puts k dest (map (\<lambda>(off, w). (off, bytes_at (pmem s) (src + of_nat off) w)) rs) s"

definition fill_regs :: "store_kind \<Rightarrow> (nat \<times> nat) list \<Rightarrow> addr \<Rightarrow> u8 list \<Rightarrow> pm \<Rightarrow> pm option" where
  "fill_regs k rs dest reg s = puts k dest (map (\<lambda>(off, w). (off, take w reg)) rs) s"

definition regs :: "nat \<Rightarrow> nat \<Rightarrow> (nat \<times> nat) list" where
  "regs w n = map (\<lambda>i. (w * i, w)) [0..<n]"

definition flush64bs :: "variant \<Rightarrow> nat \<Rightarrow> addr \<Rightarrow> pm \<Rightarrow> pm" where
  "flush64bs v n dest = fold (\<lambda>i. flush64b v (dest + of_nat i * 64)) [0..<n]"

definition VALGRIND_DO_FLUSH :: "addr \<Rightarrow> u64 \<Rightarrow> pm \<Rightarrow> pm" where
  "VALGRIND_DO_FLUSH addr len = emit (HPmcFlush addr len)"

definition util_is_pow2 :: "u64 \<Rightarrow> bool" where
  "util_is_pow2 v \<longleftrightarrow> v \<noteq> 0 \<and> v AND (v - 1) = 0"

section \<open>At most one line\<close>

definition small_sse2_regs :: "nat \<Rightarrow> (nat \<times> nat) list" where
  "small_sse2_regs len =
     (if len \<le> 8 then
        if len \<le> 2 then (if len = 2 then [(0, 2)] else [(0, 1)])
        else if len > 4 then [(0, 4), (len - 4, 4)]
        else [(0, 2), (len - 2, 2)]
      else if len \<le> 32 then
        if len > 16 then [(0, 16), (len - 16, 16)]
        else [(0, 8), (len - 8, 8)]
      else if len > 48 then [(0, 16), (16, 16), (32, 16), (len - 16, 16)]
      else [(0, 16), (16, 16), (len - 16, 16)])"

definition small_avx_regs :: "nat \<Rightarrow> (nat \<times> nat) list" where
  "small_avx_regs len =
     (if len \<le> 8 then
        if len \<le> 2 then (if len = 2 then [(0, 2)] else [(0, 1)])
        else if len > 4 then [(0, 4), (len - 4, 4)]
        else [(0, 2), (len - 2, 2)]
      else if len \<le> 32 then
        if len > 16 then [(0, 16), (len - 16, 16)]
        else [(0, 8), (len - 8, 8)]
      else [(0, 32), (len - 32, 32)])"

definition memmove_small_sse2_noflush :: "addr \<Rightarrow> addr \<Rightarrow> u64 \<Rightarrow> pm \<Rightarrow> pm option" where
  "memmove_small_sse2_noflush dest src len s =
     (if len > 64 then None else move_regs Storeu (small_sse2_regs (unat len)) dest src s)"

definition memmove_small_sse2 :: "variant \<Rightarrow> addr \<Rightarrow> addr \<Rightarrow> u64 \<Rightarrow> pm \<Rightarrow> pm option" where
  "memmove_small_sse2 v dest src len s =
     do { s \<leftarrow> memmove_small_sse2_noflush dest src len s; v_flush v dest len s }"

definition memmove_small_avx_noflush :: "addr \<Rightarrow> addr \<Rightarrow> u64 \<Rightarrow> pm \<Rightarrow> pm option" where
  "memmove_small_avx_noflush dest src len s =
     (if len > 64 then None else move_regs Storeu (small_avx_regs (unat len)) dest src s)"

definition memmove_small_avx :: "variant \<Rightarrow> addr \<Rightarrow> addr \<Rightarrow> u64 \<Rightarrow> pm \<Rightarrow> pm option" where
  "memmove_small_avx v dest src len s =
     do { s \<leftarrow> memmove_small_avx_noflush dest src len s; v_flush v dest len s }"

definition memmove_small_avx512f :: "variant \<Rightarrow> addr \<Rightarrow> addr \<Rightarrow> u64 \<Rightarrow> pm \<Rightarrow> pm option" where
  "memmove_small_avx512f = memmove_small_avx"

definition memset_small_sse2_noflush :: "addr \<Rightarrow> u8 list \<Rightarrow> u64 \<Rightarrow> pm \<Rightarrow> pm option" where
  "memset_small_sse2_noflush dest xmm len s =
     (if len > 64 then None else fill_regs Storeu (small_sse2_regs (unat len)) dest xmm s)"

definition memset_small_sse2 :: "variant \<Rightarrow> u8 list \<Rightarrow> addr \<Rightarrow> u64 \<Rightarrow> pm \<Rightarrow> pm option" where
  "memset_small_sse2 v xmm dest len s =
     do { s \<leftarrow> memset_small_sse2_noflush dest xmm len s; v_flush v dest len s }"

definition memset_small_avx_noflush :: "addr \<Rightarrow> u8 list \<Rightarrow> u64 \<Rightarrow> pm \<Rightarrow> pm option" where
  "memset_small_avx_noflush dest ymm len s =
     (if len > 64 then None else fill_regs Storeu (small_avx_regs (unat len)) dest ymm s)"

definition memset_small_avx :: "variant \<Rightarrow> u8 list \<Rightarrow> addr \<Rightarrow> u64 \<Rightarrow> pm \<Rightarrow> pm option" where
  "memset_small_avx v ymm dest len s =
     do { s \<leftarrow> memset_small_avx_noflush dest ymm len s; v_flush v dest len s }"

definition memset_small_avx512f :: "variant \<Rightarrow> u8 list \<Rightarrow> addr \<Rightarrow> u64 \<Rightarrow> pm \<Rightarrow> pm option" where
  "memset_small_avx512f = memset_small_avx"

section \<open>Blocks of lines\<close>

definition memmove_mov4x64b_sse2 :: "variant \<Rightarrow> addr \<Rightarrow> addr \<Rightarrow> pm \<Rightarrow> pm option" where
  "memmove_mov4x64b_sse2 v dest src s =
     do { s \<leftarrow> move_regs Store (regs 16 16) dest src s; Some (flush64bs v 4 dest s) }"

definition memmove_mov2x64b_sse2 :: "variant \<Rightarrow> addr \<Rightarrow> addr \<Rightarrow> pm \<Rightarrow> pm option" where
  "memmove_mov2x64b_sse2 v dest src s =
     do { s \<leftarrow> move_regs Store (regs 16 8) dest src s; Some (flush64bs v 2 dest s) }"

definition memmove_mov1x64b_sse2 :: "variant \<Rightarrow> addr \<Rightarrow> addr \<Rightarrow> pm \<Rightarrow> pm option" where
  "memmove_mov1x64b_sse2 v dest src s =
     do { s \<leftarrow> move_regs Store (regs 16 4) dest src s; Some (flush64bs v 1 dest s) }"

definition memmove_mov8x64b_avx :: "variant \<Rightarrow> addr \<Rightarrow> addr \<Rightarrow> pm \<Rightarrow> pm option" where
  "memmove_mov8x64b_avx v dest src s =
     do { s \<leftarrow> move_regs Store (regs 32 16) dest src s; Some (flush64bs v 8 dest s) }"

definition memmove_mov4x64b_avx :: "variant \<Rightarrow> addr \<Rightarrow> addr \<Rightarrow> pm \<Rightarrow> pm option" where
  "memmove_mov4x64b_avx v dest src s =
     do { s \<leftarrow> move_regs Store (regs 32 8) dest src s; Some (flush64bs v 4 dest s) }"

definition memmove_mov2x64b_avx :: "variant \<Rightarrow> addr \<Rightarrow> addr \<Rightarrow> pm \<Rightarrow> pm option" where
  "memmove_mov2x64b_avx v dest src s =
     do { s \<leftarrow> move_regs Store (regs 32 4) dest src s; Some (flush64bs v 2 dest s) }"

definition memmove_mov1x64b_avx :: "variant \<Rightarrow> addr \<Rightarrow> addr \<Rightarrow> pm \<Rightarrow> pm option" where
  "memmove_mov1x64b_avx v dest src s =
     do { s \<leftarrow> move_regs Store (regs 32 2) dest src s; Some (flush64bs v 1 dest s) }"

definition memmove_mov32x64b_avx512f :: "variant \<Rightarrow> addr \<Rightarrow> addr \<Rightarrow> pm \<Rightarrow> pm option" where
  "memmove_mov32x64b_avx512f v dest src s =
     do { s \<leftarrow> move_regs Store (regs 64 32) dest src s; Some (flush64bs v 32 dest s) }"

definition memmove_mov16x64b_avx512f :: "variant \<Rightarrow> addr \<Rightarrow> addr \<Rightarrow> pm \<Rightarrow> pm option" where
  "memmove_mov16x64b_avx512f v dest src s =
     do { s \<leftarrow> move_regs Store (regs 64 16) dest src s; Some (flush64bs v 16 dest s) }"

definition memmove_mov8x64b_avx512f :: "variant \<Rightarrow> addr \<Rightarrow> addr \<Rightarrow> pm \<Rightarrow> pm option" where
  "memmove_mov8x64b_avx512f v dest src s =
     do { s \<leftarrow> move_regs Store (regs 64 8) dest src s; Some (flush64bs v 8 dest s) }"

definition memmove_mov4x64b_avx512f :: "variant \<Rightarrow> addr \<Rightarrow> addr \<Rightarrow> pm \<Rightarrow> pm option" where
  "memmove_mov4x64b_avx512f v dest src s =
     do { s \<leftarrow> move_regs Store (regs 64 4) dest src s; Some (flush64bs v 4 dest s) }"

definition memmove_mov2x64b_avx512f :: "variant \<Rightarrow> addr \<Rightarrow> addr \<Rightarrow> pm \<Rightarrow> pm option" where
  "memmove_mov2x64b_avx512f v dest src s =
     do { s \<leftarrow> move_regs Store (regs 64 2) dest src s; Some (flush64bs v 2 dest s) }"

definition memmove_mov1x64b_avx512f :: "variant \<Rightarrow> addr \<Rightarrow> addr \<Rightarrow> pm \<Rightarrow> pm option" where
  "memmove_mov1x64b_avx512f v dest src s =
     do { s \<leftarrow> move_regs Store (regs 64 1) dest src s; Some (flush64bs v 1 dest s) }"

definition memmove_movnt4x64b_sse2 :: "addr \<Rightarrow> addr \<Rightarrow> pm \<Rightarrow> pm option" where
  "memmove_movnt4x64b_sse2 dest src s =
     do { s \<leftarrow> move_regs Stream (regs 16 16) dest src s; Some (VALGRIND_DO_FLUSH dest (4 * 64) s) }"

definition memmove_movnt2x64b_sse2 :: "addr \<Rightarrow> addr \<Rightarrow> pm \<Rightarrow> pm option" where
  "memmove_movnt2x64b_sse2 dest src s =
     do { s \<leftarrow> move_regs Stream (regs 16 8) dest src s; Some (VALGRIND_DO_FLUSH dest (2 * 64) s) }"

definition memmove_movnt1x64b_sse2 :: "addr \<Rightarrow> addr \<Rightarrow> pm \<Rightarrow> pm option" where
  "memmove_movnt1x64b_sse2 dest src s =
     do { s \<leftarrow> move_regs Stream (regs 16 4) dest src s; Some (VALGRIND_DO_FLUSH dest (1 * 64) s) }"

definition memmove_movnt1x32b_sse2 :: "addr \<Rightarrow> addr \<Rightarrow> pm \<Rightarrow> pm option" where
  "memmove_movnt1x32b_sse2 dest src s =
     do { s \<leftarrow> move_regs Stream (regs 16 2) dest src s; Some (VALGRIND_DO_FLUSH dest 32 s) }"

definition memmove_movnt1x16b_sse2 :: "addr \<Rightarrow> addr \<Rightarrow> pm \<Rightarrow> pm option" where
  "memmove_movnt1x16b_sse2 dest src s =
     do { s \<leftarrow> move_regs Stream (regs 16 1) dest src s; Some (VALGRIND_DO_FLUSH dest 16 s) }"

definition memmove_movnt1x8b_sse2 :: "addr \<Rightarrow> addr \<Rightarrow> pm \<Rightarrow> pm option" where
  "memmove_movnt1x8b_sse2 dest src s =
     do { s \<leftarrow> move_regs Movnti (regs 8 1) dest src s; Some (VALGRIND_DO_FLUSH dest 8 s) }"

definition memmove_movnt1x4b_sse2 :: "addr \<Rightarrow> addr \<Rightarrow> pm \<Rightarrow> pm option" where
  "memmove_movnt1x4b_sse2 dest src s =
     do { s \<leftarrow> move_regs Movnti (regs 4 1) dest src s; Some (VALGRIND_DO_FLUSH dest 4 s) }"

definition memmove_movnt8x64b_avx :: "addr \<Rightarrow> addr \<Rightarrow> pm \<Rightarrow> pm option" where
  "memmove_movnt8x64b_avx dest src s =
     do { s \<leftarrow> move_regs Stream (regs 32 16) dest src s; Some (VALGRIND_DO_FLUSH dest (8 * 64) s) }"

definition memmove_movnt4x64b_avx :: "addr \<Rightarrow> addr \<Rightarrow> pm \<Rightarrow> pm option" where
  "memmove_movnt4x64b_avx dest src s =
     do { s \<leftarrow> move_regs Stream (regs 32 8) dest src s; Some (VALGRIND_DO_FLUSH dest (4 * 64) s) }"

definition memmove_movnt2x64b_avx :: "addr \<Rightarrow> addr \<Rightarrow> pm \<Rightarrow> pm option" where
  "memmove_movnt2x64b_avx dest src s =
     do { s \<leftarrow> move_regs Stream (regs 32 4) dest src s; Some (VALGRIND_DO_FLUSH dest (2 * 64) s) }"

definition memmove_movnt1x64b_avx :: "addr \<Rightarrow> addr \<Rightarrow> pm \<Rightarrow> pm option" where
  "memmove_movnt1x64b_avx dest src s =
     do { s \<leftarrow> move_regs Stream (regs 32 2) dest src s; Some (VALGRIND_DO_FLUSH dest (1 * 64) s) }"

definition memmove_movnt1x32b_avx :: "addr \<Rightarrow> addr \<Rightarrow> pm \<Rightarrow> pm option" where
  "memmove_movnt1x32b_avx dest src s =
     do { s \<leftarrow> move_regs Stream (regs 32 1) dest src s; Some (VALGRIND_DO_FLUSH dest 32 s) }"

definition memmove_movnt1x16b_avx :: "addr \<Rightarrow> addr \<Rightarrow> pm \<Rightarrow> pm option" where
  "memmove_movnt1x16b_avx dest src s =
     do { s \<leftarrow> move_regs Stream (regs 16 1) dest src s; Some (VALGRIND_DO_FLUSH dest 16 s) }"

definition memmove_movnt1x8b_avx :: "addr \<Rightarrow> addr \<Rightarrow> pm \<Rightarrow> pm option" where
  "memmove_movnt1x8b_avx dest src s =
     do { s \<leftarrow> move_regs Movnti (regs 8 1) dest src s; Some (VALGRIND_DO_FLUSH dest 8 s) }"

definition memmove_movnt1x4b_avx :: "addr \<Rightarrow> addr \<Rightarrow> pm \<Rightarrow> pm option" where
  "memmove_movnt1x4b_avx dest src s =
     do { s \<leftarrow> move_regs Movnti (regs 4 1) dest src s; Some (VALGRIND_DO_FLUSH dest 4 s) }"

definition memmove_movnt32x64b_avx512f :: "addr \<Rightarrow> addr \<Rightarrow> pm \<Rightarrow> pm option" where
  "memmove_movnt32x64b_avx512f dest src s =
     do { s \<leftarrow> move_regs Stream (regs 64 32) dest src s; Some (VALGRIND_DO_FLUSH dest (32 * 64) s) }"

definition memmove_movnt16x64b_avx512f :: "addr \<Rightarrow> addr \<Rightarrow> pm \<Rightarrow> pm option" where
  "memmove_movnt16x64b_avx512f dest src s =
     do { s \<leftarrow> move_regs Stream (regs 64 16) dest src s; Some (VALGRIND_DO_FLUSH dest (16 * 64) s) }"

definition memmove_movnt8x64b_avx512f :: "addr \<Rightarrow> addr \<Rightarrow> pm \<Rightarrow> pm option" where
  "memmove_movnt8x64b_avx512f dest src s =
     do { s \<leftarrow> move_regs Stream (regs 64 8) dest src s; Some (VALGRIND_DO_FLUSH dest (8 * 64) s) }"

definition memmove_movnt4x64b_avx512f :: "addr \<Rightarrow> addr \<Rightarrow> pm \<Rightarrow> pm option" where
  "memmove_movnt4x64b_avx512f dest src s =
     do { s \<leftarrow> move_regs Stream (regs 64 4) dest src s; Some (VALGRIND_DO_FLUSH dest (4 * 64) s) }"

definition memmove_movnt2x64b_avx512f :: "addr \<Rightarrow> addr \<Rightarrow> pm \<Rightarrow> pm option" where
  "memmove_movnt2x64b_avx512f dest src s =
     do { s \<leftarrow> move_regs Stream (regs 64 2) dest src s; Some (VALGRIND_DO_FLUSH dest (2 * 64) s) }"

definition memmove_movnt1x64b_avx512f :: "addr \<Rightarrow> addr \<Rightarrow> pm \<Rightarrow> pm option" where
  "memmove_movnt1x64b_avx512f dest src s =
     do { s \<leftarrow> move_regs Stream (regs 64 1) dest src s; Some (VALGRIND_DO_FLUSH dest (1 * 64) s) }"

definition memmove_movnt1x32b_avx512f :: "addr \<Rightarrow> addr \<Rightarrow> pm \<Rightarrow> pm option" where
  "memmove_movnt1x32b_avx512f dest src s =
     do { s \<leftarrow> move_regs Stream (regs 32 1) dest src s; Some (VALGRIND_DO_FLUSH dest 32 s) }"

definition memmove_movnt1x16b_avx512f :: "addr \<Rightarrow> addr \<Rightarrow> pm \<Rightarrow> pm option" where
  "memmove_movnt1x16b_avx512f dest src s =
     do { s \<leftarrow> move_regs Stream (regs 16 1) dest src s; Some (VALGRIND_DO_FLUSH dest 16 s) }"

definition memmove_movnt1x8b_avx512f :: "addr \<Rightarrow> addr \<Rightarrow> pm \<Rightarrow> pm option" where
  "memmove_movnt1x8b_avx512f dest src s =
     do { s \<leftarrow> move_regs Movnti (regs 8 1) dest src s; Some (VALGRIND_DO_FLUSH dest 8 s) }"

definition memmove_movnt1x4b_avx512f :: "addr \<Rightarrow> addr \<Rightarrow> pm \<Rightarrow> pm option" where
  "memmove_movnt1x4b_avx512f dest src s =
     do { s \<leftarrow> move_regs Movnti (regs 4 1) dest src s; Some (VALGRIND_DO_FLUSH dest 4 s) }"

definition memset_mov4x64b_sse2 :: "variant \<Rightarrow> u8 list \<Rightarrow> addr \<Rightarrow> pm \<Rightarrow> pm option" where
  "memset_mov4x64b_sse2 v xmm dest s =
     do { s \<leftarrow> fill_regs Store (regs 16 16) dest xmm s; Some (flush64bs v 4 dest s) }"

definition memset_mov2x64b_sse2 :: "variant \<Rightarrow> u8 list \<Rightarrow> addr \<Rightarrow> pm \<Rightarrow> pm option" where
  "memset_mov2x64b_sse2 v xmm dest s =
     do { s \<leftarrow> fill_regs Store (regs 16 8) dest xmm s; Some (flush64bs v 2 dest s) }"

definition memset_mov1x64b_sse2 :: "variant \<Rightarrow> u8 list \<Rightarrow> addr \<Rightarrow> pm \<Rightarrow> pm option" where
  "memset_mov1x64b_sse2 v xmm dest s =
     do { s \<leftarrow> fill_regs Store (regs 16 4) dest xmm s; Some (flush64bs v 1 dest s) }"

definition memset_mov8x64b_avx :: "variant \<Rightarrow> u8 list \<Rightarrow> addr \<Rightarrow> pm \<Rightarrow> pm option" where
  "memset_mov8x64b_avx v ymm dest s =
     do { s \<leftarrow> fill_regs Store (regs 32 16) dest ymm s; Some (flush64bs v 8 dest s) }"

definition memset_mov4x64b_avx :: "variant \<Rightarrow> u8 list \<Rightarrow> addr \<Rightarrow> pm \<Rightarrow> pm option" where
  "memset_mov4x64b_avx v ymm dest s =
     do { s \<leftarrow> fill_regs Store (regs 32 8) dest ymm s; Some (flush64bs v 4 dest s) }"

definition memset_mov2x64b_avx :: "variant \<Rightarrow> u8 list \<Rightarrow> addr \<Rightarrow> pm \<Rightarrow> pm option" where
  "memset_mov2x64b_avx v ymm dest s =
     do { s \<leftarrow> fill_regs Store (regs 32 4) dest ymm s; Some (flush64bs v 2 dest s) }"

definition memset_mov1x64b_avx :: "variant \<Rightarrow> u8 list \<Rightarrow> addr \<Rightarrow> pm \<Rightarrow> pm option" where
  "memset_mov1x64b_avx v ymm dest s =
     do { s \<leftarrow> fill_regs Store (regs 32 2) dest ymm s; Some (flush64bs v 1 dest s) }"

definition memset_mov32x64b_avx512f :: "variant \<Rightarrow> u8 list \<Rightarrow> addr \<Rightarrow> pm \<Rightarrow> pm option" where
  "memset_mov32x64b_avx512f v zmm dest s =
     do { s \<leftarrow> fill_regs Store (regs 64 32) dest zmm s; Some (flush64bs v 32 dest s) }"

definition memset_mov16x64b_avx512f :: "variant \<Rightarrow> u8 list \<Rightarrow> addr \<Rightarrow> pm \<Rightarrow> pm option" where
  "memset_mov16x64b_avx512f v zmm dest s =
     do { s \<leftarrow> fill_regs Store (regs 64 16) dest zmm s; Some (flush64bs v 16 dest s) }"

definition memset_mov8x64b_avx512f :: "variant \<Rightarrow> u8 list \<Rightarrow> addr \<Rightarrow> pm \<Rightarrow> pm option" where
  "memset_mov8x64b_avx512f v zmm dest s =
     do { s \<leftarrow> fill_regs Store (regs 64 8) dest zmm s; Some (flush64bs v 8 dest s) }"

definition memset_mov4x64b_avx512f :: "variant \<Rightarrow> u8 list \<Rightarrow> addr \<Rightarrow> pm \<Rightarrow> pm option" where
  "memset_mov4x64b_avx512f v zmm dest s =
     do { s \<leftarrow> fill_regs Store (regs 64 4) dest zmm s; Some (flush64bs v 4 dest s) }"

definition memset_mov2x64b_avx512f :: "variant \<Rightarrow> u8 list \<Rightarrow> addr \<Rightarrow> pm \<Rightarrow> pm option" where
  "memset_mov2x64b_avx512f v zmm dest s =
     do { s \<leftarrow> fill_regs Store (regs 64 2) dest zmm s; Some (flush64bs v 2 dest s) }"

definition memset_mov1x64b_avx512f :: "variant \<Rightarrow> u8 list \<Rightarrow> addr \<Rightarrow> pm \<Rightarrow> pm option" where
  "memset_mov1x64b_avx512f v zmm dest s =
     do { s \<leftarrow> fill_regs Store (regs 64 1) dest zmm s; Some (flush64bs v 1 dest s) }"

definition memset_movnt4x64b_sse2 :: "u8 list \<Rightarrow> addr \<Rightarrow> pm \<Rightarrow> pm option" where
  "memset_movnt4x64b_sse2 xmm dest s =
     do { s \<leftarrow> fill_regs Stream (regs 16 16) dest xmm s; Some (VALGRIND_DO_FLUSH dest (4 * 64) s) }"

definition memset_movnt2x64b_sse2 :: "u8 list \<Rightarrow> addr \<Rightarrow> pm \<Rightarrow> pm option" where
  "memset_movnt2x64b_sse2 xmm dest s =
     do { s \<leftarrow> fill_regs Stream (regs 16 8) dest xmm s; Some (VALGRIND_DO_FLUSH dest (2 * 64) s) }"

definition memset_movnt1x64b_sse2 :: "u8 list \<Rightarrow> addr \<Rightarrow> pm \<Rightarrow> pm option" where
  "memset_movnt1x64b_sse2 xmm dest s =
     do { s \<leftarrow> fill_regs Stream (regs 16 4) dest xmm s; Some (VALGRIND_DO_FLUSH dest (1 * 64) s) }"

definition memset_movnt1x32b_sse2 :: "u8 list \<Rightarrow> addr \<Rightarrow> pm \<Rightarrow> pm option" where
  "memset_movnt1x32b_sse2 xmm dest s =
     do { s \<leftarrow> fill_regs Stream (regs 16 2) dest xmm s; Some (VALGRIND_DO_FLUSH dest 32 s) }"

definition memset_movnt1x16b_sse2 :: "u8 list \<Rightarrow> addr \<Rightarrow> pm \<Rightarrow> pm option" where
  "memset_movnt1x16b_sse2 xmm dest s =
     do { s \<leftarrow> fill_regs Stream (regs 16 1) dest xmm s; Some (VALGRIND_DO_FLUSH dest 16 s) }"

definition memset_movnt1x8b_sse2 :: "u8 list \<Rightarrow> addr \<Rightarrow> pm \<Rightarrow> pm option" where
  "memset_movnt1x8b_sse2 xmm dest s =
     do { s \<leftarrow> fill_regs Movnti (regs 8 1) dest xmm s; Some (VALGRIND_DO_FLUSH dest 8 s) }"

definition memset_movnt1x4b_sse2 :: "u8 list \<Rightarrow> addr \<Rightarrow> pm \<Rightarrow> pm option" where
  "memset_movnt1x4b_sse2 xmm dest s =
     do { s \<leftarrow> fill_regs Movnti (regs 4 1) dest xmm s; Some (VALGRIND_DO_FLUSH dest 4 s) }"

definition memset_movnt8x64b_avx :: "u8 list \<Rightarrow> addr \<Rightarrow> pm \<Rightarrow> pm option" where
  "memset_movnt8x64b_avx ymm dest s =
     do { s \<leftarrow> fill_regs Stream (regs 32 16) dest ymm s; Some (VALGRIND_DO_FLUSH dest (8 * 64) s) }"

definition memset_movnt4x64b_avx :: "u8 list \<Rightarrow> addr \<Rightarrow> pm \<Rightarrow> pm option" where
  "memset_movnt4x64b_avx ymm dest s =
     do { s \<leftarrow> fill_regs Stream (regs 32 8) dest ymm s; Some (VALGRIND_DO_FLUSH dest (4 * 64) s) }"

definition memset_movnt2x64b_avx :: "u8 list \<Rightarrow> addr \<Rightarrow> pm \<Rightarrow> pm option" where
  "memset_movnt2x64b_avx ymm dest s =
     do { s \<leftarrow> fill_regs Stream (regs 32 4) dest ymm s; Some (VALGRIND_DO_FLUSH dest (2 * 64) s) }"

definition memset_movnt1x64b_avx :: "u8 list \<Rightarrow> addr \<Rightarrow> pm \<Rightarrow> pm option" where
  "memset_movnt1x64b_avx ymm dest s =
     do { s \<leftarrow> fill_regs Stream (regs 32 2) dest ymm s; Some (VALGRIND_DO_FLUSH dest (1 * 64) s) }"

definition memset_movnt1x32b_avx :: "u8 list \<Rightarrow> addr \<Rightarrow> pm \<Rightarrow> pm option" where
  "memset_movnt1x32b_avx ymm dest s =
     do { s \<leftarrow> fill_regs Stream (regs 32 1) dest ymm s; Some (VALGRIND_DO_FLUSH dest 32 s) }"

definition memset_movnt1x16b_avx :: "u8 list \<Rightarrow> addr \<Rightarrow> pm \<Rightarrow> pm option" where
  "memset_movnt1x16b_avx ymm dest s =
     do { s \<leftarrow> fill_regs Stream (regs 16 1) dest ymm s; Some (VALGRIND_DO_FLUSH (dest - 16) 16 s) }"

definition memset_movnt1x8b_avx :: "u8 list \<Rightarrow> addr \<Rightarrow> pm \<Rightarrow> pm option" where
  "memset_movnt1x8b_avx ymm dest s =
     do { s \<leftarrow> fill_regs Movnti (regs 8 1) dest ymm s; Some (VALGRIND_DO_FLUSH dest 8 s) }"

definition memset_movnt1x4b_avx :: "u8 list \<Rightarrow> addr \<Rightarrow> pm \<Rightarrow> pm option" where
  "memset_movnt1x4b_avx ymm dest s =
     do { s \<leftarrow> fill_regs Movnti (regs 4 1) dest ymm s; Some (VALGRIND_DO_FLUSH dest 4 s) }"

definition memset_movnt32x64b_avx512f :: "u8 list \<Rightarrow> addr \<Rightarrow> pm \<Rightarrow> pm option" where
  "memset_movnt32x64b_avx512f zmm dest s =
     do { s \<leftarrow> fill_regs Stream (regs 64 32) dest zmm s; Some (VALGRIND_DO_FLUSH dest (32 * 64) s) }"

definition memset_movnt16x64b_avx512f :: "u8 list \<Rightarrow> addr \<Rightarrow> pm \<Rightarrow> pm option" where
  "memset_movnt16x64b_avx512f zmm dest s =
     do { s \<leftarrow> fill_regs Stream (regs 64 16) dest zmm s; Some (VALGRIND_DO_FLUSH dest (16 * 64) s) }"

definition memset_movnt8x64b_avx512f :: "u8 list \<Rightarrow> addr \<Rightarrow> pm \<Rightarrow> pm option" where
  "memset_movnt8x64b_avx512f zmm dest s =
     do { s \<leftarrow> fill_regs Stream (regs 64 8) dest zmm s; Some (VALGRIND_DO_FLUSH dest (8 * 64) s) }"

definition memset_movnt4x64b_avx512f :: "u8 list \<Rightarrow> addr \<Rightarrow> pm \<Rightarrow> pm option" where
  "memset_movnt4x64b_avx512f zmm dest s =
     do { s \<leftarrow> fill_regs Stream (regs 64 4) dest zmm s; Some (VALGRIND_DO_FLUSH dest (4 * 64) s) }"

definition memset_movnt2x64b_avx512f :: "u8 list \<Rightarrow> addr \<Rightarrow> pm \<Rightarrow> pm option" where
  "memset_movnt2x64b_avx512f zmm dest s =
     do { s \<leftarrow> fill_regs Stream (regs 64 2) dest zmm s; Some (VALGRIND_DO_FLUSH dest (2 * 64) s) }"

definition memset_movnt1x64b_avx512f :: "u8 list \<Rightarrow> addr \<Rightarrow> pm \<Rightarrow> pm option" where
  "memset_movnt1x64b_avx512f zmm dest s =
     do { s \<leftarrow> fill_regs Stream (regs 64 1) dest zmm s; Some (VALGRIND_DO_FLUSH dest (1 * 64) s) }"

definition memset_movnt1x32b_avx512f :: "u8 list \<Rightarrow> addr \<Rightarrow> pm \<Rightarrow> pm option" where
  "memset_movnt1x32b_avx512f ymm dest s =
     do { s \<leftarrow> fill_regs Stream (regs 32 1) dest ymm s; Some (VALGRIND_DO_FLUSH dest 32 s) }"

definition memset_movnt1x16b_avx512f :: "u8 list \<Rightarrow> addr \<Rightarrow> pm \<Rightarrow> pm option" where
  "memset_movnt1x16b_avx512f ymm dest s =
     do { s \<leftarrow> fill_regs Stream (regs 16 1) dest ymm s; Some (VALGRIND_DO_FLUSH dest 16 s) }"

definition memset_movnt1x8b_avx512f :: "u8 list \<Rightarrow> addr \<Rightarrow> pm \<Rightarrow> pm option" where
  "memset_movnt1x8b_avx512f ymm dest s =
     do { s \<leftarrow> fill_regs Movnti (regs 8 1) dest ymm s; Some (VALGRIND_DO_FLUSH dest 8 s) }"

definition memset_movnt1x4b_avx512f :: "u8 list \<Rightarrow> addr \<Rightarrow> pm \<Rightarrow> pm option" where
  "memset_movnt1x4b_avx512f ymm dest s =
     do { s \<leftarrow> fill_regs Movnti (regs 4 1) dest ymm s; Some (VALGRIND_DO_FLUSH dest 4 s) }"

section \<open>Loops\<close>

text \<open>
  The cursor \<open>x\<close> is the pair of \<open>dest\<close> and \<open>src\<close> in a copy and \<open>dest\<close> in a fill; \<open>adv\<close> moves it.
\<close>

partial_function (option) while_fw ::
  "('x \<Rightarrow> u64 \<Rightarrow> 'x) \<Rightarrow> ('x \<Rightarrow> pm \<Rightarrow> pm option) \<Rightarrow> u64 \<Rightarrow> 'x \<Rightarrow> u64 \<Rightarrow> pm \<Rightarrow> ('x \<times> u64 \<times> pm) option"
where
  "while_fw adv mov w x len s =
     (if len \<ge> w then Option.bind (mov x s) (\<lambda>s. while_fw adv mov w (adv x w) (len - w) s)
      else Some (x, len, s))"

definition if_fw ::
  "('x \<Rightarrow> u64 \<Rightarrow> 'x) \<Rightarrow> ('x \<Rightarrow> pm \<Rightarrow> pm option) \<Rightarrow> u64 \<Rightarrow> 'x \<Rightarrow> u64 \<Rightarrow> pm \<Rightarrow> ('x \<times> u64 \<times> pm) option"
where
  "if_fw adv mov w x len s =
     (if len \<ge> w then do { s \<leftarrow> mov x s; Some (adv x w, len - w, s) } else Some (x, len, s))"

definition align_fw ::
  "('x \<Rightarrow> u64 \<Rightarrow> 'x) \<Rightarrow> ('x \<Rightarrow> addr) \<Rightarrow> ('x \<Rightarrow> u64 \<Rightarrow> pm \<Rightarrow> pm option) \<Rightarrow> 'x \<Rightarrow> u64 \<Rightarrow> pm
    \<Rightarrow> ('x \<times> u64 \<times> pm) option"
where
  "align_fw adv dst small x len s =
     (let cnt = dst x AND 63 in
      if cnt > 0 then
        let cnt = 64 - cnt; cnt = (if cnt > len then len else cnt) in
        do { s \<leftarrow> small x cnt s; Some (adv x cnt, len - cnt, s) }
      else Some (x, len, s))"

text \<open>Backwards the cursor is decremented before the move.\<close>

partial_function (option) while_bw ::
  "(addr \<Rightarrow> addr \<Rightarrow> pm \<Rightarrow> pm option) \<Rightarrow> u64 \<Rightarrow> addr \<Rightarrow> addr \<Rightarrow> u64 \<Rightarrow> pm \<Rightarrow> (addr \<times> addr \<times> u64 \<times> pm) option"
where
  "while_bw mov w dest src len s =
     (if len \<ge> w then
        Option.bind (mov (dest - w) (src - w) s) (\<lambda>s. while_bw mov w (dest - w) (src - w) (len - w) s)
      else Some (dest, src, len, s))"

definition if_bw ::
  "(addr \<Rightarrow> addr \<Rightarrow> pm \<Rightarrow> pm option) \<Rightarrow> u64 \<Rightarrow> addr \<Rightarrow> addr \<Rightarrow> u64 \<Rightarrow> pm \<Rightarrow> (addr \<times> addr \<times> u64 \<times> pm) option"
where
  "if_bw mov w dest src len s =
     (if len \<ge> w then do { s \<leftarrow> mov (dest - w) (src - w) s; Some (dest - w, src - w, len - w, s) }
      else Some (dest, src, len, s))"

definition align_bw ::
  "(addr \<Rightarrow> addr \<Rightarrow> u64 \<Rightarrow> pm \<Rightarrow> pm option) \<Rightarrow> addr \<Rightarrow> addr \<Rightarrow> u64 \<Rightarrow> pm \<Rightarrow> (addr \<times> addr \<times> u64 \<times> pm) option"
where
  "align_bw small dest src len s =
     (let cnt = dest AND 63 in
      if cnt > 0 then
        let cnt = (if cnt > len then len else cnt) in
        do { s \<leftarrow> small (dest - cnt) (src - cnt) cnt s; Some (dest - cnt, src - cnt, len - cnt, s) }
      else Some (dest, src, len, s))"

definition adv2 :: "addr \<times> addr \<Rightarrow> u64 \<Rightarrow> addr \<times> addr" where
  "adv2 x w = (fst x + w, snd x + w)"

definition adv1 :: "addr \<Rightarrow> u64 \<Rightarrow> addr" where
  "adv1 dest w = dest + w"

abbreviation while_cp where "while_cp mov \<equiv> while_fw adv2 (\<lambda>(dest, src). mov dest src)"
abbreviation if_cp where "if_cp mov \<equiv> if_fw adv2 (\<lambda>(dest, src). mov dest src)"
abbreviation align_cp where "align_cp small \<equiv> align_fw adv2 fst (\<lambda>(dest, src). small dest src)"
abbreviation while_set where "while_set \<equiv> while_fw adv1"
abbreviation if_set where "if_set \<equiv> if_fw adv1"
abbreviation align_set where "align_set \<equiv> align_fw adv1 (\<lambda>dest. dest)"

text \<open>
  What is left after the lines: a power of two is streamed, anything else is stored and flushed.
\<close>

definition nt_tail ::
  "('x \<Rightarrow> pm \<Rightarrow> pm option) \<Rightarrow> ('x \<Rightarrow> pm \<Rightarrow> pm option) \<Rightarrow> ('x \<Rightarrow> pm \<Rightarrow> pm option) \<Rightarrow> ('x \<Rightarrow> pm \<Rightarrow> pm option)
    \<Rightarrow> ('x \<Rightarrow> u64 \<Rightarrow> pm \<Rightarrow> pm option) \<Rightarrow> 'x \<Rightarrow> u64 \<Rightarrow> pm \<Rightarrow> pm option"
where
  "nt_tail m32 m16 m8 m4 small x len s =
     (if len = 0 then Some s
      else if util_is_pow2 len then
        if len = 32 then m32 x s
        else if len = 16 then m16 x s
        else if len = 8 then m8 x s
        else if len = 4 then m4 x s
        else small x len s
      else small x len s)"

section \<open>Copies\<close>

definition memmove_mov_sse_fw :: "variant \<Rightarrow> addr \<Rightarrow> addr \<Rightarrow> u64 \<Rightarrow> pm \<Rightarrow> pm option" where
  "memmove_mov_sse_fw v dest src len s =
     do {
       (x, len, s) \<leftarrow> align_cp (memmove_small_sse2 v) (dest, src) len s;
       (x, len, s) \<leftarrow> while_cp (memmove_mov4x64b_sse2 v) (4 * 64) x len s;
       (x, len, s) \<leftarrow> if_cp (memmove_mov2x64b_sse2 v) (2 * 64) x len s;
       (x, len, s) \<leftarrow> if_cp (memmove_mov1x64b_sse2 v) (1 * 64) x len s;
       (if len \<noteq> 0 then memmove_small_sse2 v (fst x) (snd x) len s else Some s)
     }"

definition memmove_mov_sse_bw :: "variant \<Rightarrow> addr \<Rightarrow> addr \<Rightarrow> u64 \<Rightarrow> pm \<Rightarrow> pm option" where
  "memmove_mov_sse_bw v dest src len s =
     do {
       (dest, src, len, s) \<leftarrow> align_bw (memmove_small_sse2 v) (dest + len) (src + len) len s;
       (dest, src, len, s) \<leftarrow> while_bw (memmove_mov4x64b_sse2 v) (4 * 64) dest src len s;
       (dest, src, len, s) \<leftarrow> if_bw (memmove_mov2x64b_sse2 v) (2 * 64) dest src len s;
       (dest, src, len, s) \<leftarrow> if_bw (memmove_mov1x64b_sse2 v) (1 * 64) dest src len s;
       (if len \<noteq> 0 then memmove_small_sse2 v (dest - len) (src - len) len s else Some s)
     }"

definition memmove_mov_sse2 :: "variant \<Rightarrow> addr \<Rightarrow> addr \<Rightarrow> u64 \<Rightarrow> pm \<Rightarrow> pm option" where
  "memmove_mov_sse2 v dest src len s =
     (if dest - src \<ge> len then memmove_mov_sse_fw v dest src len s
      else memmove_mov_sse_bw v dest src len s)"

definition memmove_movnt_tail_sse2 :: "variant \<Rightarrow> addr \<Rightarrow> addr \<Rightarrow> u64 \<Rightarrow> pm \<Rightarrow> pm option" where
  "memmove_movnt_tail_sse2 v dest src len s =
     nt_tail (\<lambda>(dest, src). memmove_movnt1x32b_sse2 dest src) (\<lambda>(dest, src). memmove_movnt1x16b_sse2 dest src)
       (\<lambda>(dest, src). memmove_movnt1x8b_sse2 dest src) (\<lambda>(dest, src). memmove_movnt1x4b_sse2 dest src)
       (\<lambda>(dest, src). memmove_small_sse2 v dest src) (dest, src) len s"

definition memmove_movnt_sse_fw :: "variant \<Rightarrow> addr \<Rightarrow> addr \<Rightarrow> u64 \<Rightarrow> pm \<Rightarrow> pm option" where
  "memmove_movnt_sse_fw v dest src len s =
     do {
       (x, len, s) \<leftarrow> align_cp (memmove_small_sse2 v) (dest, src) len s;
       (x, len, s) \<leftarrow> while_cp memmove_movnt4x64b_sse2 (4 * 64) x len s;
       (x, len, s) \<leftarrow> if_cp memmove_movnt2x64b_sse2 (2 * 64) x len s;
       (x, len, s) \<leftarrow> if_cp memmove_movnt1x64b_sse2 (1 * 64) x len s;
       memmove_movnt_tail_sse2 v (fst x) (snd x) len s
     }"

definition memmove_movnt_sse_bw :: "variant \<Rightarrow> addr \<Rightarrow> addr \<Rightarrow> u64 \<Rightarrow> pm \<Rightarrow> pm option" where
  "memmove_movnt_sse_bw v dest src len s =
     do {
       (dest, src, len, s) \<leftarrow> align_bw (memmove_small_sse2 v) (dest + len) (src + len) len s;
       (dest, src, len, s) \<leftarrow> while_bw memmove_movnt4x64b_sse2 (4 * 64) dest src len s;
       (dest, src, len, s) \<leftarrow> if_bw memmove_movnt2x64b_sse2 (2 * 64) dest src len s;
       (dest, src, len, s) \<leftarrow> if_bw memmove_movnt1x64b_sse2 (1 * 64) dest src len s;
       memmove_movnt_tail_sse2 v (dest - len) (src - len) len s
     }"

definition memmove_movnt_sse2 :: "variant \<Rightarrow> addr \<Rightarrow> addr \<Rightarrow> u64 \<Rightarrow> pm \<Rightarrow> pm option" where
  "memmove_movnt_sse2 v dest src len s =
     do {
       s \<leftarrow> (if dest - src \<ge> len then memmove_movnt_sse_fw v dest src len s
            else memmove_movnt_sse_bw v dest src len s);
       Some (maybe_barrier v s)
     }"

definition memmove_mov_avx_fw :: "variant \<Rightarrow> addr \<Rightarrow> addr \<Rightarrow> u64 \<Rightarrow> pm \<Rightarrow> pm option" where
  "memmove_mov_avx_fw v dest src len s =
     do {
       (x, len, s) \<leftarrow> align_cp (memmove_small_avx v) (dest, src) len s;
       (x, len, s) \<leftarrow> while_cp (memmove_mov8x64b_avx v) (8 * 64) x len s;
       (x, len, s) \<leftarrow> if_cp (memmove_mov4x64b_avx v) (4 * 64) x len s;
       (x, len, s) \<leftarrow> if_cp (memmove_mov2x64b_avx v) (2 * 64) x len s;
       (x, len, s) \<leftarrow> if_cp (memmove_mov1x64b_avx v) (1 * 64) x len s;
       (if len \<noteq> 0 then memmove_small_avx v (fst x) (snd x) len s else Some s)
     }"

definition memmove_mov_avx_bw :: "variant \<Rightarrow> addr \<Rightarrow> addr \<Rightarrow> u64 \<Rightarrow> pm \<Rightarrow> pm option" where
  "memmove_mov_avx_bw v dest src len s =
     do {
       (dest, src, len, s) \<leftarrow> align_bw (memmove_small_avx v) (dest + len) (src + len) len s;
       (dest, src, len, s) \<leftarrow> while_bw (memmove_mov8x64b_avx v) (8 * 64) dest src len s;
       (dest, src, len, s) \<leftarrow> if_bw (memmove_mov4x64b_avx v) (4 * 64) dest src len s;
       (dest, src, len, s) \<leftarrow> if_bw (memmove_mov2x64b_avx v) (2 * 64) dest src len s;
       (dest, src, len, s) \<leftarrow> if_bw (memmove_mov1x64b_avx v) (1 * 64) dest src len s;
       (if len \<noteq> 0 then memmove_small_avx v (dest - len) (src - len) len s else Some s)
     }"

definition memmove_mov_avx :: "variant \<Rightarrow> addr \<Rightarrow> addr \<Rightarrow> u64 \<Rightarrow> pm \<Rightarrow> pm option" where
  "memmove_mov_avx v dest src len s =
     (if dest - src \<ge> len then memmove_mov_avx_fw v dest src len s
      else memmove_mov_avx_bw v dest src len s)"

definition memmove_movnt_tail_avx :: "variant \<Rightarrow> addr \<Rightarrow> addr \<Rightarrow> u64 \<Rightarrow> pm \<Rightarrow> pm option" where
  "memmove_movnt_tail_avx v dest src len s =
     nt_tail (\<lambda>(dest, src). memmove_movnt1x32b_avx dest src) (\<lambda>(dest, src). memmove_movnt1x16b_avx dest src)
       (\<lambda>(dest, src). memmove_movnt1x8b_avx dest src) (\<lambda>(dest, src). memmove_movnt1x4b_avx dest src)
       (\<lambda>(dest, src). memmove_small_avx v dest src) (dest, src) len s"

definition memmove_movnt_avx_fw :: "variant \<Rightarrow> addr \<Rightarrow> addr \<Rightarrow> u64 \<Rightarrow> pm \<Rightarrow> pm option" where
  "memmove_movnt_avx_fw v dest src len s =
     do {
       (x, len, s) \<leftarrow> align_cp (memmove_small_avx v) (dest, src) len s;
       (x, len, s) \<leftarrow> while_cp memmove_movnt8x64b_avx (8 * 64) x len s;
       (x, len, s) \<leftarrow> if_cp memmove_movnt4x64b_avx (4 * 64) x len s;
       (x, len, s) \<leftarrow> if_cp memmove_movnt2x64b_avx (2 * 64) x len s;
       (x, len, s) \<leftarrow> if_cp memmove_movnt1x64b_avx (1 * 64) x len s;
       memmove_movnt_tail_avx v (fst x) (snd x) len s
     }"

definition memmove_movnt_avx_bw :: "variant \<Rightarrow> addr \<Rightarrow> addr \<Rightarrow> u64 \<Rightarrow> pm \<Rightarrow> pm option" where
  "memmove_movnt_avx_bw v dest src len s =
     do {
       (dest, src, len, s) \<leftarrow> align_bw (memmove_small_avx v) (dest + len) (src + len) len s;
       (dest, src, len, s) \<leftarrow> while_bw memmove_movnt8x64b_avx (8 * 64) dest src len s;
       (dest, src, len, s) \<leftarrow> if_bw memmove_movnt4x64b_avx (4 * 64) dest src len s;
       (dest, src, len, s) \<leftarrow> if_bw memmove_movnt2x64b_avx (2 * 64) dest src len s;
       (dest, src, len, s) \<leftarrow> if_bw memmove_movnt1x64b_avx (1 * 64) dest src len s;
       memmove_movnt_tail_avx v (dest - len) (src - len) len s
     }"

definition memmove_movnt_avx :: "variant \<Rightarrow> addr \<Rightarrow> addr \<Rightarrow> u64 \<Rightarrow> pm \<Rightarrow> pm option" where
  "memmove_movnt_avx v dest src len s =
     do {
       s \<leftarrow> (if dest - src \<ge> len then memmove_movnt_avx_fw v dest src len s
            else memmove_movnt_avx_bw v dest src len s);
       Some (maybe_barrier v s)
     }"

definition memmove_mov_avx512f_fw :: "variant \<Rightarrow> addr \<Rightarrow> addr \<Rightarrow> u64 \<Rightarrow> pm \<Rightarrow> pm option" where
  "memmove_mov_avx512f_fw v dest src len s =
     do {
       (x, len, s) \<leftarrow> align_cp (memmove_small_avx512f v) (dest, src) len s;
       (x, len, s) \<leftarrow> while_cp (memmove_mov32x64b_avx512f v) (32 * 64) x len s;
       (x, len, s) \<leftarrow> if_cp (memmove_mov16x64b_avx512f v) (16 * 64) x len s;
       (x, len, s) \<leftarrow> if_cp (memmove_mov8x64b_avx512f v) (8 * 64) x len s;
       (x, len, s) \<leftarrow> if_cp (memmove_mov4x64b_avx512f v) (4 * 64) x len s;
       (x, len, s) \<leftarrow> if_cp (memmove_mov2x64b_avx512f v) (2 * 64) x len s;
       (x, len, s) \<leftarrow> if_cp (memmove_mov1x64b_avx512f v) (1 * 64) x len s;
       (if len \<noteq> 0 then memmove_small_avx512f v (fst x) (snd x) len s else Some s)
     }"

definition memmove_mov_avx512f_bw :: "variant \<Rightarrow> addr \<Rightarrow> addr \<Rightarrow> u64 \<Rightarrow> pm \<Rightarrow> pm option" where
  "memmove_mov_avx512f_bw v dest src len s =
     do {
       (dest, src, len, s) \<leftarrow> align_bw (memmove_small_avx512f v) (dest + len) (src + len) len s;
       (dest, src, len, s) \<leftarrow> while_bw (memmove_mov32x64b_avx512f v) (32 * 64) dest src len s;
       (dest, src, len, s) \<leftarrow> if_bw (memmove_mov16x64b_avx512f v) (16 * 64) dest src len s;
       (dest, src, len, s) \<leftarrow> if_bw (memmove_mov8x64b_avx512f v) (8 * 64) dest src len s;
       (dest, src, len, s) \<leftarrow> if_bw (memmove_mov4x64b_avx512f v) (4 * 64) dest src len s;
       (dest, src, len, s) \<leftarrow> if_bw (memmove_mov2x64b_avx512f v) (2 * 64) dest src len s;
       (dest, src, len, s) \<leftarrow> if_bw (memmove_mov1x64b_avx512f v) (1 * 64) dest src len s;
       (if len \<noteq> 0 then memmove_small_avx512f v (dest - len) (src - len) len s else Some s)
     }"

definition memmove_mov_avx512f :: "variant \<Rightarrow> addr \<Rightarrow> addr \<Rightarrow> u64 \<Rightarrow> pm \<Rightarrow> pm option" where
  "memmove_mov_avx512f v dest src len s =
     (if dest - src \<ge> len then memmove_mov_avx512f_fw v dest src len s
      else memmove_mov_avx512f_bw v dest src len s)"

definition memmove_movnt_tail_avx512f :: "variant \<Rightarrow> addr \<Rightarrow> addr \<Rightarrow> u64 \<Rightarrow> pm \<Rightarrow> pm option" where
  "memmove_movnt_tail_avx512f v dest src len s =
     nt_tail (\<lambda>(dest, src). memmove_movnt1x32b_avx512f dest src) (\<lambda>(dest, src). memmove_movnt1x16b_avx512f dest src)
       (\<lambda>(dest, src). memmove_movnt1x8b_avx512f dest src) (\<lambda>(dest, src). memmove_movnt1x4b_avx512f dest src)
       (\<lambda>(dest, src). memmove_small_avx512f v dest src) (dest, src) len s"

definition memmove_movnt_avx512f_fw :: "variant \<Rightarrow> addr \<Rightarrow> addr \<Rightarrow> u64 \<Rightarrow> pm \<Rightarrow> pm option" where
  "memmove_movnt_avx512f_fw v dest src len s =
     do {
       (x, len, s) \<leftarrow> align_cp (memmove_small_avx512f v) (dest, src) len s;
       (x, len, s) \<leftarrow> while_cp memmove_movnt32x64b_avx512f (32 * 64) x len s;
       (x, len, s) \<leftarrow> if_cp memmove_movnt16x64b_avx512f (16 * 64) x len s;
       (x, len, s) \<leftarrow> if_cp memmove_movnt8x64b_avx512f (8 * 64) x len s;
       (x, len, s) \<leftarrow> if_cp memmove_movnt4x64b_avx512f (4 * 64) x len s;
       (x, len, s) \<leftarrow> if_cp memmove_movnt2x64b_avx512f (2 * 64) x len s;
       (x, len, s) \<leftarrow> if_cp memmove_movnt1x64b_avx512f (1 * 64) x len s;
       memmove_movnt_tail_avx512f v (fst x) (snd x) len s
     }"

definition memmove_movnt_avx512f_bw :: "variant \<Rightarrow> addr \<Rightarrow> addr \<Rightarrow> u64 \<Rightarrow> pm \<Rightarrow> pm option" where
  "memmove_movnt_avx512f_bw v dest src len s =
     do {
       (dest, src, len, s) \<leftarrow> align_bw (memmove_small_avx512f v) (dest + len) (src + len) len s;
       (dest, src, len, s) \<leftarrow> while_bw memmove_movnt32x64b_avx512f (32 * 64) dest src len s;
       (dest, src, len, s) \<leftarrow> if_bw memmove_movnt16x64b_avx512f (16 * 64) dest src len s;
       (dest, src, len, s) \<leftarrow> if_bw memmove_movnt8x64b_avx512f (8 * 64) dest src len s;
       (dest, src, len, s) \<leftarrow> if_bw memmove_movnt4x64b_avx512f (4 * 64) dest src len s;
       (dest, src, len, s) \<leftarrow> if_bw memmove_movnt2x64b_avx512f (2 * 64) dest src len s;
       (dest, src, len, s) \<leftarrow> if_bw memmove_movnt1x64b_avx512f (1 * 64) dest src len s;
       memmove_movnt_tail_avx512f v (dest - len) (src - len) len s
     }"

definition memmove_movnt_avx512f :: "variant \<Rightarrow> addr \<Rightarrow> addr \<Rightarrow> u64 \<Rightarrow> pm \<Rightarrow> pm option" where
  "memmove_movnt_avx512f v dest src len s =
     do {
       s \<leftarrow> (if dest - src \<ge> len then memmove_movnt_avx512f_fw v dest src len s
            else memmove_movnt_avx512f_bw v dest src len s);
       Some (maybe_barrier v s)
     }"

section \<open>Fills\<close>

definition memset_mov_sse2 :: "variant \<Rightarrow> addr \<Rightarrow> u32 \<Rightarrow> u64 \<Rightarrow> pm \<Rightarrow> pm option" where
  "memset_mov_sse2 v dest c len s =
     do {
       let xmm = replicate 16 (ucast c);
       (dest, len, s) \<leftarrow> align_set (memset_small_sse2 v xmm) dest len s;
       (dest, len, s) \<leftarrow> while_set (memset_mov4x64b_sse2 v xmm) (4 * 64) dest len s;
       (dest, len, s) \<leftarrow> if_set (memset_mov2x64b_sse2 v xmm) (2 * 64) dest len s;
       (dest, len, s) \<leftarrow> if_set (memset_mov1x64b_sse2 v xmm) (1 * 64) dest len s;
       (if len \<noteq> 0 then memset_small_sse2 v xmm dest len s else Some s)
     }"

definition memset_movnt_sse2 :: "variant \<Rightarrow> addr \<Rightarrow> u32 \<Rightarrow> u64 \<Rightarrow> pm \<Rightarrow> pm option" where
  "memset_movnt_sse2 v dest c len s =
     do {
       let xmm = replicate 16 (ucast c);
       (dest, len, s) \<leftarrow> align_set (memset_small_sse2 v xmm) dest len s;
       (dest, len, s) \<leftarrow> while_set (memset_movnt4x64b_sse2 xmm) (4 * 64) dest len s;
       (dest, len, s) \<leftarrow> if_set (memset_movnt2x64b_sse2 xmm) (2 * 64) dest len s;
       (dest, len, s) \<leftarrow> if_set (memset_movnt1x64b_sse2 xmm) (1 * 64) dest len s;
       s \<leftarrow> nt_tail (memset_movnt1x32b_sse2 xmm) (memset_movnt1x16b_sse2 xmm)
         (memset_movnt1x8b_sse2 xmm) (memset_movnt1x4b_sse2 xmm) (memset_small_sse2 v xmm) dest len s;
       Some (maybe_barrier v s)
     }"

definition memset_mov_avx :: "variant \<Rightarrow> addr \<Rightarrow> u32 \<Rightarrow> u64 \<Rightarrow> pm \<Rightarrow> pm option" where
  "memset_mov_avx v dest c len s =
     do {
       let ymm = replicate 32 (ucast c);
       (dest, len, s) \<leftarrow> align_set (memset_small_avx v ymm) dest len s;
       (dest, len, s) \<leftarrow> while_set (memset_mov8x64b_avx v ymm) (8 * 64) dest len s;
       (dest, len, s) \<leftarrow> if_set (memset_mov4x64b_avx v ymm) (4 * 64) dest len s;
       (dest, len, s) \<leftarrow> if_set (memset_mov2x64b_avx v ymm) (2 * 64) dest len s;
       (dest, len, s) \<leftarrow> if_set (memset_mov1x64b_avx v ymm) (1 * 64) dest len s;
       (if len \<noteq> 0 then memset_small_avx v ymm dest len s else Some s)
     }"

definition memset_movnt_avx :: "variant \<Rightarrow> addr \<Rightarrow> u32 \<Rightarrow> u64 \<Rightarrow> pm \<Rightarrow> pm option" where
  "memset_movnt_avx v dest c len s =
     do {
       let ymm = replicate 32 (ucast c);
       (dest, len, s) \<leftarrow> align_set (memset_small_avx v ymm) dest len s;
       (dest, len, s) \<leftarrow> while_set (memset_movnt8x64b_avx ymm) (8 * 64) dest len s;
       (dest, len, s) \<leftarrow> if_set (memset_movnt4x64b_avx ymm) (4 * 64) dest len s;
       (dest, len, s) \<leftarrow> if_set (memset_movnt2x64b_avx ymm) (2 * 64) dest len s;
       (dest, len, s) \<leftarrow> if_set (memset_movnt1x64b_avx ymm) (1 * 64) dest len s;
       s \<leftarrow> nt_tail (memset_movnt1x32b_avx ymm) (memset_movnt1x16b_avx ymm)
         (memset_movnt1x8b_avx ymm) (memset_movnt1x4b_avx ymm) (memset_small_avx v ymm) dest len s;
       Some (maybe_barrier v s)
     }"

definition memset_mov_avx512f :: "variant \<Rightarrow> addr \<Rightarrow> u32 \<Rightarrow> u64 \<Rightarrow> pm \<Rightarrow> pm option" where
  "memset_mov_avx512f v dest c len s =
     do {
       let zmm = replicate 64 (ucast c);
       let ymm = replicate 32 (ucast c);
       (dest, len, s) \<leftarrow> align_set (memset_small_avx512f v ymm) dest len s;
       (dest, len, s) \<leftarrow> while_set (memset_mov32x64b_avx512f v zmm) (32 * 64) dest len s;
       (dest, len, s) \<leftarrow> if_set (memset_mov16x64b_avx512f v zmm) (16 * 64) dest len s;
       (dest, len, s) \<leftarrow> if_set (memset_mov8x64b_avx512f v zmm) (8 * 64) dest len s;
       (dest, len, s) \<leftarrow> if_set (memset_mov4x64b_avx512f v zmm) (4 * 64) dest len s;
       (dest, len, s) \<leftarrow> if_set (memset_mov2x64b_avx512f v zmm) (2 * 64) dest len s;
       (dest, len, s) \<leftarrow> if_set (memset_mov1x64b_avx512f v zmm) (1 * 64) dest len s;
       (if len \<noteq> 0 then memset_small_avx512f v ymm dest len s else Some s)
     }"

definition memset_movnt_avx512f :: "variant \<Rightarrow> addr \<Rightarrow> u32 \<Rightarrow> u64 \<Rightarrow> pm \<Rightarrow> pm option" where
  "memset_movnt_avx512f v dest c len s =
     do {
       let zmm = replicate 64 (ucast c);
       let ymm = replicate 32 (ucast c);
       (dest, len, s) \<leftarrow> align_set (memset_small_avx512f v ymm) dest len s;
       (dest, len, s) \<leftarrow> while_set (memset_movnt32x64b_avx512f zmm) (32 * 64) dest len s;
       (dest, len, s) \<leftarrow> if_set (memset_movnt16x64b_avx512f zmm) (16 * 64) dest len s;
       (dest, len, s) \<leftarrow> if_set (memset_movnt8x64b_avx512f zmm) (8 * 64) dest len s;
       (dest, len, s) \<leftarrow> if_set (memset_movnt4x64b_avx512f zmm) (4 * 64) dest len s;
       (dest, len, s) \<leftarrow> if_set (memset_movnt2x64b_avx512f zmm) (2 * 64) dest len s;
       (dest, len, s) \<leftarrow> if_set (memset_movnt1x64b_avx512f zmm) (1 * 64) dest len s;
       s \<leftarrow> nt_tail (memset_movnt1x32b_avx512f ymm) (memset_movnt1x16b_avx512f ymm)
         (memset_movnt1x8b_avx512f ymm) (memset_movnt1x4b_avx512f ymm) (memset_small_avx512f v ymm) dest len s;
       Some (maybe_barrier v s)
     }"

end
