(* ===== verification/Pmem_Simd_Correct.thy ===== *)
theory Pmem_Simd_Correct
  imports Pmem_Memset_Correct Pmem_Simd
begin

text \<open>
  Correctness of the parts of the vector routines: what a sequence of register stores does to the
  memory and to the bytes at risk, and what the flushes that follow it do.
\<close>

section \<open>Stores\<close>

definition region :: "addr \<Rightarrow> (nat \<times> nat) list \<Rightarrow> addr set" where
  "region d rs = {a. \<exists>(off, w)\<in>set rs. off \<le> unat (a - d) \<and> unat (a - d) < off + w}"

fun streaming :: "store_kind \<Rightarrow> bool" where
  "streaming Stream = True"
| "streaming Movnti = True"
| "streaming _ = False"

definition stored :: "store_kind \<Rightarrow> addr set \<Rightarrow> addr set \<times> addr set \<Rightarrow> addr set \<times> addr set" where
  "stored k R = (\<lambda>(D, P). if streaming k then (D - R, P \<union> R) else (D \<union> R, P - R))"

lemma stored_Un: "stored k R' (stored k R x) = stored k (R \<union> R') x"
  by (cases x) (auto simp: stored_def)

lemma stored_empty [simp]: "stored k {} x = x"
  by (cases x) (simp add: stored_def)

lemma region_simps:
  "region d [] = {}"
  "off + w \<le> 2 ^ 64 \<Longrightarrow> region d ((off, w) # rs) = span (d + of_nat off) w \<union> region d rs"
proof -
  show "region d [] = {}" by (simp add: region_def)
  assume le: "off + w \<le> 2 ^ 64"
  show "region d ((off, w) # rs) = span (d + of_nat off) w \<union> region d rs"
  proof (cases "w = 0")
    case False
    with le have off: "off < 2 ^ 64" by simp
    show ?thesis
      using le by (auto simp: region_def span_def shift_offset unat_minus_of_nat [OF off])
  qed (auto simp: region_def)
qed

lemma put_eq:
  assumes "streaming k \<or> k = Store \<Longrightarrow> k = Movnti \<or> length bs dvd unat p"
  shows "\<exists>s'. put k p bs s = Some s'
    \<and> pmem s' = (\<lambda>a. if unat (a - p) < length bs then bs ! unat (a - p) else pmem s a)
    \<and> risks s' = stored k (span p (length bs)) (risks s)"
proof -
  have "risks (s\<lparr>pmem := m\<rparr>) = risks s" for m by (simp add: risks_def)
  then show ?thesis
    using assms
    by (cases k; cases "risks s")
      (simp_all add: put_def nt_store_bytes_def store_bytes_def risks_emit stored_def Let_def)
qed

text \<open>Pieces that agree with \<open>g\<close> where they overlap.\<close>

definition pieces :: "(nat \<Rightarrow> u8) \<Rightarrow> nat \<Rightarrow> store_kind \<Rightarrow> addr \<Rightarrow> (nat \<times> u8 list) list \<Rightarrow> bool" where
  "pieces g n k d ps \<longleftrightarrow>
     (\<forall>(off, bs)\<in>set ps. off + length bs \<le> n \<and> (\<forall>j<length bs. bs ! j = g (off + j))
       \<and> (k = Store \<or> k = Stream \<longrightarrow> length bs dvd unat (d + of_nat off)))"

lemma puts_eq:
  assumes "pieces g n k d ps" "n \<le> 2 ^ 64"
  shows "\<exists>s'. puts k d ps s = Some s'
    \<and> (\<forall>a. pmem s' a = (if a \<in> region d (map (apsnd length) ps) then g (unat (a - d)) else pmem s a))
    \<and> risks s' = stored k (region d (map (apsnd length) ps)) (risks s)"
  using assms
proof (induction ps arbitrary: s)
  case Nil
  then show ?case by (simp add: region_simps)
next
  case (Cons p ps)
  obtain off bs where p: "p = (off, bs)" by (cases p)
  let ?p = "d + of_nat off" and ?R = "region d (map (apsnd length) ps)"
  have off: "off + length bs \<le> n" "\<And>j. j < length bs \<Longrightarrow> bs ! j = g (off + j)"
    "k = Store \<or> k = Stream \<Longrightarrow> length bs dvd unat ?p"
    using Cons.prems by (simp_all add: pieces_def p)
  have "\<exists>s1. put k ?p bs s = Some s1
      \<and> pmem s1 = (\<lambda>a. if unat (a - ?p) < length bs then bs ! unat (a - ?p) else pmem s a)
      \<and> risks s1 = stored k (span ?p (length bs)) (risks s)"
    by (rule put_eq) (use off(3) in \<open>cases k; simp\<close>)
  then obtain s1 where s1: "put k ?p bs s = Some s1"
    "pmem s1 = (\<lambda>a. if unat (a - ?p) < length bs then bs ! unat (a - ?p) else pmem s a)"
    "risks s1 = stored k (span ?p (length bs)) (risks s)" by blast
  from Cons.prems have "pieces g n k d ps" by (simp add: pieces_def)
  from Cons.IH [OF this Cons.prems(2), of s1] obtain s' where s': "puts k d ps s1 = Some s'"
    "\<forall>a. pmem s' a = (if a \<in> ?R then g (unat (a - d)) else pmem s1 a)" "risks s' = stored k ?R (risks s1)"
    by blast
  have le: "off + length bs \<le> 2 ^ 64" using off(1) Cons.prems(2) by simp
  have R: "region d (map (apsnd length) (p # ps)) = span ?p (length bs) \<union> ?R"
    by (simp add: p region_simps(2) [OF le])
  have "pmem s1 a = (if a \<in> span ?p (length bs) then g (unat (a - d)) else pmem s a)" for a
  proof (cases "a \<in> span ?p (length bs)")
    case True
    then have lt: "unat (a - ?p) < length bs" by (simp add: span_def)
    have "off < 2 ^ 64" using lt le by simp
    from unat_minus_of_nat [OF this, of "a - d"] lt le have "off + unat (a - ?p) = unat (a - d)"
      by (simp add: shift_offset split: if_splits)
    with True lt off(2) [of "unat (a - ?p)"] show ?thesis by (simp add: s1(2))
  qed (simp add: s1(2) span_def)
  with s' s1(1,3) have "puts k d (p # ps) s = Some s'"
    "\<forall>a. pmem s' a = (if a \<in> span ?p (length bs) \<union> ?R then g (unat (a - d)) else pmem s a)"
    "risks s' = stored k (span ?p (length bs) \<union> ?R) (risks s)"
    by (simp_all add: p stored_Un)
  then show ?case unfolding R by blast
qed

text \<open>Registers that cover a range.\<close>

definition covering :: "nat \<Rightarrow> (nat \<times> nat) list \<Rightarrow> bool" where
  "covering n rs \<longleftrightarrow>
     (\<forall>(off, w)\<in>set rs. off + w \<le> n) \<and> (\<forall>i<n. \<exists>(off, w)\<in>set rs. off \<le> i \<and> i < off + w)"

definition aligned_regs :: "store_kind \<Rightarrow> addr \<Rightarrow> (nat \<times> nat) list \<Rightarrow> bool" where
  "aligned_regs k d rs \<longleftrightarrow>
     (k = Store \<or> k = Stream \<longrightarrow> (\<forall>(off, w)\<in>set rs. w dvd unat (d + of_nat off)))"

lemma region_covering:
  assumes "covering n rs"
  shows "region d rs = span d n"
  using assms unfolding covering_def region_def span_def by (fastforce simp: less_le_trans)

lemma move_regs_eq:
  assumes "covering n rs" "aligned_regs k d rs" "n \<le> 2 ^ 64"
  shows "\<exists>s'. move_regs k rs d c s = Some s' \<and> pmem s' = copy_chunk d c n (pmem s)
    \<and> risks s' = stored k (span d n) (risks s)"
proof -
  let ?ps = "map (\<lambda>(off, w). (off, bytes_at (pmem s) (c + of_nat off) w)) rs"
  have "pieces (\<lambda>i. pmem s (c + of_nat i)) n k d ?ps"
    using assms(1,2)
    by (fastforce simp: pieces_def covering_def aligned_regs_def bytes_at_def add.assoc)
  from puts_eq [OF this assms(3), of s] obtain s' where s': "puts k d ?ps s = Some s'"
    "\<forall>a. pmem s' a = (if a \<in> region d (map (apsnd length) ?ps) then pmem s (c + of_nat (unat (a - d))) else pmem s a)"
    "risks s' = stored k (region d (map (apsnd length) ?ps)) (risks s)" by blast
  have "map (apsnd length) ?ps = rs" by (induction rs) (auto simp: bytes_at_def)
  with s' show ?thesis
    by (intro exI [of _ s']) (auto simp: move_regs_def region_covering [OF assms(1)] copy_chunk_def span_def)
qed

lemma fill_regs_eq:
  assumes "covering n rs" "aligned_regs k d rs" "n \<le> 2 ^ 64" "\<forall>(off, w)\<in>set rs. w \<le> W"
  shows "\<exists>s'. fill_regs k rs d (replicate W b) s = Some s' \<and> pmem s' = fill_chunk d b n (pmem s)
    \<and> risks s' = stored k (span d n) (risks s)"
proof -
  let ?ps = "map (\<lambda>(off, w). (off, take w (replicate W b))) rs"
  have "pieces (\<lambda>i. b) n k d ?ps"
    using assms(1,2,4) by (fastforce simp: pieces_def covering_def aligned_regs_def min_def)
  from puts_eq [OF this assms(3), of s] obtain s' where s': "puts k d ?ps s = Some s'"
    "\<forall>a. pmem s' a = (if a \<in> region d (map (apsnd length) ?ps) then b else pmem s a)"
    "risks s' = stored k (region d (map (apsnd length) ?ps)) (risks s)" by blast
  have "map (apsnd length) ?ps = rs"
    using assms(4) by (induction rs) (auto simp: min_def)
  with s' show ?thesis
    by (intro exI [of _ s']) (auto simp: fill_regs_def region_covering [OF assms(1)] fill_chunk_def span_def)
qed

lemma covering_regs:
  assumes "0 < w"
  shows "covering (w * n) (regs w n)"
proof -
  have "w * i + w \<le> w * n" if "i < n" for i
    using that mult_le_mono2 [of "Suc i" n w] by simp
  moreover have "\<exists>i<n. w * i \<le> j \<and> j < w * i + w" if "j < w * n" for j
    using that assms by (intro exI [of _ "j div w"])
      (simp add: div_less_iff_less_mult mult.commute dividend_less_times_div add.commute)
  ultimately show ?thesis by (fastforce simp: covering_def regs_def)
qed

lemma aligned_regs_lines:
  assumes "64 dvd unat d" "w dvd 64"
  shows "aligned_regs k d (regs w n)"
proof -
  have "w dvd unat (d + of_nat (w * i))" for i
  proof -
    have "w dvd 2 ^ LENGTH(64)" using assms(2) by (rule dvd_trans) simp
    moreover have "w dvd unat d" using assms(2,1) by (rule dvd_trans)
    ultimately show ?thesis
      by (simp add: unat_word_ariths unat_of_nat dvd_mod_iff mod_add_right_eq del: of_nat_mult)
  qed
  then show ?thesis by (auto simp: aligned_regs_def regs_def)
qed

lemma covering_small:
  assumes "0 < n" "n \<le> 64"
  shows "covering n (small_sse2_regs n)" "covering n (small_avx_regs n)"
  using assms by (auto simp: covering_def small_sse2_regs_def small_avx_regs_def)

lemma small_regs_width:
  "\<forall>(off, w)\<in>set (small_sse2_regs n). w \<le> 16" "\<forall>(off, w)\<in>set (small_avx_regs n). w \<le> 32"
  by (auto simp: small_sse2_regs_def small_avx_regs_def)

section \<open>Flushes\<close>

text \<open>
  What a routine does to the bytes at risk: with \<open>f\<close> the range is no longer dirty, without it may
  be; with \<open>st\<close> nothing of the range is left pending.
\<close>

definition effect :: "bool \<Rightarrow> bool \<Rightarrow> addr set \<Rightarrow> pm \<Rightarrow> pm \<Rightarrow> bool" where
  "effect f st R s s' \<longleftrightarrow>
     dirty s' \<subseteq> (if f then dirty s - R else dirty s \<union> R) \<and> (st \<longrightarrow> pending s' \<subseteq> pending s - R)"

lemma effect_refl: "effect f st {} s s"
  by (simp add: effect_def)

lemma effect_trans: "effect f st R s t \<Longrightarrow> effect f st R' t u \<Longrightarrow> effect f st (R \<union> R') s u"
  unfolding effect_def by (cases f) (simp; blast)+

lemma effect_mono: "effect f st R s t \<Longrightarrow> (f' \<Longrightarrow> f) \<Longrightarrow> (st' \<Longrightarrow> st) \<Longrightarrow> effect f' st' R s t"
  by (auto simp: effect_def split: if_splits)

lemma effect_stream: "streaming k \<Longrightarrow> risks t = stored k R (risks s) \<Longrightarrow> effect f False R s t"
  by (cases "risks s") (auto simp: effect_def stored_def)

fun flushes :: "variant \<Rightarrow> bool" where
  "flushes V_empty = False"
| "flushes V_noflush = False"
| "flushes _ = True"

fun ordered :: "variant \<Rightarrow> bool" where
  "ordered V_clflushopt = False"
| "ordered V_clwb = False"
| "ordered _ = True"

lemma risks_pmc [simp]: "risks (emit (HPmcFlush a n) s) = risks s" "risks (emit HPmcFence s) = risks s"
  by (cases "risks s"; simp add: risks_emit)+

fun func_of :: "variant \<Rightarrow> flush_func" where
  "func_of V_clflush = Flush_clflush"
| "func_of V_clflushopt = Flush_clflushopt"
| "func_of V_clwb = Flush_clwb"
| "func_of _ = Flush_empty"

lemma v_flush_call: "flushes v \<Longrightarrow> v_flush v = call_flush (func_of v)"
  by (cases v) simp_all

lemma v_flush_ok:
  assumes "risks s1 = stored Storeu (span d (unat n)) (risks s)" "unat d + unat n + 64 \<le> 2 ^ 64"
  shows "\<exists>s2. v_flush v d n s1 = Some s2 \<and> pmem s2 = pmem s1 \<and> effect (flushes v) (ordered v) (span d (unat n)) s s2"
proof (cases "flushes v")
  case True
  have fe: "func_of v \<noteq> Flush_empty" using True by (cases v) simp_all
  have L: "span d (unat n) \<subseteq> lines_touched d (unat n)"
    using assms(2) by (intro span_touched) simp
  from call_flush_effect [OF fe assms(2), of s1] obtain s2 where
    s2: "call_flush (func_of v) d n s1 = Some s2" "pmem s2 = pmem s1"
    "dirty s2 = dirty s1 - lines_touched d (unat n)"
    "pending s2 = (if func_of v = Flush_clflush then pending s1 - lines_touched d (unat n)
        else pending s1 \<union> (dirty s1 \<inter> lines_touched d (unat n)))"
    by blast
  moreover have "ordered v \<longleftrightarrow> func_of v = Flush_clflush" using True by (cases v) simp_all
  ultimately show ?thesis
    using True L assms(1)
    by (intro exI [of _ s2]) (cases "risks s"; auto simp: v_flush_call effect_def stored_def)
next
  case False
  then show ?thesis
    using assms(1) by (cases "risks s"; cases v) (auto simp: effect_def stored_def flush_empty_nolog_def)
qed

lemma lines_aligned:
  assumes "64 dvd unat d" "unat d + 64 * n \<le> 2 ^ 64"
  shows "(\<Union>i<n. line (d + of_nat i * 64)) = span d (64 * n)"
proof -
  obtain q where q: "unat d = 64 * q" using assms(1) by blast
  have "unat (d + of_nat i * 64) = 64 * (q + i)" if "i < n" for i
  proof -
    have "of_nat i * 64 = (of_nat (64 * i) :: addr)" by (simp add: mult.commute)
    moreover have "unat (d + of_nat (64 * i)) = unat d + 64 * i"
      using that assms(2) by (intro unat_plus_nat) simp
    ultimately show ?thesis by (simp add: q mult.commute)
  qed
  then have "(\<Union>i<n. line (d + of_nat i * 64)) = {b. \<exists>i<n. unat b div 64 = q + i}"
    by (fastforce simp: line_def)
  also have "\<dots> = {b. 64 * q \<le> unat b \<and> unat b < 64 * q + 64 * n}"
  proof (rule Collect_cong)
    fix b :: addr
    show "(\<exists>i<n. unat b div 64 = q + i) \<longleftrightarrow> 64 * q \<le> unat b \<and> unat b < 64 * q + 64 * n"
    proof
      assume "64 * q \<le> unat b \<and> unat b < 64 * q + 64 * n"
      then show "\<exists>i<n. unat b div 64 = q + i"
        by (intro exI [of _ "unat b div 64 - q"]) (elim conjE; linarith)
    next
      assume "\<exists>i<n. unat b div 64 = q + i"
      then show "64 * q \<le> unat b \<and> unat b < 64 * q + 64 * n" by (elim exE conjE) linarith
    qed
  qed
  finally show ?thesis using assms(2) by (simp add: span_nat q)
qed

lemma flush64bs_ok:
  assumes "risks s1 = stored Store (span d (64 * n)) (risks s)" "64 dvd unat d" "unat d + 64 * n \<le> 2 ^ 64"
  shows "pmem (flush64bs v n d s1) = pmem s1"
    "effect (flushes v) (ordered v) (span d (64 * n)) s (flush64bs v n d s1)"
proof -
  let ?as = "map (\<lambda>i. d + of_nat i * 64) [0..<n]"
  have L: "(\<Union>p\<in>set ?as. line p) = span d (64 * n)"
    using lines_aligned [OF assms(2,3)] by (simp add: lessThan_atLeast0)
  have "pmem (flush64bs v n d s1) = pmem s1 \<and> effect (flushes v) (ordered v) (span d (64 * n)) s (flush64bs v n d s1)"
  proof (cases "flushes v")
    case True
    let ?i = "instr_of (func_of v)"
    let ?s = "s1\<lparr>hw := hw s1 @ map (HFlush ?i) ?as\<rparr>"
    have "flush64bs v n d s1 = fold (\<lambda>p. emit (HFlush ?i p)) ?as s1"
      using True by (cases v) (simp_all add: flush64bs_def fold_map comp_def)
    then have e: "flush64bs v n d s1 = ?s" by (simp only: fold_emit)
    have "risks ?s = fold at_risk (map (HFlush ?i) ?as) (risks s1)" by (simp add: risks_def)
    then have "risks ?s = (dirty s1 - span d (64 * n),
        if ?i = Clflush then pending s1 - span d (64 * n) else pending s1 \<union> (dirty s1 \<inter> span d (64 * n)))"
      using L by (cases "risks s1") (simp only: fold_flush_risk Let_def fst_conv snd_conv)
    moreover have "ordered v \<longleftrightarrow> ?i = Clflush" using True by (cases v) simp_all
    ultimately show ?thesis
      unfolding e using True assms(1) by (cases "risks s") (auto simp: effect_def stored_def)
  next
    case False
    have pmc: "pmem (fold (\<lambda>i. emit (HPmcFlush (g i) 64)) xs t) = pmem t
        \<and> risks (fold (\<lambda>i. emit (HPmcFlush (g i) 64)) xs t) = risks t" for g :: "nat \<Rightarrow> addr" and xs t
      by (induction xs arbitrary: t) simp_all
    have id: "fold (\<lambda>i s. s) xs = (\<lambda>s. s)" for xs :: "nat list" by (induction xs) (simp_all add: fun_eq_iff)
    show ?thesis
      using False assms(1) pmc by (cases "risks s"; cases v) (auto simp: effect_def stored_def flush64bs_def id)
  qed
  then show "pmem (flush64bs v n d s1) = pmem s1"
    "effect (flushes v) (ordered v) (span d (64 * n)) s (flush64bs v n d s1)" by simp_all
qed

end
