(* ===== verification/Pmem_Simd_Loops.thy ===== *)
theory Pmem_Simd_Loops
  imports Pmem_Simd_Correct
begin

text \<open>
  The loops of the vector routines over an abstract cursor. A copy and a fill differ in what the
  cursor is and in what they do to the memory; the contract of one block carries over to the loop.
\<close>

section \<open>Cursors\<close>

definition room :: "addr \<Rightarrow> nat \<Rightarrow> bool" where
  "room d n \<longleftrightarrow> unat d + n + 64 \<le> 2 ^ 64"

text \<open>At the start of a line, unless nothing is left.\<close>

definition lined :: "addr \<Rightarrow> nat \<Rightarrow> bool" where
  "lined d n \<longleftrightarrow> 64 dvd unat d \<or> n = 0"

lemma low_6: "unat (d AND 63 :: addr) = unat d mod 64"
proof -
  have "d AND 63 = take_bit 6 d" by (simp add: take_bit_eq_mask mask_eq_exp_minus_1)
  then show ?thesis using take_bit_eq_mod [of 6 "unat d"] by (simp add: unsigned_take_bit_eq)
qed

locale cursor =
  fixes adv :: "'x \<Rightarrow> u64 \<Rightarrow> 'x" and dst :: "'x \<Rightarrow> addr" and chunk :: "'x \<Rightarrow> nat \<Rightarrow> memory \<Rightarrow> memory"
    and fits :: "'x \<Rightarrow> nat \<Rightarrow> bool"
  assumes dst_adv: "dst (adv x w) = dst x + w"
    and adv_0: "adv x 0 = x"
    and adv_add: "adv (adv x p) q = adv x (p + q)"
    and chunk_0: "chunk x 0 m = m"
    and chunk_append: "fits x (a + b) \<Longrightarrow> chunk (adv x (of_nat a)) b (chunk x a m) = chunk x (a + b) m"
    and fits_right: "fits x (a + b) \<Longrightarrow> fits (adv x (of_nat a)) b"
    and fits_left: "fits x (a + b) \<Longrightarrow> fits x a"
begin

definition does :: "bool \<Rightarrow> bool \<Rightarrow> 'x \<Rightarrow> nat \<Rightarrow> pm \<Rightarrow> pm \<Rightarrow> bool" where
  "does f st x n s s' \<longleftrightarrow> pmem s' = chunk x n (pmem s) \<and> effect f st (span (dst x) n) s s'"

definition ready :: "'x \<Rightarrow> nat \<Rightarrow> bool" where
  "ready x n \<longleftrightarrow> lined (dst x) n \<and> room (dst x) n \<and> fits x n"

text \<open>A step that leaves less than \<open>w\<close> bytes to do.\<close>

definition stage ::
  "bool \<Rightarrow> bool \<Rightarrow> ('x \<Rightarrow> u64 \<Rightarrow> pm \<Rightarrow> ('x \<times> u64 \<times> pm) option) \<Rightarrow> (nat \<Rightarrow> bool) \<Rightarrow> nat \<Rightarrow> bool"
where
  "stage f st step pre w \<longleftrightarrow>
     (\<forall>x len s. ready x (unat len) \<and> pre (unat len) \<longrightarrow>
       (\<exists>k s'. step x len s = Some (adv x (of_nat k), len - of_nat k, s') \<and> k \<le> unat len
         \<and> unat len - k < w \<and> 64 dvd k \<and> does f st x k s s'))"

lemma does_0: "does f st x 0 s s"
  by (simp add: does_def chunk_0 effect_refl)

lemma does_mono: "does f st x n s t \<Longrightarrow> (f' \<Longrightarrow> f) \<Longrightarrow> (st' \<Longrightarrow> st) \<Longrightarrow> does f' st' x n s t"
  unfolding does_def by (elim conjE) (blast intro: effect_mono)

lemma does_append:
  assumes "does f st x a s t" "does f st (adv x (of_nat a)) b t u" "fits x (a + b)" "a + b \<le> 2 ^ 64"
  shows "does f st x (a + b) s u"
  using assms chunk_append [OF assms(3)] span_append [OF assms(4)] effect_trans
  by (auto simp: does_def dst_adv)

lemma rest:
  fixes len :: u64
  assumes "k \<le> unat len" "room (dst x) (unat len)" "fits x (unat len)"
  shows "unat (len - of_nat k) = unat len - k" "room (dst (adv x (of_nat k))) (unat len - k)"
    "fits (adv x (of_nat k)) (unat len - k)" "unat (dst (adv x (of_nat k))) = unat (dst x) + k"
proof -
  show "unat (len - of_nat k) = unat len - k" by (rule unat_minus_le [OF assms(1)])
  show d: "unat (dst (adv x (of_nat k))) = unat (dst x) + k"
    unfolding dst_adv using assms(1,2) by (intro unat_plus_nat) (simp add: room_def)
  show "room (dst (adv x (of_nat k))) (unat len - k)" using assms(1,2) d by (simp add: room_def)
  show "fits (adv x (of_nat k)) (unat len - k)" using fits_right [of x k "unat len - k"] assms by simp
qed

lemma rest_does:
  fixes len :: u64
  assumes "does f st x k s t" "does f st (adv x (of_nat k)) (unat len - k) t u"
    "k \<le> unat len" "fits x (unat len)"
  shows "does f st x (unat len) s u"
  using does_append [OF assms(1,2)] assms(3,4) unat_lt_64 [of len] by simp

lemma fw_step:
  assumes "stage f st step pre w" "ready x (unat len)" "pre (unat len)"
    and K: "\<And>x' len' s'. ready x' (unat len') \<Longrightarrow> unat len' < w \<Longrightarrow>
      \<exists>s''. K x' len' s' = Some s'' \<and> does f st x' (unat len') s' s''"
  shows "\<exists>s''. Option.bind (step x len s) (\<lambda>(x, len, s). K x len s) = Some s'' \<and> does f st x (unat len) s s''"
proof -
  from assms(1-3) obtain k s' where k: "step x len s = Some (adv x (of_nat k), len - of_nat k, s')"
    "k \<le> unat len" "unat len - k < w" "64 dvd k" "does f st x k s s'"
    unfolding stage_def by blast
  note r = rest [OF k(2)]
  have "ready (adv x (of_nat k)) (unat (len - of_nat k))"
    using assms(2) r k(2,4) by (auto simp: ready_def lined_def)
  from K [OF this, of s'] r(1) k(3) assms(2) obtain s'' where
    "K (adv x (of_nat k)) (len - of_nat k) s' = Some s''"
    "does f st (adv x (of_nat k)) (unat len - k) s' s''" by (auto simp: ready_def)
  with k(1) rest_does [OF k(5) _ k(2)] assms(2) show ?thesis by (auto simp: ready_def)
qed

text \<open>Less than a line at a time.\<close>

definition small_ok :: "bool \<Rightarrow> bool \<Rightarrow> ('x \<Rightarrow> u64 \<Rightarrow> pm \<Rightarrow> pm option) \<Rightarrow> bool" where
  "small_ok f st small \<longleftrightarrow>
     (\<forall>x n s. 0 < unat n \<and> unat n \<le> 64 \<and> room (dst x) (unat n) \<longrightarrow>
       (\<exists>s'. small x n s = Some s' \<and> does f st x (unat n) s s'))"

lemma align_step:
  assumes "small_ok f st small" "room (dst x) (unat len)" "fits x (unat len)" "len \<noteq> 0"
    and K: "\<And>x' len' s'. ready x' (unat len') \<Longrightarrow>
      \<exists>s''. K x' len' s' = Some s'' \<and> does f st x' (unat len') s' s''"
  shows "\<exists>s''. Option.bind (align_fw adv dst small x len s) (\<lambda>(x, len, s). K x len s) = Some s'' \<and> does f st x (unat len) s s''"
proof -
  have low: "unat (dst x AND 63) = unat (dst x) mod 64" by (rule low_6)
  show ?thesis
  proof (cases "dst x AND 63 = 0")
    case True
    then have "ready x (unat len)" using low assms(2,3) by (auto simp: ready_def lined_def)
    from K [OF this, of s] True show ?thesis by (simp add: align_fw_def)
  next
    case False
    define cnt :: u64 where "cnt = (if 64 - (dst x AND 63) > len then len else 64 - (dst x AND 63))"
    have lt: "unat (dst x AND 63) < 64" "dst x AND 63 \<noteq> 0" "len \<noteq> 0" using low False assms(4) by auto
    have u: "unat (64 - (dst x AND 63)) = 64 - unat (dst x) mod 64"
      using lt(1) low by (subst unat_sub) (simp_all add: word_le_nat_alt)
    have cnt: "unat cnt \<le> unat len" "0 < unat cnt" "unat cnt \<le> 64"
      using lt u low by (auto simp: cnt_def word_less_nat_alt unat_gt_0 not_less)
    have "room (dst x) (unat cnt)" using assms(2) cnt(1) by (simp add: room_def)
    with assms(1) cnt obtain s1 where s1: "small x cnt s = Some s1" "does f st x (unat cnt) s s1"
      unfolding small_ok_def by blast
    note r = rest [OF cnt(1) assms(2,3), simplified]
    have "ready (adv x cnt) (unat (len - cnt))"
    proof -
      have "lined (dst (adv x cnt)) (unat len - unat cnt)"
      proof (cases "64 - (dst x AND 63) > len")
        case False
        then have "unat (dst (adv x cnt)) = unat (dst x) + (64 - unat (dst x) mod 64)" using r(4) u by (simp add: cnt_def)
        moreover have "64 dvd unat (dst x) + (64 - unat (dst x) mod 64)" by presburger
        ultimately show ?thesis by (simp add: lined_def)
      qed (simp add: lined_def cnt_def)
      with r show ?thesis by (simp add: ready_def)
    qed
    from K [OF this, of s1] obtain s'' where "K (adv x cnt) (len - cnt) s1 = Some s''"
      "does f st (adv x cnt) (unat len - unat cnt) s1 s''" using r(1) by auto
    moreover have "align_fw adv dst small x len s = Some (adv x cnt, len - cnt, s1)"
      using lt s1(1) by (simp add: align_fw_def Let_def cnt_def [symmetric] word_gt_0)
    ultimately show ?thesis using rest_does [OF s1(2) _ cnt(1) assms(3)] by simp
  qed
qed

lemma last_step:
  assumes "small_ok f st small" "ready x (unat len)" "unat len < 64"
  shows "\<exists>s'. (if len \<noteq> 0 then small x len s else Some s) = Some s' \<and> does f st x (unat len) s s'"
  using assms does_0 by (cases "len = 0") (auto simp: small_ok_def ready_def unat_gt_0)

lemma small_ok_mono: "small_ok f st small \<Longrightarrow> (f' \<Longrightarrow> f) \<Longrightarrow> (st' \<Longrightarrow> st) \<Longrightarrow> small_ok f' st' small"
  unfolding small_ok_def using does_mono by blast

text \<open>One streamed block of \<open>w\<close> bytes.\<close>

definition block_ok :: "bool \<Rightarrow> ('x \<Rightarrow> pm \<Rightarrow> pm option) \<Rightarrow> nat \<Rightarrow> bool" where
  "block_ok f m w \<longleftrightarrow>
     (\<forall>x s. w dvd unat (dst x) \<and> room (dst x) w \<longrightarrow> (\<exists>s'. m x s = Some s' \<and> does f False x w s s'))"

lemma nt_tail_ok:
  assumes "block_ok f m32 32" "block_ok f m16 16" "block_ok f m8 8" "block_ok f m4 4"
    and small: "small_ok f False small"
    and n: "unat n < 64" "room (dst x) (unat n)" "n = 0 \<or> 64 dvd unat (dst x) \<or> 64 dvd unat (dst x) + unat n"
  shows "\<exists>s'. nt_tail m32 m16 m8 m4 small x n s = Some s' \<and> does f False x (unat n) s s'"
proof -
  have block: "\<exists>s'. m x s = Some s' \<and> does f False x (unat n) s s'"
    if "block_ok f m w" "unat n = w" "w dvd 64" "n \<noteq> 0" for m w
  proof -
    have "w dvd unat (dst x)" using n(3) that(2-4) by (metis dvd_add_left_iff dvd_refl dvd_trans)
    with that(1,2) n(2) show ?thesis by (auto simp: block_ok_def)
  qed
  have sm: "\<exists>s'. small x n s = Some s' \<and> does f False x (unat n) s s'" if "n \<noteq> 0"
    using small n(1,2) that by (simp add: small_ok_def unat_gt_0)
  consider "n = 0" | "n = 32" | "n = 16" | "n = 8" | "n = 4" | "n \<noteq> 0" "n \<noteq> 32" "n \<noteq> 16" "n \<noteq> 8" "n \<noteq> 4"
    by blast
  then show ?thesis
  proof cases
    case 1 then show ?thesis by (simp add: nt_tail_def does_0)
  next
    case 2 with block [OF assms(1)] show ?thesis by (simp add: nt_tail_def util_is_pow2_def)
  next
    case 3 with block [OF assms(2)] show ?thesis by (simp add: nt_tail_def util_is_pow2_def)
  next
    case 4 with block [OF assms(3)] show ?thesis by (simp add: nt_tail_def util_is_pow2_def)
  next
    case 5 with block [OF assms(4)] show ?thesis by (simp add: nt_tail_def util_is_pow2_def)
  next
    case 6 with sm show ?thesis by (simp add: nt_tail_def)
  qed
qed

end

section \<open>Blocks of lines\<close>

text \<open>The contract of a routine that moves \<open>w\<close> bytes at the start of a line.\<close>

locale line_mover = cursor adv dst chunk fits
  for adv :: "'x \<Rightarrow> u64 \<Rightarrow> 'x" and dst chunk fits +
  fixes mov :: "'x \<Rightarrow> pm \<Rightarrow> pm option" and w :: u64 and f st :: bool
  assumes w_pos: "0 < unat w" and w_lines: "64 dvd unat w"
    and mov_does: "64 dvd unat (dst x) \<Longrightarrow> room (dst x) (unat w) \<Longrightarrow>
      \<exists>s'. mov x s = Some s' \<and> does f st x (unat w) s s'"
begin

lemma one_move:
  assumes "ready x (unat len)" "w \<le> len"
  shows "\<exists>s'. mov x s = Some s' \<and> does f st x (unat w) s s'" "unat w \<le> unat len"
    "unat (len - w) = unat len - unat w" "ready (adv x w) (unat (len - w))"
proof -
  show le: "unat w \<le> unat len" using assms(2) by (simp add: word_le_nat_alt)
  have d: "64 dvd unat (dst x)" using assms(1) le w_pos by (auto simp: ready_def lined_def)
  show "\<exists>s'. mov x s = Some s' \<and> does f st x (unat w) s s'"
    using assms(1) le by (intro mov_does d) (auto simp: ready_def room_def)
  note r = rest [OF le, of x, simplified]
  show "unat (len - w) = unat len - unat w" using assms(1) r(1) by (simp add: ready_def)
  show "ready (adv x w) (unat (len - w))"
    using assms(1) r d w_lines by (auto simp: ready_def lined_def)
qed

lemma if_stage: "stage f st (if_fw adv mov w) (\<lambda>n. n < 2 * unat w) (unat w)"
  unfolding stage_def
proof (intro allI impI, elim conjE)
  fix x s and len :: u64
  assume a: "ready x (unat len)" "unat len < 2 * unat w"
  show "\<exists>k s'. if_fw adv mov w x len s = Some (adv x (of_nat k), len - of_nat k, s') \<and> k \<le> unat len
      \<and> unat len - k < unat w \<and> 64 dvd k \<and> does f st x k s s'"
  proof (cases "w \<le> len")
    case True
    note m = one_move [OF a(1) True]
    from m(1) [of s] obtain s' where "mov x s = Some s'" "does f st x (unat w) s s'" by blast
    with True m(2) a(2) w_lines show ?thesis
      by (intro exI [of _ "unat w"] exI [of _ s']) (simp add: if_fw_def)
  next
    case False
    then show ?thesis
      by (intro exI [of _ 0] exI [of _ s]) (simp add: if_fw_def adv_0 does_0 word_le_nat_alt)
  qed
qed

lemma while_stage: "stage f st (while_fw adv mov w) (\<lambda>_. True) (unat w)"
proof -
  have "ready x (unat len) \<Longrightarrow>
      \<exists>k s'. while_fw adv mov w x len s = Some (adv x (of_nat k), len - of_nat k, s') \<and> k \<le> unat len
        \<and> unat len - k < unat w \<and> 64 dvd k \<and> does f st x k s s'" for x len s
  proof (induction "unat len" arbitrary: x len s rule: less_induct)
    case less
    show ?case
    proof (cases "w \<le> len")
      case True
      note m = one_move [OF less.prems True]
      from m(1) [of s] obtain s1 where s1: "mov x s = Some s1" "does f st x (unat w) s s1" by blast
      have "unat (len - w) < unat len" using m(2,3) w_pos by simp
      from less.hyps [OF this m(4), of s1] obtain k s' where
        k: "while_fw adv mov w (adv x w) (len - w) s1 = Some (adv (adv x w) (of_nat k), len - w - of_nat k, s')"
        "k \<le> unat (len - w)" "unat (len - w) - k < unat w" "64 dvd k" "does f st (adv x w) k s1 s'"
        by blast
      have e: "of_nat (unat w + k) = w + of_nat k" by simp
      have "while_fw adv mov w x len s = Some (adv x (of_nat (unat w + k)), len - of_nat (unat w + k), s')"
        unfolding e while_fw.simps [of adv mov w x len s] using True s1(1) k(1)
        by (simp add: adv_add diff_diff_eq)
      moreover have "does f st x (unat w + k) s s'"
      proof (rule does_append [OF s1(2)])
        show "does f st (adv x (of_nat (unat w))) k s1 s'" using k(5) by simp
        have "unat w + k + (unat len - unat w - k) = unat len" using k(2) m(2,3) by simp
        then show "fits x (unat w + k)"
          using less.prems fits_left [of x "unat w + k" "unat len - unat w - k"] by (simp add: ready_def)
        show "unat w + k \<le> 2 ^ 64" using k(2) m(2,3) unat_lt_64 [of len] by simp
      qed
      ultimately show ?thesis using k(2-4) m(2,3) w_lines by (intro exI [of _ "unat w + k"] exI [of _ s']) simp
    next
      case False
      then show ?thesis
        by (subst while_fw.simps, intro exI [of _ 0] exI [of _ s]) (simp add: adv_0 does_0 word_le_nat_alt)
    qed
  qed
  then show ?thesis by (simp add: stage_def)
qed

end

end
