(* ===== verification/Pmem_Simd_Copy.thy ===== *)
theory Pmem_Simd_Copy
  imports Pmem_Simd_Loops
begin

text \<open>
  Correctness of the vector copies: upwards with the loops over the cursor of destination and
  source, downwards with the same contract of the blocks.
\<close>

section \<open>The cursor of a copy\<close>

interpretation cp: cursor adv2 fst "\<lambda>x. copy_chunk (fst x) (snd x)" "\<lambda>x n. n \<le> unat (fst x - snd x)"
proof unfold_locales
  fix x :: "addr \<times> addr" and a b m
  assume "a + b \<le> unat (fst x - snd x)"
  then show "copy_chunk (fst (adv2 x (of_nat a))) (snd (adv2 x (of_nat a))) b (copy_chunk (fst x) (snd x) a m)
      = copy_chunk (fst x) (snd x) (a + b) m"
    by (simp add: adv2_def copy_chunk_up)
qed (simp_all add: adv2_def add.assoc)

lemma does_down:
  assumes "cp.does f st (d + of_nat a, c + of_nat a) b s t" "cp.does f st (d, c) a t u"
    "unat (d - c) + a + b \<le> 2 ^ 64"
  shows "cp.does f st (d, c) (a + b) s u"
proof -
  have "span d (a + b) = span (d + of_nat a) b \<union> span d a"
    using assms(3) span_append [of a b d] by (simp add: Un_commute)
  with assms(1,2) copy_chunk_down [OF assms(3)] effect_trans show ?thesis by (auto simp: cp.does_def)
qed

definition ready_down :: "addr \<Rightarrow> addr \<Rightarrow> u64 \<Rightarrow> bool" where
  "ready_down d c len \<longleftrightarrow> lined (d + len) (unat len) \<and> room d (unat len) \<and> unat (d - c) + unat len \<le> 2 ^ 64"

definition stage_down ::
  "bool \<Rightarrow> bool \<Rightarrow> (addr \<Rightarrow> addr \<Rightarrow> u64 \<Rightarrow> pm \<Rightarrow> (addr \<times> addr \<times> u64 \<times> pm) option) \<Rightarrow> (nat \<Rightarrow> bool) \<Rightarrow> nat \<Rightarrow> bool"
where
  "stage_down f st step pre w \<longleftrightarrow>
     (\<forall>d c len s. ready_down d c len \<and> pre (unat len) \<longrightarrow>
       (\<exists>r s'. step (d + len) (c + len) len s = Some (d + r, c + r, r, s') \<and> unat r \<le> unat len
         \<and> unat r < w \<and> 64 dvd unat len - unat r
         \<and> cp.does f st (d + r, c + r) (unat len - unat r) s s'))"

lemma down_does:
  assumes "cp.does f st (d + r, c + r) (unat len - unat r) s t" "cp.does f st (d, c) (unat r) t u"
    "unat r \<le> unat len" "unat (d - c) + unat len \<le> 2 ^ 64"
  shows "cp.does f st (d, c) (unat len) s u"
  using does_down [of f st d "unat r" c "unat len - unat r" s t u, unfolded of_nat_unat_64] assms by simp

lemma ready_down_rest:
  assumes "ready_down d c len" "unat r \<le> unat len" "64 dvd unat len - unat r"
  shows "ready_down d c r"
proof -
  have u: "unat (d + x) = unat d + unat x" if "unat x \<le> unat len" for x
    using that assms(1) by (intro unat_plus_no_overflow) (simp add: ready_down_def room_def)
  have "64 dvd unat (d + r)" if "64 dvd unat (d + len)"
  proof -
    have "unat (d + len) = unat (d + r) + (unat len - unat r)" using u assms(2) by simp
    with that assms(3) show ?thesis by (metis dvd_add_left_iff)
  qed
  moreover have "unat len = 0 \<Longrightarrow> unat r = 0" using assms(2) by simp
  ultimately show ?thesis using assms(1,2) by (auto simp: ready_down_def lined_def room_def)
qed

lemma bw_step:
  assumes "stage_down f st step pre w" "ready_down d c len" "pre (unat len)"
    and K: "\<And>r s'. ready_down d c r \<Longrightarrow> unat r < w \<Longrightarrow>
      \<exists>s''. K (d + r) (c + r) r s' = Some s'' \<and> cp.does f st (d, c) (unat r) s' s''"
  shows "\<exists>s''. Option.bind (step (d + len) (c + len) len s) (\<lambda>(d, c, len, s). K d c len s) = Some s'' \<and> cp.does f st (d, c) (unat len) s s''"
proof -
  from assms(1-3) obtain r s' where r: "step (d + len) (c + len) len s = Some (d + r, c + r, r, s')"
    "unat r \<le> unat len" "unat r < w" "64 dvd unat len - unat r"
    "cp.does f st (d + r, c + r) (unat len - unat r) s s'"
    unfolding stage_down_def by blast
  from K [OF ready_down_rest [OF assms(2) r(2,4)] r(3), of s'] obtain s'' where
    "K (d + r) (c + r) r s' = Some s''" "cp.does f st (d, c) (unat r) s' s''" by blast
  with r(1) down_does [OF r(5) _ r(2)] assms(2) show ?thesis by (auto simp: ready_down_def)
qed

lemma align_bw_step:
  assumes "cp.small_ok f st (\<lambda>(dest, src). small dest src)" "room d (unat len)"
    "unat (d - c) + unat len \<le> 2 ^ 64" "len \<noteq> 0"
    and K: "\<And>r s'. ready_down d c r \<Longrightarrow>
      \<exists>s''. K (d + r) (c + r) r s' = Some s'' \<and> cp.does f st (d, c) (unat r) s' s''"
  shows "\<exists>s''. Option.bind (align_bw small (d + len) (c + len) len s) (\<lambda>(d, c, len, s). K d c len s) = Some s''
    \<and> cp.does f st (d, c) (unat len) s s''"
proof (cases "(d + len) AND 63 = 0")
  case True
  then have "ready_down d c len" using low_6 [of "d + len"] assms(2,3) by (auto simp: ready_down_def lined_def)
  from K [OF this, of s] True show ?thesis by (simp add: align_bw_def)
next
  case False
  define cnt where "cnt = (if (d + len) AND 63 > len then len else (d + len) AND 63)"
  define r where "r = len - cnt"
  have low: "unat ((d + len) AND 63) = unat (d + len) mod 64" by (rule low_6)
  have cnt: "unat cnt \<le> unat len" "0 < unat cnt" "unat cnt \<le> 64"
    using False low assms(4) by (auto simp: cnt_def word_less_nat_alt unat_gt_0 not_less)
  have r: "unat r = unat len - unat cnt" using cnt(1) unat_minus_le [of "unat cnt" len] by (simp add: r_def)
  have e: "d + len - cnt = d + r" "c + len - cnt = c + r" by (simp_all add: r_def)
  have u: "unat (d + x) = unat d + unat x" if "unat x \<le> unat len" for x
    using that assms(2) by (intro unat_plus_no_overflow) (simp add: room_def)
  have dr: "unat (d + r) = unat d + unat r" using r by (intro u) simp
  have "room (d + r) (unat cnt)" using assms(2) cnt(1) r dr by (simp add: room_def)
  with assms(1) cnt(2,3) obtain s1 where s1: "small (d + r) (c + r) cnt s = Some s1"
    "cp.does f st (d + r, c + r) (unat cnt) s s1" by (fastforce simp: cp.small_ok_def)
  have "ready_down d c r"
  proof -
    have "lined (d + r) (unat r)"
    proof (cases "(d + len) AND 63 > len")
      case False
      then have "unat (d + r) = unat (d + len) - unat (d + len) mod 64"
        using dr u [of len] r low cnt(1) by (simp add: cnt_def)
      then show ?thesis by (simp add: lined_def)
    qed (simp add: lined_def r_def cnt_def)
    then show ?thesis using assms(2,3) r by (auto simp: ready_down_def room_def)
  qed
  from K [OF this, of s1] obtain s'' where "K (d + r) (c + r) r s1 = Some s''"
    "cp.does f st (d, c) (unat r) s1 s''" by blast
  moreover have "align_bw small (d + len) (c + len) len s = Some (d + r, c + r, r, s1)"
    using False s1(1) by (simp add: align_bw_def Let_def cnt_def [symmetric] word_gt_0 e r_def [symmetric])
  ultimately show ?thesis
    using down_does [of f st d r c len s s1] s1(2) r cnt(1) assms(3) by auto
qed

section \<open>Blocks of a copy\<close>

locale copy_mover = line_mover adv2 fst "\<lambda>x. copy_chunk (fst x) (snd x)" "\<lambda>x n. n \<le> unat (fst x - snd x)"
    "\<lambda>(dest, src). mv dest src" w f st
  for mv :: "addr \<Rightarrow> addr \<Rightarrow> pm \<Rightarrow> pm option" and w f st
begin

lemma one_down:
  assumes "ready_down d c len" "w \<le> len"
  shows "\<exists>s'. mv (d + (len - w)) (c + (len - w)) s = Some s'
      \<and> cp.does f st (d + (len - w), c + (len - w)) (unat w) s s'"
    "unat w \<le> unat len" "unat (len - w) = unat len - unat w" "ready_down d c (len - w)"
proof -
  show le: "unat w \<le> unat len" using assms(2) by (simp add: word_le_nat_alt)
  show m: "unat (len - w) = unat len - unat w" using assms(2) by (rule unat_sub)
  show r: "ready_down d c (len - w)" using m le w_lines by (intro ready_down_rest [OF assms(1)]) simp_all
  have u: "unat (d + (len - w)) = unat d + (unat len - unat w)"
    using m assms(1) by (subst unat_plus_no_overflow) (auto simp: ready_down_def room_def)
  have l: "unat (d + len) = unat d + unat len"
    using assms(1) by (intro unat_plus_no_overflow) (simp add: ready_down_def room_def)
  have "64 dvd unat (d + len)" using assms(1) le w_pos by (auto simp: ready_down_def lined_def)
  moreover have "unat (d + len) = unat (d + (len - w)) + unat w" using u l le by simp
  ultimately have "64 dvd unat (d + (len - w))" using w_lines by (metis dvd_add_left_iff)
  moreover have "room (d + (len - w)) (unat w)" using u le assms(1) by (simp add: ready_down_def room_def)
  ultimately show "\<exists>s'. mv (d + (len - w)) (c + (len - w)) s = Some s'
      \<and> cp.does f st (d + (len - w), c + (len - w)) (unat w) s s'"
    using mov_does [of "(d + (len - w), c + (len - w))" s] by simp
qed

lemma if_down: "stage_down f st (if_bw mv w) (\<lambda>n. n < 2 * unat w) (unat w)"
  unfolding stage_down_def
proof (intro allI impI, elim conjE)
  fix d c len s
  assume a: "ready_down d c len" "unat len < 2 * unat w"
  show "\<exists>r s'. if_bw mv w (d + len) (c + len) len s = Some (d + r, c + r, r, s') \<and> unat r \<le> unat len
      \<and> unat r < unat w \<and> 64 dvd unat len - unat r \<and> cp.does f st (d + r, c + r) (unat len - unat r) s s'"
  proof (cases "w \<le> len")
    case True
    note m = one_down [OF a(1) True]
    from m(1) [of s] obtain s' where "mv (d + (len - w)) (c + (len - w)) s = Some s'"
      "cp.does f st (d + (len - w), c + (len - w)) (unat w) s s'" by blast
    moreover have e: "d + len - w = d + (len - w)" "c + len - w = c + (len - w)" by simp_all
    moreover have "unat len - unat w < unat w" using a(2) m(2) by simp
    ultimately show ?thesis using True m(2,3) w_lines
      by (intro exI [of _ "len - w"] exI [of _ s']) (simp add: if_bw_def e del: diff_add_eq add_diff_eq)
  next
    case False
    then show ?thesis
      by (intro exI [of _ len] exI [of _ s]) (simp add: if_bw_def cp.does_0 word_le_nat_alt)
  qed
qed

lemma while_down: "stage_down f st (while_bw mv w) (\<lambda>_. True) (unat w)"
proof -
  have "ready_down d c len \<Longrightarrow>
      \<exists>r s'. while_bw mv w (d + len) (c + len) len s = Some (d + r, c + r, r, s') \<and> unat r \<le> unat len
        \<and> unat r < unat w \<and> 64 dvd unat len - unat r \<and> cp.does f st (d + r, c + r) (unat len - unat r) s s'" for d c len s
  proof (induction "unat len" arbitrary: len s rule: less_induct)
    case less
    show ?case
    proof (cases "w \<le> len")
      case True
      let ?l = "len - w"
      note m = one_down [OF less.prems True]
      from m(1) [of s] obtain s1 where s1: "mv (d + ?l) (c + ?l) s = Some s1"
        "cp.does f st (d + ?l, c + ?l) (unat w) s s1" by blast
      have "unat ?l < unat len" using m(2,3) w_pos by simp
      from less.hyps [OF this m(4), of s1] obtain r s' where
        r: "while_bw mv w (d + ?l) (c + ?l) ?l s1 = Some (d + r, c + r, r, s')" "unat r \<le> unat ?l"
        "unat r < unat w" "64 dvd unat ?l - unat r" "cp.does f st (d + r, c + r) (unat ?l - unat r) s1 s'"
        by blast
      have e: "d + len - w = d + ?l" "c + len - w = c + ?l" by simp_all
      have "while_bw mv w (d + len) (c + len) len s = Some (d + r, c + r, r, s')"
        unfolding while_bw.simps [of mv w "d + len"] e using True s1(1) r(1) by simp
      moreover have "cp.does f st (d + r, c + r) (unat ?l - unat r + unat w) s s'"
      proof (rule does_down [OF _ r(5)])
        have "of_nat (unat ?l - unat r) = ?l - r" using r(2) by (simp add: of_nat_diff)
        then show "cp.does f st (d + r + of_nat (unat ?l - unat r), c + r + of_nat (unat ?l - unat r)) (unat w) s s1"
          using s1(2) by simp
        show "unat (d + r - (c + r)) + (unat ?l - unat r) + unat w \<le> 2 ^ 64"
          using less.prems m(2,3) by (auto simp: ready_down_def)
      qed
      moreover have "unat ?l - unat r + unat w = unat len - unat r" using m(2,3) r(2) by simp
      moreover have "64 dvd unat len - unat r" using calculation(3) r(4) w_lines by (metis dvd_add)
      ultimately show ?thesis using r(2,3) m(2,3) by (intro exI [of _ r] exI [of _ s']) simp
    next
      case False
      then show ?thesis
        by (subst while_bw.simps, intro exI [of _ len] exI [of _ s]) (simp add: cp.does_0 word_le_nat_alt)
    qed
  qed
  then show ?thesis by (simp add: stage_down_def)
qed

end

section \<open>The blocks of the code\<close>

lemma copy_lines:
  assumes "w * n = 64 * t" "0 < w" "w dvd 64" "0 < t" "unat W = 64 * t"
  shows "copy_mover (\<lambda>dest src s. do { s \<leftarrow> move_regs Store (regs w n) dest src s; Some (flush64bs v t dest s) })
    W (flushes v) (ordered v)"
proof unfold_locales
  show "0 < unat W" "64 dvd unat W" using assms by simp_all
  fix x :: "addr \<times> addr" and s
  assume a: "64 dvd unat (fst x)" "room (fst x) (unat W)"
  obtain d c where x: "x = (d, c)" by (cases x)
  have b: "unat d + 64 * t \<le> 2 ^ 64" using a(2) assms(5) by (simp add: x room_def)
  have "covering (64 * t) (regs w n)" using covering_regs [OF assms(2), of n] assms(1) by simp
  moreover have "aligned_regs Store d (regs w n)" using a(1) assms(3) by (intro aligned_regs_lines) (simp_all add: x)
  ultimately obtain s1 where s1: "move_regs Store (regs w n) d c s = Some s1"
    "pmem s1 = copy_chunk d c (64 * t) (pmem s)" "risks s1 = stored Store (span d (64 * t)) (risks s)"
    using move_regs_eq [of "64 * t" "regs w n" Store d c s] b by auto
  note fl = flush64bs_ok [OF s1(3) _ b, of v]
  from fl s1(1,2) a(1) show "\<exists>s'. (case x of (dest, src) \<Rightarrow> \<lambda>s. do { s \<leftarrow> move_regs Store (regs w n) dest src s;
      Some (flush64bs v t dest s) }) s = Some s' \<and> cp.does (flushes v) (ordered v) x (unat W) s s'"
    by (simp add: x cp.does_def assms(5))
qed

lemma stream_copy:
  assumes "w * n = N" "0 < w" "aligned_regs k d (regs w n)" "streaming k" "N \<le> 2 ^ 64"
  shows "\<exists>s'. do { s \<leftarrow> move_regs k (regs w n) d c s; Some (VALGRIND_DO_FLUSH a m s) } = Some s'
    \<and> cp.does f False (d, c) N s s'"
proof -
  have "covering N (regs w n)" using covering_regs [OF assms(2), of n] assms(1) by simp
  from move_regs_eq [OF this assms(3,5), of c s] obtain s1 where
    s1: "move_regs k (regs w n) d c s = Some s1" "pmem s1 = copy_chunk d c N (pmem s)"
    "risks s1 = stored k (span d N) (risks s)" by blast
  have "effect f False (span d N) s (VALGRIND_DO_FLUSH a m s1)"
    using s1(3) assms(4) by (intro effect_stream [of k]) (simp_all add: VALGRIND_DO_FLUSH_def)
  with s1(1,2) show ?thesis by (simp add: cp.does_def VALGRIND_DO_FLUSH_def)
qed

lemma copy_lines_nt:
  assumes "w * n = 64 * t" "0 < w" "w dvd 64" "0 < t" "unat W = 64 * t"
  shows "copy_mover (\<lambda>dest src s. do { s \<leftarrow> move_regs Stream (regs w n) dest src s; Some (VALGRIND_DO_FLUSH dest W s) })
    W f False"
proof unfold_locales
  show "0 < unat W" "64 dvd unat W" using assms by simp_all
  fix x :: "addr \<times> addr" and s
  assume a: "64 dvd unat (fst x)" "room (fst x) (unat W)"
  have "aligned_regs Stream (fst x) (regs w n)" using a(1) assms(3) by (rule aligned_regs_lines)
  from stream_copy [OF assms(1,2) this, of "snd x" s "fst x" W f] a(2) assms(5)
  show "\<exists>s'. (case x of (dest, src) \<Rightarrow> \<lambda>s. do { s \<leftarrow> move_regs Stream (regs w n) dest src s;
      Some (VALGRIND_DO_FLUSH dest W s) }) s = Some s' \<and> cp.does f False x (unat W) s s'"
    by (cases x) (simp add: room_def)
qed

lemma copy_block_nt:
  assumes "w * n = N" "0 < w" "n \<le> 2" "k = Movnti \<or> (k = Stream \<and> w dvd N)" "N \<le> 64"
  shows "cp.block_ok f (\<lambda>(dest, src) s. do { s \<leftarrow> move_regs k (regs w n) dest src s; Some (VALGRIND_DO_FLUSH dest m s) }) N"
  unfolding cp.block_ok_def
proof (intro allI impI, elim conjE)
  fix x :: "addr \<times> addr" and s
  assume a: "N dvd unat (fst x)" "room (fst x) N"
  have "w dvd unat (fst x + of_nat (w * i))" if "k = Stream" "i < n" for i
  proof -
    have "unat (fst x + of_nat (w * i)) = unat (fst x) + w * i"
      using that a(2) assms(1) mult_le_mono2 [of i n w] by (intro unat_plus_nat) (simp add: room_def)
    moreover have "w dvd unat (fst x)" using assms(4) that(1) a(1) by (auto intro: dvd_trans)
    ultimately show ?thesis by simp
  qed
  then have "aligned_regs k (fst x) (regs w n)" using assms(4) by (auto simp: aligned_regs_def regs_def)
  moreover have "streaming k" using assms(4) by auto
  ultimately show "\<exists>s'. (case x of (dest, src) \<Rightarrow> \<lambda>s. do { s \<leftarrow> move_regs k (regs w n) dest src s;
      Some (VALGRIND_DO_FLUSH dest m s) }) s = Some s' \<and> cp.does f False x N s s'"
    using stream_copy [OF assms(1,2), of k "fst x" "snd x" s "fst x" m f] assms(5) by (cases x) simp
qed

lemma small_copy:
  assumes "0 < unat n" "unat n \<le> 64" "room d (unat n)" "covering (unat n) rs"
  shows "\<exists>s'. do { s \<leftarrow> move_regs Storeu rs d c s; v_flush v d n s } = Some s'
    \<and> cp.does (flushes v) (ordered v) (d, c) (unat n) s s'"
proof -
  from move_regs_eq [OF assms(4), of Storeu d c s] obtain s1 where
    s1: "move_regs Storeu rs d c s = Some s1" "pmem s1 = copy_chunk d c (unat n) (pmem s)"
    "risks s1 = stored Storeu (span d (unat n)) (risks s)"
    using assms(2) by (auto simp: aligned_regs_def)
  from v_flush_ok [OF s1(3), of v] assms(3) s1(1,2) show ?thesis by (auto simp: room_def cp.does_def)
qed

lemma small_sse2_ok: "cp.small_ok (flushes v) (ordered v) (\<lambda>(dest, src). memmove_small_sse2 v dest src)"
  using small_copy covering_small(1)
  by (auto simp: cp.small_ok_def memmove_small_sse2_def memmove_small_sse2_noflush_def word_less_nat_alt)

lemma small_avx_ok: "cp.small_ok (flushes v) (ordered v) (\<lambda>(dest, src). memmove_small_avx v dest src)"
  using small_copy covering_small(2)
  by (auto simp: cp.small_ok_def memmove_small_avx_def memmove_small_avx_noflush_def word_less_nat_alt)

lemma small_avx512f_ok: "cp.small_ok (flushes v) (ordered v) (\<lambda>(dest, src). memmove_small_avx512f v dest src)"
  using small_avx_ok by (simp add: memmove_small_avx512f_def)

text \<open>The contract holds for every block function of the code.\<close>

interpretation t4_sse2: copy_mover "memmove_mov4x64b_sse2 v" "4 * 64" "flushes v" "ordered v" for v
  using copy_lines [of 16 16 4 "4 * 64" v] by (simp add: memmove_mov4x64b_sse2_def [abs_def])

interpretation t2_sse2: copy_mover "memmove_mov2x64b_sse2 v" "2 * 64" "flushes v" "ordered v" for v
  using copy_lines [of 16 8 2 "2 * 64" v] by (simp add: memmove_mov2x64b_sse2_def [abs_def])

interpretation t1_sse2: copy_mover "memmove_mov1x64b_sse2 v" "1 * 64" "flushes v" "ordered v" for v
  using copy_lines [of 16 4 1 "1 * 64" v] by (simp add: memmove_mov1x64b_sse2_def [abs_def])

interpretation t8_avx: copy_mover "memmove_mov8x64b_avx v" "8 * 64" "flushes v" "ordered v" for v
  using copy_lines [of 32 16 8 "8 * 64" v] by (simp add: memmove_mov8x64b_avx_def [abs_def])

interpretation t4_avx: copy_mover "memmove_mov4x64b_avx v" "4 * 64" "flushes v" "ordered v" for v
  using copy_lines [of 32 8 4 "4 * 64" v] by (simp add: memmove_mov4x64b_avx_def [abs_def])

interpretation t2_avx: copy_mover "memmove_mov2x64b_avx v" "2 * 64" "flushes v" "ordered v" for v
  using copy_lines [of 32 4 2 "2 * 64" v] by (simp add: memmove_mov2x64b_avx_def [abs_def])

interpretation t1_avx: copy_mover "memmove_mov1x64b_avx v" "1 * 64" "flushes v" "ordered v" for v
  using copy_lines [of 32 2 1 "1 * 64" v] by (simp add: memmove_mov1x64b_avx_def [abs_def])

interpretation t32_avx512f: copy_mover "memmove_mov32x64b_avx512f v" "32 * 64" "flushes v" "ordered v" for v
  using copy_lines [of 64 32 32 "32 * 64" v] by (simp add: memmove_mov32x64b_avx512f_def [abs_def])

interpretation t16_avx512f: copy_mover "memmove_mov16x64b_avx512f v" "16 * 64" "flushes v" "ordered v" for v
  using copy_lines [of 64 16 16 "16 * 64" v] by (simp add: memmove_mov16x64b_avx512f_def [abs_def])

interpretation t8_avx512f: copy_mover "memmove_mov8x64b_avx512f v" "8 * 64" "flushes v" "ordered v" for v
  using copy_lines [of 64 8 8 "8 * 64" v] by (simp add: memmove_mov8x64b_avx512f_def [abs_def])

interpretation t4_avx512f: copy_mover "memmove_mov4x64b_avx512f v" "4 * 64" "flushes v" "ordered v" for v
  using copy_lines [of 64 4 4 "4 * 64" v] by (simp add: memmove_mov4x64b_avx512f_def [abs_def])

interpretation t2_avx512f: copy_mover "memmove_mov2x64b_avx512f v" "2 * 64" "flushes v" "ordered v" for v
  using copy_lines [of 64 2 2 "2 * 64" v] by (simp add: memmove_mov2x64b_avx512f_def [abs_def])

interpretation t1_avx512f: copy_mover "memmove_mov1x64b_avx512f v" "1 * 64" "flushes v" "ordered v" for v
  using copy_lines [of 64 1 1 "1 * 64" v] by (simp add: memmove_mov1x64b_avx512f_def [abs_def])

interpretation nt4_sse2: copy_mover memmove_movnt4x64b_sse2 "4 * 64" f False for f
  using copy_lines_nt [of 16 16 4 "4 * 64" f] by (simp add: memmove_movnt4x64b_sse2_def [abs_def])

interpretation nt2_sse2: copy_mover memmove_movnt2x64b_sse2 "2 * 64" f False for f
  using copy_lines_nt [of 16 8 2 "2 * 64" f] by (simp add: memmove_movnt2x64b_sse2_def [abs_def])

interpretation nt1_sse2: copy_mover memmove_movnt1x64b_sse2 "1 * 64" f False for f
  using copy_lines_nt [of 16 4 1 "1 * 64" f] by (simp add: memmove_movnt1x64b_sse2_def [abs_def])

interpretation nt8_avx: copy_mover memmove_movnt8x64b_avx "8 * 64" f False for f
  using copy_lines_nt [of 32 16 8 "8 * 64" f] by (simp add: memmove_movnt8x64b_avx_def [abs_def])

interpretation nt4_avx: copy_mover memmove_movnt4x64b_avx "4 * 64" f False for f
  using copy_lines_nt [of 32 8 4 "4 * 64" f] by (simp add: memmove_movnt4x64b_avx_def [abs_def])

interpretation nt2_avx: copy_mover memmove_movnt2x64b_avx "2 * 64" f False for f
  using copy_lines_nt [of 32 4 2 "2 * 64" f] by (simp add: memmove_movnt2x64b_avx_def [abs_def])

interpretation nt1_avx: copy_mover memmove_movnt1x64b_avx "1 * 64" f False for f
  using copy_lines_nt [of 32 2 1 "1 * 64" f] by (simp add: memmove_movnt1x64b_avx_def [abs_def])

interpretation nt32_avx512f: copy_mover memmove_movnt32x64b_avx512f "32 * 64" f False for f
  using copy_lines_nt [of 64 32 32 "32 * 64" f] by (simp add: memmove_movnt32x64b_avx512f_def [abs_def])

interpretation nt16_avx512f: copy_mover memmove_movnt16x64b_avx512f "16 * 64" f False for f
  using copy_lines_nt [of 64 16 16 "16 * 64" f] by (simp add: memmove_movnt16x64b_avx512f_def [abs_def])

interpretation nt8_avx512f: copy_mover memmove_movnt8x64b_avx512f "8 * 64" f False for f
  using copy_lines_nt [of 64 8 8 "8 * 64" f] by (simp add: memmove_movnt8x64b_avx512f_def [abs_def])

interpretation nt4_avx512f: copy_mover memmove_movnt4x64b_avx512f "4 * 64" f False for f
  using copy_lines_nt [of 64 4 4 "4 * 64" f] by (simp add: memmove_movnt4x64b_avx512f_def [abs_def])

interpretation nt2_avx512f: copy_mover memmove_movnt2x64b_avx512f "2 * 64" f False for f
  using copy_lines_nt [of 64 2 2 "2 * 64" f] by (simp add: memmove_movnt2x64b_avx512f_def [abs_def])

interpretation nt1_avx512f: copy_mover memmove_movnt1x64b_avx512f "1 * 64" f False for f
  using copy_lines_nt [of 64 1 1 "1 * 64" f] by (simp add: memmove_movnt1x64b_avx512f_def [abs_def])

lemma blocks_sse2:
  "cp.block_ok f (\<lambda>(dest, src). memmove_movnt1x32b_sse2 dest src) 32"
  "cp.block_ok f (\<lambda>(dest, src). memmove_movnt1x16b_sse2 dest src) 16"
  "cp.block_ok f (\<lambda>(dest, src). memmove_movnt1x8b_sse2 dest src) 8"
  "cp.block_ok f (\<lambda>(dest, src). memmove_movnt1x4b_sse2 dest src) 4"
  using copy_block_nt [of 16 2 32 Stream f 32] copy_block_nt [of 16 1 16 Stream f 16]
    copy_block_nt [of 8 1 8 Movnti f 8] copy_block_nt [of 4 1 4 Movnti f 4]
  by (simp_all add: memmove_movnt1x32b_sse2_def [abs_def] memmove_movnt1x16b_sse2_def [abs_def]
      memmove_movnt1x8b_sse2_def [abs_def] memmove_movnt1x4b_sse2_def [abs_def] case_prod_beta')

lemma blocks_avx:
  "cp.block_ok f (\<lambda>(dest, src). memmove_movnt1x32b_avx dest src) 32"
  "cp.block_ok f (\<lambda>(dest, src). memmove_movnt1x16b_avx dest src) 16"
  "cp.block_ok f (\<lambda>(dest, src). memmove_movnt1x8b_avx dest src) 8"
  "cp.block_ok f (\<lambda>(dest, src). memmove_movnt1x4b_avx dest src) 4"
  using copy_block_nt [of 32 1 32 Stream f 32] copy_block_nt [of 16 1 16 Stream f 16]
    copy_block_nt [of 8 1 8 Movnti f 8] copy_block_nt [of 4 1 4 Movnti f 4]
  by (simp_all add: memmove_movnt1x32b_avx_def [abs_def] memmove_movnt1x16b_avx_def [abs_def]
      memmove_movnt1x8b_avx_def [abs_def] memmove_movnt1x4b_avx_def [abs_def] case_prod_beta')

lemma blocks_avx512f:
  "cp.block_ok f (\<lambda>(dest, src). memmove_movnt1x32b_avx512f dest src) 32"
  "cp.block_ok f (\<lambda>(dest, src). memmove_movnt1x16b_avx512f dest src) 16"
  "cp.block_ok f (\<lambda>(dest, src). memmove_movnt1x8b_avx512f dest src) 8"
  "cp.block_ok f (\<lambda>(dest, src). memmove_movnt1x4b_avx512f dest src) 4"
  using copy_block_nt [of 32 1 32 Stream f 32] copy_block_nt [of 16 1 16 Stream f 16]
    copy_block_nt [of 8 1 8 Movnti f 8] copy_block_nt [of 4 1 4 Movnti f 4]
  by (simp_all add: memmove_movnt1x32b_avx512f_def [abs_def] memmove_movnt1x16b_avx512f_def [abs_def]
      memmove_movnt1x8b_avx512f_def [abs_def] memmove_movnt1x4b_avx512f_def [abs_def] case_prod_beta')

section \<open>The copies\<close>

lemma nt_small:
  "cp.small_ok f (ordered v) small \<Longrightarrow> cp.small_ok f False small"
  by (erule cp.small_ok_mono) simp_all

lemma copy_start:
  assumes "cp.small_ok f st (\<lambda>(dest, src). small dest src)" "room d (unat len)" "unat len \<le> unat (d - c)" "len \<noteq> 0"
    and "\<And>x' len' s'. cp.ready x' (unat len') \<Longrightarrow> \<exists>s''. K x' len' s' = Some s'' \<and> cp.does f st x' (unat len') s' s''"
  shows "\<exists>s''. Option.bind (align_cp small (d, c) len s) (\<lambda>(x, len, s). K x len s) = Some s''
    \<and> cp.does f st (d, c) (unat len) s s''"
  by (rule cp.align_step [OF assms(1)]) (use assms in simp_all)

lemma last_up:
  assumes "cp.small_ok f st (\<lambda>(dest, src). small dest src)" "cp.ready x (unat r)" "unat r < 64"
  shows "\<exists>s'. (if r \<noteq> 0 then small (fst x) (snd x) r s else Some s) = Some s' \<and> cp.does f st x (unat r) s s'"
  using cp.last_step [OF assms, of s] by (cases "r = 0") (simp_all add: case_prod_beta)

lemma last_down:
  assumes "cp.small_ok f st (\<lambda>(dest, src). small dest src)" "ready_down d c r" "unat r < 64"
  shows "\<exists>s'. (if r \<noteq> 0 then small (d + r - r) (c + r - r) r s else Some s) = Some s'
    \<and> cp.does f st (d, c) (unat r) s s'"
  using assms cp.does_0 by (cases "r = 0") (auto simp: cp.small_ok_def ready_down_def unat_gt_0)

lemma tail_place:
  "cp.ready x (unat r) \<Longrightarrow> room (fst x) (unat r) \<and> (r = 0 \<or> 64 dvd unat (fst x) \<or> 64 dvd unat (fst x) + unat r)"
  "ready_down d c r \<Longrightarrow> room d (unat r) \<and> (r = 0 \<or> 64 dvd unat d \<or> 64 dvd unat d + unat r)"
proof -
  show "cp.ready x (unat r) \<Longrightarrow> room (fst x) (unat r) \<and> (r = 0 \<or> 64 dvd unat (fst x) \<or> 64 dvd unat (fst x) + unat r)"
    by (auto simp: cp.ready_def lined_def unat_eq_0)
  assume a: "ready_down d c r"
  then have "unat (d + r) = unat d + unat r" by (intro unat_plus_no_overflow) (simp add: ready_down_def room_def)
  with a show "room d (unat r) \<and> (r = 0 \<or> 64 dvd unat d \<or> 64 dvd unat d + unat r)"
    by (auto simp: ready_down_def lined_def unat_eq_0)
qed

lemma up_or_down:
  assumes "room d (unat len)" "unat c + unat len \<le> 2 ^ 64" "\<not> len \<le> d - c"
  shows "unat (d - c) + unat len \<le> 2 ^ 64"
proof (cases "c \<le> d")
  case True
  then show ?thesis using assms(1) by (simp add: unat_sub room_def)
next
  case False
  then have "unat d < unat c" by (simp add: word_le_nat_alt)
  then have "unat (d - c) = unat d + 2 ^ 64 - unat c" using unat_minus_of_nat [OF unat_lt_64, of d c] by simp
  with assms(2,3) show ?thesis by (simp add: word_le_nat_alt)
qed

lemma memmove_movnt_tail_sse2_ok:
  assumes "unat r < 64" "room d (unat r)" "r = 0 \<or> 64 dvd unat d \<or> 64 dvd unat d + unat r"
  shows "\<exists>s'. memmove_movnt_tail_sse2 v d c r s = Some s' \<and> cp.does (flushes v) False (d, c) (unat r) s s'"
  unfolding memmove_movnt_tail_sse2_def
  by (rule cp.nt_tail_ok [OF blocks_sse2 nt_small [OF small_sse2_ok]]) (use assms in simp_all)

lemma memmove_movnt_tail_sse2_up:
  assumes "cp.ready x (unat r)" "unat r < 64"
  shows "\<exists>s'. memmove_movnt_tail_sse2 v (fst x) (snd x) r s = Some s' \<and> cp.does (flushes v) False x (unat r) s s'"
  using memmove_movnt_tail_sse2_ok [OF assms(2)] tail_place(1) [OF assms(1)] by (cases x) simp

lemma memmove_movnt_tail_sse2_down:
  assumes "ready_down d c r" "unat r < 64"
  shows "\<exists>s'. memmove_movnt_tail_sse2 v (d + r - r) (c + r - r) r s = Some s' \<and> cp.does (flushes v) False (d, c) (unat r) s s'"
  using memmove_movnt_tail_sse2_ok [OF assms(2)] tail_place(2) [OF assms(1)] by simp

lemma memmove_mov_sse_fw_ok:
  assumes "room d (unat len)" "unat len \<le> unat (d - c)" "len \<noteq> 0"
  shows "\<exists>s'. memmove_mov_sse_fw v d c len s = Some s' \<and> cp.does (flushes v) (ordered v) (d, c) (unat len) s s'"
  unfolding memmove_mov_sse_fw_def
  by (rule copy_start [OF small_sse2_ok assms],
      rule cp.fw_step [OF t4_sse2.while_stage], assumption, simp,
      rule cp.fw_step [OF t2_sse2.if_stage], assumption, simp,
      rule cp.fw_step [OF t1_sse2.if_stage], assumption, simp,
      rule last_up [OF small_sse2_ok], assumption, simp)

lemma memmove_mov_sse_bw_ok:
  assumes "room d (unat len)" "unat (d - c) + unat len \<le> 2 ^ 64" "len \<noteq> 0"
  shows "\<exists>s'. memmove_mov_sse_bw v d c len s = Some s' \<and> cp.does (flushes v) (ordered v) (d, c) (unat len) s s'"
  unfolding memmove_mov_sse_bw_def
  by (rule align_bw_step [OF small_sse2_ok assms],
      rule bw_step [OF t4_sse2.while_down], assumption, simp,
      rule bw_step [OF t2_sse2.if_down], assumption, simp,
      rule bw_step [OF t1_sse2.if_down], assumption, simp,
      rule last_down [OF small_sse2_ok], assumption, simp)

lemma memmove_movnt_sse_fw_ok:
  assumes "room d (unat len)" "unat len \<le> unat (d - c)" "len \<noteq> 0"
  shows "\<exists>s'. memmove_movnt_sse_fw v d c len s = Some s' \<and> cp.does (flushes v) False (d, c) (unat len) s s'"
  unfolding memmove_movnt_sse_fw_def
  by (rule copy_start [OF nt_small [OF small_sse2_ok] assms],
      rule cp.fw_step [OF nt4_sse2.while_stage], assumption, simp,
      rule cp.fw_step [OF nt2_sse2.if_stage], assumption, simp,
      rule cp.fw_step [OF nt1_sse2.if_stage], assumption, simp,
      rule memmove_movnt_tail_sse2_up, assumption, simp)

lemma memmove_movnt_sse_bw_ok:
  assumes "room d (unat len)" "unat (d - c) + unat len \<le> 2 ^ 64" "len \<noteq> 0"
  shows "\<exists>s'. memmove_movnt_sse_bw v d c len s = Some s' \<and> cp.does (flushes v) False (d, c) (unat len) s s'"
  unfolding memmove_movnt_sse_bw_def
  by (rule align_bw_step [OF nt_small [OF small_sse2_ok] assms],
      rule bw_step [OF nt4_sse2.while_down], assumption, simp,
      rule bw_step [OF nt2_sse2.if_down], assumption, simp,
      rule bw_step [OF nt1_sse2.if_down], assumption, simp,
      rule memmove_movnt_tail_sse2_down, assumption, simp)

lemma memmove_movnt_tail_avx_ok:
  assumes "unat r < 64" "room d (unat r)" "r = 0 \<or> 64 dvd unat d \<or> 64 dvd unat d + unat r"
  shows "\<exists>s'. memmove_movnt_tail_avx v d c r s = Some s' \<and> cp.does (flushes v) False (d, c) (unat r) s s'"
  unfolding memmove_movnt_tail_avx_def
  by (rule cp.nt_tail_ok [OF blocks_avx nt_small [OF small_avx_ok]]) (use assms in simp_all)

lemma memmove_movnt_tail_avx_up:
  assumes "cp.ready x (unat r)" "unat r < 64"
  shows "\<exists>s'. memmove_movnt_tail_avx v (fst x) (snd x) r s = Some s' \<and> cp.does (flushes v) False x (unat r) s s'"
  using memmove_movnt_tail_avx_ok [OF assms(2)] tail_place(1) [OF assms(1)] by (cases x) simp

lemma memmove_movnt_tail_avx_down:
  assumes "ready_down d c r" "unat r < 64"
  shows "\<exists>s'. memmove_movnt_tail_avx v (d + r - r) (c + r - r) r s = Some s' \<and> cp.does (flushes v) False (d, c) (unat r) s s'"
  using memmove_movnt_tail_avx_ok [OF assms(2)] tail_place(2) [OF assms(1)] by simp

lemma memmove_mov_avx_fw_ok:
  assumes "room d (unat len)" "unat len \<le> unat (d - c)" "len \<noteq> 0"
  shows "\<exists>s'. memmove_mov_avx_fw v d c len s = Some s' \<and> cp.does (flushes v) (ordered v) (d, c) (unat len) s s'"
  unfolding memmove_mov_avx_fw_def
  by (rule copy_start [OF small_avx_ok assms],
      rule cp.fw_step [OF t8_avx.while_stage], assumption, simp,
      rule cp.fw_step [OF t4_avx.if_stage], assumption, simp,
      rule cp.fw_step [OF t2_avx.if_stage], assumption, simp,
      rule cp.fw_step [OF t1_avx.if_stage], assumption, simp,
      rule last_up [OF small_avx_ok], assumption, simp)

lemma memmove_mov_avx_bw_ok:
  assumes "room d (unat len)" "unat (d - c) + unat len \<le> 2 ^ 64" "len \<noteq> 0"
  shows "\<exists>s'. memmove_mov_avx_bw v d c len s = Some s' \<and> cp.does (flushes v) (ordered v) (d, c) (unat len) s s'"
  unfolding memmove_mov_avx_bw_def
  by (rule align_bw_step [OF small_avx_ok assms],
      rule bw_step [OF t8_avx.while_down], assumption, simp,
      rule bw_step [OF t4_avx.if_down], assumption, simp,
      rule bw_step [OF t2_avx.if_down], assumption, simp,
      rule bw_step [OF t1_avx.if_down], assumption, simp,
      rule last_down [OF small_avx_ok], assumption, simp)

lemma memmove_movnt_avx_fw_ok:
  assumes "room d (unat len)" "unat len \<le> unat (d - c)" "len \<noteq> 0"
  shows "\<exists>s'. memmove_movnt_avx_fw v d c len s = Some s' \<and> cp.does (flushes v) False (d, c) (unat len) s s'"
  unfolding memmove_movnt_avx_fw_def
  by (rule copy_start [OF nt_small [OF small_avx_ok] assms],
      rule cp.fw_step [OF nt8_avx.while_stage], assumption, simp,
      rule cp.fw_step [OF nt4_avx.if_stage], assumption, simp,
      rule cp.fw_step [OF nt2_avx.if_stage], assumption, simp,
      rule cp.fw_step [OF nt1_avx.if_stage], assumption, simp,
      rule memmove_movnt_tail_avx_up, assumption, simp)

lemma memmove_movnt_avx_bw_ok:
  assumes "room d (unat len)" "unat (d - c) + unat len \<le> 2 ^ 64" "len \<noteq> 0"
  shows "\<exists>s'. memmove_movnt_avx_bw v d c len s = Some s' \<and> cp.does (flushes v) False (d, c) (unat len) s s'"
  unfolding memmove_movnt_avx_bw_def
  by (rule align_bw_step [OF nt_small [OF small_avx_ok] assms],
      rule bw_step [OF nt8_avx.while_down], assumption, simp,
      rule bw_step [OF nt4_avx.if_down], assumption, simp,
      rule bw_step [OF nt2_avx.if_down], assumption, simp,
      rule bw_step [OF nt1_avx.if_down], assumption, simp,
      rule memmove_movnt_tail_avx_down, assumption, simp)

lemma memmove_movnt_tail_avx512f_ok:
  assumes "unat r < 64" "room d (unat r)" "r = 0 \<or> 64 dvd unat d \<or> 64 dvd unat d + unat r"
  shows "\<exists>s'. memmove_movnt_tail_avx512f v d c r s = Some s' \<and> cp.does (flushes v) False (d, c) (unat r) s s'"
  unfolding memmove_movnt_tail_avx512f_def
  by (rule cp.nt_tail_ok [OF blocks_avx512f nt_small [OF small_avx512f_ok]]) (use assms in simp_all)

lemma memmove_movnt_tail_avx512f_up:
  assumes "cp.ready x (unat r)" "unat r < 64"
  shows "\<exists>s'. memmove_movnt_tail_avx512f v (fst x) (snd x) r s = Some s' \<and> cp.does (flushes v) False x (unat r) s s'"
  using memmove_movnt_tail_avx512f_ok [OF assms(2)] tail_place(1) [OF assms(1)] by (cases x) simp

lemma memmove_movnt_tail_avx512f_down:
  assumes "ready_down d c r" "unat r < 64"
  shows "\<exists>s'. memmove_movnt_tail_avx512f v (d + r - r) (c + r - r) r s = Some s' \<and> cp.does (flushes v) False (d, c) (unat r) s s'"
  using memmove_movnt_tail_avx512f_ok [OF assms(2)] tail_place(2) [OF assms(1)] by simp

lemma memmove_mov_avx512f_fw_ok:
  assumes "room d (unat len)" "unat len \<le> unat (d - c)" "len \<noteq> 0"
  shows "\<exists>s'. memmove_mov_avx512f_fw v d c len s = Some s' \<and> cp.does (flushes v) (ordered v) (d, c) (unat len) s s'"
  unfolding memmove_mov_avx512f_fw_def
  by (rule copy_start [OF small_avx512f_ok assms],
      rule cp.fw_step [OF t32_avx512f.while_stage], assumption, simp,
      rule cp.fw_step [OF t16_avx512f.if_stage], assumption, simp,
      rule cp.fw_step [OF t8_avx512f.if_stage], assumption, simp,
      rule cp.fw_step [OF t4_avx512f.if_stage], assumption, simp,
      rule cp.fw_step [OF t2_avx512f.if_stage], assumption, simp,
      rule cp.fw_step [OF t1_avx512f.if_stage], assumption, simp,
      rule last_up [OF small_avx512f_ok], assumption, simp)

lemma memmove_mov_avx512f_bw_ok:
  assumes "room d (unat len)" "unat (d - c) + unat len \<le> 2 ^ 64" "len \<noteq> 0"
  shows "\<exists>s'. memmove_mov_avx512f_bw v d c len s = Some s' \<and> cp.does (flushes v) (ordered v) (d, c) (unat len) s s'"
  unfolding memmove_mov_avx512f_bw_def
  by (rule align_bw_step [OF small_avx512f_ok assms],
      rule bw_step [OF t32_avx512f.while_down], assumption, simp,
      rule bw_step [OF t16_avx512f.if_down], assumption, simp,
      rule bw_step [OF t8_avx512f.if_down], assumption, simp,
      rule bw_step [OF t4_avx512f.if_down], assumption, simp,
      rule bw_step [OF t2_avx512f.if_down], assumption, simp,
      rule bw_step [OF t1_avx512f.if_down], assumption, simp,
      rule last_down [OF small_avx512f_ok], assumption, simp)

lemma memmove_movnt_avx512f_fw_ok:
  assumes "room d (unat len)" "unat len \<le> unat (d - c)" "len \<noteq> 0"
  shows "\<exists>s'. memmove_movnt_avx512f_fw v d c len s = Some s' \<and> cp.does (flushes v) False (d, c) (unat len) s s'"
  unfolding memmove_movnt_avx512f_fw_def
  by (rule copy_start [OF nt_small [OF small_avx512f_ok] assms],
      rule cp.fw_step [OF nt32_avx512f.while_stage], assumption, simp,
      rule cp.fw_step [OF nt16_avx512f.if_stage], assumption, simp,
      rule cp.fw_step [OF nt8_avx512f.if_stage], assumption, simp,
      rule cp.fw_step [OF nt4_avx512f.if_stage], assumption, simp,
      rule cp.fw_step [OF nt2_avx512f.if_stage], assumption, simp,
      rule cp.fw_step [OF nt1_avx512f.if_stage], assumption, simp,
      rule memmove_movnt_tail_avx512f_up, assumption, simp)

lemma memmove_movnt_avx512f_bw_ok:
  assumes "room d (unat len)" "unat (d - c) + unat len \<le> 2 ^ 64" "len \<noteq> 0"
  shows "\<exists>s'. memmove_movnt_avx512f_bw v d c len s = Some s' \<and> cp.does (flushes v) False (d, c) (unat len) s s'"
  unfolding memmove_movnt_avx512f_bw_def
  by (rule align_bw_step [OF nt_small [OF small_avx512f_ok] assms],
      rule bw_step [OF nt32_avx512f.while_down], assumption, simp,
      rule bw_step [OF nt16_avx512f.if_down], assumption, simp,
      rule bw_step [OF nt8_avx512f.if_down], assumption, simp,
      rule bw_step [OF nt4_avx512f.if_down], assumption, simp,
      rule bw_step [OF nt2_avx512f.if_down], assumption, simp,
      rule bw_step [OF nt1_avx512f.if_down], assumption, simp,
      rule memmove_movnt_tail_avx512f_down, assumption, simp)

section \<open>The exported routines\<close>

lemma barrier_risks:
  "pmem (maybe_barrier v t) = pmem t" "dirty (maybe_barrier v t) = dirty t"
  "ordered v \<Longrightarrow> pending (maybe_barrier v t) = {}"
  by (cases v; cases "risks t"; simp add: risks_emit)+

lemma barrier_does: "cp.does f False x n s t \<Longrightarrow> cp.does f (ordered v) x n s (maybe_barrier v t)"
  using barrier_risks [of v t] by (auto simp: cp.does_def effect_def)

lemma either_way:
  assumes "room d (unat len)" "unat c + unat len \<le> 2 ^ 64"
    and "unat len \<le> unat (d - c) \<Longrightarrow> \<exists>s'. A = Some s' \<and> P s'"
    and "unat (d - c) + unat len \<le> 2 ^ 64 \<Longrightarrow> \<exists>s'. B = Some s' \<and> P s'"
  shows "\<exists>s'. (if d - c \<ge> len then A else B) = Some s' \<and> P s'"
  using assms(3,4) up_or_down [OF assms(1,2)] by (auto simp: word_le_nat_alt)

text \<open>The contract of an exported copy, for every way of flushing.\<close>

locale vector_copy =
  fixes mv :: "variant \<Rightarrow> addr \<Rightarrow> addr \<Rightarrow> u64 \<Rightarrow> pm \<Rightarrow> pm option"
  assumes copies: "room d (unat len) \<Longrightarrow> unat c + unat len \<le> 2 ^ 64 \<Longrightarrow> len \<noteq> 0 \<Longrightarrow>
    \<exists>s'. mv v d c len s = Some s' \<and> cp.does (flushes v) (ordered v) (d, c) (unat len) s s'"

interpretation mov_sse2: vector_copy memmove_mov_sse2
  unfolding memmove_mov_sse2_def
  by unfold_locales (rule either_way; simp add: memmove_mov_sse_fw_ok memmove_mov_sse_bw_ok)

interpretation movnt_sse2: vector_copy memmove_movnt_sse2
proof unfold_locales
  fix d c len :: u64 and s v
  assume a: "room d (unat len)" "unat c + unat len \<le> 2 ^ 64" "len \<noteq> 0"
  have "\<exists>s'. (if d - c \<ge> len then memmove_movnt_sse_fw v d c len s else memmove_movnt_sse_bw v d c len s) = Some s'
      \<and> cp.does (flushes v) False (d, c) (unat len) s s'"
    using a by (intro either_way) (simp_all add: memmove_movnt_sse_fw_ok memmove_movnt_sse_bw_ok)
  then show "\<exists>s'. memmove_movnt_sse2 v d c len s = Some s' \<and> cp.does (flushes v) (ordered v) (d, c) (unat len) s s'"
    unfolding memmove_movnt_sse2_def by (elim exE conjE) (auto intro: barrier_does)
qed

interpretation mov_avx: vector_copy memmove_mov_avx
  unfolding memmove_mov_avx_def
  by unfold_locales (rule either_way; simp add: memmove_mov_avx_fw_ok memmove_mov_avx_bw_ok)

interpretation movnt_avx: vector_copy memmove_movnt_avx
proof unfold_locales
  fix d c len :: u64 and s v
  assume a: "room d (unat len)" "unat c + unat len \<le> 2 ^ 64" "len \<noteq> 0"
  have "\<exists>s'. (if d - c \<ge> len then memmove_movnt_avx_fw v d c len s else memmove_movnt_avx_bw v d c len s) = Some s'
      \<and> cp.does (flushes v) False (d, c) (unat len) s s'"
    using a by (intro either_way) (simp_all add: memmove_movnt_avx_fw_ok memmove_movnt_avx_bw_ok)
  then show "\<exists>s'. memmove_movnt_avx v d c len s = Some s' \<and> cp.does (flushes v) (ordered v) (d, c) (unat len) s s'"
    unfolding memmove_movnt_avx_def by (elim exE conjE) (auto intro: barrier_does)
qed

interpretation mov_avx512f: vector_copy memmove_mov_avx512f
  unfolding memmove_mov_avx512f_def
  by unfold_locales (rule either_way; simp add: memmove_mov_avx512f_fw_ok memmove_mov_avx512f_bw_ok)

interpretation movnt_avx512f: vector_copy memmove_movnt_avx512f
proof unfold_locales
  fix d c len :: u64 and s v
  assume a: "room d (unat len)" "unat c + unat len \<le> 2 ^ 64" "len \<noteq> 0"
  have "\<exists>s'. (if d - c \<ge> len then memmove_movnt_avx512f_fw v d c len s else memmove_movnt_avx512f_bw v d c len s) = Some s'
      \<and> cp.does (flushes v) False (d, c) (unat len) s s'"
    using a by (intro either_way) (simp_all add: memmove_movnt_avx512f_fw_ok memmove_movnt_avx512f_bw_ok)
  then show "\<exists>s'. memmove_movnt_avx512f v d c len s = Some s' \<and> cp.does (flushes v) (ordered v) (d, c) (unat len) s s'"
    unfolding memmove_movnt_avx512f_def by (elim exE conjE) (auto intro: barrier_does)
qed

end
