(* ===== verification/Pmem_Simd_Fill.thy ===== *)
theory Pmem_Simd_Fill
  imports Pmem_Simd_Copy
begin

text \<open>Correctness of the vector fills, with the loops over the cursor of the destination.\<close>

section \<open>The cursor of a fill\<close>

definition in_space :: "addr \<Rightarrow> nat \<Rightarrow> bool" where
  "in_space d n \<longleftrightarrow> n \<le> 2 ^ 64"

interpretation fc: cursor adv1 "\<lambda>d. d" "\<lambda>d. fill_chunk d b" in_space for b
  by unfold_locales (simp_all add: adv1_def add.assoc fill_chunk_append in_space_def)

locale fill_mover = line_mover adv1 "\<lambda>d. d" "\<lambda>d. fill_chunk d b" in_space mv w f st
  for b mv w f st

section \<open>The blocks of the code\<close>

lemma fill_lines:
  assumes "w * n = 64 * t" "0 < w" "w dvd 64" "0 < t" "unat W = 64 * t"
  shows "fill_mover b (\<lambda>dest s. do { s \<leftarrow> fill_regs Store (regs w n) dest (replicate w b) s; Some (flush64bs v t dest s) })
    W (flushes v) (ordered v)"
proof unfold_locales
  show "0 < unat W" "64 dvd unat W" using assms by simp_all
  fix d :: addr and s
  assume a: "64 dvd unat d" "room d (unat W)"
  have le: "unat d + 64 * t \<le> 2 ^ 64" using a(2) assms(5) by (simp add: room_def)
  have "covering (64 * t) (regs w n)" using covering_regs [OF assms(2), of n] assms(1) by simp
  moreover have "aligned_regs Store d (regs w n)" using a(1) assms(3) by (rule aligned_regs_lines)
  ultimately obtain s1 where s1: "fill_regs Store (regs w n) d (replicate w b) s = Some s1"
    "pmem s1 = fill_chunk d b (64 * t) (pmem s)" "risks s1 = stored Store (span d (64 * t)) (risks s)"
    using fill_regs_eq [of "64 * t" "regs w n" Store d w b s] le by (auto simp: regs_def)
  from flush64bs_ok [OF s1(3) a(1) le, of v] s1(1,2)
  show "\<exists>s'. do { s \<leftarrow> fill_regs Store (regs w n) d (replicate w b) s; Some (flush64bs v t d s) } = Some s'
      \<and> fc.does b (flushes v) (ordered v) d (unat W) s s'"
    by (simp add: fc.does_def assms(5))
qed

lemma stream_fill:
  assumes "w * n = N" "0 < w" "aligned_regs k d (regs w n)" "streaming k" "N \<le> 2 ^ 64" "w \<le> W"
  shows "\<exists>s'. do { s \<leftarrow> fill_regs k (regs w n) d (replicate W b) s; Some (VALGRIND_DO_FLUSH a m s) } = Some s'
    \<and> fc.does b f False d N s s'"
proof -
  have "covering N (regs w n)" using covering_regs [OF assms(2), of n] assms(1) by simp
  from fill_regs_eq [OF this assms(3,5), of W b s] assms(6) obtain s1 where
    s1: "fill_regs k (regs w n) d (replicate W b) s = Some s1" "pmem s1 = fill_chunk d b N (pmem s)"
    "risks s1 = stored k (span d N) (risks s)" by (auto simp: regs_def)
  have "effect f False (span d N) s (VALGRIND_DO_FLUSH a m s1)"
    using s1(3) assms(4) by (intro effect_stream [of k]) (simp_all add: VALGRIND_DO_FLUSH_def)
  with s1(1,2) show ?thesis by (simp add: fc.does_def VALGRIND_DO_FLUSH_def)
qed

lemma fill_lines_nt:
  assumes "w * n = 64 * t" "0 < w" "w dvd 64" "0 < t" "unat W = 64 * t"
  shows "fill_mover b (\<lambda>dest s. do { s \<leftarrow> fill_regs Stream (regs w n) dest (replicate w b) s; Some (VALGRIND_DO_FLUSH dest W s) })
    W f False"
proof unfold_locales
  show "0 < unat W" "64 dvd unat W" using assms by simp_all
  fix d :: addr and s
  assume a: "64 dvd unat d" "room d (unat W)"
  have "aligned_regs Stream d (regs w n)" using a(1) assms(3) by (rule aligned_regs_lines)
  from stream_fill [OF assms(1,2) this, of w b s d W f] a(2) assms(5)
  show "\<exists>s'. do { s \<leftarrow> fill_regs Stream (regs w n) d (replicate w b) s; Some (VALGRIND_DO_FLUSH d W s) } = Some s'
      \<and> fc.does b f False d (unat W) s s'"
    by (simp add: room_def)
qed

lemma fill_block_nt:
  assumes "w * n = N" "0 < w" "n \<le> 2" "k = Movnti \<or> (k = Stream \<and> w dvd N)" "N \<le> 64" "w \<le> W"
  shows "fc.block_ok b f (\<lambda>dest s. do { s \<leftarrow> fill_regs k (regs w n) dest (replicate W b) s; Some (VALGRIND_DO_FLUSH (dest - a) m s) }) N"
  unfolding fc.block_ok_def
proof (intro allI impI, elim conjE)
  fix d :: addr and s
  assume a: "N dvd unat d" "room d N"
  have "w dvd unat (d + of_nat (w * i))" if "k = Stream" "i < n" for i
  proof -
    have "unat (d + of_nat (w * i)) = unat d + w * i"
      using that a(2) assms(1) mult_le_mono2 [of i n w] by (intro unat_plus_nat) (simp add: room_def)
    moreover have "w dvd unat d" using assms(4) that(1) a(1) by (auto intro: dvd_trans)
    ultimately show ?thesis by simp
  qed
  then have "aligned_regs k d (regs w n)" using assms(4) by (auto simp: aligned_regs_def regs_def)
  moreover have "streaming k" using assms(4) by auto
  ultimately show "\<exists>s'. do { s \<leftarrow> fill_regs k (regs w n) d (replicate W b) s; Some (VALGRIND_DO_FLUSH (d - a) m s) } = Some s'
      \<and> fc.does b f False d N s s'"
    using stream_fill [OF assms(1,2), of k d W b s "d - a" m f] assms(5,6) by simp
qed

lemma small_fill:
  assumes "0 < unat n" "unat n \<le> 64" "room d (unat n)" "covering (unat n) rs" "\<forall>(off, w)\<in>set rs. w \<le> W"
  shows "\<exists>s'. do { s \<leftarrow> fill_regs Storeu rs d (replicate W b) s; v_flush v d n s } = Some s'
    \<and> fc.does b (flushes v) (ordered v) d (unat n) s s'"
proof -
  from fill_regs_eq [OF assms(4) _ _ assms(5), of Storeu d b s] obtain s1 where
    s1: "fill_regs Storeu rs d (replicate W b) s = Some s1" "pmem s1 = fill_chunk d b (unat n) (pmem s)"
    "risks s1 = stored Storeu (span d (unat n)) (risks s)"
    using assms(2) by (auto simp: aligned_regs_def)
  from v_flush_ok [OF s1(3), of v] assms(3) s1(1,2) show ?thesis by (auto simp: room_def fc.does_def)
qed

lemma fill_small_sse2_ok: "fc.small_ok b (flushes v) (ordered v) (memset_small_sse2 v (replicate 16 b))"
  using small_fill [OF _ _ _ covering_small(1) small_regs_width(1)]
  by (auto simp: fc.small_ok_def memset_small_sse2_def memset_small_sse2_noflush_def word_less_nat_alt)

lemma fill_small_avx_ok: "fc.small_ok b (flushes v) (ordered v) (memset_small_avx v (replicate 32 b))"
  using small_fill [OF _ _ _ covering_small(2) small_regs_width(2)]
  by (auto simp: fc.small_ok_def memset_small_avx_def memset_small_avx_noflush_def word_less_nat_alt)

lemma fill_small_avx512f_ok: "fc.small_ok b (flushes v) (ordered v) (memset_small_avx512f v (replicate 32 b))"
  using fill_small_avx_ok by (simp add: memset_small_avx512f_def)

interpretation st4_sse2: fill_mover b "memset_mov4x64b_sse2 v (replicate 16 b)" "4 * 64" "flushes v" "ordered v" for b v
  using fill_lines [of 16 16 4 "4 * 64" b v] by (simp add: memset_mov4x64b_sse2_def [abs_def])

interpretation st2_sse2: fill_mover b "memset_mov2x64b_sse2 v (replicate 16 b)" "2 * 64" "flushes v" "ordered v" for b v
  using fill_lines [of 16 8 2 "2 * 64" b v] by (simp add: memset_mov2x64b_sse2_def [abs_def])

interpretation st1_sse2: fill_mover b "memset_mov1x64b_sse2 v (replicate 16 b)" "1 * 64" "flushes v" "ordered v" for b v
  using fill_lines [of 16 4 1 "1 * 64" b v] by (simp add: memset_mov1x64b_sse2_def [abs_def])

interpretation st8_avx: fill_mover b "memset_mov8x64b_avx v (replicate 32 b)" "8 * 64" "flushes v" "ordered v" for b v
  using fill_lines [of 32 16 8 "8 * 64" b v] by (simp add: memset_mov8x64b_avx_def [abs_def])

interpretation st4_avx: fill_mover b "memset_mov4x64b_avx v (replicate 32 b)" "4 * 64" "flushes v" "ordered v" for b v
  using fill_lines [of 32 8 4 "4 * 64" b v] by (simp add: memset_mov4x64b_avx_def [abs_def])

interpretation st2_avx: fill_mover b "memset_mov2x64b_avx v (replicate 32 b)" "2 * 64" "flushes v" "ordered v" for b v
  using fill_lines [of 32 4 2 "2 * 64" b v] by (simp add: memset_mov2x64b_avx_def [abs_def])

interpretation st1_avx: fill_mover b "memset_mov1x64b_avx v (replicate 32 b)" "1 * 64" "flushes v" "ordered v" for b v
  using fill_lines [of 32 2 1 "1 * 64" b v] by (simp add: memset_mov1x64b_avx_def [abs_def])

interpretation st32_avx512f: fill_mover b "memset_mov32x64b_avx512f v (replicate 64 b)" "32 * 64" "flushes v" "ordered v" for b v
  using fill_lines [of 64 32 32 "32 * 64" b v] by (simp add: memset_mov32x64b_avx512f_def [abs_def])

interpretation st16_avx512f: fill_mover b "memset_mov16x64b_avx512f v (replicate 64 b)" "16 * 64" "flushes v" "ordered v" for b v
  using fill_lines [of 64 16 16 "16 * 64" b v] by (simp add: memset_mov16x64b_avx512f_def [abs_def])

interpretation st8_avx512f: fill_mover b "memset_mov8x64b_avx512f v (replicate 64 b)" "8 * 64" "flushes v" "ordered v" for b v
  using fill_lines [of 64 8 8 "8 * 64" b v] by (simp add: memset_mov8x64b_avx512f_def [abs_def])

interpretation st4_avx512f: fill_mover b "memset_mov4x64b_avx512f v (replicate 64 b)" "4 * 64" "flushes v" "ordered v" for b v
  using fill_lines [of 64 4 4 "4 * 64" b v] by (simp add: memset_mov4x64b_avx512f_def [abs_def])

interpretation st2_avx512f: fill_mover b "memset_mov2x64b_avx512f v (replicate 64 b)" "2 * 64" "flushes v" "ordered v" for b v
  using fill_lines [of 64 2 2 "2 * 64" b v] by (simp add: memset_mov2x64b_avx512f_def [abs_def])

interpretation st1_avx512f: fill_mover b "memset_mov1x64b_avx512f v (replicate 64 b)" "1 * 64" "flushes v" "ordered v" for b v
  using fill_lines [of 64 1 1 "1 * 64" b v] by (simp add: memset_mov1x64b_avx512f_def [abs_def])

interpretation snt4_sse2: fill_mover b "memset_movnt4x64b_sse2 (replicate 16 b)" "4 * 64" f False for b f
  using fill_lines_nt [of 16 16 4 "4 * 64" b f] by (simp add: memset_movnt4x64b_sse2_def [abs_def])

interpretation snt2_sse2: fill_mover b "memset_movnt2x64b_sse2 (replicate 16 b)" "2 * 64" f False for b f
  using fill_lines_nt [of 16 8 2 "2 * 64" b f] by (simp add: memset_movnt2x64b_sse2_def [abs_def])

interpretation snt1_sse2: fill_mover b "memset_movnt1x64b_sse2 (replicate 16 b)" "1 * 64" f False for b f
  using fill_lines_nt [of 16 4 1 "1 * 64" b f] by (simp add: memset_movnt1x64b_sse2_def [abs_def])

interpretation snt8_avx: fill_mover b "memset_movnt8x64b_avx (replicate 32 b)" "8 * 64" f False for b f
  using fill_lines_nt [of 32 16 8 "8 * 64" b f] by (simp add: memset_movnt8x64b_avx_def [abs_def])

interpretation snt4_avx: fill_mover b "memset_movnt4x64b_avx (replicate 32 b)" "4 * 64" f False for b f
  using fill_lines_nt [of 32 8 4 "4 * 64" b f] by (simp add: memset_movnt4x64b_avx_def [abs_def])

interpretation snt2_avx: fill_mover b "memset_movnt2x64b_avx (replicate 32 b)" "2 * 64" f False for b f
  using fill_lines_nt [of 32 4 2 "2 * 64" b f] by (simp add: memset_movnt2x64b_avx_def [abs_def])

interpretation snt1_avx: fill_mover b "memset_movnt1x64b_avx (replicate 32 b)" "1 * 64" f False for b f
  using fill_lines_nt [of 32 2 1 "1 * 64" b f] by (simp add: memset_movnt1x64b_avx_def [abs_def])

interpretation snt32_avx512f: fill_mover b "memset_movnt32x64b_avx512f (replicate 64 b)" "32 * 64" f False for b f
  using fill_lines_nt [of 64 32 32 "32 * 64" b f] by (simp add: memset_movnt32x64b_avx512f_def [abs_def])

interpretation snt16_avx512f: fill_mover b "memset_movnt16x64b_avx512f (replicate 64 b)" "16 * 64" f False for b f
  using fill_lines_nt [of 64 16 16 "16 * 64" b f] by (simp add: memset_movnt16x64b_avx512f_def [abs_def])

interpretation snt8_avx512f: fill_mover b "memset_movnt8x64b_avx512f (replicate 64 b)" "8 * 64" f False for b f
  using fill_lines_nt [of 64 8 8 "8 * 64" b f] by (simp add: memset_movnt8x64b_avx512f_def [abs_def])

interpretation snt4_avx512f: fill_mover b "memset_movnt4x64b_avx512f (replicate 64 b)" "4 * 64" f False for b f
  using fill_lines_nt [of 64 4 4 "4 * 64" b f] by (simp add: memset_movnt4x64b_avx512f_def [abs_def])

interpretation snt2_avx512f: fill_mover b "memset_movnt2x64b_avx512f (replicate 64 b)" "2 * 64" f False for b f
  using fill_lines_nt [of 64 2 2 "2 * 64" b f] by (simp add: memset_movnt2x64b_avx512f_def [abs_def])

interpretation snt1_avx512f: fill_mover b "memset_movnt1x64b_avx512f (replicate 64 b)" "1 * 64" f False for b f
  using fill_lines_nt [of 64 1 1 "1 * 64" b f] by (simp add: memset_movnt1x64b_avx512f_def [abs_def])

lemma fill_blocks_sse2:
  "fc.block_ok b f (memset_movnt1x32b_sse2 (replicate 16 b)) 32"
  "fc.block_ok b f (memset_movnt1x16b_sse2 (replicate 16 b)) 16"
  "fc.block_ok b f (memset_movnt1x8b_sse2 (replicate 16 b)) 8"
  "fc.block_ok b f (memset_movnt1x4b_sse2 (replicate 16 b)) 4"
  using fill_block_nt [of 16 2 32 Stream 16 b f 0 32] fill_block_nt [of 16 1 16 Stream 16 b f 0 16]
    fill_block_nt [of 8 1 8 Movnti 16 b f 0 8] fill_block_nt [of 4 1 4 Movnti 16 b f 0 4]
  by (simp_all add: memset_movnt1x32b_sse2_def [abs_def] memset_movnt1x16b_sse2_def [abs_def]
      memset_movnt1x8b_sse2_def [abs_def] memset_movnt1x4b_sse2_def [abs_def])

lemma fill_blocks_avx:
  "fc.block_ok b f (memset_movnt1x32b_avx (replicate 32 b)) 32"
  "fc.block_ok b f (memset_movnt1x16b_avx (replicate 32 b)) 16"
  "fc.block_ok b f (memset_movnt1x8b_avx (replicate 32 b)) 8"
  "fc.block_ok b f (memset_movnt1x4b_avx (replicate 32 b)) 4"
  using fill_block_nt [of 32 1 32 Stream 32 b f 0 32] fill_block_nt [of 16 1 16 Stream 32 b f 16 16]
    fill_block_nt [of 8 1 8 Movnti 32 b f 0 8] fill_block_nt [of 4 1 4 Movnti 32 b f 0 4]
  by (simp_all add: memset_movnt1x32b_avx_def [abs_def] memset_movnt1x16b_avx_def [abs_def]
      memset_movnt1x8b_avx_def [abs_def] memset_movnt1x4b_avx_def [abs_def])

lemma fill_blocks_avx512f:
  "fc.block_ok b f (memset_movnt1x32b_avx512f (replicate 32 b)) 32"
  "fc.block_ok b f (memset_movnt1x16b_avx512f (replicate 32 b)) 16"
  "fc.block_ok b f (memset_movnt1x8b_avx512f (replicate 32 b)) 8"
  "fc.block_ok b f (memset_movnt1x4b_avx512f (replicate 32 b)) 4"
  using fill_block_nt [of 32 1 32 Stream 32 b f 0 32] fill_block_nt [of 16 1 16 Stream 32 b f 0 16]
    fill_block_nt [of 8 1 8 Movnti 32 b f 0 8] fill_block_nt [of 4 1 4 Movnti 32 b f 0 4]
  by (simp_all add: memset_movnt1x32b_avx512f_def [abs_def] memset_movnt1x16b_avx512f_def [abs_def]
      memset_movnt1x8b_avx512f_def [abs_def] memset_movnt1x4b_avx512f_def [abs_def])

section \<open>The fills\<close>

lemma fill_start:
  assumes "fc.small_ok b f st small" "room d (unat len)" "len \<noteq> 0"
    and "\<And>d' len' s'. fc.ready d' (unat len') \<Longrightarrow> \<exists>s''. K d' len' s' = Some s'' \<and> fc.does b f st d' (unat len') s' s''"
  shows "\<exists>s''. Option.bind (align_set small d len s) (\<lambda>(x, len, s). K x len s) = Some s''
    \<and> fc.does b f st d (unat len) s s''"
  by (rule fc.align_step [OF assms(1)]) (use assms unat_lt_64 [of len] in \<open>simp_all add: in_space_def\<close>)

lemma fill_nt_small: "fc.small_ok b f (ordered v) small \<Longrightarrow> fc.small_ok b f False small"
  by (erule fc.small_ok_mono) simp_all

lemma fill_nt_tail:
  assumes "fc.block_ok b f m32 32" "fc.block_ok b f m16 16" "fc.block_ok b f m8 8" "fc.block_ok b f m4 4"
    "fc.small_ok b f False small" "fc.ready d (unat n)" "unat n < 64"
  shows "\<exists>s'. do { s \<leftarrow> nt_tail m32 m16 m8 m4 small d n s; Some (maybe_barrier v s) } = Some s'
    \<and> fc.does b f False d (unat n) s s'"
proof -
  have "room d (unat n)" "n = 0 \<or> 64 dvd unat d \<or> 64 dvd unat d + unat n"
    using assms(6) by (auto simp: fc.ready_def lined_def unat_eq_0)
  from fc.nt_tail_ok [OF assms(1-5,7) this, of s] obtain t where
    t: "nt_tail m32 m16 m8 m4 small d n s = Some t" "fc.does b f False d (unat n) s t" by blast
  with barrier_risks(1,2) [of v t] show ?thesis by (simp add: fc.does_def effect_def)
qed

lemma fill_barrier:
  assumes "\<exists>s'. F = Some s' \<and> fc.does b f False d n s s'" "\<And>s'. F = Some s' \<Longrightarrow> ordered v \<Longrightarrow> pending s' = {}"
  shows "\<exists>s'. F = Some s' \<and> fc.does b f (ordered v) d n s s'"
  using assms by (auto simp: fc.does_def effect_def)

text \<open>The contract of an exported fill, for every way of flushing.\<close>

locale vector_fill =
  fixes fill :: "variant \<Rightarrow> addr \<Rightarrow> u32 \<Rightarrow> u64 \<Rightarrow> pm \<Rightarrow> pm option"
  assumes fills: "room d (unat len) \<Longrightarrow> len \<noteq> 0 \<Longrightarrow>
    \<exists>s'. fill v d c len s = Some s' \<and> fc.does (ucast c) (flushes v) (ordered v) d (unat len) s s'"

interpretation set_sse2: vector_fill memset_mov_sse2
proof unfold_locales
  fix d len :: u64 and s v c
  assume a: "room d (unat len)" "len \<noteq> 0"
  show "\<exists>s'. memset_mov_sse2 v d c len s = Some s' \<and> fc.does (ucast c) (flushes v) (ordered v) d (unat len) s s'"
    unfolding memset_mov_sse2_def Let_def
    by (rule fill_start [OF fill_small_sse2_ok a],
        rule fc.fw_step [OF st4_sse2.while_stage], assumption, simp,
        rule fc.fw_step [OF st2_sse2.if_stage], assumption, simp,
        rule fc.fw_step [OF st1_sse2.if_stage], assumption, simp,
        rule fc.last_step [OF fill_small_sse2_ok], assumption, simp)
qed

interpretation setnt_sse2: vector_fill memset_movnt_sse2
proof unfold_locales
  fix d len :: u64 and s v c
  assume a: "room d (unat len)" "len \<noteq> 0"
  have "\<exists>s'. memset_movnt_sse2 v d c len s = Some s' \<and> fc.does (ucast c) (flushes v) False d (unat len) s s'"
    unfolding memset_movnt_sse2_def Let_def
    by (rule fill_start [OF fill_nt_small [OF fill_small_sse2_ok] a],
        rule fc.fw_step [OF snt4_sse2.while_stage], assumption, simp,
        rule fc.fw_step [OF snt2_sse2.if_stage], assumption, simp,
        rule fc.fw_step [OF snt1_sse2.if_stage], assumption, simp,
        rule fill_nt_tail [OF fill_blocks_sse2 fill_nt_small [OF fill_small_sse2_ok]], assumption, simp)
  then show "\<exists>s'. memset_movnt_sse2 v d c len s = Some s' \<and> fc.does (ucast c) (flushes v) (ordered v) d (unat len) s s'"
    by (rule fill_barrier)
      (auto simp: memset_movnt_sse2_def Let_def bind_eq_Some_conv barrier_risks split: prod.splits)
qed

interpretation set_avx: vector_fill memset_mov_avx
proof unfold_locales
  fix d len :: u64 and s v c
  assume a: "room d (unat len)" "len \<noteq> 0"
  show "\<exists>s'. memset_mov_avx v d c len s = Some s' \<and> fc.does (ucast c) (flushes v) (ordered v) d (unat len) s s'"
    unfolding memset_mov_avx_def Let_def
    by (rule fill_start [OF fill_small_avx_ok a],
        rule fc.fw_step [OF st8_avx.while_stage], assumption, simp,
        rule fc.fw_step [OF st4_avx.if_stage], assumption, simp,
        rule fc.fw_step [OF st2_avx.if_stage], assumption, simp,
        rule fc.fw_step [OF st1_avx.if_stage], assumption, simp,
        rule fc.last_step [OF fill_small_avx_ok], assumption, simp)
qed

interpretation setnt_avx: vector_fill memset_movnt_avx
proof unfold_locales
  fix d len :: u64 and s v c
  assume a: "room d (unat len)" "len \<noteq> 0"
  have "\<exists>s'. memset_movnt_avx v d c len s = Some s' \<and> fc.does (ucast c) (flushes v) False d (unat len) s s'"
    unfolding memset_movnt_avx_def Let_def
    by (rule fill_start [OF fill_nt_small [OF fill_small_avx_ok] a],
        rule fc.fw_step [OF snt8_avx.while_stage], assumption, simp,
        rule fc.fw_step [OF snt4_avx.if_stage], assumption, simp,
        rule fc.fw_step [OF snt2_avx.if_stage], assumption, simp,
        rule fc.fw_step [OF snt1_avx.if_stage], assumption, simp,
        rule fill_nt_tail [OF fill_blocks_avx fill_nt_small [OF fill_small_avx_ok]], assumption, simp)
  then show "\<exists>s'. memset_movnt_avx v d c len s = Some s' \<and> fc.does (ucast c) (flushes v) (ordered v) d (unat len) s s'"
    by (rule fill_barrier)
      (auto simp: memset_movnt_avx_def Let_def bind_eq_Some_conv barrier_risks split: prod.splits)
qed

interpretation set_avx512f: vector_fill memset_mov_avx512f
proof unfold_locales
  fix d len :: u64 and s v c
  assume a: "room d (unat len)" "len \<noteq> 0"
  show "\<exists>s'. memset_mov_avx512f v d c len s = Some s' \<and> fc.does (ucast c) (flushes v) (ordered v) d (unat len) s s'"
    unfolding memset_mov_avx512f_def Let_def
    by (rule fill_start [OF fill_small_avx512f_ok a],
        rule fc.fw_step [OF st32_avx512f.while_stage], assumption, simp,
        rule fc.fw_step [OF st16_avx512f.if_stage], assumption, simp,
        rule fc.fw_step [OF st8_avx512f.if_stage], assumption, simp,
        rule fc.fw_step [OF st4_avx512f.if_stage], assumption, simp,
        rule fc.fw_step [OF st2_avx512f.if_stage], assumption, simp,
        rule fc.fw_step [OF st1_avx512f.if_stage], assumption, simp,
        rule fc.last_step [OF fill_small_avx512f_ok], assumption, simp)
qed

interpretation setnt_avx512f: vector_fill memset_movnt_avx512f
proof unfold_locales
  fix d len :: u64 and s v c
  assume a: "room d (unat len)" "len \<noteq> 0"
  have "\<exists>s'. memset_movnt_avx512f v d c len s = Some s' \<and> fc.does (ucast c) (flushes v) False d (unat len) s s'"
    unfolding memset_movnt_avx512f_def Let_def
    by (rule fill_start [OF fill_nt_small [OF fill_small_avx512f_ok] a],
        rule fc.fw_step [OF snt32_avx512f.while_stage], assumption, simp,
        rule fc.fw_step [OF snt16_avx512f.if_stage], assumption, simp,
        rule fc.fw_step [OF snt8_avx512f.if_stage], assumption, simp,
        rule fc.fw_step [OF snt4_avx512f.if_stage], assumption, simp,
        rule fc.fw_step [OF snt2_avx512f.if_stage], assumption, simp,
        rule fc.fw_step [OF snt1_avx512f.if_stage], assumption, simp,
        rule fill_nt_tail [OF fill_blocks_avx512f fill_nt_small [OF fill_small_avx512f_ok]], assumption, simp)
  then show "\<exists>s'. memset_movnt_avx512f v d c len s = Some s' \<and> fc.does (ucast c) (flushes v) (ordered v) d (unat len) s s'"
    by (rule fill_barrier)
      (auto simp: memset_movnt_avx512f_def Let_def bind_eq_Some_conv barrier_risks split: prod.splits)
qed

end
