(* ===== verification/Pmem_Init.thy ===== *)
theory Pmem_Init
  imports Pmem_Flush
begin

text \<open>
  How libpmem chooses its functions when it is loaded (\<open>libpmem/x86_64/cpu.c\<close>,
  \<open>libpmem/x86_64/init.c\<close>): from the answers of \<open>cpuid\<close>, the environment, the build options and
  whether the platform flushes its caches itself. These four are parameters. \<open>FATAL\<close> is \<open>None\<close>.
\<close>

section \<open>The processor\<close>

record cpu_regs =
  eax :: u32
  ebx :: u32
  ecx :: u32
  edx :: u32

type_synonym cpuid = "u32 \<Rightarrow> u32 \<Rightarrow> cpu_regs"

definition bit_CLFLUSH :: u32 where "bit_CLFLUSH = push_bit 19 1"
definition bit_CLFLUSHOPT :: u32 where "bit_CLFLUSHOPT = push_bit 23 1"
definition bit_CLWB :: u32 where "bit_CLWB = push_bit 24 1"
definition bit_AVX :: u32 where "bit_AVX = push_bit 28 1"
definition bit_AVX512F :: u32 where "bit_AVX512F = push_bit 16 1"

definition is_cpu_feature_present :: "cpuid \<Rightarrow> u32 \<Rightarrow> (cpu_regs \<Rightarrow> u32) \<Rightarrow> u32 \<Rightarrow> bool" where
  "is_cpu_feature_present cpuid fn reg b =
     (if eax (cpuid 0 0) < fn then False else reg (cpuid fn 0) AND b \<noteq> 0)"

definition le_chars :: "u32 \<Rightarrow> nat list" where
  "le_chars x = map (\<lambda>i. unat (take_bit 8 (drop_bit (8 * i) x))) [0..<4]"

text \<open>\<open>strncmp\<close> on the vendor's twelve bytes, which zeros follow.\<close>

definition is_cpu_genuine_intel :: "cpuid \<Rightarrow> bool" where
  "is_cpu_genuine_intel cpuid =
     (let r = cpuid 0 0; name = le_chars (ebx r) @ le_chars (edx r) @ le_chars (ecx r)
      in takeWhile (\<lambda>b. b \<noteq> 0) name = map of_char ''GenuineIntel'')"

definition is_cpu_clflush_present :: "cpuid \<Rightarrow> bool" where
  "is_cpu_clflush_present cpuid = is_cpu_feature_present cpuid 1 edx bit_CLFLUSH"

definition is_cpu_clflushopt_present :: "cpuid \<Rightarrow> bool" where
  "is_cpu_clflushopt_present cpuid = is_cpu_feature_present cpuid 7 ebx bit_CLFLUSHOPT"

definition is_cpu_clwb_present :: "cpuid \<Rightarrow> bool" where
  "is_cpu_clwb_present cpuid =
     (if \<not> is_cpu_genuine_intel cpuid then False else is_cpu_feature_present cpuid 7 ebx bit_CLWB)"

definition is_cpu_avx_present :: "cpuid \<Rightarrow> bool" where
  "is_cpu_avx_present cpuid = is_cpu_feature_present cpuid 1 ecx bit_AVX"

definition is_cpu_avx512f_present :: "cpuid \<Rightarrow> bool" where
  "is_cpu_avx512f_present cpuid = is_cpu_feature_present cpuid 7 ebx bit_AVX512F"

section \<open>The choice\<close>

record build_opts =
  SSE2_AVAILABLE :: bool
  AVX_AVAILABLE :: bool
  AVX512F_AVAILABLE :: bool

type_synonym env = "string \<Rightarrow> string option"

datatype memcpy_impl =
    MEMCPY_INVALID | MEMCPY_LIBC | MEMCPY_GENERIC | MEMCPY_SSE2 | MEMCPY_AVX | MEMCPY_AVX512F

text \<open>\<open>atoll\<close> with the saturation of \<open>strtoll\<close>.\<close>

definition atoll :: "string \<Rightarrow> int" where
  "atoll s =
     (let t = dropWhile is_space s;
          neg = (t \<noteq> [] \<and> hd t = CHR ''-'');
          u = (if t \<noteq> [] \<and> (hd t = CHR ''-'' \<or> hd t = CHR ''+'') then tl t else t);
          ds = takeWhile (\<lambda>c. case char_digit c of None \<Rightarrow> False | Some d \<Rightarrow> d < 10) u;
          n = (case of_digits 10 0 ds of None \<Rightarrow> 0 | Some k \<Rightarrow> int k);
          r = (if neg then - n else n)
      in max (- (2 ^ 63)) (min (2 ^ 63 - 1) r))"

text \<open>The functions for a way of flushing, as the three \<open>use\<close> functions look them up.\<close>

definition simd_funcs :: "isa \<Rightarrow> pmem_funcs \<Rightarrow> pmem_funcs" where
  "simd_funcs i F =
     F\<lparr>memmove_nodrain := Nodrain_simd i (deep_flush F), memset_nodrain := Nodrain_simd i (deep_flush F)\<rparr>"

definition use_sse2_memcpy_memset ::
  "build_opts \<Rightarrow> pmem_funcs \<times> memcpy_impl \<Rightarrow> pmem_funcs \<times> memcpy_impl"
where
  "use_sse2_memcpy_memset B = (\<lambda>(F, impl).
     if SSE2_AVAILABLE B then (simd_funcs SSE2 F, MEMCPY_SSE2) else (F, impl))"

definition use_avx_memcpy_memset ::
  "build_opts \<Rightarrow> env \<Rightarrow> pmem_funcs \<times> memcpy_impl \<Rightarrow> pmem_funcs \<times> memcpy_impl"
where
  "use_avx_memcpy_memset B getenv = (\<lambda>(F, impl).
     if AVX_AVAILABLE B then
       if getenv ''PMEM_AVX'' \<noteq> Some ''1'' then (F, impl) else (simd_funcs AVX F, MEMCPY_AVX)
     else (F, impl))"

definition use_avx512f_memcpy_memset ::
  "build_opts \<Rightarrow> env \<Rightarrow> pmem_funcs \<times> memcpy_impl \<Rightarrow> pmem_funcs \<times> memcpy_impl"
where
  "use_avx512f_memcpy_memset B getenv = (\<lambda>(F, impl).
     if AVX512F_AVAILABLE B then
       if getenv ''PMEM_AVX512F'' \<noteq> Some ''1'' then (F, impl) else (simd_funcs AVX512F F, MEMCPY_AVX512F)
     else (F, impl))"

definition pmem_cpuinfo_to_funcs ::
  "build_opts \<Rightarrow> cpuid \<Rightarrow> env \<Rightarrow> pmem_funcs \<times> memcpy_impl \<Rightarrow> pmem_funcs \<times> memcpy_impl"
where
  "pmem_cpuinfo_to_funcs B cpuid getenv = (\<lambda>(F, impl).
     let F = (if is_cpu_clflush_present cpuid then F\<lparr>is_pmem := Some Is_pmem_detect\<rparr> else F);
         F = (if is_cpu_clflushopt_present cpuid then
                if getenv ''PMEM_NO_CLFLUSHOPT'' = Some ''1'' then F
                else F\<lparr>deep_flush := Flush_clflushopt, predrain_fence := Predrain_memory_barrier\<rparr>
              else F);
         F = (if is_cpu_clwb_present cpuid then
                if getenv ''PMEM_NO_CLWB'' = Some ''1'' then F
                else F\<lparr>deep_flush := Flush_clwb, predrain_fence := Predrain_memory_barrier\<rparr>
              else F)
     in if getenv ''PMEM_NO_MOVNT'' = Some ''1'' then (F, impl)
        else
          let x = use_sse2_memcpy_memset B (F, impl);
              x = (if is_cpu_avx_present cpuid then use_avx_memcpy_memset B getenv x else x)
          in if is_cpu_avx512f_present cpuid then use_avx512f_memcpy_memset B getenv x else x)"

text \<open>The globals of the library.\<close>

record libpmem =
  Funcs :: pmem_funcs
  Movnt_threshold :: u64

definition MOVNT_THRESHOLD :: u64 where
  "MOVNT_THRESHOLD = 256"

definition generic_funcs :: pmem_funcs where
  "generic_funcs =
     \<lparr>predrain_fence = Predrain_fence_empty, flush = Flush_empty, is_pmem = None,
      memmove_nodrain = Nodrain_generic, memset_nodrain = Nodrain_generic, deep_flush = Flush_clflush\<rparr>"

definition pmem_init_funcs :: "build_opts \<Rightarrow> cpuid \<Rightarrow> env \<Rightarrow> bool \<Rightarrow> libpmem option" where
  "pmem_init_funcs B cpuid getenv pmem_has_auto_flush =
     (let start = (case getenv ''PMEM_NO_GENERIC_MEMCPY'' of
                     Some ptr \<Rightarrow>
                       if atoll ptr \<noteq> 0 then
                         (generic_funcs\<lparr>memmove_nodrain := Nodrain_libc, memset_nodrain := Nodrain_libc\<rparr>, MEMCPY_LIBC)
                       else (generic_funcs, MEMCPY_GENERIC)
                   | None \<Rightarrow> (generic_funcs, MEMCPY_GENERIC));
          (F, impl) = pmem_cpuinfo_to_funcs B cpuid getenv start;
          threshold = (case getenv ''PMEM_MOVNT_THRESHOLD'' of
                         Some ptr \<Rightarrow> if atoll ptr < 0 then MOVNT_THRESHOLD else word_of_int (atoll ptr)
                       | None \<Rightarrow> MOVNT_THRESHOLD);
          e = getenv ''PMEM_NO_FLUSH'';
          fl = (if e = Some ''1'' then False
                else if e = Some ''0'' then True
                else \<not> pmem_has_auto_flush);
          F = (if fl then F\<lparr>flush := deep_flush F\<rparr>
               else F\<lparr>flush := Flush_empty, predrain_fence := Predrain_memory_barrier\<rparr>)
      in if deep_flush F \<notin> {Flush_clwb, Flush_clflushopt, Flush_clflush} then None
         else if flush F \<noteq> Flush_empty \<and> flush F \<noteq> deep_flush F then None
         else if impl = MEMCPY_INVALID then None
         else Some \<lparr>Funcs = F, Movnt_threshold = threshold\<rparr>)"

section \<open>The chosen functions fit together\<close>

text \<open>What holds of the functions before and after each of the choices.\<close>

definition fits_together :: "pmem_funcs \<Rightarrow> bool" where
  "fits_together F \<longleftrightarrow>
     deep_flush F \<noteq> Flush_empty
     \<and> (deep_flush F \<noteq> Flush_clflush \<longrightarrow> predrain_fence F = Predrain_memory_barrier)
     \<and> (\<forall>m\<in>{memmove_nodrain F, memset_nodrain F}. \<forall>i f. m = Nodrain_simd i f \<longrightarrow> f = deep_flush F)"

lemma simd_funcs_fit: "fits_together F \<Longrightarrow> fits_together (simd_funcs i F)"
  by (simp add: fits_together_def simd_funcs_def)

definition unset_simd :: "pmem_funcs \<Rightarrow> bool" where
  "unset_simd F \<longleftrightarrow> memmove_nodrain F \<in> {Nodrain_generic, Nodrain_libc} \<and> memset_nodrain F \<in> {Nodrain_generic, Nodrain_libc}"

lemma cpuinfo_fits:
  assumes "fits_together F" "unset_simd F" "impl \<noteq> MEMCPY_INVALID"
    and "pmem_cpuinfo_to_funcs B cpuid getenv (F, impl) = (F', impl')"
  shows "fits_together F' \<and> impl' \<noteq> MEMCPY_INVALID"
proof -
  define F1 where "F1 = (if is_cpu_clflush_present cpuid then F\<lparr>is_pmem := Some Is_pmem_detect\<rparr> else F)"
  define F2 where "F2 = (if is_cpu_clflushopt_present cpuid then
                if getenv ''PMEM_NO_CLFLUSHOPT'' = Some ''1'' then F1
                else F1\<lparr>deep_flush := Flush_clflushopt, predrain_fence := Predrain_memory_barrier\<rparr>
              else F1)"
  define F3 where "F3 = (if is_cpu_clwb_present cpuid then
                if getenv ''PMEM_NO_CLWB'' = Some ''1'' then F2
                else F2\<lparr>deep_flush := Flush_clwb, predrain_fence := Predrain_memory_barrier\<rparr>
              else F2)"
  have F3: "fits_together F3"
    using assms(1,2) by (auto simp: F3_def F2_def F1_def fits_together_def unset_simd_def)
  define x1 where "x1 = use_sse2_memcpy_memset B (F3, impl)"
  define x2 where "x2 = (if is_cpu_avx_present cpuid then use_avx_memcpy_memset B getenv x1 else x1)"
  define x3 where "x3 = (if is_cpu_avx512f_present cpuid then use_avx512f_memcpy_memset B getenv x2 else x2)"
  have good: "fits_together (fst x1) \<and> snd x1 \<noteq> MEMCPY_INVALID" "fits_together (fst x2) \<and> snd x2 \<noteq> MEMCPY_INVALID"
    "fits_together (fst x3) \<and> snd x3 \<noteq> MEMCPY_INVALID"
    using F3 assms(3)
    by (auto simp: x1_def x2_def x3_def use_sse2_memcpy_memset_def use_avx_memcpy_memset_def
        use_avx512f_memcpy_memset_def simd_funcs_fit split: prod.splits)
  have "(F', impl') = (if getenv ''PMEM_NO_MOVNT'' = Some ''1'' then (F3, impl) else x3)"
    unfolding assms(4) [symmetric] x3_def x2_def x1_def F3_def F2_def F1_def
    by (simp only: pmem_cpuinfo_to_funcs_def Let_def prod.case)
  with F3 assms(3) good(3) show ?thesis by (cases x3) (auto split: if_splits)
qed

definition no_flush :: "env \<Rightarrow> bool \<Rightarrow> bool" where
  "no_flush getenv auto \<longleftrightarrow> getenv ''PMEM_NO_FLUSH'' = Some ''1'' \<or> (getenv ''PMEM_NO_FLUSH'' \<noteq> Some ''0'' \<and> auto)"

lemma init_funcs_fit:
  "\<exists>L. pmem_init_funcs B cpuid getenv auto = Some L \<and> fits_together (Funcs L)
    \<and> (if no_flush getenv auto then flush (Funcs L) = Flush_empty \<and> predrain_fence (Funcs L) = Predrain_memory_barrier
       else funcs_ok (Funcs L))"
proof -
  define start where "start = (case getenv ''PMEM_NO_GENERIC_MEMCPY'' of
      Some ptr \<Rightarrow>
        if atoll ptr \<noteq> 0 then
          (generic_funcs\<lparr>memmove_nodrain := Nodrain_libc, memset_nodrain := Nodrain_libc\<rparr>, MEMCPY_LIBC)
        else (generic_funcs, MEMCPY_GENERIC)
    | None \<Rightarrow> (generic_funcs, MEMCPY_GENERIC))"
  have s: "fits_together (fst start)" "unset_simd (fst start)" "snd start \<noteq> MEMCPY_INVALID"
    by (auto simp: start_def fits_together_def unset_simd_def generic_funcs_def split: option.splits)
  obtain F impl where F: "pmem_cpuinfo_to_funcs B cpuid getenv start = (F, impl)" by fastforce
  with cpuinfo_fits [of "fst start" "snd start" B cpuid getenv F impl] s
  have f: "fits_together F" "impl \<noteq> MEMCPY_INVALID" by simp_all
  then have "deep_flush F \<in> {Flush_clwb, Flush_clflushopt, Flush_clflush}"
    by (cases "deep_flush F") (auto simp: fits_together_def)
  then show ?thesis
    using f by (auto simp: pmem_init_funcs_def Let_def start_def [symmetric] F no_flush_def fits_together_def funcs_ok_def)
qed

end
