(* ===== verification/Pmem_Api.thy ===== *)
theory Pmem_Api
  imports Pmem_Simd_Fill Pmem_Init
begin

text \<open>
  The copy and fill functions that libpmem exports (\<open>libpmem/pmem.c\<close>), over the functions chosen at
  load time: the portable ones, those over libc and the vector ones with their choice between cached
  and streaming stores (\<open>libpmem/x86_64/init.c\<close>). Their contract: they return, they give the memory of
  \<open>memmove\<close> or \<open>memset\<close>, and the persisting ones leave nothing of the destination at risk.
\<close>

section \<open>The chosen copy and fill\<close>

definition PMEM_F_MEM_MOVNT :: u32 where
  "PMEM_F_MEM_MOVNT = PMEM_F_MEM_WC OR PMEM_F_MEM_NONTEMPORAL"

definition PMEM_F_MEM_MOV :: u32 where
  "PMEM_F_MEM_MOV = PMEM_F_MEM_WB OR PMEM_F_MEM_TEMPORAL"

fun memmove_mov :: "isa \<Rightarrow> variant \<Rightarrow> addr \<Rightarrow> addr \<Rightarrow> u64 \<Rightarrow> pm \<Rightarrow> pm option" where
  "memmove_mov SSE2 = memmove_mov_sse2"
| "memmove_mov AVX = memmove_mov_avx"
| "memmove_mov AVX512F = memmove_mov_avx512f"

fun memmove_movnt :: "isa \<Rightarrow> variant \<Rightarrow> addr \<Rightarrow> addr \<Rightarrow> u64 \<Rightarrow> pm \<Rightarrow> pm option" where
  "memmove_movnt SSE2 = memmove_movnt_sse2"
| "memmove_movnt AVX = memmove_movnt_avx"
| "memmove_movnt AVX512F = memmove_movnt_avx512f"

fun memset_mov :: "isa \<Rightarrow> variant \<Rightarrow> addr \<Rightarrow> u32 \<Rightarrow> u64 \<Rightarrow> pm \<Rightarrow> pm option" where
  "memset_mov SSE2 = memset_mov_sse2"
| "memset_mov AVX = memset_mov_avx"
| "memset_mov AVX512F = memset_mov_avx512f"

fun memset_movnt :: "isa \<Rightarrow> variant \<Rightarrow> addr \<Rightarrow> u32 \<Rightarrow> u64 \<Rightarrow> pm \<Rightarrow> pm option" where
  "memset_movnt SSE2 = memset_movnt_sse2"
| "memset_movnt AVX = memset_movnt_avx"
| "memset_movnt AVX512F = memset_movnt_avx512f"

fun variant_of :: "flush_func \<Rightarrow> variant" where
  "variant_of Flush_clflush = V_clflush"
| "variant_of Flush_clflushopt = V_clflushopt"
| "variant_of Flush_clwb = V_clwb"
| "variant_of Flush_empty = V_empty"

definition memmove_nodrain_simd ::
  "u64 \<Rightarrow> isa \<Rightarrow> flush_func \<Rightarrow> addr \<Rightarrow> addr \<Rightarrow> u64 \<Rightarrow> u32 \<Rightarrow> pm \<Rightarrow> pm option"
where
  "memmove_nodrain_simd threshold i f dest src len flags s =
     (if len = 0 \<or> src = dest then Some s
      else if flags AND PMEM_F_MEM_NOFLUSH \<noteq> 0 then memmove_mov i V_noflush dest src len s
      else if flags AND PMEM_F_MEM_MOVNT \<noteq> 0 then memmove_movnt i (variant_of f) dest src len s
      else if flags AND PMEM_F_MEM_MOV \<noteq> 0 then memmove_mov i (variant_of f) dest src len s
      else if len < threshold then memmove_mov i (variant_of f) dest src len s
      else memmove_movnt i (variant_of f) dest src len s)"

definition memset_nodrain_simd ::
  "u64 \<Rightarrow> isa \<Rightarrow> flush_func \<Rightarrow> addr \<Rightarrow> u32 \<Rightarrow> u64 \<Rightarrow> u32 \<Rightarrow> pm \<Rightarrow> pm option"
where
  "memset_nodrain_simd threshold i f dest c len flags s =
     (if len = 0 then Some s
      else if flags AND PMEM_F_MEM_NOFLUSH \<noteq> 0 then memset_mov i V_noflush dest c len s
      else if flags AND PMEM_F_MEM_MOVNT \<noteq> 0 then memset_movnt i (variant_of f) dest c len s
      else if flags AND PMEM_F_MEM_MOV \<noteq> 0 then memset_mov i (variant_of f) dest c len s
      else if len < threshold then memset_mov i (variant_of f) dest c len s
      else memset_movnt i (variant_of f) dest c len s)"

text \<open>The widths of the stores of libc are not specified; the range is stored as a whole.\<close>

definition memmove_nodrain_libc :: "pmem_funcs \<Rightarrow> addr \<Rightarrow> addr \<Rightarrow> u64 \<Rightarrow> u32 \<Rightarrow> pm \<Rightarrow> pm option" where
  "memmove_nodrain_libc F pmemdest src len flags s =
     pmem_flush_flags F pmemdest len flags (store_bytes pmemdest (bytes_at (pmem s) src (unat len)) s)"

definition memset_nodrain_libc :: "pmem_funcs \<Rightarrow> addr \<Rightarrow> u32 \<Rightarrow> u64 \<Rightarrow> u32 \<Rightarrow> pm \<Rightarrow> pm option" where
  "memset_nodrain_libc F pmemdest c len flags s =
     pmem_flush_flags F pmemdest len flags (store_bytes pmemdest (replicate (unat len) (ucast c)) s)"

definition call_memmove :: "libpmem \<Rightarrow> addr \<Rightarrow> addr \<Rightarrow> u64 \<Rightarrow> u32 \<Rightarrow> pm \<Rightarrow> pm option" where
  "call_memmove L =
     (case memmove_nodrain (Funcs L) of
        Nodrain_generic \<Rightarrow> memmove_nodrain_generic (Funcs L)
      | Nodrain_libc \<Rightarrow> memmove_nodrain_libc (Funcs L)
      | Nodrain_simd i f \<Rightarrow> memmove_nodrain_simd (Movnt_threshold L) i f)"

definition call_memset :: "libpmem \<Rightarrow> addr \<Rightarrow> u32 \<Rightarrow> u64 \<Rightarrow> u32 \<Rightarrow> pm \<Rightarrow> pm option" where
  "call_memset L =
     (case memset_nodrain (Funcs L) of
        Nodrain_generic \<Rightarrow> memset_nodrain_generic (Funcs L)
      | Nodrain_libc \<Rightarrow> memset_nodrain_libc (Funcs L)
      | Nodrain_simd i f \<Rightarrow> memset_nodrain_simd (Movnt_threshold L) i f)"

section \<open>The exported functions\<close>

definition pmem_memmove :: "libpmem \<Rightarrow> addr \<Rightarrow> addr \<Rightarrow> u64 \<Rightarrow> u32 \<Rightarrow> pm \<Rightarrow> pm option" where
  "pmem_memmove L pmemdest src len flags s =
     do {
       s \<leftarrow> call_memmove L pmemdest src len (flags AND NOT PMEM_F_MEM_NODRAIN) s;
       Some (if flags AND (PMEM_F_MEM_NODRAIN OR PMEM_F_MEM_NOFLUSH) = 0 then pmem_drain (Funcs L) s else s)
     }"

definition pmem_memcpy :: "libpmem \<Rightarrow> addr \<Rightarrow> addr \<Rightarrow> u64 \<Rightarrow> u32 \<Rightarrow> pm \<Rightarrow> pm option" where
  "pmem_memcpy L pmemdest src len flags s =
     do {
       s \<leftarrow> call_memmove L pmemdest src len (flags AND NOT PMEM_F_MEM_NODRAIN) s;
       Some (if flags AND (PMEM_F_MEM_NODRAIN OR PMEM_F_MEM_NOFLUSH) = 0 then pmem_drain (Funcs L) s else s)
     }"

definition pmem_memset :: "libpmem \<Rightarrow> addr \<Rightarrow> u32 \<Rightarrow> u64 \<Rightarrow> u32 \<Rightarrow> pm \<Rightarrow> pm option" where
  "pmem_memset L pmemdest c len flags s =
     do {
       s \<leftarrow> call_memset L pmemdest c len (flags AND NOT PMEM_F_MEM_NODRAIN) s;
       Some (if flags AND (PMEM_F_MEM_NODRAIN OR PMEM_F_MEM_NOFLUSH) = 0 then pmem_drain (Funcs L) s else s)
     }"

definition pmem_memmove_nodrain :: "libpmem \<Rightarrow> addr \<Rightarrow> addr \<Rightarrow> u64 \<Rightarrow> pm \<Rightarrow> pm option" where
  "pmem_memmove_nodrain L pmemdest src len s = call_memmove L pmemdest src len 0 s"

definition pmem_memcpy_nodrain :: "libpmem \<Rightarrow> addr \<Rightarrow> addr \<Rightarrow> u64 \<Rightarrow> pm \<Rightarrow> pm option" where
  "pmem_memcpy_nodrain L pmemdest src len s = call_memmove L pmemdest src len 0 s"

definition pmem_memmove_persist :: "libpmem \<Rightarrow> addr \<Rightarrow> addr \<Rightarrow> u64 \<Rightarrow> pm \<Rightarrow> pm option" where
  "pmem_memmove_persist L pmemdest src len s =
     do { s \<leftarrow> call_memmove L pmemdest src len 0 s; Some (pmem_drain (Funcs L) s) }"

definition pmem_memcpy_persist :: "libpmem \<Rightarrow> addr \<Rightarrow> addr \<Rightarrow> u64 \<Rightarrow> pm \<Rightarrow> pm option" where
  "pmem_memcpy_persist L pmemdest src len s =
     do { s \<leftarrow> call_memmove L pmemdest src len 0 s; Some (pmem_drain (Funcs L) s) }"

definition pmem_memset_nodrain :: "libpmem \<Rightarrow> addr \<Rightarrow> u32 \<Rightarrow> u64 \<Rightarrow> pm \<Rightarrow> pm option" where
  "pmem_memset_nodrain L pmemdest c len s = call_memset L pmemdest c len 0 s"

definition pmem_memset_persist :: "libpmem \<Rightarrow> addr \<Rightarrow> u32 \<Rightarrow> u64 \<Rightarrow> pm \<Rightarrow> pm option" where
  "pmem_memset_persist L pmemdest c len s =
     do { s \<leftarrow> call_memset L pmemdest c len 0 s; Some (pmem_drain (Funcs L) s) }"

section \<open>The contract of the chosen functions\<close>

interpretation mv: vector_copy "memmove_mov i" for i
proof (cases i)
  case SSE2 show "vector_copy (memmove_mov i)" unfolding SSE2 memmove_mov.simps by (rule mov_sse2.vector_copy_axioms)
next
  case AVX show "vector_copy (memmove_mov i)" unfolding AVX memmove_mov.simps by (rule mov_avx.vector_copy_axioms)
next
  case AVX512F show "vector_copy (memmove_mov i)" unfolding AVX512F memmove_mov.simps by (rule mov_avx512f.vector_copy_axioms)
qed

interpretation mvnt: vector_copy "memmove_movnt i" for i
proof (cases i)
  case SSE2 show "vector_copy (memmove_movnt i)" unfolding SSE2 memmove_movnt.simps by (rule movnt_sse2.vector_copy_axioms)
next
  case AVX show "vector_copy (memmove_movnt i)" unfolding AVX memmove_movnt.simps by (rule movnt_avx.vector_copy_axioms)
next
  case AVX512F show "vector_copy (memmove_movnt i)" unfolding AVX512F memmove_movnt.simps by (rule movnt_avx512f.vector_copy_axioms)
qed

interpretation ms: vector_fill "memset_mov i" for i
proof (cases i)
  case SSE2 show "vector_fill (memset_mov i)" unfolding SSE2 memset_mov.simps by (rule set_sse2.vector_fill_axioms)
next
  case AVX show "vector_fill (memset_mov i)" unfolding AVX memset_mov.simps by (rule set_avx.vector_fill_axioms)
next
  case AVX512F show "vector_fill (memset_mov i)" unfolding AVX512F memset_mov.simps by (rule set_avx512f.vector_fill_axioms)
qed

interpretation msnt: vector_fill "memset_movnt i" for i
proof (cases i)
  case SSE2 show "vector_fill (memset_movnt i)" unfolding SSE2 memset_movnt.simps by (rule setnt_sse2.vector_fill_axioms)
next
  case AVX show "vector_fill (memset_movnt i)" unfolding AVX memset_movnt.simps by (rule setnt_avx.vector_fill_axioms)
next
  case AVX512F show "vector_fill (memset_movnt i)" unfolding AVX512F memset_movnt.simps by (rule setnt_avx512f.vector_fill_axioms)
qed

text \<open>
  When the vector functions copy a range onto itself they return at once; otherwise the range
  is flushed.
\<close>

definition onto_itself :: "libpmem \<Rightarrow> addr \<Rightarrow> addr \<Rightarrow> bool" where
  "onto_itself L d c \<longleftrightarrow> d = c \<and> (\<exists>i f. memmove_nodrain (Funcs L) = Nodrain_simd i f)"

definition flushed :: "libpmem \<Rightarrow> u32 \<Rightarrow> addr set \<Rightarrow> pm \<Rightarrow> pm \<Rightarrow> bool" where
  "flushed L flags R s s' \<longleftrightarrow>
     (flags AND PMEM_F_MEM_NOFLUSH = 0 \<and> funcs_ok (Funcs L) \<longrightarrow> effect True (flush (Funcs L) = Flush_clflush) R s s')"

lemma outcome_flushed: "outcome (Funcs L) True flags R s s' \<Longrightarrow> flushed L flags R s s'"
  by (auto simp: outcome_def flushed_def flushing_def funcs_ok_def settles_def effect_def)

lemma effect_flushed:
  "effect (flushes (variant_of (deep_flush (Funcs L)))) (ordered (variant_of (deep_flush (Funcs L)))) R s s'
    \<Longrightarrow> flushed L flags R s s'"
  by (cases "deep_flush (Funcs L)") (auto simp: flushed_def funcs_ok_def effect_def)

lemma copy_self: "copy_chunk d d n m = m"
  by (simp add: copy_chunk_def fun_eq_iff)

lemma memmove_nodrain_simd_ok:
  assumes "room d (unat len)" "unat c + unat len \<le> 2 ^ 64" "f = deep_flush (Funcs L)"
  shows "\<exists>s'. memmove_nodrain_simd thr i f d c len flags s = Some s'
    \<and> pmem s' = copy_chunk d c (unat len) (pmem s)
    \<and> (d \<noteq> c \<longrightarrow> flushed L flags (span d (unat len)) s s')"
proof (cases "len = 0 \<or> c = d")
  case True
  then show ?thesis by (auto simp: memmove_nodrain_simd_def copy_self flushed_def effect_refl)
next
  case False
  then have ne: "len \<noteq> 0" "c \<noteq> d" by simp_all
  note mov = mv.copies [OF assms(1,2) ne(1), of i] and movnt = mvnt.copies [OF assms(1,2) ne(1), of i]
  have fl: "flushed L flags (span d (unat len)) s s'"
    if "cp.does (flushes (variant_of f)) (ordered (variant_of f)) (d, c) (unat len) s s'" for s'
    using that assms(3) by (auto simp: cp.does_def intro: effect_flushed)
  have nf: "flushed L flags (span d (unat len)) s s'" if "flags AND PMEM_F_MEM_NOFLUSH \<noteq> 0" for s'
    using that by (simp add: flushed_def)
  have mem: "pmem s' = copy_chunk d c (unat len) (pmem s)" if "cp.does a b (d, c) (unat len) s s'" for a b s'
    using that by (simp add: cp.does_def)
  show ?thesis
    using mov [of V_noflush s] mov [of "variant_of f" s] movnt [of "variant_of f" s] fl nf mem ne
    unfolding memmove_nodrain_simd_def by (auto split: if_splits)
qed

lemma memset_nodrain_simd_ok:
  assumes "room d (unat len)" "f = deep_flush (Funcs L)"
  shows "\<exists>s'. memset_nodrain_simd thr i f d c len flags s = Some s'
    \<and> pmem s' = fill_chunk d (ucast c) (unat len) (pmem s) \<and> flushed L flags (span d (unat len)) s s'"
proof (cases "len = 0")
  case True
  then show ?thesis by (simp add: memset_nodrain_simd_def flushed_def effect_refl)
next
  case ne: False
  note mov = ms.fills [OF assms(1) ne, of i _ c] and movnt = msnt.fills [OF assms(1) ne, of i _ c]
  have fl: "flushed L flags (span d (unat len)) s s'"
    if "fc.does (ucast c) (flushes (variant_of f)) (ordered (variant_of f)) d (unat len) s s'" for s'
    using that assms(2) by (auto simp: fc.does_def intro: effect_flushed)
  have nf: "flushed L flags (span d (unat len)) s s'" if "flags AND PMEM_F_MEM_NOFLUSH \<noteq> 0" for s'
    using that by (simp add: flushed_def)
  have mem: "pmem s' = fill_chunk d (ucast c) (unat len) (pmem s)" if "fc.does (ucast c) a b d (unat len) s s'" for a b s'
    using that by (simp add: fc.does_def)
  show ?thesis
    using mov [of V_noflush s] mov [of "variant_of f" s] movnt [of "variant_of f" s] fl nf mem ne
    unfolding memset_nodrain_simd_def by (auto split: if_splits)
qed

lemma libc_store:
  assumes "length bs = unat len" "room d (unat len)"
  shows "\<exists>s'. pmem_flush_flags (Funcs L) d len flags (store_bytes d bs s) = Some s'
    \<and> pmem s' = pmem (store_bytes d bs s) \<and> flushed L flags (span d (unat len)) s s'"
  using flush_flags_ok [OF writes_store [of d bs s] _ , of d len "Funcs L" flags] assms outcome_flushed
  by (auto simp: room_def)

lemma call_memmove_ok:
  assumes "fits_together (Funcs L)" "room d (unat len)" "unat c + unat len \<le> 2 ^ 64"
  shows "\<exists>s'. call_memmove L d c len flags s = Some s'
    \<and> pmem s' = copy_chunk d c (unat len) (pmem s)
    \<and> (\<not> onto_itself L d c \<longrightarrow> flushed L flags (span d (unat len)) s s')"
proof (cases "memmove_nodrain (Funcs L)")
  case Nodrain_generic
  have "unat d + unat len + 64 \<le> 2 ^ 64" using assms(2) by (simp add: room_def)
  from memmove_nodrain_generic_ok [OF this assms(3), of "Funcs L" flags s] outcome_flushed Nodrain_generic
  show ?thesis by (auto simp: call_memmove_def moved_def)
next
  case Nodrain_libc
  let ?bs = "bytes_at (pmem s) c (unat len)"
  have "pmem (store_bytes d ?bs s) = copy_chunk d c (unat len) (pmem s)"
    by (auto simp: pmem_store_bytes copy_chunk_def)
  with libc_store [of ?bs len d L flags s] assms(2) Nodrain_libc
  show ?thesis by (auto simp: call_memmove_def memmove_nodrain_libc_def)
next
  case (Nodrain_simd i f)
  then have "f = deep_flush (Funcs L)" using assms(1) by (simp add: fits_together_def)
  from memmove_nodrain_simd_ok [OF assms(2,3) this, of "Movnt_threshold L" i flags s] Nodrain_simd
  show ?thesis by (auto simp: call_memmove_def onto_itself_def)
qed

lemma call_memset_ok:
  assumes "fits_together (Funcs L)" "room d (unat len)"
  shows "\<exists>s'. call_memset L d c len flags s = Some s'
    \<and> pmem s' = fill_chunk d (ucast c) (unat len) (pmem s) \<and> flushed L flags (span d (unat len)) s s'"
proof (cases "memset_nodrain (Funcs L)")
  case Nodrain_generic
  have "unat d + unat len + 64 \<le> 2 ^ 64" using assms(2) by (simp add: room_def)
  from memset_nodrain_generic_ok [OF this, of "Funcs L" c flags s] outcome_flushed Nodrain_generic
  show ?thesis by (auto simp: call_memset_def filled_def)
next
  case Nodrain_libc
  with libc_store [of "replicate (unat len) (ucast c)" len d L flags s] assms(2)
  show ?thesis by (simp add: call_memset_def memset_nodrain_libc_def pmem_store_same)
next
  case (Nodrain_simd i f)
  then have "f = deep_flush (Funcs L)" using assms(1) by (simp add: fits_together_def)
  from memset_nodrain_simd_ok [OF assms(2) this, of "Movnt_threshold L" i c flags s] Nodrain_simd
  show ?thesis by (simp add: call_memset_def)
qed

lemma drain_durable:
  assumes "flushed L flags R s t" "flags AND PMEM_F_MEM_NOFLUSH = 0" "fits_together (Funcs L)" "funcs_ok (Funcs L)"
  shows "durable (pmem_drain (Funcs L) t) R"
  using assms by (auto simp: durable_def pmem_drain_risks flushed_def effect_def funcs_ok_def)

end
