(* ===== verification/Pmem_Properties.thy ===== *)
theory Pmem_Properties
  imports Pmem_Api
begin

text \<open>
  Properties of libpmem: persisting, the choice of functions, copying and filling, and two places
  where the vector copies break what the manual promises.
\<close>

text \<open>
  C27: with functions that fit together \<open>pmem_persist\<close> returns, changes no byte, and leaves nothing
  of its range at risk, whatever was written before.
\<close>

theorem persist_makes_durable:
  assumes "funcs_ok F" "unat a + unat n + 64 \<le> 2 ^ 64"
  shows "\<exists>s'. pmem_persist F a n s = Some s' \<and> pmem s' = pmem s \<and> durable s' (span a (unat n))"
proof -
  from pmem_persist_effect [OF assms, of s] obtain s' where
    s': "pmem_persist F a n s = Some s'" "pmem s' = pmem s"
    "dirty s' = dirty s - lines_touched a (unat n)" "pending s' \<inter> lines_touched a (unat n) = {}"
    by blast
  have "span a (unat n) \<subseteq> lines_touched a (unat n)" using assms(2) by (intro span_touched) simp
  with s'(3,4) have "durable s' (span a (unat n))" by (auto simp: durable_def)
  with s'(1,2) show ?thesis by blast
qed

definition demo_funcs :: pmem_funcs where
  "demo_funcs = \<lparr>predrain_fence = Predrain_memory_barrier, flush = Flush_clwb, is_pmem = Some Is_pmem_detect,
     memmove_nodrain = Nodrain_generic, memset_nodrain = Nodrain_generic, deep_flush = Flush_clwb\<rparr>"

definition demo_pm :: pm where
  "demo_pm = \<lparr>pmem = (\<lambda>a. ucast a), hw = [HStore 0x1038 16]\<rparr>"

lemma demo_funcs_ok: "funcs_ok demo_funcs" "flushing demo_funcs 0"
  by (simp_all add: funcs_ok_def flushing_def demo_funcs_def)

theorem persist_makes_durable_witness:
  "0x1040 \<in> dirty demo_pm
    \<and> (\<exists>s'. pmem_persist demo_funcs 0x1038 16 demo_pm = Some s' \<and> durable s' (span 0x1038 16))"
  using persist_makes_durable [OF demo_funcs_ok(1), of "0x1038" 16 demo_pm]
  by (auto simp: demo_pm_def risks_def span_def)

lemma outcome_clean: "outcome F True flags R s s' \<Longrightarrow> flushing F flags \<Longrightarrow> dirty s' \<subseteq> dirty s - R"
  by (simp add: outcome_def settles_def)

text \<open>
  C19: the portable copy returns, gives the memory of \<open>memmove\<close> also when the ranges overlap, and
  with a working flush leaves no byte of the destination dirty; a copy of aligned words uses only
  aligned eight-byte stores, so no word of it is torn.
\<close>

theorem generic_memmove:
  assumes "unat d + unat n + 64 \<le> 2 ^ 64" "unat c + unat n \<le> 2 ^ 64"
  shows "\<exists>s'. memmove_nodrain_generic F d c n flags s = Some s'
    \<and> (\<forall>i<unat n. pmem s' (d + of_nat i) = pmem s (c + of_nat i))
    \<and> (\<forall>a. a \<notin> span d (unat n) \<longrightarrow> pmem s' a = pmem s a)
    \<and> (flushing F flags \<longrightarrow> dirty s' \<subseteq> dirty s - span d (unat n))
    \<and> (8 dvd unat d \<and> 8 dvd unat n \<longrightarrow> aligned_stores s s')"
proof -
  from memmove_nodrain_generic_ok [OF assms, of F flags s] obtain s' where
    s': "memmove_nodrain_generic F d c n flags s = Some s'" "moved F flags d c (unat n) s s'"
    "8 dvd unat d \<and> 8 dvd unat n \<longrightarrow> aligned_stores s s'" by blast
  have "unat (of_nat i :: u64) = i" if "i < unat n" for i
    using that unat_lt_64 [of n] by (intro unat_of_nat_line) simp
  then show ?thesis
    using s' by (intro exI [of _ s']) (auto simp: moved_def copy_chunk_def span_def dest: outcome_clean)
qed

theorem generic_memmove_witness:
  "\<exists>s'. memmove_nodrain_generic demo_funcs 0x1040 0x1020 0x40 0 demo_pm = Some s'
     \<and> pmem s' 0x107f = 0x5f \<and> pmem s' 0x1080 = 0x80 \<and> aligned_stores demo_pm s'"
proof -
  from generic_memmove [of "0x1040" "0x40" "0x1020" demo_funcs 0 demo_pm] obtain s' where
    s': "memmove_nodrain_generic demo_funcs 0x1040 0x1020 0x40 0 demo_pm = Some s'"
    "\<forall>i<64. pmem s' (0x1040 + of_nat i) = pmem demo_pm (0x1020 + of_nat i)"
    "\<forall>a. a \<notin> span 0x1040 64 \<longrightarrow> pmem s' a = pmem demo_pm a" "aligned_stores demo_pm s'"
    by auto
  from s'(2) [rule_format, of 63] s'(3) [rule_format, of "0x1080"] s'(1,4) show ?thesis
    by (intro exI [of _ s']) (simp add: demo_pm_def span_def)
qed

text \<open>C28: the portable fill, likewise.\<close>

theorem generic_memset:
  assumes "unat d + unat n + 64 \<le> 2 ^ 64"
  shows "\<exists>s'. memset_nodrain_generic F d c n flags s = Some s'
    \<and> (\<forall>a. pmem s' a = (if a \<in> span d (unat n) then ucast c else pmem s a))
    \<and> (flushing F flags \<longrightarrow> dirty s' \<subseteq> dirty s - span d (unat n))
    \<and> (8 dvd unat d \<and> 8 dvd unat n \<longrightarrow> aligned_stores s s')"
proof -
  from memset_nodrain_generic_ok [OF assms, of F c flags s] obtain s' where
    "memset_nodrain_generic F d c n flags s = Some s'" "filled F flags d (ucast c) (unat n) s s'"
    "8 dvd unat d \<and> 8 dvd unat n \<longrightarrow> aligned_stores s s'" by blast
  then show ?thesis
    by (intro exI [of _ s']) (auto simp: filled_def fill_chunk_def span_def dest: outcome_clean)
qed

theorem generic_memset_witness:
  "\<exists>s'. memset_nodrain_generic demo_funcs 0x1038 0x1ff 0x30 0 demo_pm = Some s'
     \<and> pmem s' 0x1067 = 0xff \<and> pmem s' 0x1068 = 0x68 \<and> aligned_stores demo_pm s'"
  using generic_memset [of "0x1038" "0x30" demo_funcs "0x1ff" 0 demo_pm]
  by (auto simp: demo_pm_def span_def)

section \<open>The choice of functions\<close>

text \<open>
  C29: loading the library never ends in \<open>FATAL\<close>. Whatever processor, environment and build, the
  chosen functions fit together: an unordered flush has a fence, the vector functions flush like the
  deep flush, and only a platform that flushes its caches, or the environment, turns flushing off.
\<close>

theorem init_never_fatal:
  "\<exists>L. pmem_init_funcs B cpuid getenv auto = Some L \<and> fits_together (Funcs L)
    \<and> (if no_flush getenv auto then flush (Funcs L) = Flush_empty \<and> predrain_fence (Funcs L) = Predrain_memory_barrier
       else funcs_ok (Funcs L))"
  by (rule init_funcs_fit)

section \<open>Copies and fills that persist\<close>

lemma copy_bytes:
  fixes n :: u64
  assumes "pmem s' = copy_chunk d c (unat n) (pmem s)"
  shows "(\<forall>i<unat n. pmem s' (d + of_nat i) = pmem s (c + of_nat i)) \<and> (\<forall>a. a \<notin> span d (unat n) \<longrightarrow> pmem s' a = pmem s a)"
proof -
  have "unat (of_nat i :: u64) = i" if "i < unat n" for i
    using that unat_lt_64 [of n] by (intro unat_of_nat_line) simp
  with assms show ?thesis by (simp add: copy_chunk_def span_def)
qed

text \<open>
  C5: after initialisation with flushing on, \<open>pmem_memmove_persist\<close> returns with the memory of
  \<open>memmove\<close>, overlapping ranges included, and nothing of the destination at risk; whichever
  functions were chosen, unless a vector function is asked to copy a range onto itself.
\<close>

theorem memmove_persist_durable:
  assumes "pmem_init_funcs B cpuid getenv auto = Some L" "\<not> no_flush getenv auto"
    and "unat d + unat n + 64 \<le> 2 ^ 64" "unat c + unat n \<le> 2 ^ 64" "\<not> onto_itself L d c"
  shows "\<exists>s'. pmem_memmove_persist L d c n s = Some s'
    \<and> (\<forall>i<unat n. pmem s' (d + of_nat i) = pmem s (c + of_nat i))
    \<and> (\<forall>a. a \<notin> span d (unat n) \<longrightarrow> pmem s' a = pmem s a) \<and> durable s' (span d (unat n))"
proof -
  have L: "fits_together (Funcs L)" "funcs_ok (Funcs L)"
    using init_funcs_fit [of B cpuid getenv auto] assms(1,2) by auto
  have "room d (unat n)" using assms(3) by (simp add: room_def)
  from call_memmove_ok [OF L(1) this assms(4), of 0 s] assms(5) obtain t where
    t: "call_memmove L d c n 0 s = Some t" "pmem t = copy_chunk d c (unat n) (pmem s)"
    "flushed L 0 (span d (unat n)) s t" by blast
  from copy_bytes [of "pmem_drain (Funcs L) t" d c n s] t(1,2) drain_durable [OF t(3) _ L] show ?thesis
    by (intro exI [of _ "pmem_drain (Funcs L) t"]) (simp add: pmem_memmove_persist_def)
qed

definition demo_cpuid :: cpuid where
  "demo_cpuid fn sub = (if fn = 0 then \<lparr>eax = 7, ebx = 0x756e6547, ecx = 0x6c65746e, edx = 0x49656e69\<rparr>
     else \<lparr>eax = 0, ebx = 0x1800000, ecx = 0, edx = 0x80000\<rparr>)"

definition demo_build :: build_opts where
  "demo_build = \<lparr>SSE2_AVAILABLE = True, AVX_AVAILABLE = True, AVX512F_AVAILABLE = True\<rparr>"

definition demo_lib :: libpmem where
  "demo_lib = \<lparr>Funcs = \<lparr>predrain_fence = Predrain_memory_barrier, flush = Flush_clwb, is_pmem = Some Is_pmem_detect,
     memmove_nodrain = Nodrain_simd SSE2 Flush_clwb, memset_nodrain = Nodrain_simd SSE2 Flush_clwb,
     deep_flush = Flush_clwb\<rparr>, Movnt_threshold = 256\<rparr>"

lemma demo_cpu:
  "is_cpu_clflush_present demo_cpuid" "is_cpu_clflushopt_present demo_cpuid" "is_cpu_genuine_intel demo_cpuid"
  "is_cpu_clwb_present demo_cpuid" "\<not> is_cpu_avx_present demo_cpuid" "\<not> is_cpu_avx512f_present demo_cpuid"
  by code_simp+

lemma demo_init: "pmem_init_funcs demo_build demo_cpuid (\<lambda>_. None) False = Some demo_lib"
  by (simp add: pmem_init_funcs_def pmem_cpuinfo_to_funcs_def demo_cpu use_sse2_memcpy_memset_def demo_build_def
      simd_funcs_def generic_funcs_def demo_lib_def MOVNT_THRESHOLD_def Let_def)

theorem memmove_persist_durable_witness:
  "\<exists>s'. pmem_memmove_persist demo_lib 0x1044 0x1020 0x200 demo_pm = Some s'
     \<and> pmem s' 0x1243 = 0x1f \<and> durable s' (span 0x1044 0x200)"
proof -
  have "\<not> onto_itself demo_lib 0x1044 0x1020" by (simp add: onto_itself_def)
  from memmove_persist_durable [OF demo_init _ _ _ this, of "0x200" demo_pm] obtain s' where
    s': "pmem_memmove_persist demo_lib 0x1044 0x1020 0x200 demo_pm = Some s'"
    "\<forall>i<0x200. pmem s' (0x1044 + of_nat i) = pmem demo_pm (0x1020 + of_nat i)" "durable s' (span 0x1044 0x200)"
    by (auto simp: no_flush_def)
  from s'(2) [rule_format, of "0x1ff"] s'(1,3) show ?thesis by (simp add: demo_pm_def)
qed

text \<open>C30: \<open>pmem_memset_persist\<close>, likewise.\<close>

theorem memset_persist_durable:
  assumes "pmem_init_funcs B cpuid getenv auto = Some L" "\<not> no_flush getenv auto"
    and "unat d + unat n + 64 \<le> 2 ^ 64"
  shows "\<exists>s'. pmem_memset_persist L d c n s = Some s'
    \<and> (\<forall>a. pmem s' a = (if a \<in> span d (unat n) then ucast c else pmem s a)) \<and> durable s' (span d (unat n))"
proof -
  have L: "fits_together (Funcs L)" "funcs_ok (Funcs L)"
    using init_funcs_fit [of B cpuid getenv auto] assms(1,2) by auto
  have "room d (unat n)" using assms(3) by (simp add: room_def)
  from call_memset_ok [OF L(1) this, of c 0 s] obtain t where
    t: "call_memset L d c n 0 s = Some t" "pmem t = fill_chunk d (ucast c) (unat n) (pmem s)"
    "flushed L 0 (span d (unat n)) s t" by blast
  with drain_durable [OF t(3) _ L] show ?thesis
    by (intro exI [of _ "pmem_drain (Funcs L) t"]) (simp add: pmem_memset_persist_def fill_chunk_def span_def)
qed

theorem memset_persist_durable_witness:
  "\<exists>s'. pmem_memset_persist demo_lib 0x1044 0xabcd 0x150 demo_pm = Some s'
     \<and> pmem s' 0x1193 = 0xcd \<and> pmem s' 0x1194 = 0x94 \<and> durable s' (span 0x1044 0x150)"
  using memset_persist_durable [OF demo_init, of "0x1044" "0x150" "0xabcd" demo_pm]
  by (auto simp: no_flush_def demo_pm_def span_def)

text \<open>
  C20: every vector copy agrees with the portable one: for each instruction set, each way of
  flushing, any flags and threshold, both return and leave the same memory.
\<close>

theorem simd_equals_generic:
  assumes "unat d + unat n + 64 \<le> 2 ^ 64" "unat c + unat n \<le> 2 ^ 64"
  shows "\<exists>s1 s2. memmove_nodrain_simd thr i f d c n flags s = Some s1
    \<and> memmove_nodrain_generic F d c n flags' s = Some s2 \<and> pmem s1 = pmem s2"
proof -
  have "room d (unat n)" using assms(1) by (simp add: room_def)
  from memmove_nodrain_simd_ok [OF this assms(2), of f "\<lparr>Funcs = F\<lparr>deep_flush := f\<rparr>, Movnt_threshold = thr\<rparr>" thr i flags s]
    memmove_nodrain_generic_ok [OF assms, of F flags' s]
  show ?thesis by (auto simp: moved_def)
qed

theorem simd_equals_generic_witness:
  "\<exists>s1 s2. memmove_nodrain_simd 256 AVX512F Flush_clwb 0x1044 0x1020 0x2000 PMEM_F_MEM_NONTEMPORAL demo_pm = Some s1
    \<and> memmove_nodrain_generic demo_funcs 0x1044 0x1020 0x2000 0 demo_pm = Some s2 \<and> pmem s1 = pmem s2"
  by (rule simd_equals_generic) simp_all

section \<open>What the manual promises\<close>

text \<open>
  C31: a vector copy of a range onto itself flushes nothing: what was at risk stays at risk, where
  \<open>memmove\<close> followed by \<open>pmem_persist\<close> would make it durable.
\<close>

theorem self_copy_not_flushed:
  assumes "memmove_nodrain (Funcs L) = Nodrain_simd i f" "b \<in> dirty s"
  shows "\<exists>s'. pmem_memmove_persist L d d n s = Some s' \<and> b \<in> dirty s'"
  using assms
  by (simp add: pmem_memmove_persist_def call_memmove_def memmove_nodrain_simd_def pmem_drain_risks)

theorem self_copy_not_flushed_witness:
  "\<exists>s' s''. pmem_memmove_persist demo_lib 0x1038 0x1038 16 demo_pm = Some s' \<and> 0x1040 \<in> dirty s'
     \<and> pmem_persist (Funcs demo_lib) 0x1038 16 demo_pm = Some s'' \<and> 0x1040 \<notin> dirty s''"
proof -
  have d: "0x1040 \<in> dirty demo_pm" by (simp add: demo_pm_def risks_def span_def)
  have "funcs_ok (Funcs demo_lib)" by (simp add: demo_lib_def funcs_ok_def)
  from pmem_persist_effect [OF this, of "0x1038" 16 demo_pm]
  obtain s'' where s'': "pmem_persist (Funcs demo_lib) 0x1038 16 demo_pm = Some s''" "0x1040 \<notin> dirty s''"
    by (auto simp: lines_touched_def)
  moreover have "memmove_nodrain (Funcs demo_lib) = Nodrain_simd SSE2 Flush_clwb" by (simp add: demo_lib_def)
  ultimately show ?thesis using self_copy_not_flushed [OF _ d, of demo_lib SSE2 Flush_clwb "0x1038" 16] by blast
qed

lemma v_flush_log:
  assumes "unat d + unat n + 64 \<le> 2 ^ 64"
  shows "\<exists>s' ops. v_flush v d n s = Some s' \<and> hw s' = hw s @ ops"
proof (cases "flushes v")
  case True
  then have "func_of v \<noteq> Flush_empty" by (cases v) simp_all
  from call_flush_effect [OF this assms, of s] True show ?thesis by (auto simp: v_flush_call)
next
  case False
  then show ?thesis by (cases v) (auto simp: flush_empty_nolog_def)
qed

text \<open>
  C32: a copy of eight aligned bytes with SSE2 is done by two stores of four bytes, where the manual
  promises stores of at least eight; a crash between them tears the word.
\<close>

theorem eight_bytes_torn:
  assumes "64 dvd unat d" "8 \<le> d - c" "unat d + 72 \<le> 2 ^ 64"
  shows "\<exists>s' ops. memmove_mov_sse2 v d c 8 s = Some s' \<and> hw s' = hw s @ HStore d 4 # HStore (d + 4) 4 # ops"
proof -
  have "d AND 63 = 0" using low_6 [of d] assms(1) by (simp add: unat_eq_0 [symmetric])
  then have "align_cp (memmove_small_sse2 v) (d, c) 8 s = Some ((d, c), 8, s)" by (simp add: align_fw_def)
  moreover have "while_cp (memmove_mov4x64b_sse2 v) 256 (d, c) 8 s = Some ((d, c), 8, s)"
    by (subst while_fw.simps) simp
  ultimately have e: "memmove_mov_sse2 v d c 8 s = memmove_small_sse2 v d c 8 s"
    using assms(2) by (simp add: memmove_mov_sse2_def memmove_mov_sse_fw_def if_fw_def)
  let ?t = "store_bytes (d + 4) (bytes_at (pmem s) (c + 4) 4) (store_bytes d (bytes_at (pmem s) c 4) s)"
  have "memmove_small_sse2_noflush d c 8 s = Some ?t"
    by (simp add: memmove_small_sse2_noflush_def move_regs_def small_sse2_regs_def put_def)
  moreover have "hw ?t = hw s @ [HStore d 4, HStore (d + 4) 4]" by (simp add: store_bytes_def)
  moreover have "unat d + unat (8 :: u64) + 64 \<le> 2 ^ 64" using assms(3) by simp
  from v_flush_log [OF this, of v ?t] obtain s' ops where "v_flush v d 8 ?t = Some s'" "hw s' = hw ?t @ ops" by blast
  ultimately show ?thesis unfolding e by (auto simp: memmove_small_sse2_def)
qed

theorem eight_bytes_torn_witness:
  "\<exists>s' ops. memmove_mov_sse2 V_clwb 0x1040 0x1000 8 demo_pm = Some s'
     \<and> hw s' = hw demo_pm @ HStore 0x1040 4 # HStore 0x1044 4 # ops"
  using eight_bytes_torn [of "0x1040" "0x1000" V_clwb demo_pm] by simp

end
