(* ===== verification/Pmem_Ranges.thy ===== *)
theory Pmem_Ranges
  imports Pmem_Init
begin

text \<open>
  Which ranges of the address space are persistent memory (\<open>common/mmap.c\<close>): a sorted list of
  trackers, with \<open>libpmem/pmem_posix.c\<close> as its client. The results of \<open>Malloc\<close> and \<open>mmap\<close> are parameters.
  Seen from outside the list is a set of bytes: registering adds a range, unregistering removes the
  pages of a range, and a range is persistent memory when all its bytes are in the set.
\<close>

section \<open>The list of trackers\<close>

datatype pmem_map_type = PMEM_DEV_DAX | PMEM_MAP_SYNC

text \<open>\<open>region_id\<close> is left uninitialised for a mapping that is not Device DAX.\<close>

record map_tracker =
  base_addr :: u64
  end_addr :: u64
  region_id :: "int option"
  map_type :: pmem_map_type

text \<open>The list and the results of the allocations to come; when they are used up, allocations succeed.\<close>

record tracking =
  Mmap_list :: "map_tracker list"
  mallocs :: "bool list"

definition Malloc :: "tracking \<Rightarrow> bool \<times> tracking" where
  "Malloc t = (case mallocs t of [] \<Rightarrow> (True, t) | b # bs \<Rightarrow> (b, t\<lparr>mallocs := bs\<rparr>))"

definition util_range_comparer :: "map_tracker \<Rightarrow> map_tracker \<Rightarrow> int" where
  "util_range_comparer a b = sint (base_addr a - base_addr b)"

fun sortedq_insert :: "map_tracker \<Rightarrow> map_tracker list \<Rightarrow> map_tracker list" where
  "sortedq_insert elm [] = [elm]"
| "sortedq_insert elm (it # its) =
     (if util_range_comparer it elm < 0 then it # sortedq_insert elm its else elm # it # its)"

fun util_range_find_unlocked :: "u64 \<Rightarrow> u64 \<Rightarrow> map_tracker list \<Rightarrow> map_tracker option" where
  "util_range_find_unlocked addr len [] = None"
| "util_range_find_unlocked addr len (mt # mts) =
     (if addr < end_addr mt \<and> (base_addr mt \<le> addr \<or> base_addr mt < addr + len) then Some mt
      else if addr < base_addr mt then None
      else util_range_find_unlocked addr len mts)"

definition util_range_register ::
  "(string \<Rightarrow> int) \<Rightarrow> u64 \<Rightarrow> u64 \<Rightarrow> string \<Rightarrow> pmem_map_type \<Rightarrow> tracking \<Rightarrow> int \<times> tracking"
where
  "util_range_register util_ddax_region_find addr len path type t =
     (case util_range_find_unlocked addr len (Mmap_list t) of
        Some mt \<Rightarrow> (-1, t)
      | None \<Rightarrow>
          (let (ok, t) = Malloc t in
           if \<not> ok then (-1, t)
           else let mt = \<lparr>base_addr = addr, end_addr = addr + len,
                          region_id = (if type = PMEM_DEV_DAX then Some (util_ddax_region_find path) else None),
                          map_type = type\<rparr>
                in (0, t\<lparr>Mmap_list := sortedq_insert mt (Mmap_list t)\<rparr>)))"

text \<open>What is left of a tracker before and after the removed range.\<close>

definition range_before :: "map_tracker \<Rightarrow> u64 \<Rightarrow> map_tracker list" where
  "range_before mt addr = (if base_addr mt < addr then [mt\<lparr>end_addr := addr\<rparr>] else [])"

definition range_after :: "map_tracker \<Rightarrow> u64 \<Rightarrow> map_tracker list" where
  "range_after mt e = (if e < end_addr mt then [mt\<lparr>base_addr := e\<rparr>] else [])"

text \<open>\<open>Malloc\<close> is called for each part that is left; the first failure ends the function.\<close>

fun malloc_all :: "map_tracker list \<Rightarrow> tracking \<Rightarrow> bool \<times> tracking" where
  "malloc_all [] t = (True, t)"
| "malloc_all (mt # mts) t = (let (ok, t) = Malloc t in if ok then malloc_all mts t else (False, t))"

definition util_range_split :: "u64 \<Rightarrow> map_tracker \<Rightarrow> u64 \<Rightarrow> u64 \<Rightarrow> tracking \<Rightarrow> int \<times> tracking" where
  "util_range_split Mmap_align mt addr e t =
     (if addr = e \<or> addr mod Mmap_align \<noteq> 0 \<or> e mod Mmap_align \<noteq> 0 then (-1, t)
      else
        let left = range_before mt addr @ range_after mt e;
            (ok, t) = malloc_all left t
        in if ok then (0, t\<lparr>Mmap_list := fold sortedq_insert left (remove1 mt (Mmap_list t))\<rparr>)
           else (-1, t))"

definition PAGE_ALIGNED_UP_SIZE :: "u64 \<Rightarrow> u64 \<Rightarrow> u64" where
  "PAGE_ALIGNED_UP_SIZE Pagesize n = (n + (Pagesize - 1)) AND NOT (Pagesize - 1)"

text \<open>The loop of \<open>util_range_unregister\<close>. \<open>None\<close> is that it does not end.\<close>

partial_function (option) unregister_loop ::
  "u64 \<Rightarrow> u64 \<Rightarrow> u64 \<Rightarrow> u64 \<Rightarrow> tracking \<Rightarrow> (int \<times> tracking) option"
where
  "unregister_loop Mmap_align addr len e t =
     (case util_range_find_unlocked addr len (Mmap_list t) of
        None \<Rightarrow> Some (0, t)
      | Some mt \<Rightarrow>
          (let (ret, t) = util_range_split Mmap_align mt addr e t
           in if ret \<noteq> 0 then Some (-1, t) else unregister_loop Mmap_align addr len e t))"

definition util_range_unregister :: "u64 \<Rightarrow> u64 \<Rightarrow> u64 \<Rightarrow> tracking \<Rightarrow> (int \<times> tracking) option" where
  "util_range_unregister Pagesize addr len t =
     (let len = PAGE_ALIGNED_UP_SIZE Pagesize len in unregister_loop Pagesize addr len (addr + len) t)"

function is_pmem_loop :: "u64 \<Rightarrow> u64 \<Rightarrow> map_tracker list \<Rightarrow> bool" where
  "is_pmem_loop addr len mts =
     (case util_range_find_unlocked addr len mts of
        None \<Rightarrow> False
      | Some mt \<Rightarrow>
          if addr < base_addr mt then False
          else let map_len = end_addr mt - addr;
                   map_len = (if len < map_len then len else map_len);
                   len' = len - map_len
               in if 0 < len' then is_pmem_loop (addr + map_len) len' mts else True)"
  by pat_completeness auto

lemma find_Some:
  "util_range_find_unlocked addr len mts = Some mt \<Longrightarrow>
     mt \<in> set mts \<and> addr < end_addr mt \<and> (base_addr mt \<le> addr \<or> base_addr mt < addr + len)"
  by (induction mts) (auto split: if_splits)

termination is_pmem_loop
proof (relation "measure (\<lambda>(addr, len, mts). unat len)", goal_cases)
  case (2 addr len mts mt l0 l l')
  from 2(1) have "addr < end_addr mt" by (rule find_Some [THEN conjunct2, THEN conjunct1])
  then have "0 < end_addr mt - addr" by (simp add: word_less_nat_alt unat_sub_if')
  with 2(3-6) have "0 < l" "l \<le> len" by (auto simp: word_neq_0_conv split: if_splits)
  with 2(5) show ?case by (simp add: word_less_nat_alt word_le_nat_alt unat_sub)
qed simp

declare is_pmem_loop.simps [simp del]

definition util_range_is_pmem :: "u64 \<Rightarrow> u64 \<Rightarrow> tracking \<Rightarrow> bool" where
  "util_range_is_pmem addr len t = is_pmem_loop addr len (Mmap_list t)"

section \<open>The client\<close>

definition is_pmem_detect :: "u64 \<Rightarrow> u64 \<Rightarrow> tracking \<Rightarrow> bool" where
  "is_pmem_detect addr len t = (if len = 0 then False else util_range_is_pmem addr len t)"

text \<open>
  \<open>mapped\<close> is what \<open>util_map\<close> returns: nothing, or an address and whether the mapping is synchronous.
  The result tells also whether the range was unmapped again.
\<close>

definition pmem_map_register ::
  "(string \<Rightarrow> int) \<Rightarrow> (u64 \<times> bool) option \<Rightarrow> u64 \<Rightarrow> string \<Rightarrow> bool \<Rightarrow> tracking \<Rightarrow> u64 option \<times> bool \<times> tracking"
where
  "pmem_map_register util_ddax_region_find mapped len path is_dev_dax t =
     (case mapped of
        None \<Rightarrow> (None, False, t)
      | Some (addr, map_sync) \<Rightarrow>
          (let type = (if is_dev_dax then Some PMEM_DEV_DAX else if map_sync then Some PMEM_MAP_SYNC else None)
           in case type of
                None \<Rightarrow> (Some addr, False, t)
              | Some ty \<Rightarrow>
                  (let (ret, t) = util_range_register util_ddax_region_find addr len path ty t
                   in if ret \<noteq> 0 then (None, True, t) else (Some addr, False, t))))"

section \<open>The list as a set of bytes\<close>

definition extent :: "map_tracker \<Rightarrow> nat set" where
  "extent mt = {unat (base_addr mt)..<unat (end_addr mt)}"

definition tracked :: "map_tracker list \<Rightarrow> nat set" where
  "tracked mts = \<Union> (extent ` set mts)"

text \<open>Ranges are not empty and lie in the lower half of the address space, that of the programs.\<close>

definition mt_ok :: "map_tracker \<Rightarrow> bool" where
  "mt_ok mt \<longleftrightarrow> unat (base_addr mt) < unat (end_addr mt) \<and> unat (end_addr mt) \<le> 2 ^ 63"

definition ranges_ok :: "map_tracker list \<Rightarrow> bool" where
  "ranges_ok mts \<longleftrightarrow> sorted_wrt (\<lambda>a b. unat (end_addr a) \<le> unat (base_addr b)) mts \<and> (\<forall>mt\<in>set mts. mt_ok mt)"

lemma ranges_ok_Nil [simp]: "ranges_ok []"
  by (simp add: ranges_ok_def)

lemma ranges_ok_Cons:
  "ranges_ok (mt # mts) \<longleftrightarrow> mt_ok mt \<and> ranges_ok mts \<and> (\<forall>x\<in>set mts. unat (end_addr mt) \<le> unat (base_addr x))"
  by (auto simp: ranges_ok_def)

lemma tracked_simps [simp]:
  "tracked [] = {}" "tracked (mt # mts) = extent mt \<union> tracked mts"
  by (simp_all add: tracked_def)

lemma tracked_above:
  "ranges_ok (mt # mts) \<Longrightarrow> b \<in> tracked mts \<Longrightarrow> unat (end_addr mt) \<le> b"
  by (fastforce simp: ranges_ok_Cons tracked_def extent_def)

section \<open>Searching\<close>

abbreviation bytes_of :: "u64 \<Rightarrow> u64 \<Rightarrow> nat set" where
  "bytes_of addr len \<equiv> {unat addr..<unat addr + unat len}"

lemma find_None_iff:
  assumes "ranges_ok mts" "unat addr + unat len < 2 ^ 64" "len \<noteq> 0"
  shows "util_range_find_unlocked addr len mts = None \<longleftrightarrow> bytes_of addr len \<inter> tracked mts = {}"
  using assms(1)
proof (induction mts)
  case (Cons mt mts)
  let ?b = "unat (base_addr mt)" and ?e = "unat (end_addr mt)" and ?a = "unat addr" and ?n = "unat len"
  have n: "0 < ?n" using assms(3) by (simp add: unat_gt_0)
  have e: "unat (addr + len) = ?a + ?n" using assms(2) by (intro unat_plus_no_overflow) simp
  have ok: "?b < ?e" "ranges_ok mts" using Cons.prems by (auto simp: ranges_ok_Cons mt_ok_def)
  consider (hit) "?a < ?e" "?b < ?a + ?n" | (below) "?a + ?n \<le> ?b" | (above) "?e \<le> ?a" by linarith
  then show ?case
  proof cases
    case hit
    then have "max ?a ?b \<in> bytes_of addr len \<inter> tracked (mt # mts)" using ok(1) n by (auto simp: extent_def)
    then have "bytes_of addr len \<inter> tracked (mt # mts) \<noteq> {}" by blast
    moreover have "util_range_find_unlocked addr len (mt # mts) \<noteq> None"
      using hit e by (simp add: word_less_nat_alt word_le_nat_alt)
    ultimately show ?thesis by blast
  next
    case below
    then have "b \<notin> bytes_of addr len" if "b \<in> extent mt \<union> tracked mts" for b
      using that tracked_above [OF Cons.prems, of b] ok(1) by (auto simp: extent_def)
    then have "bytes_of addr len \<inter> tracked (mt # mts) = {}" by auto
    moreover have "util_range_find_unlocked addr len (mt # mts) = None"
      using below e n by (simp add: word_less_nat_alt word_le_nat_alt)
    ultimately show ?thesis by blast
  next
    case above
    then have "bytes_of addr len \<inter> extent mt = {}" by (auto simp: extent_def)
    moreover have "util_range_find_unlocked addr len (mt # mts) = util_range_find_unlocked addr len mts"
      using above ok(1) by (simp add: word_less_nat_alt word_le_nat_alt)
    ultimately show ?thesis using Cons.IH [OF ok(2)] by auto
  qed
qed simp

lemma find_gap:
  assumes "ranges_ok mts" "util_range_find_unlocked addr len mts = Some mt" "addr < base_addr mt"
  shows "unat addr \<notin> tracked mts"
  using assms
proof (induction mts)
  case (Cons x mts)
  have x: "unat (base_addr x) < unat (end_addr x)" "ranges_ok mts"
    using Cons.prems(1) by (auto simp: ranges_ok_Cons mt_ok_def)
  show ?case
  proof (cases "addr < base_addr x")
    case True
    then have "unat addr \<notin> extent x" "unat addr < unat (end_addr x)"
      using x(1) by (auto simp: extent_def word_less_nat_alt)
    with tracked_above [OF Cons.prems(1), of "unat addr"] show ?thesis by auto
  next
    case False
    with Cons.prems have "\<not> addr < end_addr x" "util_range_find_unlocked addr len mts = Some mt"
      by (auto split: if_splits)
    with Cons.IH [OF x(2) _ Cons.prems(3)] show ?thesis by (auto simp: extent_def word_less_nat_alt)
  qed
qed simp

section \<open>Whether a range is persistent memory\<close>

lemma is_pmem_loop_iff:
  "ranges_ok mts \<Longrightarrow> unat addr + unat len < 2 ^ 64 \<Longrightarrow> len \<noteq> 0 \<Longrightarrow>
     is_pmem_loop addr len mts \<longleftrightarrow> bytes_of addr len \<subseteq> tracked mts"
proof (induction addr len mts rule: is_pmem_loop.induct)
  case (1 addr len mts)
  have n: "0 < unat len" using "1.prems"(3) by (simp add: unat_gt_0)
  show ?case
  proof (cases "util_range_find_unlocked addr len mts")
    case None
    then have "bytes_of addr len \<inter> tracked mts = {}" using find_None_iff [OF "1.prems"] by blast
    moreover have "unat addr \<in> bytes_of addr len" using n by simp
    ultimately have "\<not> bytes_of addr len \<subseteq> tracked mts" by blast
    with None show ?thesis by (subst is_pmem_loop.simps) simp
  next
    case (Some mt)
    show ?thesis
    proof (cases "addr < base_addr mt")
      case True
      with find_gap [OF "1.prems"(1) Some] have "unat addr \<notin> tracked mts" by blast
      moreover have "unat addr \<in> bytes_of addr len" using n by simp
      ultimately have "\<not> bytes_of addr len \<subseteq> tracked mts" by blast
      with Some True show ?thesis by (subst is_pmem_loop.simps) simp
    next
      case False
      let ?m = "end_addr mt - addr" and ?e = "unat (end_addr mt)"
      define m where "m = (if len < ?m then len else ?m)"
      from find_Some [OF Some] have mt: "mt \<in> set mts" "unat addr < ?e" by (auto simp: word_less_nat_alt)
      then have "unat ?m = ?e - unat addr" by (simp add: unat_sub word_le_nat_alt)
      then have m: "unat m = min (unat len) (?e - unat addr)" by (simp add: m_def word_less_nat_alt)
      have "{unat addr..<?e} \<subseteq> tracked mts"
        using mt(1) False by (auto simp: tracked_def extent_def word_less_nat_alt intro!: bexI [of _ mt])
      then have here: "bytes_of addr m \<subseteq> tracked mts" by (rule subset_trans [rotated]) (auto simp: m)
      have a: "unat (addr + m) = unat addr + unat m"
        using "1.prems"(2) m by (intro unat_plus_no_overflow) simp
      have l: "unat (len - m) = unat len - unat m" using m by (intro unat_sub) (simp add: word_le_nat_alt)
      have split: "bytes_of addr len = bytes_of addr m \<union> bytes_of (addr + m) (len - m)"
        using a l m by auto
      have loop: "is_pmem_loop addr len mts = (if 0 < len - m then is_pmem_loop (addr + m) (len - m) mts else True)"
        using Some False by (subst is_pmem_loop.simps) (simp add: m_def Let_def)
      show ?thesis
      proof (cases "0 < len - m")
        case True
        then have "is_pmem_loop (addr + m) (len - m) mts \<longleftrightarrow> bytes_of (addr + m) (len - m) \<subseteq> tracked mts"
          using "1.prems" a l m by (intro "1.IH" [OF Some False refl _ refl]) (auto simp: m_def)
        with loop True here split show ?thesis by auto
      next
        case False
        then have "unat (len - m) = 0" by (simp add: word_less_nat_alt)
        then have "bytes_of (addr + m) (len - m) = {}" by simp
        with loop False here split show ?thesis by auto
      qed
    qed
  qed
qed

lemma is_pmem_detect_iff:
  assumes "ranges_ok (Mmap_list t)" "unat addr + unat len < 2 ^ 64"
  shows "is_pmem_detect addr len t \<longleftrightarrow> len \<noteq> 0 \<and> bytes_of addr len \<subseteq> tracked (Mmap_list t)"
  using is_pmem_loop_iff [OF assms] by (auto simp: is_pmem_detect_def util_range_is_pmem_def)

section \<open>Registering\<close>

lemma sint_neg_iff: "sint (x :: u64) < 0 \<longleftrightarrow> 2 ^ 63 \<le> unat x"
proof -
  have "sint x = signed_take_bit 63 (uint x)" by (simp add: sint_uint)
  moreover have "signed_take_bit 63 (uint x) < 0 \<longleftrightarrow> bit (uint x) 63" by (rule signed_take_bit_negative_iff)
  moreover have "bit (uint x) 63 \<longleftrightarrow> odd (uint x div 2 ^ 63)" by (rule bit_iff_odd)
  moreover have "odd (uint x div 2 ^ 63) \<longleftrightarrow> 2 ^ 63 \<le> uint x"
  proof (cases "2 ^ 63 \<le> uint x")
    case True
    have "uint x < 2 ^ 64" using unsigned_less [of x, where 'a = int] by simp
    with True have "uint x div 2 ^ 63 = 1" by (intro int_div_pos_eq [of _ _ _ "uint x - 2 ^ 63"]) simp_all
    with True show ?thesis by simp
  next
    case False
    then have "uint x div 2 ^ 63 = 0" by (intro div_pos_pos_trivial) simp_all
    with False show ?thesis by simp
  qed
  moreover have "2 ^ 63 \<le> uint x \<longleftrightarrow> 2 ^ 63 \<le> unat x"
    using of_nat_le_iff [of "2 ^ 63" "unat x", where 'a = int] by (simp del: of_nat_le_iff)
  ultimately show ?thesis by simp
qed

lemma comparer_neg:
  assumes "mt_ok a" "mt_ok b"
  shows "util_range_comparer a b < 0 \<longleftrightarrow> unat (base_addr a) < unat (base_addr b)"
proof -
  have "unat (base_addr a) < 2 ^ 63" "unat (base_addr b) < 2 ^ 63" using assms by (auto simp: mt_ok_def)
  then have "2 ^ 63 \<le> unat (base_addr a - base_addr b) \<longleftrightarrow> unat (base_addr a) < unat (base_addr b)"
    by (auto simp: unat_sub_if')
  then show ?thesis by (simp add: util_range_comparer_def sint_neg_iff)
qed

lemma set_sortedq_insert [simp]: "set (sortedq_insert mt mts) = insert mt (set mts)"
  by (induction mts) auto

lemma tracked_insert [simp]: "tracked (sortedq_insert mt mts) = extent mt \<union> tracked mts"
  by (simp add: tracked_def)

lemma disjoint_ranges:
  assumes "mt_ok a" "mt_ok b" "extent a \<inter> extent b = {}" "unat (base_addr a) \<le> unat (base_addr b)"
  shows "unat (end_addr a) \<le> unat (base_addr b)"
proof (rule ccontr)
  assume "\<not> ?thesis"
  then have "unat (base_addr b) \<in> extent a \<inter> extent b" using assms by (auto simp: extent_def mt_ok_def)
  with assms(3) show False by blast
qed

lemma insert_ok:
  assumes "ranges_ok mts" "mt_ok mt" "extent mt \<inter> tracked mts = {}"
  shows "ranges_ok (sortedq_insert mt mts)"
  using assms(1,3)
proof (induction mts)
  case (Cons it mts)
  have it: "mt_ok it" "extent mt \<inter> extent it = {}" "extent it \<inter> extent mt = {}" using Cons.prems by (auto simp: ranges_ok_Cons)
  show ?case
  proof (cases "util_range_comparer it mt < 0")
    case True
    then have "unat (end_addr it) \<le> unat (base_addr mt)"
      using comparer_neg [OF it(1) assms(2)] disjoint_ranges [OF it(1) assms(2) it(3)] by simp
    then show ?thesis using Cons True by (auto simp: ranges_ok_Cons)
  next
    case False
    then have "unat (end_addr mt) \<le> unat (base_addr it)"
      using comparer_neg [OF it(1) assms(2)] disjoint_ranges [OF assms(2) it(1,2)] by simp
    then show ?thesis using Cons.prems False assms(2) by (force simp: ranges_ok_Cons mt_ok_def)
  qed
qed (simp add: assms(2) ranges_ok_Cons)

lemma Malloc_list [simp]: "Mmap_list (snd (Malloc t)) = Mmap_list t"
  by (simp add: Malloc_def split: list.split)

lemma register_eq:
  assumes "ranges_ok (Mmap_list t)" "len \<noteq> 0" "unat addr + unat len \<le> 2 ^ 63"
    and "util_range_register rf addr len path ty t = (ret, t')"
  shows "ranges_ok (Mmap_list t')
    \<and> (if bytes_of addr len \<inter> tracked (Mmap_list t) = {} \<and> fst (Malloc t)
       then ret = 0 \<and> tracked (Mmap_list t') = tracked (Mmap_list t) \<union> bytes_of addr len
       else ret = -1 \<and> Mmap_list t' = Mmap_list t)"
proof (cases "bytes_of addr len \<inter> tracked (Mmap_list t) = {} \<and> fst (Malloc t)")
  case True
  let ?mt = "\<lparr>base_addr = addr, end_addr = addr + len,
     region_id = (if ty = PMEM_DEV_DAX then Some (rf path) else None), map_type = ty\<rparr>"
  have e: "unat (addr + len) = unat addr + unat len" using assms(3) by (intro unat_plus_no_overflow) simp
  have mt: "mt_ok ?mt" "extent ?mt = bytes_of addr len"
    using e assms(2,3) unat_gt_0 [of len] by (auto simp: mt_ok_def extent_def)
  have "util_range_find_unlocked addr len (Mmap_list t) = None"
    using True find_None_iff [OF assms(1) _ assms(2), of addr] assms(3) by simp
  with True assms(4) have "ret = 0" "Mmap_list t' = sortedq_insert ?mt (Mmap_list t)"
    by (auto simp: util_range_register_def Let_def split: prod.splits dest: arg_cong [of _ _ snd])
      (metis Malloc_list snd_conv)+
  with True mt insert_ok [OF assms(1) mt(1)] show ?thesis by auto
next
  case False
  then have "ret = -1 \<and> Mmap_list t' = Mmap_list t"
    using assms(4) find_None_iff [OF assms(1) _ assms(2), of addr] assms(3)
    by (auto simp: util_range_register_def Let_def split: option.splits prod.splits if_splits)
      (metis Malloc_list snd_conv)+
  with False assms(1) show ?thesis by simp
qed

section \<open>Unregistering\<close>

lemma ranges_ok_remove1: "ranges_ok mts \<Longrightarrow> ranges_ok (remove1 mt mts)"
  by (induction mts) (auto simp: ranges_ok_Cons dest: notin_set_remove1 in_set_remove1 [THEN iffD1, rotated]
      intro: set_mp [OF set_remove1_subset])

lemma tracked_remove1: "ranges_ok mts \<Longrightarrow> mt \<in> set mts \<Longrightarrow> tracked (remove1 mt mts) = tracked mts - extent mt"
proof (induction mts)
  case (Cons x mts)
  have above: "extent x \<inter> tracked mts = {}" using tracked_above [OF Cons.prems(1)] by (fastforce simp: extent_def)
  show ?case
  proof (cases "x = mt")
    case True
    with above show ?thesis by auto
  next
    case False
    with Cons.prems have mt: "mt \<in> set mts" "ranges_ok mts" by (auto simp: ranges_ok_Cons)
    then have "extent mt \<subseteq> tracked mts" by (auto simp: tracked_def)
    with above have "extent x - extent mt = extent x" by blast
    with False Cons.IH [OF mt(2,1)] show ?thesis by auto
  qed
qed simp

lemma left_ok:
  assumes "mt_ok mt" "unat addr < unat e" "unat addr < unat (end_addr mt)" "unat (base_addr mt) < unat e"
  shows "\<forall>x\<in>set (range_before mt addr @ range_after mt e). mt_ok x"
    and "tracked (range_before mt addr) = extent mt \<inter> {..<unat addr}"
    and "tracked (range_after mt e) = extent mt \<inter> {unat e..}"
  using assms by (auto simp: range_before_def range_after_def mt_ok_def extent_def word_less_nat_alt)

lemma insert_part:
  assumes "ranges_ok mts" "\<forall>x\<in>set xs. mt_ok x" "length xs \<le> 1" "tracked xs \<inter> tracked mts = {}"
  shows "ranges_ok (fold sortedq_insert xs mts) \<and> tracked (fold sortedq_insert xs mts) = tracked xs \<union> tracked mts"
  using assms insert_ok [OF assms(1)] by (cases xs) auto

lemma left_length: "length (range_before mt addr) \<le> 1" "length (range_after mt e) \<le> 1"
  by (simp_all add: range_before_def range_after_def)

lemma malloc_all_list: "Mmap_list (snd (malloc_all xs t)) = Mmap_list t"
  by (induction xs arbitrary: t) (auto simp: split_beta)

text \<open>No allocation to come fails.\<close>

definition allocating :: "tracking \<Rightarrow> bool" where
  "allocating t \<longleftrightarrow> (\<forall>b\<in>set (mallocs t). b)"

lemma malloc_allocating: "allocating t \<Longrightarrow> fst (Malloc t) \<and> allocating (snd (Malloc t))"
  by (auto simp: allocating_def Malloc_def split: list.split)

lemma malloc_all_allocating:
  "allocating t \<Longrightarrow> fst (malloc_all xs t) \<and> allocating (snd (malloc_all xs t))"
proof (induction xs arbitrary: t)
  case (Cons x xs)
  with malloc_allocating [OF Cons.prems] show ?case by (auto simp: split_beta)
qed simp

definition aligned_at :: "u64 \<Rightarrow> u64 \<Rightarrow> bool" where
  "aligned_at al a \<longleftrightarrow> a mod al = 0"

lemma split_result:
  assumes "ranges_ok (Mmap_list t)" "mt \<in> set (Mmap_list t)" "unat addr < unat e"
    and "unat addr < unat (end_addr mt)" "unat (base_addr mt) < unat e"
    and "util_range_split al mt addr e t = (ret, t')"
  shows "ret = 0 \<longrightarrow> ranges_ok (Mmap_list t')
      \<and> tracked (Mmap_list t') = tracked (Mmap_list t) - (extent mt \<inter> {unat addr..<unat e})"
    and "ret \<noteq> 0 \<longrightarrow> Mmap_list t' = Mmap_list t"
    and "aligned_at al addr \<Longrightarrow> aligned_at al e \<Longrightarrow> allocating t \<Longrightarrow> ret = 0 \<and> allocating t'"
proof -
  let ?ts = "Mmap_list t" and ?b = "range_before mt addr" and ?a = "range_after mt e"
  have mt: "mt_ok mt" using assms(1,2) by (auto simp: ranges_ok_def)
  note left = left_ok [OF mt assms(3-5)]
  have rest: "ranges_ok (remove1 mt ?ts)" "tracked (remove1 mt ?ts) = tracked ?ts - extent mt"
    using ranges_ok_remove1 tracked_remove1 assms(1,2) by blast+
  have "tracked ?b \<inter> tracked (remove1 mt ?ts) = {}" unfolding left(2) rest(2) by blast
  then have b: "ranges_ok (fold sortedq_insert ?b (remove1 mt ?ts))
      \<and> tracked (fold sortedq_insert ?b (remove1 mt ?ts)) = tracked ?b \<union> tracked (remove1 mt ?ts)"
    using left(1) by (intro insert_part [OF rest(1)] left_length) auto
  have "tracked ?a \<inter> (tracked ?b \<union> tracked (remove1 mt ?ts)) = {}" unfolding left(2,3) rest(2) using assms(3) by auto
  then have ba: "ranges_ok (fold sortedq_insert (?b @ ?a) (remove1 mt ?ts))
      \<and> tracked (fold sortedq_insert (?b @ ?a) (remove1 mt ?ts)) = tracked ?b \<union> tracked ?a \<union> tracked (remove1 mt ?ts)"
    using left(1) b insert_part [OF b [THEN conjunct1] _ left_length(2), of mt e] by auto
  have "extent mt \<subseteq> tracked ?ts" using assms(2) by (auto simp: tracked_def)
  then have minus: "tracked ?b \<union> tracked ?a \<union> tracked (remove1 mt ?ts) = tracked ?ts - (extent mt \<inter> {unat addr..<unat e})"
    unfolding left(2,3) rest(2) by auto
  have lst: "Mmap_list t' = (if ret = 0 then fold sortedq_insert (?b @ ?a) (remove1 mt ?ts) else ?ts)"
    using assms(6) malloc_all_list [of "?b @ ?a" t] by (auto simp: util_range_split_def Let_def split_beta split: if_splits)
  then show "ret = 0 \<longrightarrow> ranges_ok (Mmap_list t')
      \<and> tracked (Mmap_list t') = tracked ?ts - (extent mt \<inter> {unat addr..<unat e})"
    and "ret \<noteq> 0 \<longrightarrow> Mmap_list t' = ?ts"
    using ba unfolding minus by auto
  show "ret = 0 \<and> allocating t'" if "aligned_at al addr" "aligned_at al e" "allocating t"
    using assms(3,6) that malloc_all_allocating [OF that(3), of "?b @ ?a"]
    by (auto simp: aligned_at_def util_range_split_def Let_def split_beta allocating_def split: if_splits)
qed

lemma unregister_loop_result:
  assumes "ranges_ok (Mmap_list t)" "len \<noteq> 0" "unat addr + unat len < 2 ^ 64"
  shows "\<exists>ret t'. unregister_loop al addr len (addr + len) t = Some (ret, t') \<and> ranges_ok (Mmap_list t')
    \<and> (ret = 0 \<longrightarrow> tracked (Mmap_list t') = tracked (Mmap_list t) - bytes_of addr len)
    \<and> (ret \<noteq> 0 \<longrightarrow> tracked (Mmap_list t) - bytes_of addr len \<subseteq> tracked (Mmap_list t')
         \<and> tracked (Mmap_list t') \<subseteq> tracked (Mmap_list t))
    \<and> (aligned_at al addr \<and> aligned_at al (addr + len) \<and> allocating t \<longrightarrow> ret = 0)"
  using assms(1)
proof (induction "card (tracked (Mmap_list t) \<inter> bytes_of addr len)" arbitrary: t rule: less_induct)
  case less
  let ?ts = "Mmap_list t" and ?R = "bytes_of addr len" and ?e = "addr + len"
  have e: "unat ?e = unat addr + unat len" using assms(3) by (intro unat_plus_no_overflow) simp
  show ?case
  proof (cases "util_range_find_unlocked addr len ?ts")
    case None
    with find_None_iff [OF less.prems assms(3,2)] less.prems show ?thesis
      by (subst unregister_loop.simps) auto
  next
    case (Some mt)
    obtain ret t1 where sp: "util_range_split al mt addr ?e t = (ret, t1)" by fastforce
    from find_Some [OF Some] have mt: "mt \<in> set ?ts" "unat addr < unat (end_addr mt)" "unat (base_addr mt) < unat ?e"
      using e assms(2) unat_gt_0 [of len] by (auto simp: word_less_nat_alt word_le_nat_alt)
    have ae: "unat addr < unat ?e" using e assms(2) by (simp add: unat_gt_0)
    note res = split_result [OF less.prems mt(1) ae mt(2,3) sp]
    have loop: "unregister_loop al addr len ?e t =
        (if ret \<noteq> 0 then Some (-1, t1) else unregister_loop al addr len ?e t1)"
      using Some sp by (subst unregister_loop.simps) simp
    show ?thesis
    proof (cases "ret = 0")
      case False
      with loop res(2,3) less.prems show ?thesis by (intro exI [of _ "-1"] exI [of _ t1]) auto
    next
      case True
      let ?hit = "extent mt \<inter> {unat addr..<unat ?e}"
      have t1: "ranges_ok (Mmap_list t1)" "tracked (Mmap_list t1) = tracked ?ts - ?hit" using res(1) True by blast+
      have "max (unat addr) (unat (base_addr mt)) \<in> ?hit"
        using mt ae less.prems by (auto simp: extent_def ranges_ok_def mt_ok_def)
      moreover have hit: "?hit \<subseteq> tracked ?ts \<inter> ?R" using mt(1) e by (auto simp: tracked_def)
      ultimately have "tracked (Mmap_list t1) \<inter> ?R \<subset> tracked ?ts \<inter> ?R" unfolding t1(2) by blast
      then have "card (tracked (Mmap_list t1) \<inter> ?R) < card (tracked ?ts \<inter> ?R)"
        by (intro psubset_card_mono) auto
      from less.hyps [OF this t1(1)] obtain ret' t' where IH:
        "unregister_loop al addr len ?e t1 = Some (ret', t')" "ranges_ok (Mmap_list t')"
        "ret' = 0 \<longrightarrow> tracked (Mmap_list t') = tracked (Mmap_list t1) - ?R"
        "ret' \<noteq> 0 \<longrightarrow> tracked (Mmap_list t1) - ?R \<subseteq> tracked (Mmap_list t') \<and> tracked (Mmap_list t') \<subseteq> tracked (Mmap_list t1)"
        "aligned_at al addr \<and> aligned_at al ?e \<and> allocating t1 \<longrightarrow> ret' = 0" by blast
      have "tracked (Mmap_list t1) - ?R = tracked ?ts - ?R" using t1(2) hit by blast
      with IH res(3) loop True t1(2) show ?thesis by (intro exI [of _ ret'] exI [of _ t']) auto
    qed
  qed
qed

lemma unat_exp: "k < 64 \<Longrightarrow> unat (2 ^ k :: u64) = 2 ^ k"
proof -
  assume k: "k < 64"
  have "unat (of_nat (2 ^ k) :: u64) = take_bit 64 (2 ^ k)" by (simp only: unsigned_of_nat) simp
  also have "\<dots> = 2 ^ k" using k by (intro take_bit_nat_eq_self power_strict_increasing) simp_all
  finally show ?thesis by simp
qed

text \<open>The pages of a length.\<close>

definition pages_up :: "nat \<Rightarrow> nat \<Rightarrow> nat" where
  "pages_up k n = (n + 2 ^ k - 1) div 2 ^ k * 2 ^ k"

lemma page_up:
  assumes "unat n + 2 ^ k \<le> 2 ^ 64" "k < 64"
  shows "unat (PAGE_ALIGNED_UP_SIZE (2 ^ k) n) = pages_up k (unat n)"
proof -
  have m: "(2 ^ k - 1 :: u64) = mask k" by (simp add: mask_eq_exp_minus_1)
  have "unat (mask k :: u64) = 2 ^ k - 1"
    unfolding m [symmetric] by (subst unat_sub) (simp_all add: word_le_nat_alt unat_exp [OF assms(2)])
  then have "unat (n + mask k) = unat n + 2 ^ k - 1"
    using assms(1) by (subst unat_plus_no_overflow) simp_all
  then show ?thesis
    unfolding PAGE_ALIGNED_UP_SIZE_def m unat_and_not_mask pages_up_def by (simp add: minus_mod_eq_div_mult)
qed

lemma aligned_at_iff: "k < 64 \<Longrightarrow> aligned_at (2 ^ k) a \<longleftrightarrow> unat a mod 2 ^ k = 0"
  using unat_exp [of k] unat_mod_distrib [of a "2 ^ k"] unat_gt_0 [of "a mod 2 ^ k"]
  unfolding aligned_at_def by (metis gr0I less_irrefl)

lemma unregister_result:
  assumes "ranges_ok (Mmap_list t)" "k < 64" "len \<noteq> 0" "unat addr + pages_up k (unat len) < 2 ^ 64" "unat len + 2 ^ k \<le> 2 ^ 64"
  defines "R \<equiv> {unat addr..<unat addr + pages_up k (unat len)}"
  shows "\<exists>ret t'. util_range_unregister (2 ^ k) addr len t = Some (ret, t') \<and> ranges_ok (Mmap_list t')
    \<and> (ret = 0 \<longrightarrow> tracked (Mmap_list t') = tracked (Mmap_list t) - R)
    \<and> (ret \<noteq> 0 \<longrightarrow> tracked (Mmap_list t) - R \<subseteq> tracked (Mmap_list t')
         \<and> tracked (Mmap_list t') \<subseteq> tracked (Mmap_list t))
    \<and> (aligned_at (2 ^ k) addr \<and> allocating t \<longrightarrow> ret = 0)"
proof -
  let ?n = "PAGE_ALIGNED_UP_SIZE (2 ^ k) len"
  have n: "unat ?n = pages_up k (unat len)" by (rule page_up [OF assms(5,2)])
  have "0 < unat len" using assms(3) by (simp add: unat_gt_0)
  then have "2 ^ k div 2 ^ k \<le> (unat len + 2 ^ k - 1) div 2 ^ k" by (intro div_le_mono) linarith
  then have "0 < pages_up k (unat len)" by (simp add: pages_up_def)
  then have n0: "?n \<noteq> 0" using n by auto
  have e: "unat (addr + ?n) = unat addr + pages_up k (unat len)"
    using assms(4) n by (subst unat_plus_no_overflow) simp_all
  have "unat addr mod 2 ^ k = 0 \<Longrightarrow> unat (addr + ?n) mod 2 ^ k = 0"
    unfolding e pages_up_def by (simp add: mod_add_eq [symmetric])
  then have "aligned_at (2 ^ k) addr \<Longrightarrow> aligned_at (2 ^ k) (addr + ?n)" using assms(2) by (simp add: aligned_at_iff)
  then show ?thesis
    using unregister_loop_result [OF assms(1) n0, of addr "2 ^ k"] assms(4)
    unfolding util_range_unregister_def Let_def n R_def by blast
qed

section \<open>The interface\<close>

text \<open>
  What libpmem needs of the tracker: a set of bytes to which ranges are added, from which they are
  removed, and that is asked for whole ranges.
\<close>

locale byte_tracker =
  fixes ok :: "'s \<Rightarrow> bool"
    and bytes :: "'s \<Rightarrow> nat set"
    and register :: "u64 \<Rightarrow> u64 \<Rightarrow> 's \<Rightarrow> int \<times> 's"
    and unregister :: "u64 \<Rightarrow> u64 \<Rightarrow> 's \<Rightarrow> (int \<times> 's) option"
    and is_pmem_range :: "u64 \<Rightarrow> u64 \<Rightarrow> 's \<Rightarrow> bool"
    and pages :: "u64 \<Rightarrow> nat"
  assumes register_law: "ok s \<Longrightarrow> len \<noteq> 0 \<Longrightarrow> unat addr + unat len \<le> 2 ^ 63 \<Longrightarrow> register addr len s = (0, s') \<Longrightarrow>
      ok s' \<and> bytes s' = bytes s \<union> bytes_of addr len \<and> bytes s \<inter> bytes_of addr len = {}"
    and unregister_law: "ok s \<Longrightarrow> len \<noteq> 0 \<Longrightarrow> unat addr + unat len \<le> 2 ^ 63 \<Longrightarrow> unregister addr len s = Some (0, s') \<Longrightarrow>
      ok s' \<and> bytes s' = bytes s - {unat addr..<unat addr + pages len}"
    and is_pmem_law: "ok s \<Longrightarrow> unat addr + unat len < 2 ^ 64 \<Longrightarrow>
      is_pmem_range addr len s \<longleftrightarrow> len \<noteq> 0 \<and> bytes_of addr len \<subseteq> bytes s"
    and pages_law: "unat len \<le> pages len"
begin

lemma registered_is_pmem:
  assumes "ok s" "len \<noteq> 0" "unat addr + unat len \<le> 2 ^ 63" "register addr len s = (0, s')"
    and "n \<noteq> 0" "unat addr \<le> unat a" "unat a + unat n \<le> unat addr + unat len"
  shows "is_pmem_range a n s'"
proof -
  have "bytes_of a n \<subseteq> bytes_of addr len" using assms(6,7) by auto
  with register_law [OF assms(1-4)] is_pmem_law [of s' a n] assms(3,5,7) show ?thesis by auto
qed

lemma unregistered_not_pmem:
  assumes "ok s" "len \<noteq> 0" "unat addr + unat len \<le> 2 ^ 63" "unregister addr len s = Some (0, s')"
    and "bytes_of a n \<inter> bytes_of addr len \<noteq> {}" "unat a + unat n < 2 ^ 64"
  shows "\<not> is_pmem_range a n s'"
proof -
  from assms(5) obtain b where "b \<in> bytes_of a n" "b \<in> bytes_of addr len" by blast
  then have "b \<in> bytes_of a n" "b \<in> {unat addr..<unat addr + pages len}" using pages_law [of len] by auto
  with unregister_law [OF assms(1-4)] is_pmem_law [OF _ assms(6)] show ?thesis by blast
qed

lemma register_unregister:
  assumes "ok s" "len \<noteq> 0" "unat addr + unat len \<le> 2 ^ 63" "register addr len s = (0, s1)"
    and "unregister addr len s1 = Some (0, s2)" "pages len = unat len"
  shows "bytes s2 = bytes s"
  using register_law [OF assms(1-4)] unregister_law [OF _ assms(2,3,5)] assms(6) by auto

end

text \<open>Pages of 4096 bytes.\<close>

interpretation trk: byte_tracker "\<lambda>t. ranges_ok (Mmap_list t)" "\<lambda>t. tracked (Mmap_list t)"
  "\<lambda>addr len. util_range_register rf addr len path ty" "util_range_unregister 4096" is_pmem_detect
  "\<lambda>len. pages_up 12 (unat len)" for rf path ty
proof (unfold_locales, goal_cases)
  case (1 s len addr s')
  from register_eq [OF this] show ?case by (auto split: if_splits)
next
  case (2 s len addr s')
  have "pages_up 12 (unat len) \<le> unat len + 4095"
    using div_times_less_eq_dividend [of "unat len + 4095" 4096] by (simp add: pages_up_def)
  with 2 unregister_result [OF 2(1), of 12 len addr] show ?case by auto
next
  case (3 s addr len)
  then show ?case by (rule is_pmem_detect_iff)
next
  case (4 len)
  have "(unat len + 4095) mod 4096 < 4096" by simp
  with div_mult_mod_eq [of "unat len + 4095" 4096] show ?case by (simp add: pages_up_def)
qed

end
