(* ===== verification/Pmem_Is_Pmem.thy ===== *)
theory Pmem_Is_Pmem
  imports Pmem_Ranges
begin

text \<open>
  \<open>pmem_is_pmem\<close> of \<open>libpmem/pmem.c\<close> and its initialisation on first use, for any number of threads.
  Each access of a shared variable is a step; the steps of the threads interleave. Accesses are
  sequentially consistent. The initialisation happens once, no thread calls the function before it is
  chosen, all calls go to the same function, and from every state every thread can still get through.
\<close>

section \<open>The steps\<close>

text \<open>\<open>atoi\<close> of the C library keeps the low bits of the number.\<close>

definition atoi :: "string \<Rightarrow> int" where
  "atoi s = sint (word_of_int (atoll s) :: u32)"

text \<open>The places in \<open>pmem_is_pmem\<close> and \<open>pmem_is_pmem_init\<close> between two accesses of shared variables.\<close>

datatype ip_pc =
    Outside
  | Check_once
  | Check_init
  | Cas_0_1
  | Set_forced
  | Check_null
  | Cas_1_2
  | Add_once
  | Call_func

record ip_state =
  init :: u32
  once :: u32
  func :: "is_pmem_func option"
  pcs :: "nat \<Rightarrow> ip_pc"
  fatal :: bool
  calls :: "(nat \<times> is_pmem_func option) list"

definition goto :: "nat \<Rightarrow> ip_pc \<Rightarrow> ip_state \<Rightarrow> ip_state" where
  "goto t p s = s\<lparr>pcs := (pcs s)(t := p)\<rparr>"

definition set_forced :: "env \<Rightarrow> is_pmem_func option \<Rightarrow> is_pmem_func option" where
  "set_forced getenv f =
     (case getenv ''PMEM_IS_PMEM_FORCE'' of
        None \<Rightarrow> f
      | Some ptr \<Rightarrow> if atoi ptr = 0 then Some Is_pmem_never else if atoi ptr = 1 then Some Is_pmem_always else f)"

text \<open>One step of thread \<open>t\<close>.\<close>

inductive ip_step :: "env \<Rightarrow> ip_state \<Rightarrow> ip_state \<Rightarrow> bool" for getenv where
  enter: "pcs s t = Outside \<Longrightarrow> ip_step getenv s (goto t Check_once s)"
| once_zero: "pcs s t = Check_once \<Longrightarrow> once s = 0 \<Longrightarrow> ip_step getenv s (goto t Check_init s)"
| once_set: "pcs s t = Check_once \<Longrightarrow> once s \<noteq> 0 \<Longrightarrow> ip_step getenv s (goto t Call_func s)"
| init_done: "pcs s t = Check_init \<Longrightarrow> init s = 2 \<Longrightarrow> ip_step getenv s (goto t Add_once s)"
| init_open: "pcs s t = Check_init \<Longrightarrow> init s \<noteq> 2 \<Longrightarrow> ip_step getenv s (goto t Cas_0_1 s)"
| cas_won: "pcs s t = Cas_0_1 \<Longrightarrow> init s = 0 \<Longrightarrow> ip_step getenv s (goto t Set_forced (s\<lparr>init := 1\<rparr>))"
| cas_lost: "pcs s t = Cas_0_1 \<Longrightarrow> init s \<noteq> 0 \<Longrightarrow> ip_step getenv s (goto t Check_init s)"
| force: "pcs s t = Set_forced \<Longrightarrow> ip_step getenv s (goto t Check_null (s\<lparr>func := set_forced getenv (func s)\<rparr>))"
| default: "pcs s t = Check_null \<Longrightarrow>
    ip_step getenv s (goto t Cas_1_2 (s\<lparr>func := (if func s = None then Some Is_pmem_never else func s)\<rparr>))"
| finish: "pcs s t = Cas_1_2 \<Longrightarrow> init s = 1 \<Longrightarrow> ip_step getenv s (goto t Check_init (s\<lparr>init := 2\<rparr>))"
| broken: "pcs s t = Cas_1_2 \<Longrightarrow> init s \<noteq> 1 \<Longrightarrow> ip_step getenv s (goto t Outside (s\<lparr>fatal := True\<rparr>))"
| count: "pcs s t = Add_once \<Longrightarrow> ip_step getenv s (goto t Call_func (s\<lparr>once := once s + 1\<rparr>))"
| call: "pcs s t = Call_func \<Longrightarrow> ip_step getenv s (goto t Outside (s\<lparr>calls := calls s @ [(t, func s)]\<rparr>))"

inductive_cases ip_stepE: "ip_step getenv s s'"

definition ip_start :: "is_pmem_func option \<Rightarrow> ip_state" where
  "ip_start f = \<lparr>init = 0, once = 0, func = f, pcs = (\<lambda>_. Outside), fatal = False, calls = []\<rparr>"

abbreviation ip_reach :: "env \<Rightarrow> ip_state \<Rightarrow> ip_state \<Rightarrow> bool" where
  "ip_reach getenv \<equiv> (ip_step getenv)\<^sup>*\<^sup>*"

text \<open>What the function pointer does.\<close>

fun call_is_pmem :: "is_pmem_func \<Rightarrow> u64 \<Rightarrow> u64 \<Rightarrow> tracking \<Rightarrow> bool" where
  "call_is_pmem Is_pmem_detect addr len t = is_pmem_detect addr len t"
| "call_is_pmem Is_pmem_always addr len t \<longleftrightarrow> len \<noteq> 0"
| "call_is_pmem Is_pmem_never addr len t \<longleftrightarrow> False"

section \<open>The invariant\<close>

definition chosen :: "env \<Rightarrow> is_pmem_func option \<Rightarrow> is_pmem_func" where
  "chosen getenv f = (case set_forced getenv f of None \<Rightarrow> Is_pmem_never | Some g \<Rightarrow> g)"

definition inside :: "ip_state \<Rightarrow> nat \<Rightarrow> bool" where
  "inside s t \<longleftrightarrow> pcs s t \<in> {Set_forced, Check_null, Cas_1_2}"

definition past :: "ip_state \<Rightarrow> nat \<Rightarrow> bool" where
  "past s t \<longleftrightarrow> pcs s t \<in> {Add_once, Call_func}"

text \<open>
  Before the initialisation and while it runs nobody is past it; while it runs exactly one thread is
  inside, and what that thread has done so far is known; afterwards nobody is inside.
\<close>

definition so_far :: "env \<Rightarrow> is_pmem_func option \<Rightarrow> ip_pc \<Rightarrow> is_pmem_func option" where
  "so_far getenv f p = (case p of Set_forced \<Rightarrow> f | Check_null \<Rightarrow> set_forced getenv f | _ \<Rightarrow> Some (chosen getenv f))"

text \<open>\<open>w\<close> is the thread that initialises, if any.\<close>

definition ip_inv :: "env \<Rightarrow> is_pmem_func option \<Rightarrow> nat option \<Rightarrow> ip_state \<Rightarrow> bool" where
  "ip_inv getenv f w s \<longleftrightarrow> \<not> fatal s \<and> init s \<in> {0, 1, 2}
     \<and> (\<forall>c\<in>set (calls s). snd c = Some (chosen getenv f))
     \<and> (init s = 0 \<longrightarrow> func s = f)
     \<and> (init s \<noteq> 2 \<longrightarrow> once s = 0)
     \<and> (init s = 2 \<longrightarrow> func s = Some (chosen getenv f))
     \<and> (\<forall>t. past s t \<longrightarrow> init s = 2)
     \<and> (\<forall>t. inside s t \<longleftrightarrow> w = Some t)
     \<and> (init s = 1 \<longleftrightarrow> w \<noteq> None)
     \<and> (\<forall>t. w = Some t \<longrightarrow> func s = so_far getenv f (pcs s t))"

lemma goto_simps [simp]:
  "init (goto t p s) = init s" "once (goto t p s) = once s" "func (goto t p s) = func s"
  "fatal (goto t p s) = fatal s" "calls (goto t p s) = calls s" "pcs (goto t p s) = (pcs s)(t := p)"
  by (simp_all add: goto_def)

lemma inside_simps [simp]:
  "inside (goto t p s) u \<longleftrightarrow> (if u = t then p \<in> {Set_forced, Check_null, Cas_1_2} else inside s u)"
  "past (goto t p s) u \<longleftrightarrow> (if u = t then p \<in> {Add_once, Call_func} else past s u)"
  "inside (s\<lparr>init := i\<rparr>) = inside s" "inside (s\<lparr>once := j\<rparr>) = inside s" "inside (s\<lparr>func := g\<rparr>) = inside s"
  "inside (s\<lparr>fatal := b\<rparr>) = inside s" "inside (s\<lparr>calls := cs\<rparr>) = inside s"
  "past (s\<lparr>init := i\<rparr>) = past s" "past (s\<lparr>once := j\<rparr>) = past s" "past (s\<lparr>func := g\<rparr>) = past s"
  "past (s\<lparr>fatal := b\<rparr>) = past s" "past (s\<lparr>calls := cs\<rparr>) = past s"
  by (auto simp: inside_def past_def fun_eq_iff)

lemma inside_pc: "pcs s t = p \<Longrightarrow> inside s t = (p \<in> {Set_forced, Check_null, Cas_1_2})"
  and past_pc: "pcs s t = p \<Longrightarrow> past s t = (p \<in> {Add_once, Call_func})"
  by (simp_all add: inside_def past_def)

lemma ip_inv_start: "ip_inv getenv f None (ip_start f)"
  by (simp add: ip_inv_def ip_start_def inside_def past_def)

lemma ip_inv_goto:
  assumes "ip_inv getenv f w s" "pcs s t = p" "p \<notin> {Set_forced, Check_null, Cas_1_2}"
    "q \<notin> {Set_forced, Check_null, Cas_1_2}" "q \<in> {Add_once, Call_func} \<longrightarrow> init s = 2"
  shows "ip_inv getenv f w (goto t q s)"
  using assms inside_pc [OF assms(2)] by (auto simp: ip_inv_def)

lemma ip_inv_step:
  assumes "ip_step getenv s s'" "ip_inv getenv f w s"
  shows "\<exists>w'. ip_inv getenv f w' s'"
  using assms(1)
proof cases
  case (cas_won t)
  with assms(2) have "ip_inv getenv f (Some t) s'" by (auto simp: ip_inv_def so_far_def)
  then show ?thesis by blast
next
  case (force t)
  with assms(2) inside_pc [OF force(2)] have "ip_inv getenv f (Some t) s'" by (auto simp: ip_inv_def so_far_def)
  then show ?thesis by blast
next
  case (default t)
  with assms(2) inside_pc [OF default(2)] have "ip_inv getenv f (Some t) s'"
    by (auto simp: ip_inv_def so_far_def chosen_def split: option.splits)
  then show ?thesis by blast
next
  case (finish t)
  with assms(2) inside_pc [OF finish(2)] have "ip_inv getenv f None s'" by (auto simp: ip_inv_def so_far_def)
  then show ?thesis by blast
next
  case (broken t)
  with assms(2) inside_pc [OF broken(2)] show ?thesis by (auto simp: ip_inv_def)
next
  case (call t)
  with assms(2) inside_pc [OF call(2)] past_pc [OF call(2)] have "ip_inv getenv f w s'" by (auto simp: ip_inv_def)
  then show ?thesis by blast
next
  case (count t)
  with assms(2) inside_pc [OF count(2)] past_pc [OF count(2)] have "ip_inv getenv f w s'" by (auto simp: ip_inv_def)
  then show ?thesis by blast
next
  case (once_set t)
  with assms(2) have "init s = 2" by (auto simp: ip_inv_def)
  with ip_inv_goto [OF assms(2) once_set(2)] once_set(1) show ?thesis by auto
qed (use ip_inv_goto [OF assms(2)] in auto)

lemma ip_inv_steps:
  assumes "ip_reach getenv s s'" "ip_inv getenv f w s"
  shows "\<exists>w'. ip_inv getenv f w' s'"
  using assms by (induction arbitrary: w) (use ip_inv_step in blast)+

lemma ip_inv_reach: "ip_reach getenv (ip_start f) s \<Longrightarrow> \<exists>w. ip_inv getenv f w s"
  by (rule ip_inv_steps [OF _ ip_inv_start])

section \<open>Every thread can get through\<close>

text \<open>The initialisation can be finished, and a thread can then reach its call.\<close>

lemma then_step: "ip_step getenv s s1 \<Longrightarrow> \<exists>s'. ip_reach getenv s1 s' \<and> P s' \<Longrightarrow> \<exists>s'. ip_reach getenv s s' \<and> P s'"
  by (meson converse_rtranclp_into_rtranclp)

lemma no_step: "P s \<Longrightarrow> \<exists>s'. ip_reach getenv s s' \<and> P s'"
  by blast

lemma can_finish:
  assumes "init s = 1" "inside s t"
  shows "\<exists>s'. ip_reach getenv s s' \<and> init s' = 2"
proof -
  have cas: "\<exists>s'. ip_reach getenv s s' \<and> init s' = 2" if "pcs s t = Cas_1_2" "init s = 1" for s
    by (rule then_step [OF finish [OF that] no_step]) simp
  have null: "\<exists>s'. ip_reach getenv s s' \<and> init s' = 2" if "pcs s t = Check_null" "init s = 1" for s
    by (rule then_step [OF default [OF that(1)] cas]) (simp_all add: that)
  have forced: "\<exists>s'. ip_reach getenv s s' \<and> init s' = 2" if "pcs s t = Set_forced" "init s = 1" for s
    by (rule then_step [OF force [OF that(1)] null]) (simp_all add: that)
  show ?thesis using assms cas null forced by (auto simp: inside_def)
qed

lemma can_initialise:
  assumes "init s = 0" "once s = 0" "\<not> inside s t" "\<not> past s t"
  shows "\<exists>s'. ip_reach getenv s s' \<and> init s' = 2"
proof -
  have cas: "\<exists>s'. ip_reach getenv s s' \<and> init s' = 2" if "pcs s t = Cas_0_1" "init s = 0" for s
    by (rule then_step [OF cas_won [OF that] can_finish [of _ t]]) simp_all
  have check: "\<exists>s'. ip_reach getenv s s' \<and> init s' = 2" if "pcs s t = Check_init" "init s = 0" for s
    by (rule then_step [OF init_open [OF that(1)] cas]) (simp_all add: that)
  have zero: "\<exists>s'. ip_reach getenv s s' \<and> init s' = 2" if "pcs s t = Check_once" "init s = 0" "once s = 0" for s
    by (rule then_step [OF once_zero [OF that(1,3)] check]) (simp_all add: that)
  have outside: "\<exists>s'. ip_reach getenv s s' \<and> init s' = 2" if "pcs s t = Outside" "init s = 0" "once s = 0" for s
    by (rule then_step [OF enter [OF that(1)] zero]) (simp_all add: that)
  show ?thesis using assms cas check zero outside by (cases "pcs s t") (auto simp: inside_def past_def)
qed

lemma can_call:
  assumes "init s = 2" "\<not> inside s t"
  shows "\<exists>s'. ip_reach getenv s s' \<and> pcs s' t = Call_func"
proof -
  have add: "\<exists>s'. ip_reach getenv s s' \<and> pcs s' t = Call_func" if "pcs s t = Add_once" for s
    by (rule then_step [OF count [OF that] no_step]) simp
  have check: "\<exists>s'. ip_reach getenv s s' \<and> pcs s' t = Call_func" if "pcs s t = Check_init" "init s = 2" for s
    by (rule then_step [OF init_done [OF that] add]) simp
  have cas: "\<exists>s'. ip_reach getenv s s' \<and> pcs s' t = Call_func" if "pcs s t = Cas_0_1" "init s = 2" for s
    by (rule then_step [OF cas_lost [OF that(1)] check]) (simp_all add: that)
  have once: "\<exists>s'. ip_reach getenv s s' \<and> pcs s' t = Call_func" if "pcs s t = Check_once" "init s = 2" for s
  proof (cases "once s = 0")
    case True
    show ?thesis by (rule then_step [OF once_zero [OF that(1) True] check]) (simp_all add: that)
  next
    case False
    show ?thesis by (rule then_step [OF once_set [OF that(1) False] no_step]) simp
  qed
  have outside: "\<exists>s'. ip_reach getenv s s' \<and> pcs s' t = Call_func" if "pcs s t = Outside" "init s = 2" for s
    by (rule then_step [OF enter [OF that(1)] once]) (simp_all add: that)
  show ?thesis using assms add check cas once outside by (cases "pcs s t") (auto simp: inside_def)
qed

lemma can_get_through:
  assumes "ip_inv getenv f w s"
  shows "\<exists>s'. ip_reach getenv s s' \<and> pcs s' t = Call_func"
proof -
  have init: "init s = 0 \<or> init s = 1 \<or> init s = 2" using assms by (auto simp: ip_inv_def)
  have "\<exists>s1. ip_reach getenv s s1 \<and> init s1 = 2"
    using init
  proof (elim disjE)
    assume "init s = 0"
    with assms can_initialise [of s t] show ?thesis by (auto simp: ip_inv_def)
  next
    assume "init s = 1"
    with assms show ?thesis using can_finish [of s "the w"] by (auto simp: ip_inv_def)
  qed blast
  then obtain s1 where s1: "ip_reach getenv s s1" "init s1 = 2" by blast
  obtain w1 where "ip_inv getenv f w1 s1" using ip_inv_steps [OF s1(1) assms] by blast
  with s1(2) have "\<not> inside s1 t" by (auto simp: ip_inv_def)
  from can_call [OF s1(2) this] s1(1) show ?thesis by (meson rtranclp_trans)
qed

end
