(* ===== verification/Pmem_Map.thy ===== *)
theory Pmem_Map
  imports Pmem_Is_Pmem
begin

text \<open>
  Mapping files (\<open>common/mmap.c\<close>, \<open>common/mmap_posix.c\<close>, \<open>libpmem/pmem.c\<close>): the search for a free
  place in the address space, \<open>mmap\<close> with and without synchronous faults, and \<open>pmem_map_file\<close> with its
  checks and its cleaning up. The answers of the operating system are parameters; the calls that have
  an effect are logged, the mapping made to find a place and the deleted name of a temporary file
  included. The system does not map at the null address.
\<close>

text \<open>
  The calls with an effect. \<open>Unlink\<close> deletes the path given by the caller, \<open>Unlink_temp\<close> the name
  that \<open>mkstemp\<close> made; \<open>Map_anon\<close> is a private mapping without a file.
\<close>

datatype file_op =
    Open int
  | Unlink_temp
  | Ftruncate int u64
  | Fallocate int u64
  | Map_anon u64 u64
  | Map u64 u64
  | Munmap u64 u64
  | Close int
  | Unlink

section \<open>A place for the mapping\<close>

definition MAP_FAILED :: u64 where
  "MAP_FAILED = -1"

definition roundup :: "u64 \<Rightarrow> u64 \<Rightarrow> u64" where
  "roundup x y = (x + (y - 1)) div y * y"

definition MEGABYTE :: u64 where "MEGABYTE = push_bit 20 1"
definition GIGABYTE :: u64 where "GIGABYTE = push_bit 30 1"

definition util_map_hint_align :: "u64 \<Rightarrow> u64 \<Rightarrow> u64" where
  "util_map_hint_align len req_align =
     (if req_align \<noteq> 0 then req_align
      else if 2 * GIGABYTE \<le> len then GIGABYTE
      else 2 * MEGABYTE)"

text \<open>The lines of the maps file; \<open>None\<close> is a line that is not a range.\<close>

fun hint_scan :: "u64 \<Rightarrow> u64 \<Rightarrow> (u64 \<times> u64) option list \<Rightarrow> u64 \<Rightarrow> u64" where
  "hint_scan len align [] raddr = raddr"
| "hint_scan len align (None # ls) raddr = hint_scan len align ls raddr"
| "hint_scan len align (Some (lo, hi) # ls) raddr =
     (if raddr < lo \<and> len \<le> lo - raddr then raddr
      else let raddr = (if raddr < hi then roundup hi align else raddr)
           in if raddr = 0 then raddr else hint_scan len align ls raddr)"

definition util_map_hint_unused ::
  "u64 \<Rightarrow> (u64 \<times> u64) option list option \<Rightarrow> u64 \<Rightarrow> u64 \<Rightarrow> u64 \<Rightarrow> u64"
where
  "util_map_hint_unused Pagesize maps minaddr len align =
     (case maps of
        None \<Rightarrow> MAP_FAILED
      | Some ls \<Rightarrow>
          (let raddr = (if minaddr = 0 then minaddr + Pagesize else minaddr);
               raddr = hint_scan len align ls (roundup raddr align)
           in if raddr \<noteq> 0 \<and> - 1 - raddr < len then MAP_FAILED else raddr))"

text \<open>What the process knows about itself: the page size, the hint, the maps file.\<close>

record proc =
  Pagesize :: u64
  Mmap_hint :: u64
  Mmap_no_random :: bool
  maps_file :: "(u64 \<times> u64) option list option"

text \<open>\<open>PMEM_MMAP_HINT\<close>; \<open>strtoull\<close> yields a number unless nothing can be read or it is out of range.\<close>

definition util_mmap_init :: "(string \<Rightarrow> u64 option) \<Rightarrow> env \<Rightarrow> proc \<Rightarrow> proc" where
  "util_mmap_init strtoull getenv p =
     (case getenv ''PMEM_MMAP_HINT'' of
        None \<Rightarrow> p
      | Some e \<Rightarrow>
          (case strtoull e of
             None \<Rightarrow> p
           | Some val \<Rightarrow> if maps_file p = None then p else p\<lparr>Mmap_hint := val, Mmap_no_random := True\<rparr>))"

text \<open>\<open>mmap_anon\<close> is the place of a private mapping of a length, which is unmapped at once.\<close>

definition util_map_hint :: "proc \<Rightarrow> (u64 \<Rightarrow> u64 option) \<Rightarrow> u64 \<Rightarrow> u64 \<Rightarrow> u64 \<times> file_op list" where
  "util_map_hint p mmap_anon len req_align =
     (let align = util_map_hint_align len req_align
      in if Mmap_no_random p
         then (util_map_hint_unused (Pagesize p) (maps_file p) (Mmap_hint p) len align, [])
         else case mmap_anon (len + align) of
                None \<Rightarrow> (MAP_FAILED, [])
              | Some addr \<Rightarrow> (roundup addr align, [Map_anon addr (len + align), Munmap addr (len + align)]))"

section \<open>Mapping\<close>

datatype mmap_error = EINVAL | ENOTSUP | Other_error

text \<open>\<open>mmap addr len sync\<close> is the answer of the system call, with or without \<open>MAP_SYNC\<close>.\<close>

type_synonym mmap_call = "u64 \<Rightarrow> u64 \<Rightarrow> bool \<Rightarrow> mmap_error + u64"

definition mmap_plain :: "mmap_call \<Rightarrow> u64 \<Rightarrow> u64 \<Rightarrow> (u64 \<times> bool) option" where
  "mmap_plain mmap addr len = (case mmap addr len False of Inl e \<Rightarrow> None | Inr a \<Rightarrow> Some (a, False))"

text \<open>\<open>ask\<close> is whether the caller passes a place for \<open>map_sync\<close>, \<open>priv\<close> whether the mapping is private.\<close>

definition util_map_sync :: "mmap_call \<Rightarrow> bool \<Rightarrow> bool \<Rightarrow> u64 \<Rightarrow> u64 \<Rightarrow> (u64 \<times> bool) option" where
  "util_map_sync mmap ask priv addr len =
     (if \<not> ask \<or> priv then mmap_plain mmap addr len
      else case mmap addr len True of
             Inr a \<Rightarrow> Some (a, True)
           | Inl e \<Rightarrow> if e = EINVAL \<or> e = ENOTSUP then mmap_plain mmap addr len else None)"

definition util_map ::
  "proc \<Rightarrow> (u64 \<Rightarrow> u64 option) \<Rightarrow> mmap_call \<Rightarrow> bool \<Rightarrow> bool \<Rightarrow> u64 \<Rightarrow> u64 \<Rightarrow> (u64 \<times> bool) option \<times> file_op list"
where
  "util_map p mmap_anon mmap ask priv len req_align =
     (let (addr, log) = util_map_hint p mmap_anon len req_align
      in if addr = MAP_FAILED then (None, log)
         else case util_map_sync mmap ask priv addr len of
                None \<Rightarrow> (None, log)
              | Some (base, map_sync) \<Rightarrow> (Some (base, map_sync), log @ [Map base len]))"

text \<open>\<open>mprotect\<close> is called for whole pages.\<close>

definition range_pages :: "u64 \<Rightarrow> u64 \<Rightarrow> u64 \<Rightarrow> u64 \<times> u64" where
  "range_pages page addr len = (addr AND NOT (page - 1), len + (addr AND (page - 1)))"

section \<open>Files\<close>

datatype file_type = OTHER_ERROR | NOT_EXISTS | TYPE_NORMAL | TYPE_DEVDAX

text \<open>
  The answers of the operating system: \<open>access\<close> (and whether its error is that there is no such file),
  \<open>stat\<close>, the subsystem of a character device, the size of a Device DAX, opening and creating, and
  setting the length.
\<close>

record os_answers =
  access_ok :: bool
  access_ENOENT :: bool
  stat_ok :: bool
  st_ischr :: bool
  subsystem :: "string option"
  st_size :: int
  dax_size :: int
  open_fd :: int
  tmpfile_fd :: int
  tmpfile_EOPNOTSUPP :: bool
  mkstemp_fd :: int
  ftruncate_ret :: int
  fallocate_ret :: int

definition util_file_exists :: "os_answers \<Rightarrow> int" where
  "util_file_exists A = (if access_ok A then 1 else if \<not> access_ENOENT A then -1 else 0)"

definition basename_is :: "string \<Rightarrow> string \<Rightarrow> bool" where
  "basename_is name path \<longleftrightarrow> CHR ''/'' \<in> set path \<and> last (split_on (CHR ''/'') path) = name"

definition util_stat_get_type :: "os_answers \<Rightarrow> file_type" where
  "util_stat_get_type A =
     (if \<not> st_ischr A then TYPE_NORMAL
      else case subsystem A of
             None \<Rightarrow> OTHER_ERROR
           | Some rpath \<Rightarrow> if basename_is ''dax'' rpath then TYPE_DEVDAX else OTHER_ERROR)"

definition util_file_get_type :: "os_answers \<Rightarrow> file_type" where
  "util_file_get_type A =
     (if util_file_exists A < 0 then OTHER_ERROR
      else if util_file_exists A = 0 then NOT_EXISTS
      else if \<not> stat_ok A then OTHER_ERROR
      else util_stat_get_type A)"

definition util_file_get_size :: "os_answers \<Rightarrow> int" where
  "util_file_get_size A =
     (let t = util_file_get_type A
      in if t = OTHER_ERROR \<or> t = NOT_EXISTS then -1
         else if t = TYPE_DEVDAX then (if \<not> stat_ok A then -1 else dax_size A)
         else if \<not> stat_ok A then -1 else st_size A)"

text \<open>The descriptor with the log.\<close>

definition util_tmpfile_mkstemp :: "os_answers \<Rightarrow> int \<times> file_op list" where
  "util_tmpfile_mkstemp A =
     (let fd = mkstemp_fd A in if fd < 0 then (-1, []) else (fd, [Open fd, Unlink_temp]))"

definition util_tmpfile :: "os_answers \<Rightarrow> int \<times> file_op list" where
  "util_tmpfile A =
     (let fd = tmpfile_fd A
      in if 0 \<le> fd then (fd, [Open fd])
         else if \<not> tmpfile_EOPNOTSUPP A then (-1, [])
         else util_tmpfile_mkstemp A)"

section \<open>pmem\_map\_file\<close>

definition PMEM_FILE_CREATE :: u32 where "PMEM_FILE_CREATE = push_bit 0 1"
definition PMEM_FILE_EXCL :: u32 where "PMEM_FILE_EXCL = push_bit 1 1"
definition PMEM_FILE_SPARSE :: u32 where "PMEM_FILE_SPARSE = push_bit 2 1"
definition PMEM_FILE_TMPFILE :: u32 where "PMEM_FILE_TMPFILE = push_bit 3 1"

definition PMEM_FILE_ALL_FLAGS :: u32 where
  "PMEM_FILE_ALL_FLAGS = PMEM_FILE_CREATE OR PMEM_FILE_EXCL OR PMEM_FILE_SPARSE OR PMEM_FILE_TMPFILE"

definition PMEM_DAX_VALID_FLAGS :: u32 where
  "PMEM_DAX_VALID_FLAGS = PMEM_FILE_CREATE OR PMEM_FILE_SPARSE"

text \<open>The checks of the flags and the length: the flags and the length to go on with.\<close>

definition check_dax :: "os_answers \<Rightarrow> u32 \<Rightarrow> u64 \<Rightarrow> (u32 \<times> u64) option" where
  "check_dax A flags len =
     (if util_file_get_type A \<noteq> TYPE_DEVDAX then Some (flags, len)
      else if flags AND NOT PMEM_DAX_VALID_FLAGS \<noteq> 0 then None
      else let actual_len = util_file_get_size A
           in if actual_len < 0 then None
              else if len \<noteq> 0 \<and> len \<noteq> word_of_int actual_len then None
              else Some (0, 0))"

definition check_args :: "os_answers \<Rightarrow> u32 \<Rightarrow> u64 \<Rightarrow> (u32 \<times> u64) option" where
  "check_args A flags len =
     (if util_file_get_type A = OTHER_ERROR then None
      else if flags AND NOT PMEM_FILE_ALL_FLAGS \<noteq> 0 then None
      else case check_dax A flags len of
             None \<Rightarrow> None
           | Some (flags, len) \<Rightarrow>
               (let create = flags AND PMEM_FILE_CREATE \<noteq> 0 in
                if create \<and> sint len < 0 then None
                else if len \<noteq> 0 \<and> \<not> create then None
                else if len = 0 \<and> create then None
                else if flags AND PMEM_FILE_TMPFILE \<noteq> 0 \<and> \<not> create then None
                else Some (flags, len)))"

text \<open>Setting the length of a new file, or asking for it: the log, and the length unless it fails.\<close>

definition set_length :: "os_answers \<Rightarrow> u32 \<Rightarrow> int \<Rightarrow> u64 \<Rightarrow> file_op list \<times> u64 option" where
  "set_length A flags fd len =
     (if flags AND PMEM_FILE_CREATE \<noteq> 0 then
        (if ftruncate_ret A \<noteq> 0 then ([Ftruncate fd len], None)
         else if flags AND PMEM_FILE_SPARSE = 0 then
           ([Ftruncate fd len, Fallocate fd len], if fallocate_ret A \<noteq> 0 then None else Some len)
         else ([Ftruncate fd len], Some len))
      else if util_file_get_size A < 0 then ([], None)
      else ([], Some (word_of_int (util_file_get_size A))))"

text \<open>
  The result is the address, the length and whether it is persistent memory, with the log. The file
  is mapped shared and without an alignment, and asks for a synchronous mapping.
\<close>

definition pmem_map_fileU ::
  "(string \<Rightarrow> int) \<Rightarrow> os_answers \<Rightarrow> proc \<Rightarrow> (u64 \<Rightarrow> u64 option) \<Rightarrow> mmap_call \<Rightarrow> is_pmem_func \<Rightarrow> string \<Rightarrow> u64 \<Rightarrow> u32 \<Rightarrow> tracking
   \<Rightarrow> (u64 \<times> u64 \<times> bool) option \<times> file_op list \<times> tracking"
where
  "pmem_map_fileU ddax A p mmap_anon mmap isf path len flags t =
     (case check_args A flags len of
        None \<Rightarrow> (None, [], t)
      | Some (flags, len) \<Rightarrow>
          (let tmp = flags AND PMEM_FILE_TMPFILE \<noteq> 0;
               (fd, opened) = (if tmp then util_tmpfile A else (open_fd A, [Open (open_fd A)]));
               delete_on_err = (\<not> tmp \<and> flags AND PMEM_FILE_CREATE \<noteq> 0 \<and> flags AND PMEM_FILE_EXCL \<noteq> 0);
               clean = Close fd # (if delete_on_err then [Unlink] else [])
           in if fd < 0 then (None, [], t)
              else case set_length A flags fd len of
                     (ls, None) \<Rightarrow> (None, opened @ ls @ clean, t)
                   | (ls, Some len) \<Rightarrow>
                       (let (mapped, ms) = util_map p mmap_anon mmap True False len 0;
                            (addr, undone, t) =
                              pmem_map_register ddax mapped len path (util_file_get_type A = TYPE_DEVDAX) t
                        in case addr of
                             None \<Rightarrow>
                               (None,
                                opened @ ls @ ms @ (if undone then [Munmap (fst (the mapped)) len] else []) @ clean, t)
                           | Some a \<Rightarrow> (Some (a, len, call_is_pmem isf a len t), opened @ ls @ ms @ [Close fd], t))))"

text \<open>Unmapping ignores whether the range was tracked. The result is that of \<open>munmap\<close>.\<close>

definition pmem_unmap :: "u64 \<Rightarrow> (u64 \<Rightarrow> u64 \<Rightarrow> int) \<Rightarrow> u64 \<Rightarrow> u64 \<Rightarrow> tracking \<Rightarrow> (int \<times> tracking) option" where
  "pmem_unmap page munmap addr len t =
     map_option (\<lambda>(ret, t). (munmap addr len, t)) (util_range_unregister page addr len t)"

section \<open>The place is free\<close>

lemma roundup_cases:
  assumes "a \<noteq> 0"
  shows "unat a dvd unat (roundup x a)"
    and "roundup x a \<noteq> 0 \<Longrightarrow> unat x \<le> unat (roundup x a)"
    and "unat x + unat a \<le> 2 ^ 64 \<Longrightarrow> unat x \<le> unat (roundup x a)"
proof -
  let ?x = "unat x" and ?a = "unat a"
  let ?s = "unat (x + (a - 1))"
  have a: "0 < ?a" "unat (a - 1) = ?a - 1"
    using assms by (simp_all add: unat_gt_0 unat_sub word_le_nat_alt Suc_le_eq)
  have "?s div ?a * ?a \<le> ?s" by simp
  moreover have "?s < 2 ^ 64" using unsigned_less [of "x + (a - 1)", where 'a = nat] by simp
  ultimately have "?s div ?a * ?a < 2 ^ 64" by linarith
  then have r: "unat (roundup x a) = ?s div ?a * ?a"
  proof -
    have "unat (roundup x a) = unat ((x + (a - 1)) div a) * ?a mod 2 ^ 64"
      unfolding roundup_def unat_word_ariths(2) by simp
    then show ?thesis using \<open>?s div ?a * ?a < 2 ^ 64\<close> by (simp only: unat_div_distrib mod_less)
  qed
  then show "?a dvd unat (roundup x a)" by simp
  have up: "?x \<le> ?s div ?a * ?a" if "?x + ?a \<le> 2 ^ 64"
  proof -
    have "?s = ?x + (?a - 1)" using that a by (subst unat_plus_no_overflow) simp_all
    moreover have "?s mod ?a < ?a" using a(1) by simp
    ultimately show ?thesis using div_mult_mod_eq [of ?s ?a] by linarith
  qed
  then show "?x + ?a \<le> 2 ^ 64 \<Longrightarrow> ?x \<le> unat (roundup x a)" unfolding r .
  show "?x \<le> unat (roundup x a)" if "roundup x a \<noteq> 0"
  proof (cases "?x + ?a \<le> 2 ^ 64")
    case True
    with up r show ?thesis by simp
  next
    case False
    have "?x < 2 ^ 64" "?a < 2 ^ 64"
      using unsigned_less [of x, where 'a = nat] unsigned_less [of a, where 'a = nat] by simp_all
    then have "?s = ?x + (?a - 1) - 2 ^ 64" using False a by (simp add: unat_word_ariths mod_if)
    then have "?s < ?a" using \<open>?x < 2 ^ 64\<close> a(1) by linarith
    then have "unat (roundup x a) = 0" by (simp add: r)
    with that show ?thesis by (simp add: unsigned_eq_0_iff)
  qed
qed

definition ranges_of :: "(u64 \<times> u64) option list \<Rightarrow> (u64 \<times> u64) list" where
  "ranges_of ls = List.map_filter (\<lambda>l. l) ls"

lemma ranges_of_simps [simp]:
  "ranges_of [] = []" "ranges_of (None # ls) = ranges_of ls" "ranges_of (Some r # ls) = r # ranges_of ls"
  by (simp_all add: ranges_of_def List.map_filter_simps)

text \<open>The lines of the maps file are in the order of the addresses.\<close>

definition in_order :: "(u64 \<times> u64) list \<Rightarrow> bool" where
  "in_order rs \<longleftrightarrow> sorted_wrt (\<lambda>r q. snd r \<le> fst q) rs \<and> (\<forall>r\<in>set rs. fst r \<le> snd r)"

definition apart :: "u64 \<Rightarrow> u64 \<Rightarrow> u64 \<times> u64 \<Rightarrow> bool" where
  "apart a len r \<longleftrightarrow> unat (snd r) \<le> unat a \<or> unat a + unat len \<le> unat (fst r)"

lemma hint_scan_free:
  "a \<noteq> 0 \<Longrightarrow> in_order (ranges_of ls) \<Longrightarrow> unat a dvd unat raddr \<Longrightarrow> hint_scan len a ls raddr = r \<Longrightarrow>
    r = 0 \<or> unat raddr \<le> unat r \<and> unat a dvd unat r \<and> (\<forall>q\<in>set (ranges_of ls). apart r len q)"
proof (induction len a ls raddr rule: hint_scan.induct)
  case (3 len a lo hi ls raddr)
  have rest: "in_order (ranges_of ls)" "lo \<le> hi" "\<forall>q\<in>set (ranges_of ls). hi \<le> fst q"
    using "3.prems"(2) by (auto simp: in_order_def)
  show ?case
  proof (cases "raddr < lo \<and> len \<le> lo - raddr")
    case True
    then have "r = raddr" using "3.prems"(4) by simp
    moreover have "unat raddr + unat len \<le> unat lo"
      using True unat_sub [of raddr lo] by (auto simp: word_less_nat_alt word_le_nat_alt)
    ultimately show ?thesis using "3.prems"(3) rest(2,3)
      by (force simp: apart_def word_le_nat_alt)
  next
    case False
    define raddr' where "raddr' = (if raddr < hi then roundup hi a else raddr)"
    have eq: "r = (if raddr' = 0 then raddr' else hint_scan len a ls raddr')"
      using "3.prems"(4) False unfolding raddr'_def by (simp add: Let_def)
    show ?thesis
    proof (cases "raddr' = 0")
      case True
      with eq show ?thesis by simp
    next
      case nz: False
      have up: "unat raddr \<le> unat raddr'" "unat hi \<le> unat raddr'" "unat a dvd unat raddr'"
        using "3.prems"(3) roundup_cases [OF "3.prems"(1), of hi] nz
        by (auto simp: raddr'_def word_less_nat_alt not_less split: if_splits)
      from "3.IH" [OF False raddr'_def nz "3.prems"(1) rest(1) up(3)] eq nz
      show ?thesis using up by (auto simp: apart_def)
    qed
  qed
qed auto

lemma hint_unused_free:
  assumes "align \<noteq> 0" "in_order (ranges_of ls)" "unat (if minaddr = 0 then minaddr + page else minaddr) + unat align \<le> 2 ^ 64"
    and "util_map_hint_unused page (Some ls) minaddr len align = r"
  shows "r = MAP_FAILED \<or> r = 0 \<or>
    unat align dvd unat r \<and> unat minaddr \<le> unat r \<and> unat r + unat len < 2 ^ 64 \<and> (\<forall>q\<in>set (ranges_of ls). apart r len q)"
proof -
  let ?m = "if minaddr = 0 then minaddr + page else minaddr"
  define h where "h = hint_scan len align ls (roundup ?m align)"
  have r: "r = (if h \<noteq> 0 \<and> - 1 - h < len then MAP_FAILED else h)"
    using assms(4) unfolding util_map_hint_unused_def h_def Let_def option.case by (rule sym)
  have "unat minaddr \<le> unat ?m" by simp
  also have "\<dots> \<le> unat (roundup ?m align)" by (rule roundup_cases(3) [OF assms(1,3)])
  finally have m: "unat minaddr \<le> unat (roundup ?m align)" .
  have scan: "h = 0 \<or> unat (roundup ?m align) \<le> unat h \<and> unat align dvd unat h \<and> (\<forall>q\<in>set (ranges_of ls). apart h len q)"
    by (rule hint_scan_free [OF assms(1,2) roundup_cases(1) [OF assms(1)] h_def [symmetric]])
  show ?thesis
  proof (cases "h = 0 \<or> - 1 - h < len")
    case False
    have "unat (- 1 :: u64) = 2 ^ 64 - 1" by (simp add: unsigned_minus_1_eq_mask mask_eq_exp_minus_1)
    then have "unat (- 1 - h) = 2 ^ 64 - 1 - unat h" by (simp only: unat_sub [OF word_order.extremum])
    with False have "unat h + unat len < 2 ^ 64" using unsigned_less [of h, where 'a = nat]
      by (auto simp: word_less_nat_alt not_less)
    with False scan m r show ?thesis by auto
  qed (use r in auto)
qed

section \<open>pmem\_map\_file cleans up\<close>

fun fd_op :: "file_op \<Rightarrow> bool" where
  "fd_op (Open fd) = True"
| "fd_op (Close fd) = True"
| "fd_op _ = False"

definition mapped_in :: "file_op list \<Rightarrow> (u64 \<times> u64) list" where
  "mapped_in log = List.map_filter (\<lambda>x. case x of Map a n \<Rightarrow> Some (a, n) | Map_anon a n \<Rightarrow> Some (a, n) | _ \<Rightarrow> None) log"

definition unmapped_in :: "file_op list \<Rightarrow> (u64 \<times> u64) list" where
  "unmapped_in log = List.map_filter (\<lambda>x. case x of Munmap a n \<Rightarrow> Some (a, n) | _ \<Rightarrow> None) log"

lemma mapped_simps [simp]:
  "mapped_in [] = []" "mapped_in (xs @ ys) = mapped_in xs @ mapped_in ys"
  "mapped_in (x # xs) = (case x of Map a n \<Rightarrow> [(a, n)] | Map_anon a n \<Rightarrow> [(a, n)] | _ \<Rightarrow> []) @ mapped_in xs"
  "unmapped_in [] = []" "unmapped_in (xs @ ys) = unmapped_in xs @ unmapped_in ys"
  "unmapped_in (x # xs) = (case x of Munmap a n \<Rightarrow> [(a, n)] | _ \<Rightarrow> []) @ unmapped_in xs"
  by (auto simp: mapped_in_def unmapped_in_def List.map_filter_def split: file_op.splits)

lemma register_fails:
  "util_range_register rf addr len path ty t = (ret, t') \<Longrightarrow> ret \<noteq> 0 \<Longrightarrow> Mmap_list t' = Mmap_list t"
  by (auto simp: util_range_register_def Let_def split: option.splits prod.splits if_splits)
    (metis Malloc_list snd_conv)

lemma map_register_result:
  assumes "pmem_map_register rf mapped len path dax t = (addr, undone, t')"
  shows "addr = None \<Longrightarrow> Mmap_list t' = Mmap_list t \<and> (undone \<longleftrightarrow> mapped \<noteq> None)"
    and "addr = Some a \<Longrightarrow> (\<exists>sync. mapped = Some (a, sync)
      \<and> (if dax \<or> sync then \<exists>ty. util_range_register rf a len path ty t = (0, t') else t' = t))"
  using assms register_fails
  by (auto simp: pmem_map_register_def Let_def split: option.splits prod.splits if_splits; blast)+

text \<open>The parts of the log.\<close>

lemma set_length_log:
  "set_length A flags fd len = (ls, r) \<Longrightarrow>
   filter fd_op ls = [] \<and> mapped_in ls = [] \<and> unmapped_in ls = [] \<and> Unlink \<notin> set ls \<and> Unlink_temp \<notin> set ls"
  by (auto simp: set_length_def split: if_splits)

lemma util_map_log:
  assumes "util_map p mmap_anon mmap ask priv len align = (mapped, ms)"
  shows "filter fd_op ms = [] \<and> Unlink \<notin> set ms \<and> Unlink_temp \<notin> set ms
    \<and> mapped_in ms = unmapped_in ms @ (case mapped of None \<Rightarrow> [] | Some (a, _) \<Rightarrow> [(a, len)])"
  using assms by (auto simp: util_map_def util_map_hint_def Let_def split: prod.splits if_splits option.splits)

lemma util_tmpfile_log:
  assumes "util_tmpfile A = (fd, opened)" "0 \<le> fd"
  shows "opened = [Open fd] \<or> opened = [Open fd, Unlink_temp]"
  using assms by (auto simp: util_tmpfile_def util_tmpfile_mkstemp_def Let_def split: if_splits)

lemma check_args_flags:
  assumes "check_args A flags len = Some (flags', len')"
  shows "flags' = flags \<or> flags' = 0"
  using assms by (auto simp: check_args_def check_dax_def Let_def split: if_splits)

text \<open>
  A descriptor that was opened is closed; the path is deleted only on failure of an exclusive creation,
  and another name only for a temporary file; on failure nothing stays mapped or tracked, and on
  success exactly the range that is returned.
\<close>

definition cleaned_up :: "u32 \<Rightarrow> file_op list \<Rightarrow> bool" where
  "cleaned_up flags log \<longleftrightarrow>
     (filter fd_op log = [] \<or> (\<exists>fd. 0 \<le> fd \<and> filter fd_op log = [Open fd, Close fd]))
     \<and> (Unlink \<in> set log \<longrightarrow>
          flags AND PMEM_FILE_CREATE \<noteq> 0 \<and> flags AND PMEM_FILE_EXCL \<noteq> 0 \<and> flags AND PMEM_FILE_TMPFILE = 0)
     \<and> (Unlink_temp \<in> set log \<longrightarrow> flags AND PMEM_FILE_TMPFILE \<noteq> 0)"

lemma map_file_cleans_up:
  assumes "pmem_map_fileU ddax A p mmap_anon mmap isf path len flags t = (res, log, t')"
  shows "cleaned_up flags log \<and> (res = None \<longrightarrow> Mmap_list t' = Mmap_list t \<and> mapped_in log = unmapped_in log)
    \<and> (\<forall>a n q. res = Some (a, n, q) \<longrightarrow> mapped_in log = unmapped_in log @ [(a, n)] \<and> Unlink \<notin> set log)"
proof (cases "check_args A flags len")
  case None
  with assms show ?thesis by (auto simp: pmem_map_fileU_def cleaned_up_def)
next
  case (Some c)
  obtain flags' len' where c: "c = (flags', len')" by fastforce
  define tmp where "tmp = (flags' AND PMEM_FILE_TMPFILE \<noteq> 0)"
  obtain fd opened where op: "(if tmp then util_tmpfile A else (open_fd A, [Open (open_fd A)])) = (fd, opened)" by fastforce
  define del where "del = (\<not> tmp \<and> flags' AND PMEM_FILE_CREATE \<noteq> 0 \<and> flags' AND PMEM_FILE_EXCL \<noteq> 0)"
  define clean where "clean = Close fd # (if del then [Unlink] else [])"
  note unf = pmem_map_fileU_def Some c Let_def option.case prod.case tmp_def [symmetric] op del_def [symmetric]
    clean_def [symmetric]
  obtain ls r where sl: "set_length A flags' fd len' = (ls, r)" by fastforce
  have f: "tmp \<Longrightarrow> flags AND PMEM_FILE_TMPFILE \<noteq> 0"
    "del \<Longrightarrow> flags AND PMEM_FILE_CREATE \<noteq> 0 \<and> flags AND PMEM_FILE_EXCL \<noteq> 0 \<and> flags AND PMEM_FILE_TMPFILE = 0"
    using check_args_flags [of A flags len flags' len'] Some c by (auto simp: tmp_def del_def)
  have cl: "filter fd_op clean = [Close fd]" "mapped_in clean = []" "unmapped_in clean = []"
    "Unlink \<in> set clean \<longleftrightarrow> del" "Unlink_temp \<notin> set clean"
    by (simp_all add: clean_def)
  show ?thesis
  proof (cases "fd < 0")
    case True
    then have "res = None" "log = []" "t' = t" using assms by (simp_all add: unf)
    then show ?thesis by (simp add: cleaned_up_def)
  next
    case fd: False
    have o: "filter fd_op opened = [Open fd]" "mapped_in opened = []" "unmapped_in opened = []"
      "Unlink \<notin> set opened" "Unlink_temp \<in> set opened \<Longrightarrow> tmp"
      using op fd util_tmpfile_log [of A fd opened] by (auto split: if_splits)
    note parts = set_length_log [OF sl] o cl
    show ?thesis
    proof (cases r)
      case None
      with assms sl fd have "res = None" "log = opened @ ls @ clean" "t' = t" by (simp_all add: unf)
      with parts fd f show ?thesis by (auto simp: cleaned_up_def)
    next
      case len: (Some n)
      obtain mapped ms where um: "util_map p mmap_anon mmap True False n 0 = (mapped, ms)" by fastforce
      obtain addr undone t1 where mr:
        "pmem_map_register ddax mapped n path (util_file_get_type A = TYPE_DEVDAX) t = (addr, undone, t1)"
        by (metis prod_cases3)
      note ms = util_map_log [OF um]
      show ?thesis
      proof (cases addr)
        case None
        with assms sl len fd um mr have "res = None"
          "log = opened @ ls @ ms @ (if undone then [Munmap (fst (the mapped)) n] else []) @ clean" "t' = t1"
          by (simp_all add: unf)
        moreover from map_register_result(1) [OF mr None] have "Mmap_list t1 = Mmap_list t" "undone \<longleftrightarrow> mapped \<noteq> None" by simp_all
        ultimately show ?thesis using parts ms fd f by (cases mapped) (auto simp: cleaned_up_def)
      next
        case (Some a)
        with assms sl len fd um mr
        have "res = Some (a, n, call_is_pmem isf a n t1)" "log = opened @ ls @ ms @ [Close fd]" by (auto simp: unf)
        moreover obtain sync where "mapped = Some (a, sync)" using map_register_result(2) [OF mr Some] by blast
        ultimately show ?thesis using parts ms fd f by (auto simp: cleaned_up_def)
      qed
    qed
  qed
qed

lemma map_file_registers:
  assumes "pmem_map_fileU ddax A p mmap_anon mmap isf path len flags t = (Some (a, n, q), log, t1)"
    "fst (util_map p mmap_anon mmap True False n 0) = Some (a, True)"
  shows "\<exists>ty. util_range_register ddax a n path ty t = (0, t1)"
proof -
  obtain undone where "pmem_map_register ddax (fst (util_map p mmap_anon mmap True False n 0)) n path
      (util_file_get_type A = TYPE_DEVDAX) t = (Some a, undone, t1)"
    using assms(1) by (auto simp: pmem_map_fileU_def Let_def split: option.splits prod.splits if_splits)
  from map_register_result(2) [OF this refl] assms(2) show ?thesis by (auto split: if_splits)
qed

end
