(* ===== verification/Pmem_Deep.thy ===== *)
theory Pmem_Deep
  imports Pmem_Ranges
begin

text \<open>
  Deep flushing (\<open>common/os_deep_linux.c\<close>, \<open>pmem_deep_persist\<close> of \<open>libpmem/pmem.c\<close>): a range is cut
  into its tracked and untracked parts; the untracked ones and those of synchronous mappings go to
  \<open>msync\<close>, and for those of Device DAX the flush file of the region is written.
\<close>

section \<open>os\_deep\_linux.c\<close>

text \<open>The processor and the regions whose flush file was written.\<close>

record deep_state =
  dpm :: pm
  regions :: "int option list"

text \<open>The world: the page size, what \<open>msync\<close> returns, and for which regions the file can be written.\<close>

record deep_world =
  page_size :: u64
  msync_ret :: "u64 \<Rightarrow> u64 \<Rightarrow> int"
  can_write :: "int option \<Rightarrow> bool"

definition deep_msync :: "deep_world \<Rightarrow> u64 \<Rightarrow> u64 \<Rightarrow> deep_state \<Rightarrow> int \<times> deep_state" where
  "deep_msync W addr len d =
     (let (ret, s) = pmem_msync (page_size W) (msync_ret W addr len) addr len (dpm d) in (ret, d\<lparr>dpm := s\<rparr>))"

definition os_deep_flush_write :: "deep_world \<Rightarrow> int option \<Rightarrow> deep_state \<Rightarrow> int \<times> deep_state" where
  "os_deep_flush_write W r d = (if can_write W r then (0, d\<lparr>regions := regions d @ [r]\<rparr>) else (-1, d))"

definition os_deep_type :: "pmem_funcs \<Rightarrow> deep_world \<Rightarrow> map_tracker \<Rightarrow> u64 \<Rightarrow> u64 \<Rightarrow> deep_state \<Rightarrow> int \<times> deep_state" where
  "os_deep_type F W mt addr len d =
     (case map_type mt of
        PMEM_DEV_DAX \<Rightarrow>
          (let d = d\<lparr>dpm := pmem_drain F (dpm d)\<rparr>;
               (ret, d) = os_deep_flush_write W (region_id mt) d
           in if ret < 0 then (-1, d) else (0, d))
      | PMEM_MAP_SYNC \<Rightarrow> deep_msync W addr len d)"

text \<open>
  The part of the loop before the tracker: the result to return with, or the length to go on with
  from the start of the tracker.
\<close>

definition deep_before ::
  "deep_world \<Rightarrow> map_tracker \<Rightarrow> u64 \<Rightarrow> u64 \<Rightarrow> deep_state \<Rightarrow> (int + u64 \<times> u64) \<times> deep_state"
where
  "deep_before W mt addr len d =
     (if addr < base_addr mt then
        (let curr_len = base_addr mt - addr;
             curr_len = (if len < curr_len then len else curr_len);
             (ret, d) = deep_msync W addr curr_len d
         in if ret \<noteq> 0 then (Inl (-1), d)
            else if len - curr_len = 0 then (Inl 0, d)
            else (Inr (base_addr mt, len - curr_len), d))
      else (Inr (addr, len), d))"

partial_function (option) os_range_deep_common ::
  "pmem_funcs \<Rightarrow> deep_world \<Rightarrow> map_tracker list \<Rightarrow> u64 \<Rightarrow> u64 \<Rightarrow> deep_state \<Rightarrow> (int \<times> deep_state) option"
where
  "os_range_deep_common F W mts addr len d =
     (if len = 0 then Some (0, d)
      else case util_range_find_unlocked addr len mts of
             None \<Rightarrow> Some (deep_msync W addr len d)
           | Some mt \<Rightarrow>
               (case deep_before W mt addr len d of
                  (Inl ret, d) \<Rightarrow> Some (ret, d)
                | (Inr (addr, len), d) \<Rightarrow>
                    (let mt_in_len = end_addr mt - addr;
                         (ret, d) = os_deep_type F W mt addr (min len mt_in_len) d
                     in if ret \<noteq> 0 then Some (-1, d)
                        else if addr + len \<le> end_addr mt then Some (0, d)
                        else os_range_deep_common F W mts (end_addr mt) (len - mt_in_len) d)))"

definition pmem_deep_drain :: "pmem_funcs \<Rightarrow> deep_world \<Rightarrow> tracking \<Rightarrow> u64 \<Rightarrow> u64 \<Rightarrow> deep_state \<Rightarrow> (int \<times> deep_state) option" where
  "pmem_deep_drain F W t addr len d = os_range_deep_common F W (Mmap_list t) addr len d"

definition pmem_deep_persist :: "pmem_funcs \<Rightarrow> deep_world \<Rightarrow> tracking \<Rightarrow> u64 \<Rightarrow> u64 \<Rightarrow> deep_state \<Rightarrow> (int \<times> deep_state) option" where
  "pmem_deep_persist F W t addr len d =
     do {
       s \<leftarrow> pmem_deep_flush F addr len (dpm d);
       pmem_deep_drain F W t addr len (d\<lparr>dpm := s\<rparr>)
     }"

section \<open>Every byte of the range is taken care of\<close>

text \<open>A byte is deep when it was given to \<open>msync\<close> or is in a Device DAX whose region was flushed.\<close>

definition deep_at :: "map_tracker list \<Rightarrow> deep_state \<Rightarrow> nat \<Rightarrow> bool" where
  "deep_at mts d b \<longleftrightarrow>
     (\<exists>u n. HMsync u n \<in> set (hw (dpm d)) \<and> b \<in> bytes_of u n)
     \<or> (\<exists>mt\<in>set mts. map_type mt = PMEM_DEV_DAX \<and> region_id mt \<in> set (regions d) \<and> b \<in> extent mt)"

definition later :: "deep_state \<Rightarrow> deep_state \<Rightarrow> bool" where
  "later d d' \<longleftrightarrow> set (hw (dpm d)) \<subseteq> set (hw (dpm d')) \<and> set (regions d) \<subseteq> set (regions d')"

lemma later_refl [simp]: "later d d"
  by (simp add: later_def)

lemma later_trans: "later d d' \<Longrightarrow> later d' d'' \<Longrightarrow> later d d''"
  by (auto simp: later_def)

lemma deep_at_later: "deep_at mts d b \<Longrightarrow> later d d' \<Longrightarrow> deep_at mts d' b"
  by (auto simp: deep_at_def later_def)

lemma deep_msync_covers:
  assumes "page_size W = 2 ^ k" "k < 64" "unat addr + unat len < 2 ^ 64" "deep_msync W addr len d = (ret, d')"
  shows "later d d'" "ret = 0 \<Longrightarrow> b \<in> bytes_of addr len \<Longrightarrow> deep_at mts d' b"
proof -
  let ?u = "addr AND NOT (2 ^ k - 1)" and ?n = "len + (addr AND (2 ^ k - 1))"
  have m: "(2 ^ k - 1 :: u64) = mask k" by (simp add: mask_eq_exp_minus_1)
  have u: "unat ?u = unat addr - unat addr mod 2 ^ k" unfolding m by (rule unat_and_not_mask)
  have "unat (addr AND (2 ^ k - 1)) = unat addr mod 2 ^ k"
    unfolding m by (simp add: take_bit_eq_mask [symmetric] take_bit_eq_mod unat_mod_distrib unat_exp [OF assms(2)])
  moreover have "unat len + unat addr mod 2 ^ k < 2 ^ 64"
    using assms(3) mod_less_eq_dividend [of "unat addr" "2 ^ k"] by linarith
  ultimately have n: "unat ?n = unat len + unat addr mod 2 ^ k"
    by (subst unat_plus_no_overflow) simp_all
  have eq: "(ret, d') = (msync_ret W addr len, d\<lparr>dpm := emit HPmcFence (emit (HPmcFlush ?u ?n)
      (if msync_ret W addr len < 0 then dpm d else emit (HMsync ?u ?n) (dpm d)))\<rparr>)"
    using assms(4) by (auto simp: deep_msync_def pmem_msync_def assms(1) Let_def)
  then show "later d d'" by (auto simp: later_def)
  assume "ret = 0" "b \<in> bytes_of addr len"
  then have "b \<in> bytes_of ?u ?n" using u n mod_less_eq_dividend [of "unat addr" "2 ^ k"] by auto
  moreover have "HMsync ?u ?n \<in> set (hw (dpm d'))" using eq \<open>ret = 0\<close> by simp
  ultimately show "deep_at mts d' b" unfolding deep_at_def by blast
qed

lemma os_deep_type_covers:
  assumes "page_size W = 2 ^ k" "k < 64" "unat addr + unat len < 2 ^ 64" "os_deep_type F W mt addr len d = (ret, d')"
    and "mt \<in> set mts" "bytes_of addr len \<subseteq> extent mt"
  shows "later d d'" "ret = 0 \<Longrightarrow> b \<in> bytes_of addr len \<Longrightarrow> deep_at mts d' b"
proof -
  have "later d d' \<and> (ret = 0 \<longrightarrow> b \<in> bytes_of addr len \<longrightarrow> deep_at mts d' b)"
  proof (cases "map_type mt")
    case PMEM_DEV_DAX
    obtain x where x: "hw (pmem_drain F (dpm d)) = hw (dpm d) @ [x]"
      by (cases "predrain_fence F") (auto simp: pmem_drain_def)
    have d': "dpm d' = pmem_drain F (dpm d)" "set (regions d) \<subseteq> set (regions d')" "ret = 0 \<Longrightarrow> region_id mt \<in> set (regions d')"
      using assms(4) PMEM_DEV_DAX by (auto simp: os_deep_type_def os_deep_flush_write_def Let_def split: if_splits)
    then have "later d d'" using x by (auto simp: later_def)
    moreover have "deep_at mts d' b" if "ret = 0" "b \<in> bytes_of addr len"
      using d'(3) [OF that(1)] that(2) assms(5,6) PMEM_DEV_DAX unfolding deep_at_def by blast
    ultimately show ?thesis by blast
  next
    case PMEM_MAP_SYNC
    then have "deep_msync W addr len d = (ret, d')" using assms(4) by (simp add: os_deep_type_def)
    from deep_msync_covers [OF assms(1-3) this] show ?thesis by blast
  qed
  then show "later d d'" "ret = 0 \<Longrightarrow> b \<in> bytes_of addr len \<Longrightarrow> deep_at mts d' b" by blast+
qed

lemma deep_before_result:
  assumes "page_size W = 2 ^ k" "k < 64" "unat addr + unat len < 2 ^ 64" "len \<noteq> 0" "deep_before W mt addr len d = (r, d')"
  shows "later d d'"
    and "r = Inl 0 \<Longrightarrow> b \<in> bytes_of addr len \<Longrightarrow> deep_at mts d' b"
    and "r = Inr (addr', len') \<Longrightarrow> unat addr' = max (unat addr) (unat (base_addr mt)) \<and> len' \<noteq> 0
      \<and> unat addr' + unat len' = unat addr + unat len
      \<and> (b \<in> bytes_of addr len \<longrightarrow> b \<in> bytes_of addr' len' \<or> deep_at mts d' b)"
proof -
  let ?a = "unat addr" and ?b = "unat (base_addr mt)"
  have "later d d' \<and> (r = Inl 0 \<longrightarrow> b \<in> bytes_of addr len \<longrightarrow> deep_at mts d' b)
    \<and> (r = Inr (addr', len') \<longrightarrow> unat addr' = max ?a ?b \<and> len' \<noteq> 0 \<and> unat addr' + unat len' = ?a + unat len
      \<and> (b \<in> bytes_of addr len \<longrightarrow> b \<in> bytes_of addr' len' \<or> deep_at mts d' b))"
  proof (cases "addr < base_addr mt")
    case True
    define c where "c = (if len < base_addr mt - addr then len else base_addr mt - addr)"
    have lt: "?a < ?b" using True by (simp add: word_less_nat_alt)
    then have "unat (base_addr mt - addr) = ?b - ?a" by (intro unat_sub) (simp add: word_le_nat_alt)
    then have c: "unat c = min (unat len) (?b - ?a)" by (simp add: c_def word_less_nat_alt)
    obtain ret d1 where ms: "deep_msync W addr c d = (ret, d1)" by fastforce
    have "?a + unat c < 2 ^ 64" using assms(3) c by simp
    note covers = deep_msync_covers [OF assms(1,2) this ms]
    have l: "unat (len - c) = unat len - unat c" using c by (intro unat_sub) (simp add: word_le_nat_alt)
    then have l0: "len - c = 0 \<longleftrightarrow> unat len = unat c" using c by (metis diff_is_0_eq diff_self_eq_0 le_antisym min.cobounded1 unsigned_0 unsigned_eq_0_iff)
    have r: "(r, d') = (if ret \<noteq> 0 then Inl (-1) else if len - c = 0 then Inl 0 else Inr (base_addr mt, len - c), d1)"
      using assms(5) True ms by (auto simp: deep_before_def c_def [symmetric] Let_def split: if_splits)
    show ?thesis using r covers(1) covers(2) [of b mts] l l0 c lt by (auto split: if_splits intro: leI)
  next
    case False
    then show ?thesis using assms(4,5) by (auto simp: deep_before_def word_less_nat_alt)
  qed
  then show "later d d'" "r = Inl 0 \<Longrightarrow> b \<in> bytes_of addr len \<Longrightarrow> deep_at mts d' b"
    "r = Inr (addr', len') \<Longrightarrow> unat addr' = max ?a ?b \<and> len' \<noteq> 0 \<and> unat addr' + unat len' = ?a + unat len
      \<and> (b \<in> bytes_of addr len \<longrightarrow> b \<in> bytes_of addr' len' \<or> deep_at mts d' b)" by blast+
qed

text \<open>One round of the loop: it returns, or goes on after the tracker.\<close>

lemma deep_round:
  assumes "page_size W = 2 ^ k" "k < 64" "ranges_ok mts" "unat addr + unat len < 2 ^ 64" "len \<noteq> 0"
    and Some: "util_range_find_unlocked addr len mts = Some mt"
  shows "\<exists>d'. later d d' \<and>
    ((\<exists>ret. os_range_deep_common F W mts addr len d = Some (ret, d') \<and> (ret = 0 \<longrightarrow> (\<forall>b\<in>bytes_of addr len. deep_at mts d' b)))
     \<or> (\<exists>n. os_range_deep_common F W mts addr len d = os_range_deep_common F W mts (end_addr mt) n d'
          \<and> unat n < unat len \<and> unat (end_addr mt) + unat n < 2 ^ 64
          \<and> (\<forall>b\<in>bytes_of addr len. b \<in> bytes_of (end_addr mt) n \<or> deep_at mts d' b)))"
proof -
  from find_Some [OF Some] have mt: "mt \<in> set mts" "unat addr < unat (end_addr mt)"
    by (auto simp: word_less_nat_alt)
  then have ok: "unat (base_addr mt) < unat (end_addr mt)" using assms(3) by (auto simp: ranges_ok_def mt_ok_def)
  obtain r d1 where before: "deep_before W mt addr len d = (r, d1)" by fastforce
  note B = deep_before_result [OF assms(1,2,4,5) before]
  show ?thesis
  proof (cases r)
    case (Inl ret)
    with Some assms(5) before B(1,2) show ?thesis by (subst os_range_deep_common.simps) auto
  next
    case (Inr p)
    obtain a n where p: "p = (a, n)" by fastforce
    note B3 = B(3) [unfolded Inr p, OF refl]
    let ?m = "end_addr mt - a"
    have an: "unat a = max (unat addr) (unat (base_addr mt))" "unat a + unat n = unat addr + unat len" using B3 by blast+
    have m: "unat ?m = unat (end_addr mt) - unat a" "unat a < unat (end_addr mt)"
      using an(1) mt(2) ok by (simp_all add: unat_sub word_le_nat_alt)
    have mn: "unat (min n ?m) = min (unat n) (unat ?m)" by (simp add: min_def word_le_nat_alt)
    obtain ret d2 where ty: "os_deep_type F W mt a (min n ?m) d1 = (ret, d2)" by fastforce
    have "unat a + unat (min n ?m) < 2 ^ 64" using assms(4) an(2) mn by simp
    moreover have "bytes_of a (min n ?m) \<subseteq> extent mt" using an(1) m mn by (auto simp: extent_def)
    ultimately have T: "later d1 d2" "ret = 0 \<Longrightarrow> b \<in> bytes_of a (min n ?m) \<Longrightarrow> deep_at mts d2 b" for b
      using os_deep_type_covers [OF assms(1,2) _ ty mt(1)] by blast+
    have sum: "unat (a + n) = unat a + unat n" using assms(4) an(2) by (intro unat_plus_no_overflow) simp
    have loop: "os_range_deep_common F W mts addr len d =
      (if ret \<noteq> 0 then Some (-1, d2) else if a + n \<le> end_addr mt then Some (0, d2)
       else os_range_deep_common F W mts (end_addr mt) (n - ?m) d2)"
      using Some assms(5) before Inr p ty by (subst os_range_deep_common.simps) (simp add: Let_def)
    have here: "b \<in> bytes_of a n \<and> b \<notin> bytes_of a (min n ?m) \<or> deep_at mts d2 b" if "b \<in> bytes_of addr len" "ret = 0" for b
      using B3 [THEN conjunct2, THEN conjunct2, THEN conjunct2, rule_format, OF that(1)] T(2) [OF that(2)]
        deep_at_later [OF _ T(1)] by blast
    show ?thesis
    proof (cases "ret = 0 \<and> \<not> a + n \<le> end_addr mt")
      case False
      then have "ret = 0 \<Longrightarrow> bytes_of a (min n ?m) = bytes_of a n" using mn m sum by (simp add: word_le_nat_alt)
      then have "ret = 0 \<longrightarrow> (\<forall>b\<in>bytes_of addr len. deep_at mts d2 b)" using here by blast
      with False loop later_trans [OF B(1) T(1)] show ?thesis by (intro exI [of _ d2] conjI disjI1) auto
    next
      case True
      then have gt: "unat (end_addr mt) < unat a + unat n" using sum by (simp add: word_le_nat_alt)
      then have l: "unat (n - ?m) = unat n - unat ?m" using m by (intro unat_sub) (simp add: word_le_nat_alt)
      have "unat (n - ?m) < unat len" "unat (end_addr mt) + unat (n - ?m) < 2 ^ 64"
        using l m an gt assms(4) by linarith+
      moreover have "b \<in> bytes_of (end_addr mt) (n - ?m)" if "b \<in> bytes_of a n" "b \<notin> bytes_of a (min n ?m)" for b
        using that l m mn gt by auto
      moreover have "os_range_deep_common F W mts addr len d = os_range_deep_common F W mts (end_addr mt) (n - ?m) d2"
        using loop True by simp
      ultimately show ?thesis using True later_trans [OF B(1) T(1)] here
        by (intro exI [of _ d2] conjI disjI2 exI [of _ "n - ?m"]) blast+
    qed
  qed
qed

lemma deep_common_covers:
  assumes "page_size W = 2 ^ k" "k < 64" "ranges_ok mts" "unat addr + unat len < 2 ^ 64"
  shows "\<exists>ret d'. os_range_deep_common F W mts addr len d = Some (ret, d') \<and> later d d'
    \<and> (ret = 0 \<longrightarrow> (\<forall>b\<in>bytes_of addr len. deep_at mts d' b))"
  using assms(4)
proof (induction "unat len" arbitrary: addr len d rule: less_induct)
  case less
  show ?case
  proof (cases "len = 0")
    case True
    then show ?thesis by (subst os_range_deep_common.simps) auto
  next
    case len: False
    show ?thesis
    proof (cases "util_range_find_unlocked addr len mts")
      case None
      obtain ret d' where ms: "deep_msync W addr len d = (ret, d')" by fastforce
      from deep_msync_covers [OF assms(1,2) less.prems ms] None len ms show ?thesis
        by (subst os_range_deep_common.simps) auto
    next
      case (Some mt)
      from deep_round [OF assms(1-3) less.prems len Some, of d F] show ?thesis
      proof (elim exE conjE disjE)
        fix d2 n
        assume n: "later d d2" "os_range_deep_common F W mts addr len d = os_range_deep_common F W mts (end_addr mt) n d2"
          "unat n < unat len" "unat (end_addr mt) + unat n < 2 ^ 64"
          "\<forall>b\<in>bytes_of addr len. b \<in> bytes_of (end_addr mt) n \<or> deep_at mts d2 b"
        from less.hyps [OF n(3,4), of d2] obtain ret d' where IH:
          "os_range_deep_common F W mts (end_addr mt) n d2 = Some (ret, d')" "later d2 d'"
          "ret = 0 \<longrightarrow> (\<forall>b\<in>bytes_of (end_addr mt) n. deep_at mts d' b)" by (elim exE conjE)
        have "ret = 0 \<longrightarrow> (\<forall>b\<in>bytes_of addr len. deep_at mts d' b)"
          using IH(3) n(5) deep_at_later [OF _ IH(2)] by blast
        with n(2) IH(1) later_trans [OF n(1) IH(2)] show ?thesis by (intro exI [of _ ret] exI [of _ d'] conjI) simp_all
      qed (intro exI conjI)
    qed
  qed
qed

end
