(* ===== verification/Map_Properties.thy ===== *)
theory Map_Properties
  imports Pmem_Map Pmem_Deep
begin

text \<open>
  Properties of the mapping part of libpmem: the tracker of ranges, the function that tells persistent
  memory, the place for a mapping, and \<open>pmem_map_file\<close>.
\<close>

definition no_ranges :: tracking where
  "no_ranges = \<lparr>Mmap_list = [], mallocs = []\<rparr>"

lemma no_ranges_simps [simp]:
  "Mmap_list no_ranges = []" "allocating no_ranges" "Malloc no_ranges = (True, no_ranges)"
  by (simp_all add: no_ranges_def allocating_def Malloc_def)

text \<open>
  C10: the list of trackers is a set of bytes. Registering a range adds its bytes and succeeds when
  none of them is tracked and memory can be allocated; unregistering ends, removes the bytes of the
  pages of the range, and succeeds for an aligned address when memory can be allocated; the range is
  told to be persistent memory when all its bytes are tracked. The list stays in order.
\<close>

theorem ranges_refine_bytes:
  assumes "ranges_ok (Mmap_list t)" "len \<noteq> 0" "unat addr + unat len \<le> 2 ^ 63"
  shows "(\<exists>ret t'. util_range_register ddax addr len path ty t = (ret, t') \<and> ranges_ok (Mmap_list t')
      \<and> (ret = 0 \<longleftrightarrow> bytes_of addr len \<inter> tracked (Mmap_list t) = {} \<and> fst (Malloc t))
      \<and> tracked (Mmap_list t') = (if ret = 0 then tracked (Mmap_list t) \<union> bytes_of addr len else tracked (Mmap_list t)))
    \<and> (\<exists>ret t'. util_range_unregister 4096 addr len t = Some (ret, t') \<and> ranges_ok (Mmap_list t')
      \<and> (ret = 0 \<longrightarrow> tracked (Mmap_list t') = tracked (Mmap_list t) - {unat addr..<unat addr + pages_up 12 (unat len)})
      \<and> (aligned_at 4096 addr \<and> allocating t \<longrightarrow> ret = 0))
    \<and> (is_pmem_detect addr len t \<longleftrightarrow> bytes_of addr len \<subseteq> tracked (Mmap_list t))"
proof (intro conjI)
  obtain ret t' where r: "util_range_register ddax addr len path ty t = (ret, t')" by fastforce
  from register_eq [OF assms r] r
  show "\<exists>ret t'. util_range_register ddax addr len path ty t = (ret, t') \<and> ranges_ok (Mmap_list t')
      \<and> (ret = 0 \<longleftrightarrow> bytes_of addr len \<inter> tracked (Mmap_list t) = {} \<and> fst (Malloc t))
      \<and> tracked (Mmap_list t') = (if ret = 0 then tracked (Mmap_list t) \<union> bytes_of addr len else tracked (Mmap_list t))"
    by (intro exI [of _ ret] exI [of _ t']) (auto split: if_splits)
  have "pages_up 12 (unat len) \<le> unat len + 4095"
    using div_times_less_eq_dividend [of "unat len + 4095" 4096] by (simp add: pages_up_def)
  then show "\<exists>ret t'. util_range_unregister 4096 addr len t = Some (ret, t') \<and> ranges_ok (Mmap_list t')
      \<and> (ret = 0 \<longrightarrow> tracked (Mmap_list t') = tracked (Mmap_list t) - {unat addr..<unat addr + pages_up 12 (unat len)})
      \<and> (aligned_at 4096 addr \<and> allocating t \<longrightarrow> ret = 0)"
    using unregister_result [OF assms(1), of 12 len addr] assms(2,3) by auto
  show "is_pmem_detect addr len t \<longleftrightarrow> bytes_of addr len \<subseteq> tracked (Mmap_list t)"
    using trk.is_pmem_law [OF assms(1), of addr len] assms(2,3) by auto
qed

theorem ranges_refine_bytes_witness:
  "\<exists>t'. util_range_register (\<lambda>_. 0) 4096 4096 '''' PMEM_MAP_SYNC no_ranges = (0, t')
     \<and> tracked (Mmap_list t') = {4096..<8192}"
  using ranges_refine_bytes [of no_ranges 4096 4096 "\<lambda>_. 0" "''''" PMEM_MAP_SYNC] by auto

text \<open>
  C9: however the threads that call \<open>pmem_is_pmem\<close> interleave, the initialisation does not fail, every
  call goes to the function chosen by the environment and the processor, and from every state every
  thread can come to its call.
\<close>

theorem is_pmem_chosen_once:
  assumes "ip_reach getenv (ip_start f) s"
  shows "\<not> fatal s \<and> (\<forall>c\<in>set (calls s). snd c = Some (chosen getenv f))
    \<and> (\<forall>t. pcs s t = Call_func \<longrightarrow> func s = Some (chosen getenv f))
    \<and> (\<forall>t u. inside s t \<and> inside s u \<longrightarrow> t = u)
    \<and> (\<forall>t. \<exists>s'. ip_reach getenv s s' \<and> pcs s' t = Call_func)"
proof -
  obtain w where w: "ip_inv getenv f w s" using ip_inv_reach [OF assms] by blast
  then have "func s = Some (chosen getenv f)" if "pcs s t = Call_func" for t
    using past_pc [OF that] by (auto simp: ip_inv_def)
  moreover have "\<not> fatal s" "\<forall>c\<in>set (calls s). snd c = Some (chosen getenv f)" "inside s t \<and> inside s u \<longrightarrow> t = u" for t u
    using w by (auto simp: ip_inv_def)
  ultimately show ?thesis using can_get_through [OF w] by blast
qed

theorem is_pmem_chosen_once_witness:
  "\<exists>s. ip_reach (\<lambda>_. Some ''1'') (ip_start None) s \<and> pcs s 7 = Call_func \<and> func s = Some Is_pmem_always"
proof -
  let ?e = "\<lambda>_. Some ''1''"
  obtain s where s: "ip_reach ?e (ip_start None) s" "pcs s 7 = Call_func"
    using is_pmem_chosen_once [OF rtranclp.rtrancl_refl, of None ?e] by blast
  have "chosen ?e None = Is_pmem_always" by code_simp
  with is_pmem_chosen_once [OF s(1)] s show ?thesis by auto
qed

text \<open>
  C35: with a hint in the environment, the address proposed for a mapping is a multiple of the
  alignment, not below the hint, and far enough from every range of the maps file and from the end of
  the address space; or there is no such address.
\<close>

theorem hint_is_free:
  assumes "align \<noteq> 0" "in_order (ranges_of ls)"
    and "unat (if minaddr = 0 then minaddr + page else minaddr) + unat align \<le> 2 ^ 64"
    and "r = util_map_hint_unused page (Some ls) minaddr len align" "r \<noteq> MAP_FAILED" "r \<noteq> 0"
  shows "unat align dvd unat r \<and> unat minaddr \<le> unat r \<and> unat r + unat len < 2 ^ 64
    \<and> (\<forall>q\<in>set (ranges_of ls). unat (snd q) \<le> unat r \<or> unat r + unat len \<le> unat (fst q))"
  using hint_unused_free [OF assms(1-3) assms(4) [symmetric]] assms(5,6) by (auto simp: apart_def)

theorem hint_is_free_witness:
  "util_map_hint_unused 4096 (Some [Some (0x1000, 0x3000), None, Some (0x4000, 0x5000)]) 0x1000 0x2000 0x1000 = 0x5000
     \<and> (0x1000 :: nat) dvd 0x5000"
proof -
  let ?ls = "[Some (0x1000, 0x3000), None, Some (0x4000, 0x5000)]"
  have r: "util_map_hint_unused 4096 (Some ?ls) 0x1000 0x2000 0x1000 = 0x5000" by code_simp
  have "unat (0x1000 :: u64) dvd unat (0x5000 :: u64) \<and> unat (0x1000 :: u64) \<le> unat (0x5000 :: u64)
      \<and> unat (0x5000 :: u64) + unat (0x2000 :: u64) < 2 ^ 64
      \<and> (\<forall>q\<in>set (ranges_of ?ls). unat (snd q) \<le> unat (0x5000 :: u64) \<or> unat (0x5000 :: u64) + unat (0x2000 :: u64) \<le> unat (fst q))"
    by (rule hint_is_free [of _ _ _ 4096]) (simp_all add: r in_order_def MAP_FAILED_def)
  with r show ?thesis by simp
qed

text \<open>
  C33: \<open>pmem_map_file\<close> closes the descriptor it opens. When it fails, everything that was mapped is
  unmapped again and the tracked ranges are as before. When it succeeds, exactly the range that is
  returned stays mapped, and the path is not deleted. The path is deleted only for an exclusive creation
  that fails, and another name only for a temporary file.
\<close>

theorem map_file_all_or_nothing:
  assumes "pmem_map_fileU ddax A p mmap_anon mmap isf path len flags t = (res, log, t')"
  shows "(filter fd_op log = [] \<or> (\<exists>fd. 0 \<le> fd \<and> filter fd_op log = [Open fd, Close fd]))
    \<and> (res = None \<longrightarrow> Mmap_list t' = Mmap_list t \<and> mapped_in log = unmapped_in log)
    \<and> (\<forall>a n q. res = Some (a, n, q) \<longrightarrow> mapped_in log = unmapped_in log @ [(a, n)] \<and> Unlink \<notin> set log)
    \<and> (Unlink \<in> set log \<longrightarrow> flags AND PMEM_FILE_CREATE \<noteq> 0 \<and> flags AND PMEM_FILE_EXCL \<noteq> 0
         \<and> flags AND PMEM_FILE_TMPFILE = 0)
    \<and> (Unlink_temp \<in> set log \<longrightarrow> flags AND PMEM_FILE_TMPFILE \<noteq> 0)"
  using map_file_cleans_up [OF assms] by (simp add: cleaned_up_def)

definition demo_answers :: os_answers where
  "demo_answers = \<lparr>access_ok = False, access_ENOENT = True, stat_ok = True, st_ischr = False, subsystem = None,
     st_size = 0, dax_size = 0, open_fd = 3, tmpfile_fd = -1, tmpfile_EOPNOTSUPP = True, mkstemp_fd = 5,
     ftruncate_ret = 0, fallocate_ret = 28\<rparr>"

definition demo_proc :: proc where
  "demo_proc = \<lparr>Pagesize = 4096, Mmap_hint = 0, Mmap_no_random = False, maps_file = None\<rparr>"

text \<open>An exclusive creation that fails for want of space, and a temporary file that is mapped.\<close>

theorem map_file_all_or_nothing_witness:
  "(\<exists>log t'. pmem_map_fileU (\<lambda>_. 0) demo_answers demo_proc (\<lambda>_. None) (\<lambda>a _ _. Inr a) Is_pmem_detect ''f'' 8192 3 no_ranges
       = (None, log, t') \<and> filter fd_op log = [Open 3, Close 3] \<and> Unlink \<in> set log \<and> mapped_in log = unmapped_in log)
   \<and> (\<exists>q log t'. pmem_map_fileU (\<lambda>_. 0) demo_answers demo_proc (\<lambda>_. Some 0x200000) (\<lambda>a _ _. Inr a) Is_pmem_detect ''d'' 8192 13
         no_ranges = (Some (0x200000, 8192, q), log, t')
       \<and> Unlink_temp \<in> set log \<and> unmapped_in log = [(0x200000, 0x202000)]
       \<and> mapped_in log = unmapped_in log @ [(0x200000, 8192)])"
proof -
  let ?f = "pmem_map_fileU (\<lambda>_. 0) demo_answers demo_proc (\<lambda>_. None) (\<lambda>a _ _. Inr a) Is_pmem_detect ''f'' 8192 3 no_ranges"
  let ?s = "pmem_map_fileU (\<lambda>_. 0) demo_answers demo_proc (\<lambda>_. Some 0x200000) (\<lambda>a _ _. Inr a) Is_pmem_detect ''d'' 8192 13 no_ranges"
  have f: "?f = (None, [Open 3, Ftruncate 3 8192, Fallocate 3 8192, Close 3, Unlink], no_ranges)" by code_simp
  let ?log = "[Open 5, Unlink_temp, Ftruncate 5 8192, Map_anon 0x200000 0x202000, Munmap 0x200000 0x202000,
    Map 0x200000 8192, Close 5]"
  have "fst ?s = Some (0x200000, 8192, True)" "fst (snd ?s) = ?log" by code_simp+
  then obtain t' where s: "?s = (Some (0x200000, 8192, True), ?log, t')" by (metis prod.collapse)
  have "mapped_in ?log = unmapped_in ?log @ [(0x200000, 8192)]" using map_file_all_or_nothing [OF s] by blast
  moreover have "unmapped_in ?log = [(0x200000, 0x202000)]" by simp
  ultimately have "\<exists>q log t'. ?s = (Some (0x200000, 8192, q), log, t') \<and> Unlink_temp \<in> set log
      \<and> unmapped_in log = [(0x200000, 0x202000)] \<and> mapped_in log = unmapped_in log @ [(0x200000, 8192)]"
    using s by (intro exI [of _ True] exI [of _ ?log] exI [of _ t']) simp
  moreover have "\<exists>log t'. ?f = (None, log, t') \<and> filter fd_op log = [Open 3, Close 3] \<and> Unlink \<in> set log
      \<and> mapped_in log = unmapped_in log"
    using map_file_all_or_nothing [OF f] f by auto
  ultimately show ?thesis by blast
qed

text \<open>
  C34: when \<open>pmem_map_file\<close> has mapped a file synchronously, every part of the mapping is told to be
  persistent memory, and after \<open>pmem_unmap\<close> no range that has a byte of it is.
\<close>

theorem mapped_until_unmapped:
  assumes "ranges_ok (Mmap_list t)" "pmem_map_fileU ddax A p mmap_anon mmap isf path len flags t = (Some (a, n, q), log, t1)"
    and "fst (util_map p mmap_anon mmap True False n 0) = Some (a, True)" "n \<noteq> 0" "unat a + unat n \<le> 2 ^ 63" "aligned_at 4096 a" "allocating t1"
  shows "(\<forall>b m. m \<noteq> 0 \<and> unat a \<le> unat b \<and> unat b + unat m \<le> unat a + unat n \<longrightarrow> is_pmem_detect b m t1)
    \<and> (\<exists>t2. pmem_unmap 4096 munmap a n t1 = Some (munmap a n, t2) \<and> ranges_ok (Mmap_list t2)
        \<and> (\<forall>b m. unat b + unat m < 2 ^ 64 \<and> bytes_of b m \<inter> bytes_of a n \<noteq> {} \<longrightarrow> \<not> is_pmem_detect b m t2))"
proof -
  obtain ty where reg: "util_range_register ddax a n path ty t = (0, t1)"
    using map_file_registers [OF assms(2,3)] by blast
  have t1: "ranges_ok (Mmap_list t1)" using trk.register_law [OF assms(1,4,5) reg] by blast
  have "pages_up 12 (unat n) \<le> unat n + 4095"
    using div_times_less_eq_dividend [of "unat n + 4095" 4096] by (simp add: pages_up_def)
  then obtain t2 where t2: "util_range_unregister 4096 a n t1 = Some (0, t2)" "ranges_ok (Mmap_list t2)"
    using unregister_result [OF t1, of 12 n a] assms(4-7) by auto
  then show ?thesis
    using trk.registered_is_pmem [OF assms(1,4,5) reg] trk.unregistered_not_pmem [OF t1 assms(4,5) t2(1)]
    by (auto simp: pmem_unmap_def)
qed

definition demo_answers_ok :: os_answers where
  "demo_answers_ok = demo_answers\<lparr>fallocate_ret := 0\<rparr>"

theorem mapped_until_unmapped_witness:
  "\<exists>q log t1. pmem_map_fileU (\<lambda>_. 0) demo_answers_ok demo_proc (\<lambda>_. Some 0x200000) (\<lambda>a _ _. Inr a) Is_pmem_detect ''f'' 8192 1
       no_ranges = (Some (0x200000, 8192, q), log, t1) \<and> is_pmem_detect 0x201000 16 t1"
proof -
  let ?r = "pmem_map_fileU (\<lambda>_. 0) demo_answers_ok demo_proc (\<lambda>_. Some 0x200000) (\<lambda>a _ _. Inr a) Is_pmem_detect ''f'' 8192 1 no_ranges"
  let ?t1 = "\<lparr>Mmap_list = [\<lparr>base_addr = 0x200000, end_addr = 0x202000, region_id = None, map_type = PMEM_MAP_SYNC\<rparr>], mallocs = []\<rparr>"
  have r: "?r = (Some (0x200000, 8192, True), [Open 3, Ftruncate 3 8192, Fallocate 3 8192, Map_anon 0x200000 0x202000,
      Munmap 0x200000 0x202000, Map 0x200000 8192, Close 3], ?t1)"
    by code_simp
  have "fst (util_map demo_proc (\<lambda>_. Some 0x200000) (\<lambda>a _ _. Inr a) True False 8192 0) = Some (0x200000, True)" by code_simp
  with mapped_until_unmapped [OF _ r] have "is_pmem_detect 0x201000 16 ?t1" by (simp add: aligned_at_def allocating_def)
  with r show ?thesis by blast
qed

text \<open>
  C36: a deep drain ends, and when it succeeds every byte of the range was given to \<open>msync\<close> or lies in
  a Device DAX whose region was flushed.
\<close>

theorem deep_drain_covers:
  assumes "page_size W = 2 ^ k" "k < 64" "ranges_ok (Mmap_list t)" "unat addr + unat len < 2 ^ 64"
  shows "\<exists>ret d'. pmem_deep_drain F W t addr len d = Some (ret, d')
    \<and> (ret = 0 \<longrightarrow> (\<forall>b\<in>bytes_of addr len. deep_at (Mmap_list t) d' b))"
  using deep_common_covers [OF assms] unfolding pmem_deep_drain_def by blast

theorem deep_drain_covers_witness:
  "\<exists>d'. pmem_deep_drain generic_funcs \<lparr>page_size = 2 ^ 12, msync_ret = \<lambda>_ _. 0, can_write = \<lambda>_. True\<rparr> no_ranges 64 64
       \<lparr>dpm = \<lparr>pmem = \<lambda>_. 0, hw = []\<rparr>, regions = []\<rparr> = Some (0, d') \<and> deep_at [] d' 100"
proof -
  let ?W = "\<lparr>page_size = 2 ^ 12, msync_ret = \<lambda>_ _. 0, can_write = \<lambda>_. True\<rparr>" and ?d = "\<lparr>dpm = \<lparr>pmem = \<lambda>_. 0, hw = []\<rparr>, regions = []\<rparr>"
  have "\<exists>d'. pmem_deep_drain generic_funcs ?W no_ranges 64 64 ?d = Some (0, d')"
    by (simp add: pmem_deep_drain_def os_range_deep_common.simps deep_msync_def
        pmem_msync_def Let_def)
  with deep_drain_covers [of ?W 12 no_ranges 64 64 generic_funcs ?d] show ?thesis by force
qed

end
