(* ===== verification/Replay.thy ===== *)
theory Replay
  imports Trace_Reader
begin

text \<open>
  The simulated caches of the trace checker (\<open>lib/cache.py\<close>, \<open>lib/witchercache.py\<close>) and the crash
  images made from them (\<open>lib/binaryfile.py\<close>, \<open>checker/ls_validator.py\<close>). An operation of the trace
  enters a cache at most once, so the flag that Python keeps in the shared object is kept in the
  value that the cache holds. \<open>None\<close> is an exception or a failed assertion.
\<close>

section \<open>binaryfile.py\<close>

record binary_file =
  map_base :: int
  file_map :: "u8 list"

text \<open>Assignment to a slice of a memory map, which must not change its length.\<close>

definition mmap_assign :: "u8 list \<Rightarrow> int \<Rightarrow> int \<Rightarrow> u8 list \<Rightarrow> u8 list option" where
  "mmap_assign m i j bs =
     (let lo = py_bound m i; hi = py_bound m j in
      if hi - lo = length bs then Some (take lo m @ bs @ drop (lo + length bs) m) else None)"

definition do_store :: "store_op \<Rightarrow> binary_file \<Rightarrow> binary_file option" where
  "do_store st b =
     (let base_off = s_address st - map_base b; max_off = s_address st + s_size st - map_base b in
      map_option (\<lambda>m. b\<lparr>file_map := m\<rparr>) (mmap_assign (file_map b) base_off max_off (s_value_bytes st)))"

fun do_stores :: "store_op list \<Rightarrow> binary_file \<Rightarrow> binary_file option" where
  "do_stores [] b = Some b"
| "do_stores (st # sts) b = do { b' \<leftarrow> do_store st b; do_stores sts b' }"

section \<open>cache.py\<close>

definition store_range :: "store_op \<Rightarrow> int \<times> int" where
  "store_range st = (s_address st, s_address st + s_size st)"

definition load_range :: "load_op \<Rightarrow> int \<times> int" where
  "load_range l = (l_address l, l_address l + l_size l)"

definition flush_range :: "flush_op \<Rightarrow> int \<times> int" where
  "flush_range f = (f_address f, f_address f + f_size f)"

definition lock_range :: "lock_op \<Rightarrow> int \<times> int" where
  "lock_range k = (k_address k, k_address k + k_size k)"

text \<open>A cache holds stores or loads.\<close>

datatype cached = CStore (the_store: store_op) | CLoad (the_load: load_op)

fun c_address :: "cached \<Rightarrow> int" where
  "c_address (CStore st) = s_address st"
| "c_address (CLoad l) = l_address l"

fun c_id :: "cached \<Rightarrow> int" where
  "c_id (CStore st) = op_id st"
| "c_id (CLoad l) = op_id l"

fun c_range :: "cached \<Rightarrow> int \<times> int" where
  "c_range (CStore st) = store_range st"
| "c_range (CLoad l) = load_range l"

fun c_flushing :: "cached \<Rightarrow> nat" where
  "c_flushing (CStore st) = s_flushing st"
| "c_flushing (CLoad l) = l_flushing l"

fun set_flushing :: "nat \<Rightarrow> cached \<Rightarrow> cached" where
  "set_flushing n (CStore st) = CStore (st\<lparr>s_flushing := n\<rparr>)"
| "set_flushing n (CLoad l) = CLoad (l\<lparr>l_flushing := n\<rparr>)"

definition is_in_flush :: "flush_op \<Rightarrow> cached \<Rightarrow> bool" where
  "is_in_flush f c \<longleftrightarrow> range_cmp (c_range c) (flush_range f) = 0"

type_synonym cache = "cached list"

definition accept_op :: "cached \<Rightarrow> cache \<Rightarrow> cache" where
  "accept_op c cs = cs @ [c]"

definition accept_flush :: "flush_op \<Rightarrow> cache \<Rightarrow> cache" where
  "accept_flush f cs = map (\<lambda>c. if is_in_flush f c then set_flushing 1 c else c) cs"

definition accept_fence :: "cache \<Rightarrow> cache" where
  "accept_fence cs = filter (\<lambda>c. c_flushing c = 0) cs"

definition get_flushing_ops :: "cache \<Rightarrow> cache" where
  "get_flushing_ops cs = filter (\<lambda>c. c_flushing c = 1) cs"

record replay_cache =
  r_ops :: cache
  r_file :: binary_file

definition replay_accept_fence :: "replay_cache \<Rightarrow> replay_cache option" where
  "replay_accept_fence r =
     do {
       b \<leftarrow> do_stores (map the_store (get_flushing_ops (r_ops r))) (r_file r);
       Some (r\<lparr>r_ops := accept_fence (r_ops r), r_file := b\<rparr>)
     }"

fun replay_accept_op :: "memop \<Rightarrow> replay_cache \<Rightarrow> replay_cache option" where
  "replay_accept_op (MStore st) r = Some (r\<lparr>r_ops := accept_op (CStore st) (r_ops r)\<rparr>)"
| "replay_accept_op (MFlush f) r = Some (r\<lparr>r_ops := accept_flush f (r_ops r)\<rparr>)"
| "replay_accept_op (MFence _) r = replay_accept_fence r"
| "replay_accept_op _ r = Some r"

fun replay_accept_ops :: "memop list \<Rightarrow> replay_cache \<Rightarrow> replay_cache option" where
  "replay_accept_ops [] r = Some r"
| "replay_accept_ops (p # ps) r = do { r' \<leftarrow> replay_accept_op p r; replay_accept_ops ps r' }"

definition replay_write_back_all_stores :: "replay_cache \<Rightarrow> replay_cache option" where
  "replay_write_back_all_stores r =
     do {
       b \<leftarrow> do_stores (map the_store (r_ops r)) (r_file r);
       Some (r\<lparr>r_ops := [], r_file := b\<rparr>)
     }"

section \<open>witchercache.py\<close>

text \<open>
  The dictionary of cache lines keeps its insertion order. A line has an address and its stores.
\<close>

record witcher_cache =
  cacheline_dict :: "(int \<times> store_op list) list"
  w_file :: binary_file

definition can_accept_store_op :: "int \<Rightarrow> store_op \<Rightarrow> bool" where
  "can_accept_store_op address st \<longleftrightarrow>
     address \<le> s_address st \<and> s_address st + s_size st \<le> address + CACHELINE_BYTES"

definition can_accept_flush_op :: "int \<Rightarrow> flush_op \<Rightarrow> bool" where
  "can_accept_flush_op address f \<longleftrightarrow> address = f_address f \<and> CACHELINE_BYTES = f_size f"

definition get_cacheline_from_address :: "int \<Rightarrow> witcher_cache \<Rightarrow> store_op list \<times> witcher_cache" where
  "get_cacheline_from_address address w =
     (case map_of (cacheline_dict w) (get_cacheline_address address) of
        Some sts \<Rightarrow> (sts, w)
      | None \<Rightarrow> ([], w\<lparr>cacheline_dict := cacheline_dict w @ [(get_cacheline_address address, [])]\<rparr>))"

definition set_line :: "int \<Rightarrow> store_op list \<Rightarrow> witcher_cache \<Rightarrow> witcher_cache" where
  "set_line k sts w =
     w\<lparr>cacheline_dict := map (\<lambda>(k', xs). (k', if k' = k then sts else xs)) (cacheline_dict w)\<rparr>"

definition store_accept_flush :: "store_op \<Rightarrow> store_op option" where
  "store_accept_flush st = (if s_flushing st = 0 \<or> s_flushing st = 1 then Some (st\<lparr>s_flushing := 1\<rparr>) else None)"

definition store_accept_fence :: "store_op \<Rightarrow> store_op option" where
  "store_accept_fence st = (if s_flushing st = 0 \<or> s_flushing st = 1 then Some (st\<lparr>s_flushing := 2\<rparr>) else None)"

fun map_opt :: "('a \<Rightarrow> 'b option) \<Rightarrow> 'a list \<Rightarrow> 'b list option" where
  "map_opt f [] = Some []"
| "map_opt f (x # xs) = do { y \<leftarrow> f x; ys \<leftarrow> map_opt f xs; Some (y # ys) }"

definition witcher_accept_store :: "store_op \<Rightarrow> witcher_cache \<Rightarrow> witcher_cache option" where
  "witcher_accept_store st w =
     (let k = get_cacheline_address (s_address st); (sts, w') = get_cacheline_from_address (s_address st) w in
      if can_accept_store_op k st then Some (set_line k (sts @ [st]) w') else None)"

definition witcher_accept_flush :: "flush_op \<Rightarrow> witcher_cache \<Rightarrow> witcher_cache option" where
  "witcher_accept_flush f w =
     (let k = get_cacheline_address (f_address f); (sts, w') = get_cacheline_from_address (f_address f) w in
      if can_accept_flush_op k f then
        do { sts' \<leftarrow> map_opt store_accept_flush sts; Some (set_line k sts' w') }
      else None)"

text \<open>The result says whether the operation is a fence.\<close>

fun witcher_accept_op :: "memop \<Rightarrow> witcher_cache \<Rightarrow> (bool \<times> witcher_cache) option" where
  "witcher_accept_op (MStore st) w = map_option (Pair False) (witcher_accept_store st w)"
| "witcher_accept_op (MFlush f) w = map_option (Pair False) (witcher_accept_flush f w)"
| "witcher_accept_op (MFence _) w = Some (True, w)"
| "witcher_accept_op _ w = Some (False, w)"

text \<open>One line: the stores are written one after the other, and those that stay are clear.\<close>

fun line_write_back_flushing :: "store_op list \<Rightarrow> binary_file \<Rightarrow> (store_op list \<times> binary_file) option" where
  "line_write_back_flushing [] b = Some ([], b)"
| "line_write_back_flushing (st # sts) b =
     (if s_flushing st = 1 then
        do { b' \<leftarrow> do_store st b; st' \<leftarrow> store_accept_fence st;
             (rest, b'') \<leftarrow> line_write_back_flushing sts b';
             Some ((if s_flushing st' = 0 then st' # rest else rest), b'') }
      else
        do { (rest, b'') \<leftarrow> line_write_back_flushing sts b;
             Some ((if s_flushing st = 0 then st # rest else rest), b'') })"

fun line_write_back_all :: "store_op list \<Rightarrow> binary_file \<Rightarrow> binary_file option" where
  "line_write_back_all [] b = Some b"
| "line_write_back_all (st # sts) b =
     do { b' \<leftarrow> do_store st b; _ \<leftarrow> store_accept_fence st; line_write_back_all sts b' }"

fun write_back_lines ::
  "(int \<times> store_op list) list \<Rightarrow> binary_file \<Rightarrow> ((int \<times> store_op list) list \<times> binary_file) option"
where
  "write_back_lines [] b = Some ([], b)"
| "write_back_lines ((k, sts) # ls) b =
     do { (sts', b') \<leftarrow> line_write_back_flushing sts b;
          (ls', b'') \<leftarrow> write_back_lines ls b';
          Some ((k, sts') # ls', b'') }"

definition witcher_write_back_all_flushing_stores :: "witcher_cache \<Rightarrow> witcher_cache option" where
  "witcher_write_back_all_flushing_stores w =
     do {
       (ls, b) \<leftarrow> write_back_lines (cacheline_dict w) (w_file w);
       Some (w\<lparr>cacheline_dict := filter (\<lambda>(k, sts). sts \<noteq> []) ls, w_file := b\<rparr>)
     }"

fun write_back_all_lines :: "(int \<times> store_op list) list \<Rightarrow> binary_file \<Rightarrow> binary_file option" where
  "write_back_all_lines [] b = Some b"
| "write_back_all_lines ((k, sts) # ls) b =
     do { b' \<leftarrow> line_write_back_all sts b; write_back_all_lines ls b' }"

definition witcher_write_back_all_stores :: "witcher_cache \<Rightarrow> witcher_cache option" where
  "witcher_write_back_all_stores w =
     do {
       b \<leftarrow> write_back_all_lines (cacheline_dict w) (w_file w);
       Some (w\<lparr>cacheline_dict := [], w_file := b\<rparr>)
     }"

section \<open>ls_validator.py\<close>

text \<open>
  The two images that are validated before a store: with everything that is still in the cache, and
  with the line of the store alone, up to and including the store.
\<close>

definition crash_image_0 :: "witcher_cache \<Rightarrow> u8 list option" where
  "crash_image_0 w = map_option file_map (do_stores (concat (map snd (cacheline_dict w))) (w_file w))"

definition crash_image_1 :: "store_op \<Rightarrow> witcher_cache \<Rightarrow> (u8 list \<times> witcher_cache) option" where
  "crash_image_1 st w =
     (let (sts, w') = get_cacheline_from_address (s_address st) w in
      map_option (\<lambda>b. (file_map b, w')) (do_stores (sts @ [st]) (w_file w)))"

text \<open>The tests of a run: the store, which of the two images, and the image.\<close>

type_synonym crash_test = "store_op \<times> nat \<times> u8 list"

definition gen_crash_and_validate :: "store_op \<Rightarrow> witcher_cache \<Rightarrow> (crash_test list \<times> witcher_cache) option" where
  "gen_crash_and_validate st w =
     do {
       img0 \<leftarrow> crash_image_0 w;
       (img1, w') \<leftarrow> crash_image_1 st w;
       Some ([(st, 0, img0), (st, 1, img1)], w')
     }"

definition run_step :: "memop \<Rightarrow> witcher_cache \<Rightarrow> witcher_cache option" where
  "run_step p w =
     do {
       (is_fence, w) \<leftarrow> witcher_accept_op p w;
       w \<leftarrow> (if is_fence then witcher_write_back_all_flushing_stores w else Some w);
       (case p of
          MAPIBegin _ \<Rightarrow> witcher_write_back_all_stores w
        | MAPIEnd _ \<Rightarrow> witcher_write_back_all_stores w
        | _ \<Rightarrow> Some w)
     }"

fun ls_run ::
  "int list \<Rightarrow> int \<Rightarrow> int \<Rightarrow> memop list \<Rightarrow> witcher_cache \<Rightarrow> (crash_test list \<times> witcher_cache) option"
where
  "ls_run crashes id_start id_end [] w = Some ([], w)"
| "ls_run crashes id_start id_end (p # ps) w =
     (if id_end < memop_id p then Some ([], w)
      else
        do {
          (ts, w) \<leftarrow>
            (case p of
               MStore st \<Rightarrow>
                 if id_start \<le> op_id st \<and> op_id st \<le> id_end \<and> op_id st \<in> set crashes
                 then gen_crash_and_validate st w else Some ([], w)
             | _ \<Rightarrow> Some ([], w));
          w \<leftarrow> run_step p w;
          (ts', w) \<leftarrow> ls_run crashes id_start id_end ps w;
          Some (ts @ ts', w)
        })"

definition new_image :: "nat \<Rightarrow> int \<Rightarrow> binary_file" where
  "new_image pmsize pmaddr = \<lparr>map_base = pmaddr, file_map = replicate (pmsize * 1024 * 1024) 0\<rparr>"

definition LSValidator_run ::
  "int list \<Rightarrow> int \<Rightarrow> int \<Rightarrow> nat \<Rightarrow> int \<Rightarrow> memop list \<Rightarrow> crash_test list option"
where
  "LSValidator_run crashes id_start id_end pmsize pmaddr ps =
     map_option fst (ls_run crashes id_start id_end ps
       \<lparr>cacheline_dict = [], w_file = new_image pmsize pmaddr\<rparr>)"

end
