(* ===== verification/Race_Checker.thy ===== *)
theory Race_Checker
  imports Replay
begin

text \<open>
  The search for races between API calls (\<open>lib/race.py\<close>, \<open>checker/st_trace_checker.py\<close>) and the
  second look at one pair of calls (\<open>checker/st_trace_checker_2_ops.py\<close>,
  \<open>checker/mt_trace_checker.py\<close>). Each call is scanned for fences that make stores durable and for
  stores that follow loads; two calls race when such a fence and such a store share an address and
  no lock. The output of the branch pass and the file of linearization points are parameters.
\<close>

section \<open>race.py\<close>

record race_op =
  ro_op :: memop
  ro_deps :: "int set"
  ro_lock_set :: "int set"

definition RaceOp :: "memop \<Rightarrow> cache \<Rightarrow> lock_op list \<Rightarrow> race_op" where
  "RaceOp p deps lock_set =
     \<lparr>ro_op = p, ro_deps = set (map c_address deps), ro_lock_set = set (map k_address lock_set)\<rparr>"

definition racing :: "race_op \<Rightarrow> race_op \<Rightarrow> bool" where
  "racing race_st race_ld \<longleftrightarrow>
     ro_deps race_st \<inter> ro_deps race_ld \<noteq> {} \<and> ro_lock_set race_st \<inter> ro_lock_set race_ld = {}"

section \<open>Scanning one API call\<close>

record scan =
  race_sts :: "race_op list"
  race_lds :: "race_op list"
  locks :: "lock_op list"
  locks_all :: "lock_op list"
  cache_st :: cache
  cache_ld :: cache
  no_stores :: bool

definition new_scan :: scan where
  "new_scan = \<lparr>race_sts = [], race_lds = [], locks = [], locks_all = [], cache_st = [], cache_ld = [],
     no_stores = True\<rparr>"

text \<open>The last lock that overlaps the unlocked range is removed.\<close>

fun remove_lock :: "lock_op \<Rightarrow> lock_op list \<Rightarrow> lock_op list" where
  "remove_lock u [] = []"
| "remove_lock u (k # ks) = (if range_cmp (lock_range k) (lock_range u) = 0 then ks else k # remove_lock u ks)"

definition unlock_last :: "lock_op \<Rightarrow> lock_op list \<Rightarrow> lock_op list" where
  "unlock_last u ks = rev (remove_lock u (rev ks))"

definition scan_store :: "store_op \<Rightarrow> scan \<Rightarrow> scan" where
  "scan_store st s =
     (let s = (if cache_ld s \<noteq> []
               then s\<lparr>race_lds := race_lds s @ [RaceOp (MStore st) (cache_ld s) (locks_all s)]\<rparr> else s)
      in s\<lparr>cache_st := accept_op (CStore st) (cache_st s), cache_ld := [], no_stores := False\<rparr>)"

definition scan_flush :: "flush_op \<Rightarrow> scan \<Rightarrow> scan" where
  "scan_flush f s = s\<lparr>cache_st := accept_flush f (cache_st s), cache_ld := accept_flush f (cache_ld s)\<rparr>"

definition scan_fences :: "scan \<Rightarrow> scan" where
  "scan_fences s = s\<lparr>cache_st := accept_fence (cache_st s), cache_ld := accept_fence (cache_ld s)\<rparr>"

definition scan_lock :: "lock_op \<Rightarrow> scan \<Rightarrow> scan" where
  "scan_lock k s = s\<lparr>locks := locks s @ [k], locks_all := locks_all s @ [k]\<rparr>"

definition scan_unlock :: "lock_op \<Rightarrow> scan \<Rightarrow> scan option" where
  "scan_unlock u s = (if locks s \<noteq> [] then Some (s\<lparr>locks := unlock_last u (locks s)\<rparr>) else None)"

definition add_race_st :: "memop \<Rightarrow> cache \<Rightarrow> scan \<Rightarrow> scan" where
  "add_race_st p stores s = s\<lparr>race_sts := race_sts s @ [RaceOp p stores (locks s)]\<rparr>"

definition add_race_ld :: "memop \<Rightarrow> scan \<Rightarrow> scan" where
  "add_race_ld p s = s\<lparr>race_lds := race_lds s @ [RaceOp p (cache_ld s) (locks_all s)]\<rparr>"

text \<open>Python compares the stores by identity, which is their number in the trace.\<close>

definition lp_in :: "store_op list \<Rightarrow> cached \<Rightarrow> bool" where
  "lp_in lp_stores c \<longleftrightarrow> c_id c \<in> op_id ` set lp_stores"

fun scan_step :: "store_op list \<Rightarrow> memop \<Rightarrow> scan \<Rightarrow> scan option" where
  "scan_step lp_stores (MStore st) s = Some (scan_store st s)"
| "scan_step lp_stores (MLoad l) s = Some (s\<lparr>cache_ld := accept_op (CLoad l) (cache_ld s)\<rparr>)"
| "scan_step lp_stores (MFlush f) s = Some (scan_flush f s)"
| "scan_step lp_stores (MFence b) s =
     (let stores = filter (lp_in lp_stores) (get_flushing_ops (cache_st s))
      in Some (scan_fences (if stores \<noteq> [] then add_race_st (MFence b) stores s else s)))"
| "scan_step lp_stores (MLock k) s = Some (scan_lock k s)"
| "scan_step lp_stores (MUnLock u) s = scan_unlock u s"
| "scan_step lp_stores (MAPIBegin b) s = Some s"
| "scan_step lp_stores (MAPIEnd b) s =
     Some (if locks s = [] then
             (let stores = filter (lp_in lp_stores) (cache_st s);
                  s = (if cache_st s \<noteq> [] \<and> stores \<noteq> [] then add_race_st (MAPIEnd b) stores s else s)
              in if no_stores s then add_race_ld (MAPIEnd b) s else s)
           else s)"

fun scan_ops :: "(memop \<Rightarrow> scan \<Rightarrow> scan option) \<Rightarrow> memop list \<Rightarrow> scan \<Rightarrow> scan option" where
  "scan_ops step [] s = Some s"
| "scan_ops step (p # ps) s = do { s \<leftarrow> step p s; scan_ops step ps s }"

section \<open>st_trace_checker.py\<close>

record checker_opts =
  window :: int
  lock_free :: int
  lock_based :: int
  lp_srcs :: "string list"
  lp_txt :: string

definition stores_of :: "memop list \<Rightarrow> store_op list" where
  "stores_of ps = concat (map (\<lambda>p. case p of MStore st \<Rightarrow> [st] | _ \<Rightarrow> []) ps)"

definition lp_addrs :: "checker_opts \<Rightarrow> trace_state \<Rightarrow> int set" where
  "lp_addrs G tr =
     \<Union> (set (map (\<lambda>lp_src. case load_src_to_addrs tr lp_src of None \<Rightarrow> {} | Some A \<Rightarrow> A) (lp_srcs G)))"

definition stores_not_in_new :: "trace_state \<Rightarrow> store_op list \<Rightarrow> int \<Rightarrow> store_op list" where
  "stores_not_in_new tr sts idx =
     (case allocs tr idx of
        None \<Rightarrow> sts
      | Some als \<Rightarrow> filter (\<lambda>st. \<forall>al\<in>set als. range_cmp (store_range st) (load_range al) \<noteq> 0) sts)"

definition stores_used_by_loads_before_br :: "checker_opts \<Rightarrow> trace_state \<Rightarrow> store_op list \<Rightarrow> store_op list" where
  "stores_used_by_loads_before_br G tr sts = filter (\<lambda>st. s_address st \<in> lp_addrs G tr) sts"

definition stores_match_lps :: "checker_opts \<Rightarrow> store_op list \<Rightarrow> store_op list" where
  "stores_match_lps G sts =
     (let lps = filter (\<lambda>lp. lp \<noteq> []) (split_on newline (universal_newlines (lp_txt G)))
      in filter (\<lambda>st. op_src st \<in> set lps) sts)"

definition select_lps :: "checker_opts \<Rightarrow> trace_state \<Rightarrow> memop list \<Rightarrow> int \<Rightarrow> store_op list" where
  "select_lps G tr trace_per_api idx =
     (let lp_stores = stores_of trace_per_api;
          lp_stores = (if lock_free G \<noteq> 0 then filter (\<lambda>st. s_is_cas st \<noteq> 0) lp_stores else lp_stores)
      in if lock_based G = 3 then stores_not_in_new tr lp_stores idx
         else if lock_based G = 4 then stores_used_by_loads_before_br G tr lp_stores
         else if lock_based G = 5 then stores_match_lps G lp_stores
         else if lock_based G = 6 then stores_used_by_loads_before_br G tr (stores_not_in_new tr lp_stores idx)
         else lp_stores)"

record trace_checker =
  total_stores :: nat
  total_stores_in_op :: nat
  total_lps :: nat
  total_races_st :: nat
  race_st_list :: "race_op list list"
  race_ld_list :: "race_op list list"
  race_pairs :: "((nat \<times> nat) \<times> (race_op \<times> race_op) list) list"

definition api_ops :: "trace_state \<Rightarrow> int \<times> int \<Rightarrow> memop list" where
  "api_ops tr r = py_slice (ops tr) (fst r) (snd r + 1)"

definition init_race_op_list_per_api ::
  "checker_opts \<Rightarrow> trace_state \<Rightarrow> memop list \<Rightarrow> int \<Rightarrow> trace_checker \<Rightarrow> trace_checker option"
where
  "init_race_op_list_per_api G tr trace_per_api idx T =
     (let lp_stores = select_lps G tr trace_per_api idx;
          T = T\<lparr>total_stores_in_op := total_stores_in_op T + length (stores_of trace_per_api),
                total_lps := total_lps T + length lp_stores\<rparr>
      in do {
        s \<leftarrow> scan_ops (scan_step lp_stores) trace_per_api new_scan;
        Some (T\<lparr>race_st_list := race_st_list T @ [race_sts s], race_ld_list := race_ld_list T @ [race_lds s]\<rparr>)
      })"

fun init_race_op_list ::
  "checker_opts \<Rightarrow> trace_state \<Rightarrow> int \<Rightarrow> (int \<times> int) list \<Rightarrow> trace_checker \<Rightarrow> trace_checker option"
where
  "init_race_op_list G tr idx [] T = Some T"
| "init_race_op_list G tr idx (r # rs) T =
     do { T \<leftarrow> init_race_op_list_per_api G tr (api_ops tr r) idx T; init_race_op_list G tr (idx + 1) rs T }"

definition pairs_of :: "race_op list \<Rightarrow> race_op list \<Rightarrow> (race_op \<times> race_op) list" where
  "pairs_of sts lds = filter (\<lambda>(st, ld). racing st ld) (List.product sts lds)"

text \<open>The second key of a pair of calls lists its pairs by the load first.\<close>

definition pairs_by_load :: "race_op list \<Rightarrow> race_op list \<Rightarrow> (race_op \<times> race_op) list" where
  "pairs_by_load lds sts =
     map (\<lambda>(ld, st). (st, ld)) (filter (\<lambda>(ld, st). racing st ld) (List.product lds sts))"

definition add_pairs :: "nat \<times> nat \<Rightarrow> (race_op \<times> race_op) list \<Rightarrow> trace_checker \<Rightarrow> trace_checker" where
  "add_pairs key pairs T =
     (if pairs \<noteq> []
      then T\<lparr>race_pairs := race_pairs T @ [(key, pairs)], total_races_st := total_races_st T + length pairs\<rparr>
      else T)"

definition init_race_pairs_per_2_apis :: "nat \<Rightarrow> nat \<Rightarrow> trace_checker \<Rightarrow> trace_checker" where
  "init_race_pairs_per_2_apis i j T =
     add_pairs (j, i) (pairs_by_load (race_ld_list T ! i) (race_st_list T ! j))
       (add_pairs (i, j) (pairs_of (race_st_list T ! i) (race_ld_list T ! j)) T)"

definition window_keys :: "nat \<Rightarrow> int \<Rightarrow> (nat \<times> nat) list" where
  "window_keys num_apis win =
     concat (map (\<lambda>i. map (\<lambda>j. (i, j)) [i + 1..<nat (min (int num_apis) (int i + win))]) [0..<num_apis])"

definition init_race_pairs :: "nat \<Rightarrow> int \<Rightarrow> trace_checker \<Rightarrow> trace_checker option" where
  "init_race_pairs num_apis win T =
     (if length (race_st_list T) = num_apis \<and> length (race_ld_list T) = num_apis
      then Some (fold (\<lambda>(i, j). init_race_pairs_per_2_apis i j) (window_keys num_apis win) T)
      else None)"

definition TraceChecker :: "checker_opts \<Rightarrow> trace_state \<Rightarrow> trace_checker option" where
  "TraceChecker G tr =
     (let T = \<lparr>total_stores = length (stores_of (ops tr)), total_stores_in_op = 0, total_lps = 0,
               total_races_st = 0, race_st_list = [], race_ld_list = [], race_pairs = []\<rparr>
      in do {
        T \<leftarrow> init_race_op_list G tr 0 (ops_api_ranges tr) T;
        init_race_pairs (length (ops_api_ranges tr)) (window G) T
      })"

section \<open>st_trace_checker_2_ops.py\<close>

text \<open>The same scan for two calls, with the addresses of the linearization points given.\<close>

definition lp_at :: "int set \<Rightarrow> cached \<Rightarrow> bool" where
  "lp_at lps c \<longleftrightarrow> c_address c \<in> lps"

fun scan_step_2 :: "int set \<Rightarrow> memop \<Rightarrow> scan \<Rightarrow> scan option" where
  "scan_step_2 lps (MStore st) s = Some (scan_store st s)"
| "scan_step_2 lps (MLoad l) s = Some (s\<lparr>cache_ld := accept_op (CLoad l) (cache_ld s)\<rparr>)"
| "scan_step_2 lps (MFlush f) s = Some (scan_flush f s)"
| "scan_step_2 lps (MFence b) s =
     Some (scan_fences (add_race_st (MFence b) (filter (lp_at lps) (get_flushing_ops (cache_st s))) s))"
| "scan_step_2 lps (MLock k) s = Some (scan_lock k s)"
| "scan_step_2 lps (MUnLock u) s = scan_unlock u s"
| "scan_step_2 lps (MAPIBegin b) s = Some s"
| "scan_step_2 lps (MAPIEnd b) s =
     (if locks s = [] then
        (let s = (if cache_st s \<noteq> [] then add_race_st (MAPIEnd b) (filter (lp_at lps) (cache_st s)) s else s)
         in Some (if no_stores s then add_race_ld (MAPIEnd b) s else s))
      else None)"

fun init_race_op_list_2 ::
  "int set \<Rightarrow> trace_state \<Rightarrow> (int \<times> int) list \<Rightarrow> (race_op list list \<times> race_op list list) option"
where
  "init_race_op_list_2 lps tr [] = Some ([], [])"
| "init_race_op_list_2 lps tr (r # rs) =
     do {
       s \<leftarrow> scan_ops (scan_step_2 lps) (api_ops tr r) new_scan;
       (stss, ldss) \<leftarrow> init_race_op_list_2 lps tr rs;
       Some (race_sts s # stss, race_lds s # ldss)
     }"

definition pairs_per_2_apis ::
  "race_op list list \<Rightarrow> race_op list list \<Rightarrow> nat \<Rightarrow> nat \<Rightarrow> ((nat \<times> nat) \<times> (race_op \<times> race_op) list) list"
where
  "pairs_per_2_apis stss ldss i j =
     filter (\<lambda>(key, pairs). pairs \<noteq> [])
       [((i, j), pairs_of (stss ! i) (ldss ! j)), ((j, i), pairs_by_load (ldss ! i) (stss ! j))]"

definition TraceChecker_2 ::
  "trace_state \<Rightarrow> int \<Rightarrow> int set \<Rightarrow> ((nat \<times> nat) \<times> (race_op \<times> race_op) list) list option"
where
  "TraceChecker_2 tr win lps =
     do {
       (stss, ldss) \<leftarrow> init_race_op_list_2 lps tr (ops_api_ranges tr);
       let num_apis = length (ops_api_ranges tr);
       if length stss = num_apis \<and> length ldss = num_apis
       then Some (concat (map (\<lambda>(i, j). pairs_per_2_apis stss ldss i j) (window_keys num_apis win)))
       else None
     }"

end
