(* ===== verification/Replay_Correct.thy ===== *)
theory Replay_Correct
  imports Replay
begin

text \<open>
  What the simulated caches compute, told without them. A store of a trace is flushed once a later
  flush covers it, and settled once a fence follows such a flush. The crash images of the validator
  hold exactly the settled stores and, besides, everything or the line of the tested store.
\<close>

section \<open>Flushed and settled operations\<close>

fun is_fence :: "memop \<Rightarrow> bool" where
  "is_fence (MFence _) = True"
| "is_fence _ = False"

definition flushed :: "(memop \<Rightarrow> memop \<Rightarrow> bool) \<Rightarrow> memop list \<Rightarrow> nat \<Rightarrow> bool" where
  "flushed cov ps i \<longleftrightarrow> (\<exists>f<length ps. i < f \<and> cov (ps ! f) (ps ! i))"

definition settled :: "(memop \<Rightarrow> memop \<Rightarrow> bool) \<Rightarrow> memop list \<Rightarrow> nat \<Rightarrow> bool" where
  "settled cov ps i \<longleftrightarrow>
     (\<exists>n<length ps. \<exists>f<n. i < f \<and> cov (ps ! f) (ps ! i) \<and> is_fence (ps ! n))"

definition marked :: "memop list \<Rightarrow> nat \<Rightarrow> bool" where
  "marked ps i \<longleftrightarrow> (\<exists>j<length ps. i < j \<and> is_api_mark (ps ! j))"

lemma flushed_snoc:
  "i < length ps \<Longrightarrow> flushed cov (ps @ [x]) i \<longleftrightarrow> flushed cov ps i \<or> cov x (ps ! i)"
  by (auto simp: flushed_def Ex_less_Suc nth_append cong: conj_cong)

lemma flushed_last: "\<not> flushed cov (ps @ [x]) (length ps)"
  by (simp add: flushed_def)

lemma settled_snoc:
  assumes "i < length ps"
  shows "settled cov (ps @ [x]) i \<longleftrightarrow> settled cov ps i \<or> is_fence x \<and> flushed cov ps i"
proof
  assume "settled cov (ps @ [x]) i"
  then obtain n f where nf: "n < Suc (length ps)" "f < n" "i < f"
    "cov ((ps @ [x]) ! f) ((ps @ [x]) ! i)" "is_fence ((ps @ [x]) ! n)"
    by (auto simp: settled_def)
  then have "f < length ps" by simp
  with nf assms have cov: "cov (ps ! f) (ps ! i)" by (simp add: nth_append)
  show "settled cov ps i \<or> is_fence x \<and> flushed cov ps i"
  proof (cases "n = length ps")
    case True
    with nf cov \<open>f < length ps\<close> show ?thesis by (auto simp: flushed_def)
  next
    case False
    with nf have "n < length ps" "is_fence (ps ! n)" by (simp_all add: nth_append)
    with nf cov show ?thesis by (auto simp: settled_def)
  qed
next
  assume "settled cov ps i \<or> is_fence x \<and> flushed cov ps i"
  then show "settled cov (ps @ [x]) i"
  proof
    assume "settled cov ps i"
    then obtain n f where "n < length ps" "f < n" "i < f" "cov (ps ! f) (ps ! i)" "is_fence (ps ! n)"
      by (auto simp: settled_def)
    then show ?thesis
      unfolding settled_def by (intro exI [of _ n] conjI exI [of _ f]) (simp_all add: nth_append)
  next
    assume "is_fence x \<and> flushed cov ps i"
    then obtain f where "is_fence x" "f < length ps" "i < f" "cov (ps ! f) (ps ! i)"
      by (auto simp: flushed_def)
    with assms show ?thesis
      unfolding settled_def by (intro exI [of _ "length ps"] conjI exI [of _ f]) (simp_all add: nth_append)
  qed
qed

lemma settled_last: "\<not> settled cov (ps @ [x]) (length ps)"
  by (auto simp: settled_def)

lemma marked_snoc: "i < length ps \<Longrightarrow> marked (ps @ [x]) i \<longleftrightarrow> marked ps i \<or> is_api_mark x"
  by (auto simp: marked_def Ex_less_Suc nth_append cong: conj_cong)

lemma marked_last: "\<not> marked (ps @ [x]) (length ps)"
  by (simp add: marked_def)

lemma settled_flushed: "settled cov ps i \<Longrightarrow> flushed cov ps i"
  unfolding settled_def flushed_def by (meson less_trans)

lemmas after_snoc = flushed_snoc settled_snoc marked_snoc
lemmas after_last = flushed_last settled_last marked_last

section \<open>Selected operations\<close>

definition picks :: "(nat \<Rightarrow> memop \<Rightarrow> 'a list) \<Rightarrow> memop list \<Rightarrow> 'a list" where
  "picks g ps = concat (map (\<lambda>i. g i (ps ! i)) [0..<length ps])"

lemma picks_Nil [simp]: "picks g [] = []"
  by (simp add: picks_def)

lemma picks_cong:
  assumes "\<And>i. i < length ps \<Longrightarrow> g i (ps ! i) = h i (ps ! i)"
  shows "picks g ps = picks h ps"
proof -
  have "map (\<lambda>i. g i (ps ! i)) [0..<length ps] = map (\<lambda>i. h i (ps ! i)) [0..<length ps]"
    using assms by simp
  then show ?thesis by (simp only: picks_def)
qed

lemma picks_snoc: "picks g (ps @ [x]) = picks g ps @ g (length ps) x"
proof -
  have "map (\<lambda>i. g i ((ps @ [x]) ! i)) [0..<length ps] = map (\<lambda>i. g i (ps ! i)) [0..<length ps]"
    by (simp add: nth_append)
  then have "concat (map (\<lambda>i. g i ((ps @ [x]) ! i)) [0..<length ps]) = picks g ps"
    by (simp only: picks_def)
  then show ?thesis by (simp add: picks_def)
qed

lemma picks_Nil_if: "(\<And>i. i < length ps \<Longrightarrow> g i (ps ! i) = []) \<Longrightarrow> picks g ps = []"
  by (simp add: picks_def)

lemma picks_map: "map h (picks g ps) = picks (\<lambda>i x. map h (g i x)) ps"
  by (simp add: picks_def map_concat comp_def)

lemma picks_filter: "filter h (picks g ps) = picks (\<lambda>i x. filter h (g i x)) ps"
  by (simp add: picks_def filter_concat comp_def)

lemma set_picks: "set (picks g ps) = (\<Union>i<length ps. set (g i (ps ! i)))"
  by (auto simp: picks_def atLeast0LessThan)

text \<open>When the selected operations of one kind come before those of the other kind.\<close>

lemma picks_split:
  assumes "\<And>i j. i < j \<Longrightarrow> j < length ps \<Longrightarrow> g i (ps ! i) \<noteq> [] \<Longrightarrow> g j (ps ! j) \<noteq> [] \<Longrightarrow> P j \<Longrightarrow> P i"
  shows "picks g ps =
    picks (\<lambda>i x. if P i then g i x else []) ps @ picks (\<lambda>i x. if P i then [] else g i x) ps"
  using assms
proof (induction ps rule: rev_induct)
  case (snoc x ps)
  have "picks g ps = picks (\<lambda>i x. if P i then g i x else []) ps @ picks (\<lambda>i x. if P i then [] else g i x) ps"
  proof (rule snoc.IH)
    fix i j
    assume "i < j" "j < length ps" "g i (ps ! i) \<noteq> []" "g j (ps ! j) \<noteq> []" "P j"
    then show "P i" using snoc.prems [of i j] by (simp add: nth_append)
  qed
  moreover have "picks (\<lambda>i x. if P i then [] else g i x) ps = []" if "P (length ps)" "g (length ps) x \<noteq> []"
  proof (rule picks_Nil_if)
    fix i
    assume "i < length ps"
    then show "(if P i then [] else g i (ps ! i)) = []"
      using snoc.prems [of i "length ps"] that by (auto simp: nth_append)
  qed
  ultimately show ?case by (cases "g (length ps) x = []") (simp_all add: picks_snoc)
qed simp

section \<open>Images\<close>

definition line :: "store_op \<Rightarrow> int" where
  "line st = get_cacheline_address (s_address st)"

text \<open>A store that lies in the mapped file and in one cache line, with a byte for each address.\<close>

definition fits_in :: "int \<Rightarrow> nat \<Rightarrow> store_op \<Rightarrow> bool" where
  "fits_in base len st \<longleftrightarrow>
     0 \<le> s_address st \<and> s_address st < 2 ^ 53 \<and> base \<le> s_address st
     \<and> s_address st + s_size st \<le> base + int len \<and> s_size st = int (length (s_value_bytes st))
     \<and> s_address st mod 64 + s_size st \<le> 64"

definition fits :: "binary_file \<Rightarrow> store_op \<Rightarrow> bool" where
  "fits b st \<longleftrightarrow> fits_in (map_base b) (length (file_map b)) st"

definition clean :: "store_op \<Rightarrow> store_op" where
  "clean st = st\<lparr>s_flushing := 0\<rparr>"

lemma clean_simps [simp]:
  "clean (st\<lparr>s_flushing := n\<rparr>) = clean st" "clean (clean st) = clean st"
  "line (clean st) = line st" "line (st\<lparr>s_flushing := n\<rparr>) = line st"
  "fits b (clean st) = fits b st" "fits b (st\<lparr>s_flushing := n\<rparr>) = fits b st"
  "fits_in c n (clean st) = fits_in c n st" "fits_in c n (st\<lparr>s_flushing := m\<rparr>) = fits_in c n st"
  "do_store (clean st) b = do_store st b" "do_store (st\<lparr>s_flushing := n\<rparr>) b = do_store st b"
  by (simp_all add: clean_def line_def fits_def fits_in_def do_store_def)

lemma do_stores_clean: "do_stores (map clean sts) b = do_stores sts b"
  by (induction sts arbitrary: b) (simp_all add: bind_eq_Some_conv split: Option.bind_splits)

lemma line_eq: "fits_in c n st \<Longrightarrow> line st = 64 * (s_address st div 64)"
  by (simp add: line_def fits_in_def get_cacheline_address_eq)

lemma do_stores_append: "do_stores (xs @ ys) b = do { b' \<leftarrow> do_stores xs b; do_stores ys b' }"
proof (induction xs arbitrary: b)
  case (Cons x xs)
  then show ?case by (cases "do_store x b") simp_all
qed simp

definition off :: "binary_file \<Rightarrow> store_op \<Rightarrow> nat" where
  "off b st = nat (s_address st - map_base b)"

definition put :: "store_op \<Rightarrow> binary_file \<Rightarrow> binary_file" where
  "put st b = b\<lparr>file_map := take (off b st) (file_map b) @ s_value_bytes st
     @ drop (off b st + length (s_value_bytes st)) (file_map b)\<rparr>"

lemma do_store_put: "fits b st \<Longrightarrow> do_store st b = Some (put st b)"
  by (auto simp: do_store_def mmap_assign_def fits_def fits_in_def py_bound_def put_def off_def Let_def
      min_def nat_diff_distrib)

lemma put_simps [simp]:
  "map_base (put st b) = map_base b"
  "fits b st \<Longrightarrow> length (file_map (put st b)) = length (file_map b)"
  by (auto simp: put_def fits_def fits_in_def off_def)

lemma fits_put [simp]: "fits b st \<Longrightarrow> fits (put st b) = fits b"
  by (simp add: fits_def fun_eq_iff)

fun puts :: "store_op list \<Rightarrow> binary_file \<Rightarrow> binary_file" where
  "puts [] b = b"
| "puts (st # sts) b = puts sts (put st b)"

lemma do_stores_puts: "\<forall>st\<in>set sts. fits b st \<Longrightarrow> do_stores sts b = Some (puts sts b)"
  by (induction sts arbitrary: b) (simp_all add: do_store_put)

lemma puts_simps:
  "\<forall>st\<in>set sts. fits b st \<Longrightarrow> map_base (puts sts b) = map_base b
     \<and> length (file_map (puts sts b)) = length (file_map b) \<and> fits (puts sts b) = fits b"
  by (induction sts arbitrary: b) simp_all

lemma nth_put:
  assumes "fits b st" "q < length (file_map b)"
  shows "file_map (put st b) ! q =
    (if off b st \<le> q \<and> q < off b st + length (s_value_bytes st)
     then s_value_bytes st ! (q - off b st) else file_map b ! q)"
proof -
  have "off b st + length (s_value_bytes st) \<le> length (file_map b)"
    using assms(1) by (auto simp: fits_def fits_in_def off_def)
  with assms(2) show ?thesis by (auto simp: put_def nth_append)
qed

text \<open>A byte of the image depends on the stores of its line only.\<close>

definition on_line :: "int \<Rightarrow> store_op \<Rightarrow> bool" where
  "on_line k st \<longleftrightarrow> line st = k"

lemma put_other_line:
  assumes "fits b st" "q < length (file_map b)" "\<not> on_line (64 * ((map_base b + int q) div 64)) st"
  shows "file_map (put st b) ! q = file_map b ! q"
proof -
  have "\<not> (off b st \<le> q \<and> q < off b st + length (s_value_bytes st))"
  proof
    assume q: "off b st \<le> q \<and> q < off b st + length (s_value_bytes st)"
    from assms(1) have st: "map_base b \<le> s_address st" "s_size st = int (length (s_value_bytes st))"
      "s_address st mod 64 + s_size st \<le> 64" "line st = 64 * (s_address st div 64)"
      using line_eq by (auto simp: fits_def fits_in_def)
    from q st have "s_address st \<le> map_base b + int q" "map_base b + int q < s_address st + s_size st"
      by (auto simp: off_def)
    with st(3) mult_div_mod_eq [of 64 "s_address st"] pos_mod_sign [of 64 "s_address st"]
    have "(map_base b + int q) div 64 = s_address st div 64"
      by (intro int_div_pos_eq [where r = "map_base b + int q - 64 * (s_address st div 64)"]) linarith+
    with st(4) assms(3) show False by (simp add: on_line_def)
  qed
  with nth_put [OF assms(1,2)] show ?thesis by simp
qed

lemma puts_line:
  assumes "\<forall>st\<in>set sts. fits b st" "q < length (file_map b)"
  shows "file_map (puts sts b) ! q =
    file_map (puts (filter (on_line (64 * ((map_base b + int q) div 64))) sts) b) ! q"
  using assms
proof (induction sts arbitrary: b rule: rev_induct)
  case (snoc st sts)
  have app: "puts (xs @ [st]) b = put st (puts xs b)" for xs b
    by (induction xs arbitrary: b) simp_all
  let ?k = "64 * ((map_base b + int q) div 64)"
  let ?b = "puts sts b" and ?c = "puts (filter (on_line ?k) sts) b"
  have b: "map_base ?b = map_base b" "length (file_map ?b) = length (file_map b)" "fits ?b = fits b"
    "map_base ?c = map_base b" "length (file_map ?c) = length (file_map b)" "fits ?c = fits b"
    using snoc.prems(1) puts_simps [of sts b] puts_simps [of "filter (on_line ?k) sts" b] by auto
  have IH: "file_map ?b ! q = file_map ?c ! q" using snoc.prems by (intro snoc.IH) auto
  show ?case
  proof (cases "on_line ?k st")
    case True
    have "off ?b st = off ?c st" by (simp add: off_def b)
    with True snoc.prems IH show ?thesis by (simp add: app nth_put b)
  next
    case False
    with snoc.prems IH show ?thesis by (simp add: app put_other_line b)
  qed
qed simp

lemma puts_same_lines:
  assumes "\<forall>st\<in>set xs. fits b st" "\<forall>st\<in>set ys. fits b st"
    and "\<And>k. filter (on_line k) xs = filter (on_line k) ys"
  shows "puts xs b = puts ys b"
proof -
  have "file_map (puts xs b) = file_map (puts ys b)"
    using assms puts_simps [of xs b] puts_simps [of ys b] puts_line [of xs b] puts_line [of ys b]
    by (intro nth_equalityI) simp_all
  moreover have "map_base (puts xs b) = map_base (puts ys b)"
    using puts_simps [OF assms(1)] puts_simps [OF assms(2)] by simp
  ultimately show ?thesis by (intro binary_file.equality) simp_all
qed

lemma same_lines:
  assumes "\<forall>st\<in>set xs. fits b st" "\<forall>st\<in>set ys. fits b st"
    and "\<And>k. filter (on_line k) (map clean xs) = filter (on_line k) (map clean ys)"
  shows "do_stores xs b = do_stores ys b"
proof -
  have "do_stores (map clean xs) b = do_stores (map clean ys) b"
    using assms by (simp add: do_stores_puts puts_same_lines [of "map clean xs" b "map clean ys"])
  then show ?thesis by (simp add: do_stores_clean)
qed

section \<open>Selected stores\<close>

definition sel :: "(nat \<Rightarrow> store_op \<Rightarrow> bool) \<Rightarrow> (nat \<Rightarrow> store_op \<Rightarrow> store_op) \<Rightarrow> memop list \<Rightarrow> store_op list" where
  "sel P g ps = picks (\<lambda>i x. case x of MStore st \<Rightarrow> if P i st then [g i st] else [] | _ \<Rightarrow> []) ps"

lemma sel_Nil [simp]: "sel P g [] = []"
  by (simp add: sel_def)

lemma sel_snoc:
  "sel P g (ps @ [x]) = sel P g ps
     @ (case x of MStore st \<Rightarrow> if P (length ps) st then [g (length ps) st] else [] | _ \<Rightarrow> [])"
  by (simp add: sel_def picks_snoc)

lemma sel_cong:
  assumes "\<And>i st. i < length ps \<Longrightarrow> ps ! i = MStore st \<Longrightarrow> P i st = Q i st \<and> (P i st \<longrightarrow> g i st = h i st)"
  shows "sel P g ps = sel Q h ps"
  unfolding sel_def using assms by (intro picks_cong) (auto split: memop.splits)

lemma sel_map: "map f (sel P g ps) = sel P (\<lambda>i st. f (g i st)) ps"
  unfolding sel_def picks_map by (intro picks_cong) (auto split: memop.splits)

lemma sel_filter: "filter Q (sel P g ps) = sel (\<lambda>i st. P i st \<and> Q (g i st)) g ps"
  unfolding sel_def picks_filter by (intro picks_cong) (auto split: memop.splits)

lemma sel_none:
  "(\<And>i st. i < length ps \<Longrightarrow> ps ! i = MStore st \<Longrightarrow> \<not> P i st) \<Longrightarrow> sel P g ps = []"
  unfolding sel_def by (intro picks_Nil_if) (auto split: memop.splits)

lemma sel_split:
  assumes "\<And>i j a c. i < j \<Longrightarrow> j < length ps \<Longrightarrow> ps ! i = MStore a \<Longrightarrow> ps ! j = MStore c
      \<Longrightarrow> P i a \<Longrightarrow> P j c \<Longrightarrow> R j \<Longrightarrow> R i"
  shows "sel P g ps = sel (\<lambda>i st. P i st \<and> R i) g ps @ sel (\<lambda>i st. P i st \<and> \<not> R i) g ps"
proof -
  let ?h = "\<lambda>i x. case x of MStore st \<Rightarrow> if P i st then [g i st] else [] | _ \<Rightarrow> []"
  have "picks ?h ps = picks (\<lambda>i x. if R i then ?h i x else []) ps @ picks (\<lambda>i x. if R i then [] else ?h i x) ps"
    using assms by (intro picks_split) (auto split: memop.splits if_splits)
  moreover have "picks (\<lambda>i x. if R i then ?h i x else []) ps = sel (\<lambda>i st. P i st \<and> R i) g ps"
    "picks (\<lambda>i x. if R i then [] else ?h i x) ps = sel (\<lambda>i st. P i st \<and> \<not> R i) g ps"
    unfolding sel_def by (intro picks_cong; auto split: memop.splits)+
  ultimately show ?thesis by (simp add: sel_def)
qed

lemma set_sel: "set (sel P g ps) = {g i st |i st. i < length ps \<and> ps ! i = MStore st \<and> P i st}"
proof (intro set_eqI iffI)
  fix y
  assume "y \<in> set (sel P g ps)"
  then show "y \<in> {g i st |i st. i < length ps \<and> ps ! i = MStore st \<and> P i st}"
    by (auto simp: sel_def set_picks split: memop.splits if_splits) metis
next
  fix y
  assume "y \<in> {g i st |i st. i < length ps \<and> ps ! i = MStore st \<and> P i st}"
  then obtain i st where "y = g i st" "i < length ps" "ps ! i = MStore st" "P i st" by blast
  then show "y \<in> set (sel P g ps)"
    unfolding sel_def set_picks by (intro UN_I [of i]) auto
qed

section \<open>Stores of a line\<close>

fun covers_line :: "memop \<Rightarrow> memop \<Rightarrow> bool" where
  "covers_line (MFlush f) (MStore st) = (f_address f = line st)"
| "covers_line _ _ = False"

definition persisted :: "memop list \<Rightarrow> nat \<Rightarrow> bool" where
  "persisted ps i \<longleftrightarrow> settled covers_line ps i \<or> marked ps i"

definition pending :: "int \<Rightarrow> memop list \<Rightarrow> store_op list" where
  "pending k ps = sel (\<lambda>i st. line st = k \<and> \<not> persisted ps i)
     (\<lambda>i st. st\<lparr>s_flushing := if flushed covers_line ps i then 1 else 0\<rparr>) ps"

definition durable :: "int \<Rightarrow> memop list \<Rightarrow> store_op list" where
  "durable k ps = sel (\<lambda>i st. line st = k \<and> persisted ps i) (\<lambda>i. clean) ps"

definition line_stores :: "int \<Rightarrow> memop list \<Rightarrow> store_op list" where
  "line_stores k ps = sel (\<lambda>i st. line st = k) (\<lambda>i. clean) ps"

lemma persisted_snoc:
  "i < length ps \<Longrightarrow> persisted (ps @ [x]) i \<longleftrightarrow>
     persisted ps i \<or> is_fence x \<and> flushed covers_line ps i \<or> is_api_mark x"
  by (auto simp: persisted_def after_snoc)

lemma persisted_last: "\<not> persisted (ps @ [x]) (length ps)"
  by (simp add: persisted_def after_last)

lemma covers_line_same:
  "line a = line c \<Longrightarrow> covers_line x (MStore a) = covers_line x (MStore c)"
  by (cases x) simp_all

lemma flushed_down:
  assumes "i < j" "ps ! i = MStore a" "ps ! j = MStore c" "line a = line c" "flushed covers_line ps j"
  shows "flushed covers_line ps i"
proof -
  from assms(5) obtain f where "f < length ps" "j < f" "covers_line (ps ! f) (ps ! j)"
    by (auto simp: flushed_def)
  with assms(1-3) covers_line_same [OF assms(4)] show ?thesis
    unfolding flushed_def by (intro exI [of _ f]) simp
qed

lemma persisted_down:
  assumes "i < j" "ps ! i = MStore a" "ps ! j = MStore c" "line a = line c" "persisted ps j"
  shows "persisted ps i"
proof (cases "marked ps j")
  case True
  with assms(1) show ?thesis by (auto simp: persisted_def marked_def)
next
  case False
  with assms(5) obtain n f where "n < length ps" "f < n" "j < f" "covers_line (ps ! f) (ps ! j)" "is_fence (ps ! n)"
    by (auto simp: persisted_def settled_def)
  with assms(1-3) covers_line_same [OF assms(4)] have "settled covers_line ps i"
    unfolding settled_def by (intro exI [of _ n] conjI exI [of _ f]) simp_all
  then show ?thesis by (simp add: persisted_def)
qed

lemma line_stores_split: "line_stores k ps = durable k ps @ map clean (pending k ps)"
  unfolding line_stores_def durable_def pending_def sel_map clean_simps
  by (rule sel_split, erule (2) persisted_down) simp_all

lemma set_pending:
  "st \<in> set (pending k ps) \<Longrightarrow> line st = k \<and> (s_flushing st = 0 \<or> s_flushing st = 1)
     \<and> (\<exists>st'. MStore st' \<in> set ps \<and> clean st' = clean st)"
  unfolding pending_def set_sel by (force simp: in_set_conv_nth)

lemma pending_Store:
  assumes "s_flushing st = 0"
  shows "pending k (ps @ [MStore st]) = pending k ps @ (if line st = k then [st] else [])"
proof -
  have "st\<lparr>s_flushing := 0\<rparr> = st" using assms by simp
  then show ?thesis
    unfolding pending_def sel_snoc
    by (auto simp: after_last persisted_last after_snoc persisted_snoc intro!: sel_cong)
qed

lemma pending_Flush:
  "pending k (ps @ [MFlush f]) =
     (if f_address f = k then map (\<lambda>st. st\<lparr>s_flushing := 1\<rparr>) (pending k ps) else pending k ps)"
  unfolding pending_def sel_snoc sel_map
  by (auto simp: after_snoc persisted_snoc intro!: sel_cong)

lemma pending_Fence:
  "pending k (ps @ [MFence b]) = filter (\<lambda>st. s_flushing st = 0) (pending k ps)"
  unfolding pending_def sel_snoc sel_filter
  by (auto simp: after_snoc persisted_snoc intro!: sel_cong)

lemma pending_mark: "is_api_mark x \<Longrightarrow> pending k (ps @ [x]) = []"
  unfolding pending_def sel_snoc
  by (auto simp: after_snoc persisted_snoc intro!: sel_none split: memop.splits)

lemma durable_quiet:
  assumes "\<not> is_fence x" "\<not> is_api_mark x"
  shows "durable k (ps @ [x]) = durable k ps"
  unfolding durable_def sel_snoc using assms
  by (auto simp: after_snoc persisted_snoc persisted_last intro!: sel_cong split: memop.splits)

text \<open>What a step makes durable was pending before it.\<close>

lemma durable_grows:
  assumes "\<And>st. x \<noteq> MStore st"
  shows "durable k ps @ map clean (pending k ps) = durable k (ps @ [x]) @ map clean (pending k (ps @ [x]))"
  using assms unfolding line_stores_split [symmetric] line_stores_def sel_snoc
  by (auto split: memop.splits)

lemma durable_mark: "is_api_mark x \<Longrightarrow> durable k (ps @ [x]) = durable k ps @ map clean (pending k ps)"
  using durable_grows [of x k ps] by (cases x) (simp_all add: pending_mark)

lemma pending_split:
  "map clean (pending k ps) = map clean (filter (\<lambda>st. s_flushing st = 1) (pending k ps))
     @ map clean (filter (\<lambda>st. s_flushing st = 0) (pending k ps))"
proof -
  let ?g = "\<lambda>i st. st\<lparr>s_flushing := if flushed covers_line ps i then 1 else 0\<rparr>"
  have "pending k ps = sel (\<lambda>i st. (line st = k \<and> \<not> persisted ps i) \<and> flushed covers_line ps i) ?g ps
      @ sel (\<lambda>i st. (line st = k \<and> \<not> persisted ps i) \<and> \<not> flushed covers_line ps i) ?g ps"
    unfolding pending_def by (rule sel_split, erule (2) flushed_down) simp_all
  also have "\<dots> = filter (\<lambda>st. s_flushing st = 1) (pending k ps) @ filter (\<lambda>st. s_flushing st = 0) (pending k ps)"
    unfolding pending_def sel_filter by (intro arg_cong2 [where f = append] sel_cong) auto
  finally show ?thesis by (metis map_append)
qed

lemma durable_Fence:
  "durable k (ps @ [MFence b]) =
     durable k ps @ map clean (filter (\<lambda>st. s_flushing st = 1) (pending k ps))"
  using durable_grows [of "MFence b" k ps] by (simp add: pending_Fence pending_split [of k ps] del: map_append)

end
