(* ===== verification/Replay_Witcher.thy ===== *)
theory Replay_Witcher
  imports Replay_Correct
begin

text \<open>
  The cache of the last-store validator (\<open>lib/witchercache.py\<close>) simulates the lines of the trace: a
  line holds the stores that are not persisted, in order and with the right flags, and the file holds
  the persisted ones. From this come the crash images.
\<close>

section \<open>The dictionary of lines\<close>

definition at :: "(int \<times> store_op list) list \<Rightarrow> int \<Rightarrow> store_op list" where
  "at ls k = (case map_of ls k of None \<Rightarrow> [] | Some sts \<Rightarrow> sts)"

lemma at_simps [simp]:
  "at [] k = []" "at ((j, sts) # ls) k = (if j = k then sts else at ls k)"
  by (simp_all add: at_def)

lemma at_absent: "k \<notin> fst ` set ls \<Longrightarrow> at ls k = []"
  by (induction ls) auto

lemma at_in: "distinct (map fst ls) \<Longrightarrow> (k, sts) \<in> set ls \<Longrightarrow> at ls k = sts"
  by (simp add: at_def)

lemma at_append_new: "k \<notin> fst ` set ls \<Longrightarrow> at (ls @ [(k, [])]) = at ls"
  by (rule ext, induction ls) auto

lemma at_map: "f [] = [] \<Longrightarrow> at (map (apsnd f) ls) k = f (at ls k)"
  by (induction ls) auto

lemma at_nonempty:
  "distinct (map fst ls) \<Longrightarrow> at (filter (\<lambda>(k, sts). sts \<noteq> []) ls) k = at ls k"
proof (induction ls)
  case (Cons x ls)
  obtain j sts where "x = (j, sts)" by (cases x)
  moreover from this Cons.prems have "at ls j = []" by (intro at_absent) simp
  ultimately show ?case using Cons by auto
qed simp

lemma concat_lines:
  assumes "distinct (map fst ls)" "\<And>j st. st \<in> set (at ls j) \<Longrightarrow> line st = j"
  shows "filter (on_line k) (concat (map snd ls)) = at ls k"
  using assms
proof (induction ls)
  case (Cons x ls)
  obtain j sts where x: "x = (j, sts)" by (cases x)
  have sts: "\<forall>st\<in>set sts. line st = j" using Cons.prems(2) [of _ j] by (simp add: x)
  have j: "at ls j = []" using Cons.prems(1) by (intro at_absent) (simp add: x)
  have "line st = i" if "st \<in> set (at ls i)" for i st
    using Cons.prems(2) [of st i] that j by (cases "i = j") (auto simp: x)
  with Cons have IH: "filter (on_line k) (concat (map snd ls)) = at ls k" by simp
  have "filter (on_line k) sts = (if j = k then sts else [])"
    using sts by (auto simp: on_line_def filter_id_conv)
  with IH j show ?case by (auto simp: x)
qed simp

lemma set_concat_lines:
  assumes "distinct (map fst ls)" "st \<in> set (concat (map snd ls))"
  shows "\<exists>k. st \<in> set (at ls k)"
proof -
  from assms(2) obtain k sts where "(k, sts) \<in> set ls" "st \<in> set sts" by auto
  with at_in [OF assms(1)] show ?thesis by metis
qed

lemma get_cacheline:
  assumes "get_cacheline_from_address a w = (sts, w')" "distinct (map fst (cacheline_dict w))"
  shows "sts = at (cacheline_dict w) (get_cacheline_address a)"
    and "at (cacheline_dict w') = at (cacheline_dict w)" and "w_file w' = w_file w"
    and "distinct (map fst (cacheline_dict w'))"
    and "get_cacheline_address a \<in> fst ` set (cacheline_dict w')"
proof -
  let ?k = "get_cacheline_address a" and ?ls = "cacheline_dict w"
  have "sts = at ?ls ?k \<and> at (cacheline_dict w') = at ?ls \<and> w_file w' = w_file w
    \<and> distinct (map fst (cacheline_dict w')) \<and> ?k \<in> fst ` set (cacheline_dict w')"
  proof (cases "map_of ?ls ?k")
    case None
    then have "?k \<notin> fst ` set ?ls" by (simp add: map_of_eq_None_iff)
    with None assms show ?thesis
      by (auto simp: get_cacheline_from_address_def at_absent at_append_new)
  next
    case (Some xs)
    then have "(?k, xs) \<in> set ?ls" by (rule map_of_SomeD)
    moreover from Some assms(1) have "sts = xs" "w' = w" by (simp_all add: get_cacheline_from_address_def)
    ultimately show ?thesis using assms(2) at_in by (metis fst_conv image_eqI)
  qed
  then show "sts = at ?ls ?k" "at (cacheline_dict w') = at ?ls" "w_file w' = w_file w"
    "distinct (map fst (cacheline_dict w'))" "?k \<in> fst ` set (cacheline_dict w')" by simp_all
qed

lemma set_line_simps:
  "w_file (set_line k sts w) = w_file w"
  "map fst (cacheline_dict (set_line k sts w)) = map fst (cacheline_dict w)"
  by (simp_all add: set_line_def comp_def split_def)

lemma at_set_line:
  assumes "k \<in> fst ` set (cacheline_dict w)"
  shows "at (cacheline_dict (set_line k sts w)) j = (if j = k then sts else at (cacheline_dict w) j)"
proof -
  have "at (map (\<lambda>(k', xs). (k', if k' = k then sts else xs)) ls) j =
      (if j = k \<and> k \<in> fst ` set ls then sts else at ls j)" for ls
    by (induction ls) force+
  with assms show ?thesis by (simp add: set_line_def)
qed

section \<open>Writing back\<close>

definition flags_ok :: "store_op list \<Rightarrow> bool" where
  "flags_ok sts \<longleftrightarrow> (\<forall>st\<in>set sts. s_flushing st = 0 \<or> s_flushing st = 1)"

abbreviation flushing_of :: "store_op list \<Rightarrow> store_op list" where
  "flushing_of \<equiv> filter (\<lambda>st. s_flushing st = 1)"

abbreviation clear_of :: "store_op list \<Rightarrow> store_op list" where
  "clear_of \<equiv> filter (\<lambda>st. s_flushing st = 0)"

lemma puts_append: "puts (xs @ ys) b = puts ys (puts xs b)"
  by (induction xs arbitrary: b) simp_all

lemma accept_flush_line:
  "flags_ok sts \<Longrightarrow> map_opt store_accept_flush sts = Some (map (\<lambda>st. st\<lparr>s_flushing := 1\<rparr>) sts)"
  by (induction sts) (auto simp: store_accept_flush_def flags_ok_def)

lemma line_write_back_flushing_eq:
  assumes "flags_ok sts" "\<forall>st\<in>set sts. fits b st"
  shows "line_write_back_flushing sts b = Some (clear_of sts, puts (flushing_of sts) b)"
  using assms
  by (induction sts arbitrary: b) (auto simp: do_store_put store_accept_fence_def flags_ok_def)

lemma line_write_back_all_eq:
  assumes "flags_ok sts" "\<forall>st\<in>set sts. fits b st"
  shows "line_write_back_all sts b = Some (puts sts b)"
  using assms
  by (induction sts arbitrary: b) (auto simp: do_store_put store_accept_fence_def flags_ok_def)

lemma write_back_lines_eq:
  assumes "\<forall>(k, sts)\<in>set ls. flags_ok sts \<and> (\<forall>st\<in>set sts. fits b st)"
  shows "write_back_lines ls b =
    Some (map (apsnd clear_of) ls, puts (concat (map (\<lambda>(k, sts). flushing_of sts) ls)) b)"
  using assms
proof (induction ls arbitrary: b)
  case (Cons x ls)
  obtain k sts where x: "x = (k, sts)" by (cases x)
  have "fits (puts (flushing_of sts) b) = fits b"
    using Cons.prems puts_simps [of "flushing_of sts" b] by (auto simp: x)
  with Cons show ?case
    by (auto simp: x line_write_back_flushing_eq puts_append)
qed simp

lemma write_back_all_lines_eq:
  assumes "\<forall>(k, sts)\<in>set ls. flags_ok sts \<and> (\<forall>st\<in>set sts. fits b st)"
  shows "write_back_all_lines ls b = Some (puts (concat (map snd ls)) b)"
  using assms
proof (induction ls arbitrary: b)
  case (Cons x ls)
  obtain k sts where x: "x = (k, sts)" by (cases x)
  have "fits (puts sts b) = fits b"
    using Cons.prems puts_simps [of sts b] by (auto simp: x)
  with Cons show ?case
    by (auto simp: x line_write_back_all_eq puts_append)
qed simp

section \<open>The simulation\<close>

text \<open>What the reader promises of the operations of a trace in its persistent mode.\<close>

fun op_ok :: "binary_file \<Rightarrow> memop \<Rightarrow> bool" where
  "op_ok b (MStore st) \<longleftrightarrow> fits b st \<and> s_flushing st = 0"
| "op_ok b (MFlush f) \<longleftrightarrow> 0 \<le> f_address f \<and> f_address f < 2 ^ 53 \<and> f_address f mod 64 = 0 \<and> f_size f = 64"
| "op_ok b _ \<longleftrightarrow> True"

definition replays :: "binary_file \<Rightarrow> memop list \<Rightarrow> witcher_cache \<Rightarrow> bool" where
  "replays b ps w \<longleftrightarrow>
     distinct (map fst (cacheline_dict w)) \<and> (\<forall>k. at (cacheline_dict w) k = pending k ps)
     \<and> (\<exists>sts. w_file w = puts sts b \<and> (\<forall>st\<in>set sts. fits b st)
          \<and> (\<forall>k. filter (on_line k) (map clean sts) = durable k ps))"

lemma pending_ok:
  assumes "\<forall>x\<in>set ps. op_ok b x" "st \<in> set (pending k ps)"
  shows "fits b st" "line st = k" "s_flushing st = 0 \<or> s_flushing st = 1"
proof -
  from set_pending [OF assms(2)] obtain st' where st': "MStore st' \<in> set ps" "clean st' = clean st"
    "line st = k" "s_flushing st = 0 \<or> s_flushing st = 1" by auto
  from st'(1) assms(1) have "fits b st'" by force
  then have "fits b (clean st')" by simp
  with st'(2) show "fits b st" by simp
  show "line st = k" "s_flushing st = 0 \<or> s_flushing st = 1" using st' by simp_all
qed

lemma replays_lines:
  assumes "replays b ps w" "\<forall>x\<in>set ps. op_ok b x"
  shows "\<forall>(k, sts)\<in>set (cacheline_dict w). flags_ok sts \<and> (\<forall>st\<in>set sts. fits b st)"
proof clarify
  fix k sts
  assume "(k, sts) \<in> set (cacheline_dict w)"
  with assms(1) have "sts = pending k ps" using at_in by (metis replays_def)
  with pending_ok [OF assms(2)] show "flags_ok sts \<and> (\<forall>st\<in>set sts. fits b st)"
    by (simp add: flags_ok_def)
qed

lemma replays_start: "replays b [] \<lparr>cacheline_dict = [], w_file = b\<rparr>"
  by (auto simp: replays_def pending_def durable_def intro: exI [of _ "[]"])

lemma fits_can_accept:
  assumes "fits b st"
  shows "can_accept_store_op (line st) st"
proof -
  from assms have "line st = 64 * (s_address st div 64)" "s_address st mod 64 + s_size st \<le> 64"
    using line_eq by (auto simp: fits_def fits_in_def)
  with mult_div_mod_eq [of 64 "s_address st"] pos_mod_sign [of 64 "s_address st"]
  show ?thesis unfolding can_accept_store_op_def CACHELINE_BYTES_def by linarith
qed

lemma replays_quiet:
  assumes "replays b ps w" "\<not> is_fence x" "\<not> is_api_mark x" "w_file w' = w_file w"
    and "distinct (map fst (cacheline_dict w'))" "\<And>k. at (cacheline_dict w') k = pending k (ps @ [x])"
  shows "replays b (ps @ [x]) w'"
  using assms by (simp add: replays_def durable_quiet)

lemma step_Store:
  assumes "replays b ps w" "op_ok b (MStore st)"
  shows "\<exists>w'. run_step (MStore st) w = Some w' \<and> replays b (ps @ [MStore st]) w'"
proof -
  obtain sts w1 where g: "get_cacheline_from_address (s_address st) w = (sts, w1)"
    by (cases "get_cacheline_from_address (s_address st) w")
  note g' = get_cacheline [OF g, folded line_def]
  have d: "distinct (map fst (cacheline_dict w))" and p: "\<And>k. at (cacheline_dict w) k = pending k ps"
    using assms(1) by (simp_all add: replays_def)
  let ?w = "set_line (line st) (sts @ [st]) w1"
  have "run_step (MStore st) w = Some ?w"
    using assms(2) fits_can_accept [of b st]
    by (simp add: run_step_def witcher_accept_store_def Let_def g line_def [symmetric])
  moreover have "replays b (ps @ [MStore st]) ?w"
    using assms(2) g' [OF d]
    by (intro replays_quiet [OF assms(1)]) (simp_all add: set_line_simps at_set_line p pending_Store)
  ultimately show ?thesis by blast
qed

lemma step_Flush:
  assumes "replays b ps w" "\<forall>x\<in>set ps. op_ok b x" "op_ok b (MFlush f)"
  shows "\<exists>w'. run_step (MFlush f) w = Some w' \<and> replays b (ps @ [MFlush f]) w'"
proof -
  obtain sts w1 where g: "get_cacheline_from_address (f_address f) w = (sts, w1)"
    by (cases "get_cacheline_from_address (f_address f) w")
  have k: "get_cacheline_address (f_address f) = f_address f"
    using assms(3) mult_div_mod_eq [of 64 "f_address f"] by (simp add: get_cacheline_address_eq)
  note g' = get_cacheline [OF g, unfolded k]
  have d: "distinct (map fst (cacheline_dict w))" and p: "\<And>k. at (cacheline_dict w) k = pending k ps"
    using assms(1) by (simp_all add: replays_def)
  have fl: "flags_ok sts"
    using pending_ok(3) [OF assms(2)] g'(1) [OF d] p by (auto simp: flags_ok_def)
  let ?w = "set_line (f_address f) (map (\<lambda>st. st\<lparr>s_flushing := 1\<rparr>) sts) w1"
  have "run_step (MFlush f) w = Some ?w"
    using assms(3) by (simp add: run_step_def witcher_accept_flush_def g k can_accept_flush_op_def
        CACHELINE_BYTES_def accept_flush_line [OF fl])
  moreover have "replays b (ps @ [MFlush f]) ?w"
    using g' [OF d]
    by (intro replays_quiet [OF assms(1)]) (simp_all add: set_line_simps at_set_line p pending_Flush)
  ultimately show ?thesis by blast
qed

text \<open>Writing back some of the stores of each line.\<close>

lemma replays_write:
  assumes r: "replays b ps w" and ok: "\<forall>x\<in>set ps. op_ok b x"
    and P: "\<And>k. pending k (ps @ [x]) = filter (\<lambda>st. \<not> P st) (pending k ps)"
      "\<And>k. durable k (ps @ [x]) = durable k ps @ map clean (filter P (pending k ps))"
    and w': "w_file w' = puts (concat (map (\<lambda>(k, sts). filter P sts) (cacheline_dict w))) (w_file w)"
      "distinct (map fst (cacheline_dict w'))"
      "\<And>k. at (cacheline_dict w') k = filter (\<lambda>st. \<not> P st) (at (cacheline_dict w) k)"
  shows "replays b (ps @ [x]) w'"
proof -
  let ?ls = "map (apsnd (filter P)) (cacheline_dict w)"
  have d: "distinct (map fst ?ls)" and p: "\<And>k. at (cacheline_dict w) k = pending k ps"
    using r by (simp_all add: replays_def comp_def)
  have at: "at ?ls k = filter P (pending k ps)" for k by (simp add: at_map p)
  from r obtain sts where sts: "w_file w = puts sts b" "\<forall>st\<in>set sts. fits b st"
    "\<And>k. filter (on_line k) (map clean sts) = durable k ps"
    by (auto simp: replays_def)
  let ?new = "concat (map snd ?ls)"
  have new: "filter (on_line k) (map clean ?new) = map clean (filter P (pending k ps))" for k
  proof -
    have "filter (on_line k) (map clean ?new) = map clean (filter (on_line k) ?new)"
      by (simp add: filter_map comp_def on_line_def [abs_def])
    also have "filter (on_line k) ?new = at ?ls k"
      using pending_ok(2) [OF ok] by (intro concat_lines [OF d]) (simp add: at)
    finally show ?thesis by (simp add: at)
  qed
  have "\<forall>st\<in>set ?new. fits b st"
    using set_concat_lines [OF d] pending_ok(1) [OF ok] by (fastforce simp: at)
  moreover have "w_file w' = puts (sts @ ?new) b"
    using w'(1) sts(1) by (simp add: puts_append comp_def split_def)
  ultimately show ?thesis
    using sts w'(2,3) p P new unfolding replays_def
    by (intro conjI allI exI [of _ "sts @ ?new"]) (auto simp del: map_concat)
qed

lemma step_Fence:
  assumes "replays b ps w" "\<forall>x\<in>set ps. op_ok b x"
  shows "\<exists>w'. run_step (MFence a) w = Some w' \<and> replays b (ps @ [MFence a]) w'"
proof -
  let ?ls = "cacheline_dict w"
  let ?w = "w\<lparr>cacheline_dict := filter (\<lambda>(k, sts). sts \<noteq> []) (map (apsnd clear_of) ?ls),
    w_file := puts (concat (map (\<lambda>(k, sts). flushing_of sts) ?ls)) (w_file w)\<rparr>"
  have d: "distinct (map fst (map (apsnd clear_of) ?ls))" and p: "\<And>k. at ?ls k = pending k ps"
    using assms(1) by (simp_all add: replays_def comp_def)
  from assms(1) obtain sts where "w_file w = puts sts b" "\<forall>st\<in>set sts. fits b st" by (auto simp: replays_def)
  then have "fits (w_file w) = fits b" using puts_simps [of sts b] by simp
  with replays_lines [OF assms] have "run_step (MFence a) w = Some ?w"
    by (simp add: run_step_def witcher_write_back_all_flushing_stores_def write_back_lines_eq)
  moreover have "clear_of (pending k ps) = filter (\<lambda>st. \<not> s_flushing st = 1) (pending k ps)" for k
    using pending_ok(3) [OF assms(2)] by (intro filter_cong) auto
  then have "replays b (ps @ [MFence a]) ?w"
    using d
    by (intro replays_write [OF assms, where P = "\<lambda>st. s_flushing st = 1"])
      (simp_all add: pending_Fence durable_Fence at_nonempty at_map p distinct_map_filter)
  ultimately show ?thesis by blast
qed

lemma step_mark:
  assumes "replays b ps w" "\<forall>x\<in>set ps. op_ok b x" "is_api_mark x"
  shows "\<exists>w'. run_step x w = Some w' \<and> replays b (ps @ [x]) w'"
proof -
  let ?w = "w\<lparr>cacheline_dict := [], w_file := puts (concat (map snd (cacheline_dict w))) (w_file w)\<rparr>"
  from assms(1) obtain sts where "w_file w = puts sts b" "\<forall>st\<in>set sts. fits b st" by (auto simp: replays_def)
  then have "fits (w_file w) = fits b" using puts_simps [of sts b] by simp
  with replays_lines [OF assms(1,2)] have "witcher_write_back_all_stores w = Some ?w"
    by (simp add: witcher_write_back_all_stores_def write_back_all_lines_eq)
  with assms(3) have "run_step x w = Some ?w" by (cases x) (simp_all add: run_step_def)
  moreover have "replays b (ps @ [x]) ?w"
    using assms(3)
    by (intro replays_write [OF assms(1,2), where P = "\<lambda>st. True"])
      (simp_all add: pending_mark durable_mark split_def comp_def)
  ultimately show ?thesis by blast
qed

lemma run_step_replays:
  assumes "replays b ps w" "\<forall>x\<in>set ps. op_ok b x" "op_ok b x"
  shows "\<exists>w'. run_step x w = Some w' \<and> replays b (ps @ [x]) w'"
proof -
  have other: "run_step x w = Some w \<and> replays b (ps @ [x]) w"
    if "run_step x w = Some w" "\<not> is_fence x" "\<not> is_api_mark x" "\<And>k. pending k (ps @ [x]) = pending k ps"
    using that replays_quiet [OF assms(1), of x w] assms(1) by (simp add: replays_def)
  have quiet: "pending k (ps @ [x]) = pending k ps"
    if "\<not> is_fence x" "\<not> is_api_mark x" "\<And>f. x \<noteq> MFlush f" "\<And>st. x \<noteq> MStore st" for k
    unfolding pending_def sel_snoc using that
    by (cases x) (auto simp: after_snoc persisted_snoc intro!: sel_cong)
  show ?thesis
  proof (cases x)
    case (MStore st)
    with step_Store [OF assms(1)] assms(3) show ?thesis by simp
  next
    case (MFlush f)
    with step_Flush [OF assms(1,2)] assms(3) show ?thesis by simp
  next
    case (MFence a)
    with step_Fence [OF assms(1,2)] show ?thesis by simp
  next
    case (MAPIBegin a)
    then show ?thesis by (intro step_mark [OF assms(1,2)]) simp
  next
    case (MAPIEnd a)
    then show ?thesis by (intro step_mark [OF assms(1,2)]) simp
  qed (use other quiet in \<open>simp_all add: run_step_def\<close>)
qed

section \<open>Crash images\<close>

definition stores_where :: "(nat \<Rightarrow> store_op \<Rightarrow> bool) \<Rightarrow> memop list \<Rightarrow> store_op list" where
  "stores_where P ps = sel P (\<lambda>i st. st) ps"

text \<open>All stores of the trace so far; and the persisted ones with those of the line of \<open>st\<close>, then \<open>st\<close>.\<close>

definition image_all :: "binary_file \<Rightarrow> memop list \<Rightarrow> u8 list" where
  "image_all b ps = file_map (puts (stores_where (\<lambda>i st. True) ps) b)"

definition image_line :: "binary_file \<Rightarrow> memop list \<Rightarrow> store_op \<Rightarrow> u8 list" where
  "image_line b ps st =
     file_map (puts (stores_where (\<lambda>i st'. persisted ps i \<or> line st' = line st) ps @ [st]) b)"

lemma stores_where_fits:
  "\<forall>x\<in>set ps. op_ok b x \<Longrightarrow> st \<in> set (stores_where P ps) \<Longrightarrow> fits b st"
  unfolding stores_where_def set_sel by (force simp: in_set_conv_nth)

lemma stores_where_line:
  "filter (on_line k) (map clean (stores_where P ps)) = sel (\<lambda>i st. P i st \<and> line st = k) (\<lambda>i. clean) ps"
  by (simp add: stores_where_def sel_map sel_filter on_line_def)

lemma replays_file:
  assumes "replays b ps w"
  shows "\<exists>sts. w_file w = puts sts b \<and> (\<forall>st\<in>set sts. fits b st)
    \<and> (\<forall>k. filter (on_line k) (map clean sts) = durable k ps) \<and> fits (w_file w) = fits b"
proof -
  from assms obtain sts where "w_file w = puts sts b" "\<forall>st\<in>set sts. fits b st"
    "\<forall>k. filter (on_line k) (map clean sts) = durable k ps"
    by (auto simp: replays_def)
  with puts_simps [of sts b] show ?thesis by auto
qed

lemma puts_as:
  assumes "\<forall>st\<in>set xs. fits b st" "\<forall>st\<in>set ys. fits b st"
    and "\<And>k. filter (on_line k) (map clean xs) = filter (on_line k) (map clean ys)"
  shows "puts xs b = puts ys b"
  using same_lines [OF assms] by (simp add: do_stores_puts assms(1,2))

lemma crash_image_0_eq:
  assumes r: "replays b ps w" and ok: "\<forall>x\<in>set ps. op_ok b x"
  shows "crash_image_0 w = Some (image_all b ps)"
proof -
  obtain sts where sts: "w_file w = puts sts b" "\<forall>st\<in>set sts. fits b st"
    "\<And>k. filter (on_line k) (map clean sts) = durable k ps" "fits (w_file w) = fits b"
    using replays_file [OF r] by auto
  let ?new = "concat (map snd (cacheline_dict w))"
  have d: "distinct (map fst (cacheline_dict w))" and p: "\<And>k. at (cacheline_dict w) k = pending k ps"
    using r by (simp_all add: replays_def)
  have new: "filter (on_line k) ?new = pending k ps" for k
    unfolding p [symmetric] using pending_ok(2) [OF ok] by (intro concat_lines [OF d]) (simp add: p)
  have fits: "\<forall>st\<in>set ?new. fits b st"
    using set_concat_lines [OF d] pending_ok(1) [OF ok] by (fastforce simp: p)
  have "filter (on_line k) (map clean ?new) = map clean (filter (on_line k) ?new)" for k
    by (simp add: filter_map comp_def on_line_def [abs_def])
  then have "puts (sts @ ?new) b = puts (stores_where (\<lambda>i st. True) ps) b"
    using sts fits stores_where_fits [OF ok]
    by (intro puts_as) (auto simp: stores_where_line new line_stores_split [symmetric] line_stores_def simp del: map_concat)
  with sts fits show ?thesis
    by (simp add: crash_image_0_def do_stores_puts image_all_def puts_append)
qed

lemma crash_image_1_eq:
  assumes r: "replays b ps w" and ok: "\<forall>x\<in>set ps. op_ok b x" and st: "fits b st"
  shows "\<exists>w'. crash_image_1 st w = Some (image_line b ps st, w') \<and> replays b ps w'"
proof -
  obtain sts where sts: "w_file w = puts sts b" "\<forall>st\<in>set sts. fits b st"
    "\<And>k. filter (on_line k) (map clean sts) = durable k ps" "fits (w_file w) = fits b"
    using replays_file [OF r] by auto
  obtain xs w1 where g: "get_cacheline_from_address (s_address st) w = (xs, w1)"
    by (cases "get_cacheline_from_address (s_address st) w")
  note g' = get_cacheline [OF g, folded line_def]
  have d: "distinct (map fst (cacheline_dict w))" and p: "\<And>k. at (cacheline_dict w) k = pending k ps"
    using r by (simp_all add: replays_def)
  have xs: "xs = pending (line st) ps" using g'(1) [OF d] p by simp
  have fits: "\<forall>x\<in>set (xs @ [st]). fits b x" using st pending_ok(1) [OF ok] by (auto simp: xs)
  let ?spec = "stores_where (\<lambda>i st'. persisted ps i \<or> line st' = line st) ps"
  have "filter (on_line k) (map clean (sts @ xs)) = filter (on_line k) (map clean ?spec)" for k
  proof (cases "k = line st")
    case True
    have "filter (on_line k) (map clean xs) = map clean xs"
      using pending_ok(2) [OF ok] True by (auto simp: xs on_line_def filter_id_conv)
    moreover have "sel (\<lambda>i st'. (persisted ps i \<or> line st' = line st) \<and> line st' = k) (\<lambda>i. clean) ps = line_stores k ps"
      unfolding line_stores_def by (rule sel_cong) (auto simp: True)
    ultimately show ?thesis using sts(3) True by (simp add: stores_where_line line_stores_split xs)
  next
    case False
    have "filter (on_line k) (map clean xs) = []"
      using pending_ok(2) [OF ok] False by (auto simp: xs on_line_def filter_empty_conv)
    moreover have "sel (\<lambda>i st'. (persisted ps i \<or> line st' = line st) \<and> line st' = k) (\<lambda>i. clean) ps = durable k ps"
      unfolding durable_def by (rule sel_cong) (use False in auto)
    ultimately show ?thesis using sts(3) by (simp add: stores_where_line)
  qed
  then have "puts (sts @ (xs @ [st])) b = puts (?spec @ [st]) b"
    using sts(2) fits stores_where_fits [OF ok] st by (intro puts_as) auto
  then have "crash_image_1 st w = Some (image_line b ps st, w1)"
    using sts fits by (simp add: crash_image_1_def g do_stores_puts image_line_def puts_append)
  moreover have "replays b ps w1" using r g' [OF d] by (simp add: replays_def)
  ultimately show ?thesis by blast
qed

section \<open>The run of the validator\<close>

definition store_tests ::
  "binary_file \<Rightarrow> int list \<Rightarrow> int \<Rightarrow> int \<Rightarrow> memop list \<Rightarrow> nat \<Rightarrow> memop \<Rightarrow> crash_test list"
where
  "store_tests b crashes id_start id_end ps i x =
     (case x of
        MStore st \<Rightarrow>
          if id_start \<le> int i \<and> int i \<le> id_end \<and> int i \<in> set crashes
          then [(st, 0, image_all b (take i ps)), (st, 1, image_line b (take i ps) st)] else []
      | _ \<Rightarrow> [])"

definition crash_tests :: "binary_file \<Rightarrow> int list \<Rightarrow> int \<Rightarrow> int \<Rightarrow> memop list \<Rightarrow> crash_test list" where
  "crash_tests b crashes id_start id_end ps = picks (store_tests b crashes id_start id_end ps) ps"

lemma validate_step:
  assumes "replays b pre w" "\<forall>x\<in>set (pre @ p # ps). op_ok b x" "memop_id p = int (length pre)"
    "\<not> e < memop_id p"
  shows "\<exists>w1 w2. (case p of
       MStore st \<Rightarrow> if s \<le> op_id st \<and> op_id st \<le> e \<and> op_id st \<in> set cr
         then gen_crash_and_validate st w else Some ([], w)
     | _ \<Rightarrow> Some ([], w)) = Some (store_tests b cr s e (pre @ p # ps) (length pre) p, w1)
     \<and> run_step p w1 = Some w2 \<and> replays b (pre @ [p]) w2"
proof -
  have ok: "\<forall>x\<in>set pre. op_ok b x" "op_ok b p" using assms(2) by simp_all
  have step: "\<exists>w2. run_step p w1 = Some w2 \<and> replays b (pre @ [p]) w2" if "replays b pre w1" for w1
    using run_step_replays [OF that ok] .
  show ?thesis
  proof (cases p)
    case (MStore st)
    with ok(2) have "fits b st" by simp
    with crash_image_1_eq [OF assms(1) ok(1), of st] obtain w1
      where w1: "crash_image_1 st w = Some (image_line b pre st, w1)" "replays b pre w1" by blast
    then have "gen_crash_and_validate st w = Some ([(st, 0, image_all b pre), (st, 1, image_line b pre st)], w1)"
      using crash_image_0_eq [OF assms(1) ok(1)] by (simp add: gen_crash_and_validate_def)
    with MStore w1(2) step assms(1,3) show ?thesis by (fastforce simp: store_tests_def)
  qed (use step [OF assms(1)] in \<open>auto simp: store_tests_def\<close>)
qed

lemma ls_run_eq:
  assumes "replays b pre w" "\<forall>x\<in>set (pre @ ps). op_ok b x"
    "\<forall>k<length (pre @ ps). memop_id ((pre @ ps) ! k) = int k"
  shows "\<exists>w'. ls_run cr s e ps w =
    Some (concat (map (\<lambda>i. store_tests b cr s e (pre @ ps) i ((pre @ ps) ! i)) [length pre..<length (pre @ ps)]), w')"
  using assms
proof (induction ps arbitrary: pre w)
  case (Cons p ps)
  let ?all = "pre @ p # ps"
  have id: "memop_id p = int (length pre)" using Cons.prems(3) [rule_format, of "length pre"] by simp
  show ?case
  proof (cases "e < memop_id p")
    case True
    have "concat (map (\<lambda>i. store_tests b cr s e ?all i (?all ! i)) [length pre..<length ?all]) = []"
      using True id by (auto simp: store_tests_def split: memop.splits)
    then have "ls_run cr s e (p # ps) w =
        Some (concat (map (\<lambda>i. store_tests b cr s e ?all i (?all ! i)) [length pre..<length ?all]), w)"
      using True by (simp only: ls_run.simps if_True)
    then show ?thesis by blast
  next
    case False
    from validate_step [OF Cons.prems(1,2) id False, of s cr] obtain w1 w2
      where w: "(case p of MStore st \<Rightarrow> if s \<le> op_id st \<and> op_id st \<le> e \<and> op_id st \<in> set cr
          then gen_crash_and_validate st w else Some ([], w) | _ \<Rightarrow> Some ([], w))
        = Some (store_tests b cr s e ?all (length pre) p, w1)"
        "run_step p w1 = Some w2" "replays b (pre @ [p]) w2" by blast
    obtain w' where "ls_run cr s e ps w2 = Some (concat (map (\<lambda>i. store_tests b cr s e ?all i (?all ! i))
        [Suc (length pre)..<length ?all]), w')"
      using Cons.IH [OF w(3)] Cons.prems(2,3) by auto
    moreover have "[length pre..<length ?all] = length pre # [Suc (length pre)..<length ?all]"
      by (rule upt_conv_Cons) simp
    ultimately show ?thesis using w(1,2) False by simp
  qed
qed simp

lemma LSValidator_run_eq:
  assumes "\<forall>x\<in>set ps. op_ok (new_image pmsize pmaddr) x" "\<forall>k<length ps. memop_id (ps ! k) = int k"
  shows "LSValidator_run cr s e pmsize pmaddr ps = Some (crash_tests (new_image pmsize pmaddr) cr s e ps)"
  using ls_run_eq [OF replays_start, of ps "new_image pmsize pmaddr" cr s e] assms
  by (auto simp: LSValidator_run_def crash_tests_def picks_def)

end
