(* ===== verification/Mt_Checker.thy ===== *)
theory Mt_Checker
  imports Race_Checker Replay_Witcher
begin

text \<open>
  Two racing calls under a debugger (\<open>lib/trace_mt.py\<close>, \<open>checker/mt_trace_checker.py\<close>,
  \<open>checker/gdb_checker.py\<close>): the trace of the run, where to stop the first call, and the crash image.
  Starting the programs and copying files is left out; the image of the prefix run is a parameter.
\<close>

section \<open>trace_mt.py\<close>

record trace_mt =
  mt_ops :: "memop list"
  mt_index :: int
  mt_skip :: bool
  tids :: "int list"
  ops_thread_idx :: "int list"

definition new_trace_mt :: trace_mt where
  "new_trace_mt = \<lparr>mt_ops = [], mt_index = 0, mt_skip = False, tids = [], ops_thread_idx = []\<rparr>"

definition mt_append :: "memop \<Rightarrow> trace_mt \<Rightarrow> trace_mt" where
  "mt_append p s = s\<lparr>mt_ops := mt_ops s @ [p]\<rparr>"

text \<open>The end of the loop: a new thread is noted with the current index.\<close>

definition mt_next :: "int \<Rightarrow> trace_mt \<Rightarrow> trace_mt" where
  "mt_next t s =
     (let s = (if t \<notin> set (tids s)
               then s\<lparr>tids := tids s @ [t], ops_thread_idx := ops_thread_idx s @ [mt_index s]\<rparr> else s)
      in s\<lparr>mt_index := mt_index s + 1\<rparr>)"

definition mt_entry :: "string \<Rightarrow> trace_mt \<Rightarrow> trace_mt option" where
  "mt_entry entry s =
     (let strs = split_on (CHR '','') entry; op_type = hd strs; i = mt_index s in
      if op_type = ''LockBegin'' \<or> op_type = ''UnLockBegin'' then Some (s\<lparr>mt_skip := True\<rparr>)
      else if op_type = ''LockEnd'' \<or> op_type = ''UnLockEnd'' then
        do {
          p1 \<leftarrow> py_nth strs 1; t \<leftarrow> py_int 10 p1;
          p2 \<leftarrow> py_nth strs 2; address \<leftarrow> py_int 16 p2;
          src \<leftarrow> py_nth strs 3;
          let con = (if op_type = ''LockEnd'' then MLock else MUnLock);
          Some ((mt_append (con (Lock address i t src)) s)\<lparr>mt_index := i + 1, mt_skip := False\<rparr>)
        }
      else if mt_skip s then Some s
      else do {
        p1 \<leftarrow> py_nth strs 1;
        (if op_type = ''Store'' then
           do {
             t \<leftarrow> py_int 10 p1;
             p2 \<leftarrow> py_nth strs 2; address \<leftarrow> py_int 16 p2;
             p3 \<leftarrow> py_nth strs 3; sz \<leftarrow> py_int 10 p3;
             p4 \<leftarrow> py_nth strs 4;
             src \<leftarrow> py_nth strs 5;
             p6 \<leftarrow> py_nth strs 6; is_cas \<leftarrow> py_int 10 p6;
             st \<leftarrow> Store address sz (split_on (CHR '' '') p4) i t src is_cas;
             Some (mt_next t (mt_append (MStore st) s))
           }
         else if op_type = ''Load'' then
           do {
             t \<leftarrow> py_int 10 p1;
             p2 \<leftarrow> py_nth strs 2; address \<leftarrow> py_int 16 p2;
             p3 \<leftarrow> py_nth strs 3; sz \<leftarrow> py_int 10 p3;
             src \<leftarrow> py_nth strs 4;
             Some (mt_next t (mt_append (MLoad (Load address sz i t src)) s))
           }
         else if op_type = ''Flush'' \<or> op_type = ''Lock'' \<or> op_type = ''UnLock'' then
           do {
             t \<leftarrow> py_int 10 p1;
             p2 \<leftarrow> py_nth strs 2; address \<leftarrow> py_int 16 p2;
             src \<leftarrow> py_nth strs 3;
             let p = (if op_type = ''Flush'' then MFlush (Flush address i t src)
                      else if op_type = ''Lock'' then MLock (Lock address i t src)
                      else MUnLock (Lock address i t src));
             Some (mt_next t (mt_append p s))
           }
         else if op_type = ''Fence'' \<or> op_type = ''APIBegin'' \<or> op_type = ''APIEnd'' then
           do {
             t \<leftarrow> py_int 10 p1;
             src \<leftarrow> py_nth strs 2;
             let con = (if op_type = ''Fence'' then MFence else if op_type = ''APIBegin'' then MAPIBegin else MAPIEnd);
             Some (mt_next t (mt_append (con (BaseOperation i t src)) s))
           }
         else if op_type = ''Alloc'' then
           do {
             t \<leftarrow> py_int 10 p1;
             p2 \<leftarrow> py_nth strs 2; address \<leftarrow> py_int 16 p2;
             p3 \<leftarrow> py_nth strs 3; sz \<leftarrow> py_int 10 p3;
             src \<leftarrow> py_nth strs 4;
             Some (mt_next t (s\<lparr>mt_index := i - 1\<rparr>))
           }
         else if op_type = ''Br'' then
           do {
             t \<leftarrow> py_int 10 p1;
             src \<leftarrow> py_nth strs 2;
             Some (mt_next t (s\<lparr>mt_index := i - 1\<rparr>))
           }
         else None)
      })"

fun mt_entries :: "string list \<Rightarrow> trace_mt \<Rightarrow> trace_mt option" where
  "mt_entries [] s = Some s"
| "mt_entries (e # es) s = do { s \<leftarrow> mt_entry e s; mt_entries es s }"

definition TraceMT :: "string \<Rightarrow> trace_mt option" where
  "TraceMT file = mt_entries (butlast (split_on newline (universal_newlines file))) new_trace_mt"

definition py_index :: "'a list \<Rightarrow> int \<Rightarrow> 'a option" where
  "py_index xs i =
     (if 0 \<le> i \<and> i < int (length xs) then Some (xs ! nat i)
      else if - int (length xs) \<le> i \<and> i < 0 then Some (xs ! nat (i + int (length xs)))
      else None)"

text \<open>The last store or fence strictly after \<open>stop\<close>, from \<open>idx\<close> downwards. The outer \<open>None\<close> is an error.\<close>

function roll_back_from :: "memop list \<Rightarrow> int \<Rightarrow> int \<Rightarrow> int option option" where
  "roll_back_from ps idx stop =
     (if idx \<le> stop then Some None
      else case py_index ps idx of
             None \<Rightarrow> None
           | Some (MStore _) \<Rightarrow> Some (Some idx)
           | Some (MFence _) \<Rightarrow> Some (Some idx)
           | Some _ \<Rightarrow> roll_back_from ps (idx - 1) stop)"
  by pat_completeness auto
termination
  by (relation "measure (\<lambda>(ps, idx, stop). nat (idx - stop))") auto

declare roll_back_from.simps [simp del]

definition get_roll_back_idx :: "trace_mt \<Rightarrow> int option option" where
  "get_roll_back_idx tr =
     do {
       a \<leftarrow> py_nth (ops_thread_idx tr) 2;
       e \<leftarrow> py_nth (ops_thread_idx tr) 1;
       roll_back_from (mt_ops tr) (a - 1) e
     }"

section \<open>gdb_checker.py\<close>

text \<open>
  The image and the stores that stay in the cache, or nothing when there are not three threads. With
  no operation to roll back to, Python adds one to \<open>None\<close> and stops.
\<close>

definition gen_crash_img :: "trace_mt \<Rightarrow> binary_file \<Rightarrow> (u8 list \<times> cache) option option" where
  "gen_crash_img tr prefix_img =
     (if length (tids tr) \<noteq> 3 then Some None
      else if length (ops_thread_idx tr) \<noteq> 3 then None
      else do {
        let i1 = ops_thread_idx tr ! 1;
        let i2 = ops_thread_idx tr ! 2;
        r \<leftarrow> replay_accept_ops (py_slice (mt_ops tr) 0 i1) \<lparr>r_ops = [], r_file = prefix_img\<rparr>;
        r \<leftarrow> replay_write_back_all_stores r;
        rb \<leftarrow> get_roll_back_idx tr;
        back \<leftarrow> rb;
        r \<leftarrow> replay_accept_ops (py_slice (mt_ops tr) i1 (back + 1)) r;
        r \<leftarrow> replay_accept_ops (py_slice_from (mt_ops tr) i2) r;
        Some (Some (file_map (r_file r), r_ops r))
      })"

section \<open>mt_trace_checker.py\<close>

definition check_race :: "trace_state \<Rightarrow> int set \<Rightarrow> (race_op \<times> race_op) list option" where
  "check_race tr lps =
     (if length (ops_api_ranges tr) \<noteq> 2 then Some []
      else do {
        pairs \<leftarrow> TraceChecker_2 tr 2 lps;
        Some (case map_of pairs (0, 1) of None \<Rightarrow> [] | Some races \<Rightarrow> races)
      })"

text \<open>How often the line of a fence is reached in the first call, up to the fence.\<close>

fun hit_count_from :: "(string \<Rightarrow> string option) \<Rightarrow> string \<Rightarrow> memop list \<Rightarrow> int \<Rightarrow> nat \<Rightarrow> nat \<Rightarrow> nat option" where
  "hit_count_from d src_line [] fid i hits = None"
| "hit_count_from d src_line (p # ps) fid i hits =
     do {
       hits' \<leftarrow> (case p of
                  MFence b \<Rightarrow> map_option (\<lambda>l. if l = src_line then Suc hits else hits) (d (op_src b))
                | _ \<Rightarrow> Some hits);
       if int i = fid then Some hits' else hit_count_from d src_line ps fid (Suc i) hits'
     }"

definition get_hit_count :: "trace_state \<Rightarrow> (string \<Rightarrow> string option) \<Rightarrow> string \<Rightarrow> int \<Rightarrow> nat option" where
  "get_hit_count tr d src_line fence_id =
     do {
       r \<leftarrow> py_nth (ops_api_ranges tr) 0;
       if fst r < fence_id \<and> fence_id < snd r
       then hit_count_from d src_line (api_ops tr r) fence_id (nat (fst r)) 0
       else None
     }"

text \<open>Where a race is stopped: the number of the operation, the line and the count.\<close>

definition gdb_target :: "trace_state \<Rightarrow> (string \<Rightarrow> string option) \<Rightarrow> memop \<Rightarrow> (int \<times> string \<times> nat) option" where
  "gdb_target tr d p =
     (case p of
        MAPIEnd b \<Rightarrow> if op_src b = ''NA'' then Some (op_id b, ''api_end'', 1) else None
      | MFence b \<Rightarrow>
          if op_src b = ''NA'' then None
          else do {
            src_line \<leftarrow> d (op_src b);
            n \<leftarrow> get_hit_count tr d src_line (op_id b);
            Some (op_id b, src_line, n)
          }
      | _ \<Rightarrow> None)"

section \<open>The addresses handed to the second checker\<close>

text \<open>\<open>main.py\<close> prints the addresses, \<open>mt_trace_main.py\<close> reads them.\<close>

definition print_lps :: "nat list \<Rightarrow> string" where
  "print_lps addrs = concat (map (\<lambda>a. to_base 10 a @ '','') addrs)"

definition read_lps :: "string \<Rightarrow> int set option" where
  "read_lps text = map_option set (map_opt (py_int 10) (butlast (split_on (CHR '','') text)))"

end
