(* ===== verification/Race_Correct.thy ===== *)
theory Race_Correct
  imports Race_Checker Replay_Correct
begin

text \<open>
  What the scan of an API call finds, told with flushes and fences of the trace: the fences that make
  stores durable, the stores that follow loads, and the locks held there. The locale \<open>scanner\<close> is
  what the two versions of the scan have in common.
\<close>

section \<open>The caches\<close>

fun covers :: "memop \<Rightarrow> memop \<Rightarrow> bool" where
  "covers (MFlush f) (MStore st) = is_in_flush f (CStore st)"
| "covers (MFlush f) (MLoad l) = is_in_flush f (CLoad l)"
| "covers _ _ = False"

fun fresh :: "memop \<Rightarrow> bool" where
  "fresh (MStore st) \<longleftrightarrow> s_flushing st = 0"
| "fresh (MLoad l) \<longleftrightarrow> l_flushing l = 0"
| "fresh _ \<longleftrightarrow> True"

fun is_store :: "memop \<Rightarrow> bool" where
  "is_store (MStore _) = True"
| "is_store _ = False"

definition stored_after :: "memop list \<Rightarrow> nat \<Rightarrow> bool" where
  "stored_after qs i \<longleftrightarrow> (\<exists>j<length qs. i < j \<and> is_store (qs ! j))"

definition flag :: "memop list \<Rightarrow> nat \<Rightarrow> nat" where
  "flag qs i = (if flushed covers qs i then 1 else 0)"

definition open_stores :: "memop list \<Rightarrow> cache" where
  "open_stores qs = picks (\<lambda>i x. case x of
     MStore st \<Rightarrow> if settled covers qs i then [] else [set_flushing (flag qs i) (CStore st)] | _ \<Rightarrow> []) qs"

definition open_loads :: "memop list \<Rightarrow> cache" where
  "open_loads qs = picks (\<lambda>i x. case x of
     MLoad l \<Rightarrow> if settled covers qs i \<or> stored_after qs i then [] else [set_flushing (flag qs i) (CLoad l)]
   | _ \<Rightarrow> []) qs"

fun held_step :: "memop \<Rightarrow> lock_op list \<Rightarrow> lock_op list" where
  "held_step (MLock k) ks = ks @ [k]"
| "held_step (MUnLock u) ks = unlock_last u ks"
| "held_step _ ks = ks"

definition held :: "memop list \<Rightarrow> lock_op list" where
  "held qs = fold held_step qs []"

definition taken :: "memop list \<Rightarrow> lock_op list" where
  "taken qs = concat (map (\<lambda>x. case x of MLock k \<Rightarrow> [k] | _ \<Rightarrow> []) qs)"

lemma held_snoc: "held (qs @ [x]) = held_step x (held qs)"
  by (simp add: held_def)

lemma stored_snoc: "i < length qs \<Longrightarrow> stored_after (qs @ [x]) i \<longleftrightarrow> stored_after qs i \<or> is_store x"
  by (auto simp: stored_after_def Ex_less_Suc nth_append cong: conj_cong)

lemma stored_last: "\<not> stored_after (qs @ [x]) (length qs)"
  by (simp add: stored_after_def)

lemma flag_last: "flag (qs @ [x]) (length qs) = 0"
  by (simp add: flag_def flushed_last)

lemma flag_snoc: "i < length qs \<Longrightarrow> flag (qs @ [x]) i = (if covers x (qs ! i) then 1 else flag qs i)"
  by (simp add: flag_def flushed_snoc)

lemma set_flushing_simps:
  "set_flushing a (set_flushing b c) = set_flushing a c" "c_flushing (set_flushing a c) = a"
  "c_address (set_flushing a c) = c_address c" "c_id (set_flushing a c) = c_id c"
  "is_in_flush f (set_flushing a c) = is_in_flush f c"
  by (cases c; simp add: is_in_flush_def store_range_def load_range_def)+

lemma set_flushing_fresh: "fresh (MStore st) \<Longrightarrow> set_flushing 0 (CStore st) = CStore st"
  "fresh (MLoad l) \<Longrightarrow> set_flushing 0 (CLoad l) = CLoad l"
  by (simp_all add: set_flushing.simps)

lemma flag_iff: "flag qs i = 0 \<longleftrightarrow> \<not> flushed covers qs i" "flag qs i = 1 \<longleftrightarrow> flushed covers qs i"
  by (simp_all add: flag_def)

declare set_flushing.simps [simp del]

lemmas open_simps = picks_snoc picks_map picks_filter settled_snoc settled_last stored_snoc stored_last
  flag_last flag_snoc flag_iff set_flushing_simps accept_op_def accept_flush_def accept_fence_def

lemma open_stores_snoc:
  assumes "fresh x"
  shows "open_stores (qs @ [x]) =
    (case x of MStore st \<Rightarrow> accept_op (CStore st) (open_stores qs) | MFlush f \<Rightarrow> accept_flush f (open_stores qs)
     | MFence _ \<Rightarrow> accept_fence (open_stores qs) | _ \<Rightarrow> open_stores qs)"
  unfolding open_stores_def
  by (cases x; insert assms; simp only: open_simps;
      auto simp: open_simps set_flushing_fresh intro!: picks_cong split: memop.splits)

lemma open_loads_snoc:
  assumes "fresh x"
  shows "open_loads (qs @ [x]) =
    (case x of MStore st \<Rightarrow> [] | MLoad l \<Rightarrow> accept_op (CLoad l) (open_loads qs)
     | MFlush f \<Rightarrow> accept_flush f (open_loads qs)
     | MFence _ \<Rightarrow> accept_fence (open_loads qs) | _ \<Rightarrow> open_loads qs)"
  unfolding open_loads_def
  by (cases x; insert assms; simp only: open_simps;
      auto simp: open_simps set_flushing_fresh intro!: picks_cong picks_Nil_if split: memop.splits)

section \<open>Both scans\<close>

lemma scan_ops_append:
  "scan_ops step (ps @ qs) s = do { s \<leftarrow> scan_ops step ps s; scan_ops step qs s }"
proof (induction ps arbitrary: s)
  case (Cons p ps)
  then show ?case by (cases "step p s") simp_all
qed simp

definition scanned :: "memop list \<Rightarrow> scan \<Rightarrow> bool" where
  "scanned qs s \<longleftrightarrow> cache_st s = open_stores qs \<and> cache_ld s = open_loads qs \<and> locks s = held qs
     \<and> locks_all s = taken qs \<and> no_stores s = (\<not> list_ex is_store qs)"

definition same_caches :: "scan \<Rightarrow> scan \<Rightarrow> bool" where
  "same_caches s s' \<longleftrightarrow> cache_st s' = cache_st s \<and> cache_ld s' = cache_ld s \<and> locks s' = locks s
     \<and> locks_all s' = locks_all s \<and> no_stores s' = no_stores s"

locale scanner =
  fixes step :: "memop \<Rightarrow> scan \<Rightarrow> scan option"
  assumes step_store: "step (MStore st) s = Some (scan_store st s)"
    and step_load: "step (MLoad l) s = Some (s\<lparr>cache_ld := accept_op (CLoad l) (cache_ld s)\<rparr>)"
    and step_flush: "step (MFlush f) s = Some (scan_flush f s)"
    and step_fence: "\<exists>s'. step (MFence b) s = Some (scan_fences s') \<and> same_caches s s'"
    and step_lock: "step (MLock k) s = Some (scan_lock k s)"
    and step_unlock: "step (MUnLock u) s = scan_unlock u s"
    and step_begin: "step (MAPIBegin b) s = Some s"
    and step_end: "step (MAPIEnd b) s = Some s' \<Longrightarrow> same_caches s s'"
begin

lemma scanned_step:
  assumes "scanned qs s" "fresh x" "step x s = Some s'"
  shows "scanned (qs @ [x]) s'"
proof (cases x)
  case (MFence b)
  obtain s1 where "step x s = Some (scan_fences s1)" "same_caches s s1" using step_fence MFence by metis
  with assms MFence show ?thesis
    by (auto simp: scanned_def same_caches_def scan_fences_def open_stores_snoc open_loads_snoc held_snoc taken_def)
next
  case (MAPIEnd b)
  with assms(3) step_end have "same_caches s s'" by simp
  with assms(1) MAPIEnd show ?thesis
    by (simp add: scanned_def same_caches_def open_stores_snoc open_loads_snoc held_snoc taken_def)
qed (use assms in \<open>auto simp: scanned_def step_store step_load step_flush step_lock step_unlock step_begin
    scan_store_def scan_flush_def scan_lock_def scan_unlock_def Let_def
    open_stores_snoc open_loads_snoc held_snoc taken_def split: if_splits\<close>)

lemma scanned_ops:
  "scan_ops step qs new_scan = Some s \<Longrightarrow> \<forall>x\<in>set qs. fresh x \<Longrightarrow> scanned qs s"
proof (induction qs arbitrary: s rule: rev_induct)
  case Nil
  then show ?case by (auto simp: scanned_def new_scan_def open_stores_def open_loads_def held_def taken_def)
next
  case (snoc x qs)
  from snoc.prems(1) obtain s0 where "scan_ops step qs new_scan = Some s0" "step x s0 = Some s"
    by (auto simp: scan_ops_append bind_eq_Some_conv)
  with snoc scanned_step show ?case by simp
qed

end

interpretation scan1: scanner "scan_step lp_stores" for lp_stores
proof unfold_locales
  fix b s
  show "\<exists>s'. scan_step lp_stores (MFence b) s = Some (scan_fences s') \<and> same_caches s s'"
    by (cases "filter (lp_in lp_stores) (get_flushing_ops (cache_st s)) = []")
      (auto simp: Let_def add_race_st_def same_caches_def intro: exI [of _ s]
        exI [of _ "add_race_st (MFence b) (filter (lp_in lp_stores) (get_flushing_ops (cache_st s))) s"])
qed (auto simp: Let_def add_race_st_def add_race_ld_def same_caches_def)

interpretation scan2: scanner "scan_step_2 lps" for lps
  by unfold_locales (auto simp: Let_def add_race_st_def add_race_ld_def same_caches_def split: if_splits)

section \<open>What is found\<close>

text \<open>
  At the end of \<open>pre\<close>: the addresses of the chosen stores that a fence would make durable, those of the
  chosen stores that are not settled, and those read since the last store.
\<close>

definition made_durable :: "(store_op \<Rightarrow> bool) \<Rightarrow> memop list \<Rightarrow> int set" where
  "made_durable P pre = {s_address st |i st. i < length pre \<and> pre ! i = MStore st \<and> P st
     \<and> flushed covers pre i \<and> \<not> settled covers pre i}"

definition unsettled :: "(store_op \<Rightarrow> bool) \<Rightarrow> memop list \<Rightarrow> int set" where
  "unsettled P pre = {s_address st |i st. i < length pre \<and> pre ! i = MStore st \<and> P st \<and> \<not> settled covers pre i}"

definition read_since :: "memop list \<Rightarrow> int set" where
  "read_since pre = {l_address l |i l. i < length pre \<and> pre ! i = MLoad l
     \<and> \<not> stored_after pre i \<and> \<not> settled covers pre i}"

definition race_at :: "memop \<Rightarrow> int set \<Rightarrow> lock_op list \<Rightarrow> race_op" where
  "race_at x D ks = \<lparr>ro_op = x, ro_deps = D, ro_lock_set = k_address ` set ks\<rparr>"

definition st_race :: "(store_op \<Rightarrow> bool) \<Rightarrow> memop list \<Rightarrow> memop \<Rightarrow> race_op list" where
  "st_race P pre x =
     (let D = (case x of MFence _ \<Rightarrow> made_durable P pre
               | MAPIEnd _ \<Rightarrow> if held pre = [] then unsettled P pre else {} | _ \<Rightarrow> {})
      in if D = {} then [] else [race_at x D (held pre)])"

definition ld_race :: "memop list \<Rightarrow> memop \<Rightarrow> race_op list" where
  "ld_race pre x =
     (case x of
        MStore _ \<Rightarrow> if read_since pre = {} then [] else [race_at x (read_since pre) (taken pre)]
      | MAPIEnd _ \<Rightarrow> if held pre = [] \<and> \<not> list_ex is_store pre then [race_at x (read_since pre) (taken pre)] else []
      | _ \<Rightarrow> [])"

definition lp_of :: "store_op list \<Rightarrow> store_op \<Rightarrow> bool" where
  "lp_of lp_stores st \<longleftrightarrow> op_id st \<in> op_id ` set lp_stores"

lemma open_store_iff:
  "c \<in> set (open_stores pre) \<longleftrightarrow> (\<exists>i st. i < length pre \<and> pre ! i = MStore st \<and> \<not> settled covers pre i
     \<and> c = set_flushing (flag pre i) (CStore st))"
proof -
  have "c \<in> set (case x of MStore st \<Rightarrow> if settled covers pre i then [] else [set_flushing (flag pre i) (CStore st)] | _ \<Rightarrow> [])
      \<longleftrightarrow> (\<exists>st. x = MStore st \<and> \<not> settled covers pre i \<and> c = set_flushing (flag pre i) (CStore st))" for i x
    by (cases x) auto
  then show ?thesis by (auto simp: open_stores_def set_picks)
qed

lemma open_load_iff:
  "c \<in> set (open_loads pre) \<longleftrightarrow> (\<exists>i l. i < length pre \<and> pre ! i = MLoad l \<and> \<not> stored_after pre i
     \<and> \<not> settled covers pre i \<and> c = set_flushing (flag pre i) (CLoad l))"
proof -
  have "c \<in> set (case x of MLoad l \<Rightarrow> if settled covers pre i \<or> stored_after pre i then []
        else [set_flushing (flag pre i) (CLoad l)] | _ \<Rightarrow> [])
      \<longleftrightarrow> (\<exists>l. x = MLoad l \<and> \<not> stored_after pre i \<and> \<not> settled covers pre i \<and> c = set_flushing (flag pre i) (CLoad l))" for i x
    by (cases x) auto
  then show ?thesis by (auto simp: open_loads_def set_picks)
qed

lemma flushing_addresses:
  "c_address ` set (filter (lp_in lps) (get_flushing_ops (open_stores pre))) = made_durable (lp_of lps) pre"
proof (intro set_eqI iffI)
  fix a
  assume "a \<in> c_address ` set (filter (lp_in lps) (get_flushing_ops (open_stores pre)))"
  then obtain c where c: "c \<in> set (open_stores pre)" "lp_in lps c" "c_flushing c = 1" "a = c_address c"
    by (auto simp: get_flushing_ops_def)
  then obtain i st where "i < length pre" "pre ! i = MStore st" "\<not> settled covers pre i"
    "c = set_flushing (flag pre i) (CStore st)" by (auto simp: open_store_iff)
  moreover from this c(2-4) have "lp_of lps st" "flushed covers pre i" "a = s_address st"
    by (simp_all only: lp_in_def lp_of_def set_flushing_simps flag_iff c_id.simps c_address.simps)
  ultimately show "a \<in> made_durable (lp_of lps) pre" unfolding made_durable_def by blast
next
  fix a
  assume "a \<in> made_durable (lp_of lps) pre"
  then obtain i st where "i < length pre" "pre ! i = MStore st" "lp_of lps st" "flushed covers pre i"
    "\<not> settled covers pre i" "a = s_address st" by (auto simp: made_durable_def)
  then show "a \<in> c_address ` set (filter (lp_in lps) (get_flushing_ops (open_stores pre)))"
    by (intro image_eqI [of _ _ "set_flushing (flag pre i) (CStore st)"])
      (auto simp: get_flushing_ops_def open_store_iff lp_in_def lp_of_def set_flushing_simps flag_def)
qed

lemma open_addresses:
  "c_address ` set (filter (lp_in lps) (open_stores pre)) = unsettled (lp_of lps) pre"
proof (intro set_eqI iffI)
  fix a
  assume "a \<in> c_address ` set (filter (lp_in lps) (open_stores pre))"
  then obtain c where c: "c \<in> set (open_stores pre)" "lp_in lps c" "a = c_address c" by auto
  then obtain i st where "i < length pre" "pre ! i = MStore st" "\<not> settled covers pre i"
    "c = set_flushing (flag pre i) (CStore st)" by (auto simp: open_store_iff)
  moreover from this c(2,3) have "lp_of lps st" "a = s_address st"
    by (simp_all only: lp_in_def lp_of_def set_flushing_simps c_id.simps c_address.simps)
  ultimately show "a \<in> unsettled (lp_of lps) pre" unfolding unsettled_def by blast
next
  fix a
  assume "a \<in> unsettled (lp_of lps) pre"
  then obtain i st where "i < length pre" "pre ! i = MStore st" "lp_of lps st"
    "\<not> settled covers pre i" "a = s_address st" by (auto simp: unsettled_def)
  then show "a \<in> c_address ` set (filter (lp_in lps) (open_stores pre))"
    by (intro image_eqI [of _ _ "set_flushing (flag pre i) (CStore st)"])
      (auto simp: open_store_iff lp_in_def lp_of_def set_flushing_simps)
qed

lemma load_addresses: "c_address ` set (open_loads pre) = read_since pre"
proof (intro set_eqI iffI)
  fix a
  assume "a \<in> c_address ` set (open_loads pre)"
  then show "a \<in> read_since pre"
    by (auto simp: open_load_iff read_since_def set_flushing_simps) blast
next
  fix a
  assume "a \<in> read_since pre"
  then obtain i l where "i < length pre" "pre ! i = MLoad l" "\<not> stored_after pre i"
    "\<not> settled covers pre i" "a = l_address l" by (auto simp: read_since_def)
  then show "a \<in> c_address ` set (open_loads pre)"
    by (intro image_eqI [of _ _ "set_flushing (flag pre i) (CLoad l)"]) (auto simp: open_load_iff set_flushing_simps)
qed

lemma RaceOp_race_at: "RaceOp x cs ks = race_at x (c_address ` set cs) ks"
  by (simp add: RaceOp_def race_at_def)

lemma empty_iff_addresses: "cs = [] \<longleftrightarrow> c_address ` set cs = {}"
  by simp

lemma scan_step_races:
  assumes "scanned pre s" "scan_step lps x s = Some s'"
  shows "race_sts s' = race_sts s @ st_race (lp_of lps) pre x \<and> race_lds s' = race_lds s @ ld_race pre x"
proof -
  let ?f = "filter (lp_in lps) (get_flushing_ops (open_stores pre))" and ?o = "filter (lp_in lps) (open_stores pre)"
  have f: "made_durable (lp_of lps) pre = c_address ` set ?f" by (simp only: flushing_addresses)
  have u: "unsettled (lp_of lps) pre = c_address ` set ?o" by (simp only: open_addresses)
  have l: "read_since pre = c_address ` set (open_loads pre)" by (simp only: load_addresses)
  show ?thesis
    using assms unfolding scanned_def
    by (cases x) (auto simp: st_race_def ld_race_def f u l Let_def scan_store_def scan_flush_def scan_fences_def
        scan_lock_def scan_unlock_def add_race_st_def add_race_ld_def RaceOp_race_at split: if_splits
        simp del: filter_empty_conv set_filter)
qed

definition prefix_picks :: "(memop list \<Rightarrow> memop \<Rightarrow> 'a list) \<Rightarrow> memop list \<Rightarrow> 'a list" where
  "prefix_picks g qs = concat (map (\<lambda>n. g (take n qs) (qs ! n)) [0..<length qs])"

lemma prefix_picks_snoc: "prefix_picks g (qs @ [x]) = prefix_picks g qs @ g qs x"
proof -
  have "map (\<lambda>n. g (take n (qs @ [x])) ((qs @ [x]) ! n)) [0..<length qs] =
      map (\<lambda>n. g (take n qs) (qs ! n)) [0..<length qs]"
    by (simp add: nth_append)
  then have "concat (map (\<lambda>n. g (take n (qs @ [x])) ((qs @ [x]) ! n)) [0..<length qs]) = prefix_picks g qs"
    by (simp only: prefix_picks_def)
  then show ?thesis by (simp add: prefix_picks_def)
qed

lemma scan_races:
  assumes "scan_ops (scan_step lps) qs new_scan = Some s" "\<forall>x\<in>set qs. fresh x"
  shows "race_sts s = prefix_picks (st_race (lp_of lps)) qs \<and> race_lds s = prefix_picks ld_race qs"
  using assms
proof (induction qs arbitrary: s rule: rev_induct)
  case Nil
  then show ?case by (auto simp: new_scan_def prefix_picks_def)
next
  case (snoc x qs)
  from snoc.prems(1) obtain s0 where s0: "scan_ops (scan_step lps) qs new_scan = Some s0" "scan_step lps x s0 = Some s"
    by (auto simp: scan_ops_append bind_eq_Some_conv)
  with snoc.prems(2) have "scanned qs s0" by (intro scan1.scanned_ops) auto
  from scan_step_races [OF this s0(2)] snoc s0(1) show ?case by (simp add: prefix_picks_snoc)
qed

text \<open>The scan stops only at an unlock with no lock held.\<close>

definition locks_ok :: "memop list \<Rightarrow> bool" where
  "locks_ok qs \<longleftrightarrow> (\<forall>n<length qs. \<forall>u. qs ! n = MUnLock u \<longrightarrow> held (take n qs) \<noteq> [])"

lemma locks_ok_snoc: "locks_ok (qs @ [x]) \<longleftrightarrow> locks_ok qs \<and> (\<forall>u. x = MUnLock u \<longrightarrow> held qs \<noteq> [])"
  by (auto simp: locks_ok_def nth_append less_Suc_eq)

lemma scan_returns:
  assumes "\<forall>x\<in>set qs. fresh x"
  shows "(\<exists>s. scan_ops (scan_step lps) qs new_scan = Some s) \<longleftrightarrow> locks_ok qs"
  using assms
proof (induction qs rule: rev_induct)
  case (snoc x qs)
  show ?case
  proof (cases "scan_ops (scan_step lps) qs new_scan")
    case None
    with snoc show ?thesis by (auto simp: scan_ops_append locks_ok_snoc)
  next
    case (Some s)
    with snoc.prems have "scanned qs s" by (intro scan1.scanned_ops) auto
    then have "(\<exists>s'. scan_step lps x s = Some s') \<longleftrightarrow> (\<forall>u. x = MUnLock u \<longrightarrow> held qs \<noteq> [])"
      by (cases x) (auto simp: scan_unlock_def scanned_def Let_def)
    with Some snoc show ?thesis by (auto simp: scan_ops_append locks_ok_snoc)
  qed
qed (simp add: locks_ok_def)

section \<open>Pairs of calls\<close>

lemma window_keys_iff:
  "(i, j) \<in> set (window_keys n win) \<longleftrightarrow> i < j \<and> j < n \<and> int j < int i + win"
proof
  assume "i < j \<and> j < n \<and> int j < int i + win"
  then show "(i, j) \<in> set (window_keys n win)"
    by (auto simp: window_keys_def intro!: bexI [of _ i])
qed (auto simp: window_keys_def)

lemma distinct_window_keys: "distinct (window_keys n win)"
proof -
  have "distinct (concat (map (\<lambda>i. map (Pair i) (f i)) xs))"
    if "distinct xs" "\<And>i. distinct (f i)" for xs :: "nat list" and f :: "nat \<Rightarrow> nat list"
    using that by (induction xs) (auto simp: distinct_map inj_on_def)
  then show ?thesis by (simp add: window_keys_def)
qed

lemma pairs_by_load_set: "set (pairs_by_load lds sts) = set (pairs_of sts lds)"
  by (auto simp: pairs_by_load_def pairs_of_def image_iff)

lemma pairs_of_iff: "(st, ld) \<in> set (pairs_of sts lds) \<longleftrightarrow> st \<in> set sts \<and> ld \<in> set lds \<and> racing st ld"
  by (auto simp: pairs_of_def)

definition all_pairs ::
  "race_op list list \<Rightarrow> race_op list list \<Rightarrow> nat \<Rightarrow> int \<Rightarrow> ((nat \<times> nat) \<times> (race_op \<times> race_op) list) list"
where
  "all_pairs stss ldss n win = concat (map (\<lambda>(i, j). pairs_per_2_apis stss ldss i j) (window_keys n win))"

lemma all_pairs_keys: "distinct (map fst (all_pairs stss ldss n win))"
proof -
  let ?g = "\<lambda>(i, j). [((i, j), pairs_of (stss ! i) (ldss ! j)), ((j, i), pairs_by_load (ldss ! i) (stss ! j))]"
  have "concat (map (\<lambda>(i, j). pairs_per_2_apis stss ldss i j) ks) = filter (\<lambda>(key, pairs). pairs \<noteq> []) (concat (map ?g ks))" for ks
    by (induction ks) (auto simp: pairs_per_2_apis_def)
  then have "all_pairs stss ldss n win = filter (\<lambda>(key, pairs). pairs \<noteq> []) (concat (map ?g (window_keys n win)))"
    by (simp only: all_pairs_def)
  moreover have "distinct (map fst (concat (map ?g ks)))" if "distinct ks" "\<forall>(i, j)\<in>set ks. i < j" for ks
    using that by (induction ks) (force simp: map_concat)+
  then have "distinct (map fst (concat (map ?g (window_keys n win))))"
    using distinct_window_keys [of n win] window_keys_iff [of _ _ n win] by blast
  ultimately show ?thesis by (simp add: distinct_map_filter)
qed

lemma all_pairs_iff:
  "(\<exists>P. ((i, j), P) \<in> set (all_pairs stss ldss n win) \<and> (st, ld) \<in> set P) \<longleftrightarrow>
     i < n \<and> j < n \<and> i \<noteq> j \<and> \<bar>int i - int j\<bar> < win
     \<and> st \<in> set (stss ! i) \<and> ld \<in> set (ldss ! j) \<and> racing st ld"
proof -
  have per: "((i, j), P) \<in> set (pairs_per_2_apis stss ldss a b) \<longleftrightarrow>
      P \<noteq> [] \<and> (i = a \<and> j = b \<and> P = pairs_of (stss ! i) (ldss ! j)
        \<or> i = b \<and> j = a \<and> P = pairs_by_load (ldss ! j) (stss ! i))" for P a b
    by (auto simp: pairs_per_2_apis_def)
  have key: "((i, j), P) \<in> set (all_pairs stss ldss n win) \<longleftrightarrow>
      P \<noteq> [] \<and> ((i, j) \<in> set (window_keys n win) \<and> P = pairs_of (stss ! i) (ldss ! j)
        \<or> (j, i) \<in> set (window_keys n win) \<and> P = pairs_by_load (ldss ! j) (stss ! i))" for P
  proof -
    have "((i, j), P) \<in> set (all_pairs stss ldss n win) \<longleftrightarrow>
        (\<exists>a b. (a, b) \<in> set (window_keys n win) \<and> ((i, j), P) \<in> set (pairs_per_2_apis stss ldss a b))"
      by (auto simp: all_pairs_def)
    then show ?thesis unfolding per by blast
  qed
  have "(\<exists>P. ((i, j), P) \<in> set (all_pairs stss ldss n win) \<and> (st, ld) \<in> set P) \<longleftrightarrow>
      ((i, j) \<in> set (window_keys n win) \<or> (j, i) \<in> set (window_keys n win))
      \<and> (st, ld) \<in> set (pairs_of (stss ! i) (ldss ! j))"
    unfolding key using pairs_by_load_set [of "ldss ! j" "stss ! i"] by (metis empty_iff empty_set)
  then show ?thesis by (auto simp: window_keys_iff pairs_of_iff)
qed

lemma pairs_step:
  "init_race_pairs_per_2_apis i j T =
     T\<lparr>race_pairs := race_pairs T @ pairs_per_2_apis (race_st_list T) (race_ld_list T) i j,
       total_races_st := total_races_st T
         + sum_list (map (\<lambda>(key, P). length P) (pairs_per_2_apis (race_st_list T) (race_ld_list T) i j))\<rparr>"
  by (simp add: init_race_pairs_per_2_apis_def add_pairs_def pairs_per_2_apis_def)

lemma fold_pairs:
  "fold (\<lambda>(i, j). init_race_pairs_per_2_apis i j) ks T =
     T\<lparr>race_pairs := race_pairs T
         @ concat (map (\<lambda>(i, j). pairs_per_2_apis (race_st_list T) (race_ld_list T) i j) ks),
       total_races_st := total_races_st T
         + sum_list (map (\<lambda>(key, P). length P)
             (concat (map (\<lambda>(i, j). pairs_per_2_apis (race_st_list T) (race_ld_list T) i j) ks)))\<rparr>"
proof (induction ks arbitrary: T)
  case (Cons k ks)
  obtain i j where k: "k = (i, j)" by (cases k)
  show ?case unfolding k fold.simps comp_def split Cons.IH by (simp add: pairs_step)
qed simp

section \<open>The checker\<close>

definition call_lps :: "checker_opts \<Rightarrow> trace_state \<Rightarrow> nat \<Rightarrow> store_op \<Rightarrow> bool" where
  "call_lps G tr k = lp_of (select_lps G tr (api_ops tr (ops_api_ranges tr ! k)) (int k))"

definition call_sts :: "checker_opts \<Rightarrow> trace_state \<Rightarrow> nat \<Rightarrow> race_op list" where
  "call_sts G tr k = prefix_picks (st_race (call_lps G tr k)) (api_ops tr (ops_api_ranges tr ! k))"

definition call_lds :: "trace_state \<Rightarrow> nat \<Rightarrow> race_op list" where
  "call_lds tr k = prefix_picks ld_race (api_ops tr (ops_api_ranges tr ! k))"

lemma fresh_api_ops: "\<forall>x\<in>set (ops tr). fresh x \<Longrightarrow> \<forall>x\<in>set (api_ops tr r). fresh x"
  by (auto simp: api_ops_def py_slice_def dest!: in_set_takeD in_set_dropD)

lemma init_list_step:
  assumes "\<forall>x\<in>set (ops tr). fresh x"
  shows "init_race_op_list_per_api G tr (api_ops tr r) idx T = Some T' \<Longrightarrow>
    race_st_list T' = race_st_list T @ [prefix_picks (st_race (lp_of (select_lps G tr (api_ops tr r) idx))) (api_ops tr r)]
    \<and> race_ld_list T' = race_ld_list T @ [prefix_picks ld_race (api_ops tr r)]
    \<and> race_pairs T' = race_pairs T \<and> total_races_st T' = total_races_st T"
    and "(\<exists>T'. init_race_op_list_per_api G tr (api_ops tr r) idx T = Some T') \<longleftrightarrow> locks_ok (api_ops tr r)"
  using scan_races [OF _ fresh_api_ops [OF assms, of r]] scan_returns [OF fresh_api_ops [OF assms, of r]]
  by (auto simp: init_race_op_list_per_api_def Let_def bind_eq_Some_conv)

lemma init_list:
  assumes "\<forall>x\<in>set (ops tr). fresh x" "rs = drop k (ops_api_ranges tr)" "k \<le> length (ops_api_ranges tr)"
    "init_race_op_list G tr (int k) rs T = Some T'"
  shows "race_st_list T' = race_st_list T @ map (call_sts G tr) [k..<length (ops_api_ranges tr)]
    \<and> race_ld_list T' = race_ld_list T @ map (call_lds tr) [k..<length (ops_api_ranges tr)]
    \<and> race_pairs T' = race_pairs T \<and> total_races_st T' = total_races_st T"
  using assms(2-4)
proof (induction rs arbitrary: k T)
  case (Cons r rs)
  let ?n = "length (ops_api_ranges tr)"
  from Cons.prems(1,2) have k: "k < ?n" by (metis drop_all list.distinct(1) not_le)
  with Cons.prems(1) have r: "r = ops_api_ranges tr ! k" "rs = drop (Suc k) (ops_api_ranges tr)"
    by (metis Cons_nth_drop_Suc list.inject)+
  from Cons.prems(3) obtain T1 where T1: "init_race_op_list_per_api G tr (api_ops tr r) (int k) T = Some T1"
    "init_race_op_list G tr (int (Suc k)) rs T1 = Some T'"
    by (auto simp: bind_eq_Some_conv add.commute)
  from Cons.IH [OF r(2) _ T1(2)] init_list_step(1) [OF assms(1) T1(1)] k r(1) show ?case
    by (simp add: upt_conv_Cons call_sts_def call_lds_def call_lps_def)
qed simp

lemma init_list_returns:
  assumes "\<forall>x\<in>set (ops tr). fresh x"
  shows "(\<exists>T'. init_race_op_list G tr idx rs T = Some T') \<longleftrightarrow> (\<forall>r\<in>set rs. locks_ok (api_ops tr r))"
proof (induction rs arbitrary: idx T)
  case (Cons r rs)
  show ?case
  proof (cases "init_race_op_list_per_api G tr (api_ops tr r) idx T")
    case None
    then have "\<not> locks_ok (api_ops tr r)" using init_list_step(2) [OF assms, of G r idx T] by simp
    with None show ?thesis by simp
  next
    case (Some T1)
    then have "locks_ok (api_ops tr r)" using init_list_step(2) [OF assms, of G r idx T] by simp
    with Some Cons.IH show ?thesis by simp
  qed
qed simp

lemma TraceChecker_result:
  assumes "\<forall>x\<in>set (ops tr). fresh x" "TraceChecker G tr = Some T"
  shows "race_pairs T = all_pairs (map (call_sts G tr) [0..<length (ops_api_ranges tr)])
      (map (call_lds tr) [0..<length (ops_api_ranges tr)]) (length (ops_api_ranges tr)) (window G)"
    and "total_races_st T = sum_list (map (\<lambda>(key, P). length P) (race_pairs T))"
proof -
  let ?n = "length (ops_api_ranges tr)"
  let ?T0 = "\<lparr>total_stores = length (stores_of (ops tr)), total_stores_in_op = 0, total_lps = 0,
     total_races_st = 0, race_st_list = [], race_ld_list = [], race_pairs = []\<rparr>"
  from assms(2) obtain T1 where T1: "init_race_op_list G tr (int 0) (ops_api_ranges tr) ?T0 = Some T1"
    "init_race_pairs ?n (window G) T1 = Some T"
    by (auto simp: TraceChecker_def Let_def bind_eq_Some_conv)
  from init_list [OF assms(1) _ _ T1(1)]
  have "race_st_list T1 = map (call_sts G tr) [0..<?n]" "race_ld_list T1 = map (call_lds tr) [0..<?n]"
    "race_pairs T1 = []" "total_races_st T1 = 0" by simp_all
  with T1(2) show "race_pairs T = all_pairs (map (call_sts G tr) [0..<?n]) (map (call_lds tr) [0..<?n]) ?n (window G)"
    "total_races_st T = sum_list (map (\<lambda>(key, P). length P) (race_pairs T))"
    by (auto simp: init_race_pairs_def fold_pairs all_pairs_def)
qed

lemma TraceChecker_returns:
  assumes "\<forall>x\<in>set (ops tr). fresh x"
  shows "(\<exists>T. TraceChecker G tr = Some T) \<longleftrightarrow> (\<forall>r\<in>set (ops_api_ranges tr). locks_ok (api_ops tr r))"
proof -
  have "(\<exists>T'. init_race_pairs (length (ops_api_ranges tr)) win T1 = Some T')"
    if "init_race_op_list G tr 0 (ops_api_ranges tr) T0 = Some T1" "race_st_list T0 = []" "race_ld_list T0 = []" for win T0 T1
    using init_list [OF assms, of "ops_api_ranges tr" 0 G T0 T1] that by (simp add: init_race_pairs_def)
  then show ?thesis
    unfolding init_list_returns [OF assms, of G 0 _ "\<lparr>total_stores = length (stores_of (ops tr)),
      total_stores_in_op = 0, total_lps = 0, total_races_st = 0, race_st_list = [], race_ld_list = [], race_pairs = []\<rparr>", symmetric]
    by (fastforce simp: TraceChecker_def Let_def bind_eq_Some_conv)
qed

section \<open>Operations as the reader makes them\<close>

definition all_fresh :: "trace_state \<Rightarrow> bool" where
  "all_fresh s \<longleftrightarrow> (\<forall>x\<in>set (ops s). fresh x)"

lemma all_fresh_frame:
  "all_fresh (bump s) = all_fresh s" "all_fresh (take_back s) = all_fresh s"
  "all_fresh (add_load_addr a y s) = all_fresh s" "all_fresh (add_alloc a n t y s) = all_fresh s"
  "all_fresh (s\<lparr>skip_lock_modeling := q\<rparr>) = all_fresh s" "all_fresh (s\<lparr>br_srcs := r\<rparr>) = all_fresh s"
  "all_fresh (append_op p s) \<longleftrightarrow> all_fresh s \<and> fresh p" "all_fresh (api_begin t y s) = all_fresh s"
  "api_end t y s = Some s' \<Longrightarrow> all_fresh s' = all_fresh s"
  by (auto simp: all_fresh_def bump_def take_back_def add_load_addr_def add_alloc_def append_op_def
      api_begin_def api_end_def Let_def split: if_splits)

lemma Store_fresh: "Store a n v i t src c = Some st \<Longrightarrow> s_flushing st = 0"
  by (auto simp: Store_def bind_eq_Some_conv)

lemma extract_entry_fresh:
  "all_fresh s \<Longrightarrow> extract_entry False l s = Some s' \<Longrightarrow> all_fresh s'"
  unfolding extract_entry_def Let_def
  by (auto simp: bind_eq_Some_conv all_fresh_frame put_lock_def put_load_def Load_def dest!: Store_fresh
      split: if_splits)

lemma Trace_fresh:
  assumes "Trace False file = Some tr"
  shows "\<forall>x\<in>set (ops tr). fresh x"
proof -
  have "all_fresh s \<Longrightarrow> extract_operations False ls s = Some s' \<Longrightarrow> all_fresh s'" for ls s s'
    by (induction ls arbitrary: s) (auto simp: bind_eq_Some_conv dest: extract_entry_fresh)
  moreover have "all_fresh new_trace" by (simp add: all_fresh_def new_trace_def)
  ultimately show ?thesis using assms unfolding Trace_def all_fresh_def by blast
qed

end
