(* ===== verification/Mt_Correct.thy ===== *)
theory Mt_Correct
  imports Mt_Checker Race_Correct
begin

text \<open>
  The crash image of two racing calls: everything before the first call, and of the calls themselves
  what was settled. It holds when no store spans two cache lines; a store that does is taken to be
  flushed as soon as one of its lines is.
\<close>

section \<open>The flat cache\<close>

fun replay_op :: "memop \<Rightarrow> bool" where
  "replay_op (MStore st) \<longleftrightarrow> 0 < s_size st"
| "replay_op _ \<longleftrightarrow> True"

lemma covers_fits:
  assumes "fits b st" "0 < s_size st" "op_ok b x"
  shows "covers x (MStore st) = covers_line x (MStore st)"
proof (cases x)
  case (MFlush f)
  let ?a = "s_address st"
  have f: "f_address f mod 64 = 0" "f_size f = 64" using assms(3) MFlush by simp_all
  have st: "?a mod 64 + s_size st \<le> 64" "line st = 64 * (?a div 64)"
    using assms(1) line_eq by (auto simp: fits_def fits_in_def)
  have split: "64 * (?a div 64) + ?a mod 64 = ?a" "64 * (f_address f div 64) = f_address f" "0 \<le> ?a mod 64"
    using f(1) mult_div_mod_eq [of 64 "f_address f"] by auto
  have "covers x (MStore st) \<longleftrightarrow> f_address f < ?a + s_size st \<and> ?a < f_address f + 64"
    using MFlush f(2) assms(2) by (auto simp: is_in_flush_def range_cmp_def store_range_def flush_range_def)
  also have "\<dots> \<longleftrightarrow> f_address f = line st"
  proof
    assume "f_address f < ?a + s_size st \<and> ?a < f_address f + 64"
    with st split have "64 * (f_address f div 64) < 64 * (?a div 64) + 64" "64 * (?a div 64) < 64 * (f_address f div 64) + 64"
      by linarith+
    then have "f_address f div 64 = ?a div 64" by linarith
    with st(2) split(2) show "f_address f = line st" by simp
  next
    assume "f_address f = line st"
    with st split assms(2) pos_mod_bound [of 64 ?a] show "f_address f < ?a + s_size st \<and> ?a < f_address f + 64"
      by linarith
  qed
  finally show ?thesis using MFlush by simp
qed simp_all

lemma settled_cong:
  assumes "\<And>f. f < length qs \<Longrightarrow> cov (qs ! f) (qs ! i) = cov' (qs ! f) (qs ! i)"
  shows "settled cov qs i = settled cov' qs i" "flushed cov qs i = flushed cov' qs i"
proof -
  have "(f < n \<and> i < f \<and> cov (qs ! f) (qs ! i) \<and> is_fence (qs ! n)) =
      (f < n \<and> i < f \<and> cov' (qs ! f) (qs ! i) \<and> is_fence (qs ! n))" if "n < length qs" for n f
    using assms [of f] that by auto
  then show "settled cov qs i = settled cov' qs i" unfolding settled_def by blast
  show "flushed cov qs i = flushed cov' qs i" unfolding flushed_def using assms by blast
qed

definition ready :: "binary_file \<Rightarrow> memop list \<Rightarrow> bool" where
  "ready b qs \<longleftrightarrow> (\<forall>x\<in>set qs. op_ok b x \<and> replay_op x)"

lemma ready_cover:
  assumes "ready b qs" "i < length qs" "qs ! i = MStore st"
  shows "settled covers qs i = settled covers_line qs i" "flushed covers qs i = flushed covers_line qs i"
proof -
  have st: "fits b st" "0 < s_size st"
    using assms nth_mem [OF assms(2)] by (auto simp: ready_def)
  have "covers (qs ! f) (qs ! i) = covers_line (qs ! f) (qs ! i)" if "f < length qs" for f
    using assms(1,3) that covers_fits [OF st, of "qs ! f"] by (simp add: ready_def)
  then show "settled covers qs i = settled covers_line qs i" "flushed covers qs i = flushed covers_line qs i"
    using settled_cong [of qs covers i covers_line] by blast+
qed

lemma settled_down:
  assumes "i < j" "ps ! i = MStore a" "ps ! j = MStore c" "line a = line c" "settled covers_line ps j"
  shows "settled covers_line ps i"
proof -
  from assms(5) obtain n f where "n < length ps" "f < n" "j < f" "covers_line (ps ! f) (ps ! j)" "is_fence (ps ! n)"
    by (auto simp: settled_def)
  with assms(1-3) covers_line_same [OF assms(4)] show ?thesis
    unfolding settled_def by (intro exI [of _ n] conjI exI [of _ f]) simp_all
qed

definition settled_stores :: "memop list \<Rightarrow> store_op list" where
  "settled_stores qs = stores_where (\<lambda>i st. settled covers qs i) qs"

definition settled_line :: "int \<Rightarrow> memop list \<Rightarrow> store_op list" where
  "settled_line k qs = sel (\<lambda>i st. line st = k \<and> settled covers qs i) (\<lambda>i. clean) qs"

lemma settled_line_filter: "filter (on_line k) (map clean (settled_stores qs)) = settled_line k qs"
  unfolding settled_stores_def stores_where_line settled_line_def by (rule sel_cong) auto

lemma settled_line_quiet: "\<not> is_fence x \<Longrightarrow> settled_line k (qs @ [x]) = settled_line k qs"
  unfolding settled_line_def sel_snoc
  by (auto simp: settled_snoc settled_last intro!: sel_cong split: memop.splits)

definition new_line :: "int \<Rightarrow> memop list \<Rightarrow> store_op list" where
  "new_line k qs = sel (\<lambda>i st. line st = k \<and> flushed covers qs i \<and> \<not> settled covers qs i) (\<lambda>i. clean) qs"

lemma settled_line_Fence:
  assumes "ready b qs"
  shows "settled_line k (qs @ [MFence a]) = settled_line k qs @ new_line k qs"
proof -
  have "settled_line k (qs @ [MFence a]) =
      sel (\<lambda>i st. line st = k \<and> (settled covers qs i \<or> flushed covers qs i)) (\<lambda>i. clean) qs"
    unfolding settled_line_def sel_snoc by (auto simp: settled_snoc intro!: sel_cong)
  also have "\<dots> = sel (\<lambda>i st. (line st = k \<and> (settled covers qs i \<or> flushed covers qs i)) \<and> settled covers qs i) (\<lambda>i. clean) qs
      @ sel (\<lambda>i st. (line st = k \<and> (settled covers qs i \<or> flushed covers qs i)) \<and> \<not> settled covers qs i) (\<lambda>i. clean) qs"
  proof (rule sel_split)
    fix i j s t
    assume "i < j" "j < length qs" "qs ! i = MStore s" "qs ! j = MStore t"
      "line s = k \<and> (settled covers qs i \<or> flushed covers qs i)" "line t = k \<and> (settled covers qs j \<or> flushed covers qs j)"
      "settled covers qs j"
    then show "settled covers qs i"
      using ready_cover(1) [OF assms, of i s] ready_cover(1) [OF assms, of j t] settled_down [of i j qs s t] by simp
  qed
  also have "\<dots> = settled_line k qs @ new_line k qs"
    unfolding settled_line_def new_line_def by (intro arg_cong2 [where f = append] sel_cong) auto
  finally show ?thesis .
qed

lemma new_line_cache:
  "filter (on_line k) (map (\<lambda>c. clean (the_store c)) (get_flushing_ops (open_stores qs))) = new_line k qs"
proof -
  have "get_flushing_ops (open_stores qs) = picks (\<lambda>i x. case x of MStore st \<Rightarrow>
      if flushed covers qs i \<and> \<not> settled covers qs i then [set_flushing (flag qs i) (CStore st)] else [] | _ \<Rightarrow> []) qs"
    unfolding get_flushing_ops_def open_stores_def picks_filter
    by (rule picks_cong) (auto simp: set_flushing_simps flag_def split: memop.splits)
  then show ?thesis
    unfolding new_line_def sel_def
    by (simp only: picks_map picks_filter) (rule picks_cong, auto simp: set_flushing.simps on_line_def split: memop.splits)
qed

definition replayed :: "binary_file \<Rightarrow> memop list \<Rightarrow> replay_cache \<Rightarrow> bool" where
  "replayed b qs r \<longleftrightarrow> r_ops r = open_stores qs
     \<and> (\<exists>sts. r_file r = puts sts b \<and> (\<forall>st\<in>set sts. fits b st)
          \<and> (\<forall>k. filter (on_line k) (map clean sts) = settled_line k qs))"

lemma open_stores_ok:
  assumes "ready b qs" "c \<in> set (open_stores qs)"
  shows "fits b (the_store c)" "\<exists>st. c = CStore st"
proof -
  from assms(2) obtain i st where i: "i < length qs" "qs ! i = MStore st" "c = set_flushing (flag qs i) (CStore st)"
    by (auto simp: open_store_iff)
  with assms(1) nth_mem [OF i(1)] have "fits b st" by (auto simp: ready_def)
  with i(3) show "fits b (the_store c)" "\<exists>st. c = CStore st" by (simp_all add: set_flushing.simps)
qed

lemma ready_fresh: "ready b (qs @ [x]) \<Longrightarrow> \<not> (\<exists>l. x = MLoad l) \<Longrightarrow> fresh x"
  by (cases x) (auto simp: ready_def)

lemma file_fits:
  assumes "r_file r = puts sts b" "\<forall>st\<in>set sts. fits b st"
  shows "fits (r_file r) = fits b"
  using assms puts_simps [of sts b] by simp

lemma replayed_quiet:
  assumes "replayed b qs r" "\<not> is_fence x" "r_file r' = r_file r" "r_ops r' = open_stores (qs @ [x])"
  shows "replayed b (qs @ [x]) r'"
  using assms by (simp add: replayed_def settled_line_quiet)

lemma open_stores_load: "open_stores (qs @ [MLoad l]) = open_stores qs"
  unfolding open_stores_def
  by (simp only: open_simps) (auto simp: open_simps intro!: picks_cong split: memop.splits)

lemma replayed_step:
  assumes "replayed b qs r" "ready b (qs @ [x])"
  shows "\<exists>r'. replay_accept_op x r = Some r' \<and> replayed b (qs @ [x]) r'"
proof (cases x)
  case (MFence a)
  have rd: "ready b qs" using assms(2) by (simp add: ready_def)
  from assms(1) obtain sts where sts: "r_ops r = open_stores qs" "r_file r = puts sts b" "\<forall>st\<in>set sts. fits b st"
    "\<forall>k. filter (on_line k) (map clean sts) = settled_line k qs" by (auto simp: replayed_def)
  let ?new = "map the_store (get_flushing_ops (open_stores qs))"
  have new: "\<forall>st\<in>set ?new. fits b st"
    using open_stores_ok(1) [OF rd] by (auto simp: get_flushing_ops_def)
  have "do_stores ?new (r_file r) = Some (puts (sts @ ?new) b)"
    using new file_fits [OF sts(2,3)] sts(2) by (simp add: do_stores_puts puts_append)
  then have "replay_accept_op x r =
      Some (r\<lparr>r_ops := accept_fence (open_stores qs), r_file := puts (sts @ ?new) b\<rparr>)"
    by (simp add: MFence replay_accept_fence_def sts(1))
  moreover have "replayed b (qs @ [x]) (r\<lparr>r_ops := accept_fence (open_stores qs), r_file := puts (sts @ ?new) b\<rparr>)"
    unfolding replayed_def
  proof (intro conjI exI [of _ "sts @ ?new"] allI)
    fix k
    show "filter (on_line k) (map clean (sts @ ?new)) = settled_line k (qs @ [x])"
      using sts(4) new_line_cache [of k qs] by (simp add: MFence settled_line_Fence [OF rd] comp_def)
  qed (use sts(3) new MFence in \<open>auto simp: open_stores_snoc\<close>)
  ultimately show ?thesis by blast
next
  case (MLoad l)
  have "replayed b (qs @ [x]) r"
    using assms(1) MLoad by (intro replayed_quiet [OF assms(1)]) (simp_all add: replayed_def open_stores_load)
  with MLoad show ?thesis by simp
qed (use assms(1) [unfolded replayed_def, THEN conjunct1] ready_fresh [OF assms(2)] in
    \<open>auto intro!: replayed_quiet [OF assms(1)] simp: open_stores_snoc\<close>)

lemma replayed_ops:
  assumes "replayed b qs r" "ready b (qs @ ps)"
  shows "\<exists>r'. replay_accept_ops ps r = Some r' \<and> replayed b (qs @ ps) r'"
  using assms
proof (induction ps arbitrary: qs r)
  case (Cons p ps)
  then have "ready b (qs @ [p])" by (simp add: ready_def)
  from replayed_step [OF Cons.prems(1) this] obtain r1 where "replay_accept_op p r = Some r1" "replayed b (qs @ [p]) r1"
    by blast
  with Cons.IH [of "qs @ [p]" r1] Cons.prems(2) show ?case by simp
qed simp

lemma replayed_start: "replayed b [] \<lparr>r_ops = [], r_file = b\<rparr>"
  by (auto simp: replayed_def open_stores_def settled_line_def intro: exI [of _ "[]"])

lemma replayed_image:
  assumes "replayed b qs r" "ready b qs"
  shows "r_file r = puts (settled_stores qs) b"
proof -
  from assms(1) obtain sts where "r_file r = puts sts b" "\<forall>st\<in>set sts. fits b st"
    "\<forall>k. filter (on_line k) (map clean sts) = settled_line k qs" by (auto simp: replayed_def)
  moreover have "\<forall>st\<in>set (settled_stores qs). fits b st"
    using assms(2) stores_where_fits [of qs b] by (auto simp: settled_stores_def ready_def)
  ultimately show ?thesis using puts_as [of sts b "settled_stores qs"] by (simp add: settled_line_filter)
qed

text \<open>Writing back everything: the settled stores, then those that are left.\<close>

lemma write_back_all:
  assumes "replayed b qs r" "ready b qs"
  shows "\<exists>r'. replay_write_back_all_stores r = Some r' \<and> r_ops r' = []
    \<and> r_file r' = puts (stores_where (\<lambda>i st. True) qs) b"
proof -
  from assms(1) obtain sts where sts: "r_ops r = open_stores qs" "r_file r = puts sts b" "\<forall>st\<in>set sts. fits b st"
    "\<forall>k. filter (on_line k) (map clean sts) = settled_line k qs" by (auto simp: replayed_def)
  let ?new = "map the_store (open_stores qs)"
  have new: "\<forall>st\<in>set ?new. fits b st" using open_stores_ok(1) [OF assms(2)] by auto
  have line: "filter (on_line k) (map clean ?new) = sel (\<lambda>i st. line st = k \<and> \<not> settled covers qs i) (\<lambda>i. clean) qs" for k
    unfolding sel_def open_stores_def map_map
    by (simp only: picks_map picks_filter) (rule picks_cong, auto simp: set_flushing.simps on_line_def split: memop.splits)
  have "settled_line k qs @ sel (\<lambda>i st. line st = k \<and> \<not> settled covers qs i) (\<lambda>i. clean) qs = line_stores k qs" for k
    unfolding settled_line_def line_stores_def
  proof (rule sel_split [symmetric])
    fix i j s t
    assume "i < j" "j < length qs" "qs ! i = MStore s" "qs ! j = MStore t" "line s = k" "line t = k" "settled covers qs j"
    then show "settled covers qs i"
      using ready_cover(1) [OF assms(2), of i s] ready_cover(1) [OF assms(2), of j t] settled_down [of i j qs s t] by simp
  qed
  then have "puts (sts @ ?new) b = puts (stores_where (\<lambda>i st. True) qs) b"
    using sts(3,4) new line stores_where_fits [of qs b] assms(2)
    by (intro puts_as) (auto simp: stores_where_line line_stores_def ready_def)
  moreover have "do_stores ?new (r_file r) = Some (puts (sts @ ?new) b)"
    using new file_fits [OF sts(2,3)] sts(2) by (simp add: do_stores_puts puts_append)
  ultimately show ?thesis by (simp add: replay_write_back_all_stores_def sts(1))
qed

section \<open>The image\<close>

lemma slice_subset: "set (py_slice xs i j) \<subseteq> set xs"
  by (auto simp: py_slice_def dest: in_set_takeD in_set_dropD)

lemma slice_from_subset: "set (py_slice_from xs i) \<subseteq> set xs"
  by (auto simp: py_slice_from_def dest: in_set_dropD)

lemma ready_puts:
  assumes "\<forall>st\<in>set sts. fits b st"
  shows "ready (puts sts b) qs = ready b qs"
proof -
  have "fits (puts sts b) = fits b" using puts_simps [OF assms] by simp
  then have "op_ok (puts sts b) x = op_ok b x" for x by (cases x) simp_all
  then show ?thesis by (simp add: ready_def)
qed

lemma gen_crash_img_eq:
  assumes "ready b (mt_ops tr)" "length (tids tr) = 3" "ops_thread_idx tr = [i0, i1, i2]"
    and "get_roll_back_idx tr = Some (Some back)"
    and A: "A = py_slice (mt_ops tr) 0 i1"
    and BC: "BC = py_slice (mt_ops tr) i1 (back + 1) @ py_slice_from (mt_ops tr) i2"
  shows "gen_crash_img tr b = Some (Some
    (file_map (puts (settled_stores BC) (puts (stores_where (\<lambda>i st. True) A) b)), open_stores BC))"
proof -
  let ?all = "stores_where (\<lambda>i st. True) A"
  have "set A \<subseteq> set (mt_ops tr)" "set BC \<subseteq> set (mt_ops tr)"
    unfolding A BC set_append by (intro Un_least slice_subset slice_from_subset)+
  with assms(1) have A': "ready b A" and BC': "ready b BC" unfolding ready_def by blast+
  from replayed_ops [OF replayed_start, of b A] A' obtain r1 where
    r1: "replay_accept_ops A \<lparr>r_ops = [], r_file = b\<rparr> = Some r1" "replayed b A r1" by auto
  from write_back_all [OF r1(2) A'] obtain r2 where
    r2: "replay_write_back_all_stores r1 = Some r2" "r2 = \<lparr>r_ops = [], r_file = puts ?all b\<rparr>"
    by (metis replay_cache.surjective old.unit.exhaust)
  have all: "\<forall>st\<in>set ?all. fits b st"
    using A' stores_where_fits [of A b] by (auto simp: ready_def)
  have BC2: "ready (puts ?all b) BC" using BC' ready_puts [OF all] by simp
  from replayed_ops [OF replayed_start, of "puts ?all b" BC] BC2 obtain r3 where
    r3: "replay_accept_ops BC r2 = Some r3" "replayed (puts ?all b) BC r3" by (auto simp: r2(2))
  have app: "replay_accept_ops (xs @ ys) r = Option.bind (replay_accept_ops xs r) (replay_accept_ops ys)" for xs ys r
  proof (induction xs arbitrary: r)
    case (Cons x xs)
    then show ?case by (cases "replay_accept_op x r") simp_all
  qed simp
  from r3(1) obtain r4 where "replay_accept_ops (py_slice (mt_ops tr) i1 (back + 1)) r2 = Some r4"
    "replay_accept_ops (py_slice_from (mt_ops tr) i2) r4 = Some r3"
    by (auto simp: BC app bind_eq_Some_conv)
  then show ?thesis
    using assms(2-4) r1(1) r2(1) r3(2) replayed_image [OF r3(2) BC2]
    by (simp add: gen_crash_img_def A [symmetric] replayed_def)
qed

text \<open>One flushed line is enough for a store that spans two.\<close>

lemma half_flushed:
  assumes "is_in_flush f (CStore st)" "do_store st b = Some b'" "s_flushing st = 0"
  shows "replay_accept_ops [MStore st, MFlush f, MFence x] \<lparr>r_ops = [], r_file = b\<rparr> = Some \<lparr>r_ops = [], r_file = b'\<rparr>"
  using assms
  by (simp add: accept_op_def accept_flush_def replay_accept_fence_def get_flushing_ops_def accept_fence_def
      set_flushing.simps)

lemma first_line_overlaps:
  assumes "0 \<le> s_address st" "s_address st < 2 ^ 53" "0 < s_size st"
  shows "is_in_flush (Flush (s_address st) i t src) (CStore st)"
proof -
  have "64 * (s_address st div 64) \<le> s_address st" "s_address st < 64 * (s_address st div 64) + 64"
    using pos_mod_bound [of 64 "s_address st"] pos_mod_sign [of 64 "s_address st"]
      minus_mod_eq_mult_div [of "s_address st" 64] by linarith+
  with assms show ?thesis
    by (simp add: is_in_flush_def Flush_def get_cacheline_address_eq CACHELINE_BYTES_def range_cmp_def
        store_range_def flush_range_def)
qed

lemma do_store_inside:
  assumes "map_base b \<le> s_address st" "s_address st + s_size st \<le> map_base b + int (length (file_map b))"
    "s_size st = int (length (s_value_bytes st))"
  shows "do_store st b = Some (put st b)"
    "take (length (s_value_bytes st)) (drop (nat (s_address st - map_base b)) (file_map (put st b))) = s_value_bytes st"
  using assms
  by (auto simp: do_store_def mmap_assign_def py_bound_def put_def off_def Let_def min_def nat_diff_distrib)

section \<open>Addresses\<close>

lemma read_print_lps: "read_lps (print_lps addrs) = Some (int ` set addrs)"
proof -
  have "split_on (CHR '','') (print_lps addrs) = map (to_base 10) addrs @ [[]]"
  proof (induction addrs)
    case (Cons a addrs)
    have "CHR '','' \<notin> set (to_base 10 a)" using to_base_chars [of 10 a] digit_chars_no_sep(1) by auto
    with Cons split_on_append [of "CHR '',''" "to_base 10 a" "print_lps addrs"] show ?case
      by (simp add: print_lps_def)
  qed (simp add: print_lps_def)
  moreover have "map_opt (py_int 10) (map (to_base 10) addrs) = Some (map int addrs)"
    by (induction addrs) (simp_all add: py_int_to_base)
  ultimately show ?thesis by (simp add: read_lps_def)
qed

end
