(* ===== verification/Ls_Jobs.thy ===== *)
theory Ls_Jobs
  imports Race_Checker
begin

text \<open>
  The jobs of the last-store checker (\<open>checker/ls_trace_checker.py\<close>): for each API call the stores to
  crash at are chosen and handed out in units of \<open>Threshold\<close>. A job has the number of the call, the
  first and the last number of its stores, and the list that is written to its file. The helpers that
  \<open>st_trace_checker.py\<close> also has are those of \<open>Race_Checker\<close>.
\<close>

definition Threshold :: nat where
  "Threshold = 10000"

type_synonym job = "int \<times> int \<times> int \<times> int list"

record ls_checker =
  ls_total_stores :: nat
  ls_total_stores_in_op :: nat
  ls_total_lps :: nat
  store_list :: "nat list"
  jobs :: "job list"

fun stores_after_fence_from :: "bool \<Rightarrow> memop list \<Rightarrow> store_op list" where
  "stores_after_fence_from last_fence [] = []"
| "stores_after_fence_from last_fence (p # ps) =
     (case p of
        MStore st \<Rightarrow> if last_fence then st # stores_after_fence_from False ps
                    else stores_after_fence_from last_fence ps
      | MFence _ \<Rightarrow> stores_after_fence_from True ps
      | _ \<Rightarrow> stores_after_fence_from last_fence ps)"

definition stores_after_fence :: "memop list \<Rightarrow> store_op list" where
  "stores_after_fence ps = stores_after_fence_from False ps"

definition stores_used_by_loads :: "trace_state \<Rightarrow> store_op list \<Rightarrow> store_op list" where
  "stores_used_by_loads tr sts = filter (\<lambda>st. s_address st \<in> load_addrs tr) sts"

definition ls_select :: "checker_opts \<Rightarrow> trace_state \<Rightarrow> memop list \<Rightarrow> int \<Rightarrow> store_op list" where
  "ls_select G tr trace_per_api idx =
     (let sts = stores_of trace_per_api;
          sts = (if lock_free G \<noteq> 0 then filter (\<lambda>st. s_is_cas st \<noteq> 0) sts else sts)
      in if lock_based G = 1 then stores_after_fence trace_per_api
         else if lock_based G = 2 then stores_used_by_loads tr sts
         else if lock_based G = 3 then stores_not_in_new tr sts idx
         else if lock_based G = 4 then stores_used_by_loads_before_br G tr sts
         else if lock_based G = 5 then stores_match_lps G sts
         else if lock_based G = 6 then stores_used_by_loads_before_br G tr (stores_not_in_new tr sts idx)
         else sts)"

text \<open>The unit of the loop with index \<open>i\<close>, and the last unit. A missing element raises.\<close>

definition unit_job :: "int \<Rightarrow> store_op list \<Rightarrow> nat \<Rightarrow> job option" where
  "unit_job idx sts i =
     do {
       a \<leftarrow> py_nth sts ((i - 1) * Threshold);
       z \<leftarrow> py_nth sts (i * Threshold - 1);
       Some (idx, op_id a, op_id z, map op_id (take Threshold (drop ((i - 1) * Threshold) sts)))
     }"

definition last_job :: "int \<Rightarrow> store_op list \<Rightarrow> nat \<Rightarrow> job option" where
  "last_job idx sts i =
     do {
       a \<leftarrow> py_nth sts (i * Threshold);
       Some (idx, op_id a, op_id (last sts), map op_id (drop (i * Threshold) sts))
     }"

definition jobs_of :: "int \<Rightarrow> store_op list \<Rightarrow> job list option" where
  "jobs_of idx sts =
     (if sts = [] then Some []
      else do {
        js \<leftarrow> map_opt (unit_job idx sts) [1..<length sts div Threshold];
        j \<leftarrow> last_job idx sts (length sts div Threshold);
        Some (js @ [j])
      })"

definition init_jobs_per_api ::
  "checker_opts \<Rightarrow> trace_state \<Rightarrow> memop list \<Rightarrow> int \<Rightarrow> ls_checker \<Rightarrow> ls_checker option"
where
  "init_jobs_per_api G tr trace_per_api idx C =
     (let sts = ls_select G tr trace_per_api idx
      in do {
        js \<leftarrow> jobs_of idx sts;
        Some (C\<lparr>ls_total_stores_in_op := ls_total_stores_in_op C + length (stores_of trace_per_api),
                store_list := store_list C @ [length sts],
                ls_total_lps := ls_total_lps C + length sts,
                jobs := jobs C @ js\<rparr>)
      })"

fun init_jobs ::
  "checker_opts \<Rightarrow> trace_state \<Rightarrow> int \<Rightarrow> (int \<times> int) list \<Rightarrow> ls_checker \<Rightarrow> ls_checker option"
where
  "init_jobs G tr idx [] C = Some C"
| "init_jobs G tr idx (r # rs) C =
     do { C \<leftarrow> init_jobs_per_api G tr (api_ops tr r) idx C; init_jobs G tr (idx + 1) rs C }"

definition LSChecker :: "checker_opts \<Rightarrow> trace_state \<Rightarrow> ls_checker option" where
  "LSChecker G tr =
     init_jobs G tr 0 (ops_api_ranges tr)
       \<lparr>ls_total_stores = length (stores_of (ops tr)), ls_total_stores_in_op = 0, ls_total_lps = 0,
        store_list = [], jobs = []\<rparr>"

section \<open>Which stores are handed out\<close>

definition job_ids :: "job \<Rightarrow> int list" where
  "job_ids j = (case j of (idx, a, z, ids) \<Rightarrow> ids)"

lemma map_opt_Some: "\<forall>x\<in>set xs. f x = Some (g x) \<Longrightarrow> map_opt f xs = Some (map g xs)"
  by (induction xs) auto

lemma units_concat:
  "concat (map (\<lambda>i. take T (drop ((i - 1) * T) xs)) [1..<n]) = take ((n - 1) * T) xs"
proof (induction n)
  case (Suc n)
  show ?case
  proof (cases "n = 0")
    case False
    have "take ((n - 1) * T) xs @ take T (drop ((n - 1) * T) xs) = take ((n - 1) * T + T) xs"
      by (simp add: take_add)
    also have "(n - 1) * T + T = n * T" using False by (cases n) simp_all
    finally show ?thesis using Suc False by simp
  qed simp
qed simp

lemma unit_job_eq:
  assumes "1 \<le> i" "i * Threshold \<le> length sts"
  shows "unit_job idx sts i = Some (idx, op_id (sts ! ((i - 1) * Threshold)), op_id (sts ! (i * Threshold - 1)),
    map op_id (take Threshold (drop ((i - 1) * Threshold) sts)))"
proof -
  obtain k where k: "i = Suc k" using assms(1) by (cases i) auto
  have "Threshold > 0" by (simp add: Threshold_def)
  with assms(2) k have "(i - 1) * Threshold < length sts" "i * Threshold - 1 < length sts" by simp_all
  then show ?thesis by (simp add: unit_job_def py_nth_def)
qed

lemma units_eq:
  assumes "n = length sts div Threshold"
  shows "\<exists>js. map_opt (unit_job idx sts) [1..<n] = Some js
    \<and> concat (map job_ids js) = take ((n - 1) * Threshold) (map op_id sts)"
proof -
  let ?g = "\<lambda>i. (idx, op_id (sts ! ((i - 1) * Threshold)), op_id (sts ! (i * Threshold - 1)),
    map op_id (take Threshold (drop ((i - 1) * Threshold) sts)))"
  have le: "i * Threshold \<le> length sts" if "i < n" for i
  proof -
    have "i * Threshold \<le> n * Threshold" using that by simp
    also have "\<dots> \<le> length sts" by (simp add: assms)
    finally show ?thesis .
  qed
  then have "map_opt (unit_job idx sts) [1..<n] = Some (map ?g [1..<n])"
    by (intro map_opt_Some) (simp add: unit_job_eq)
  moreover have "concat (map job_ids (map ?g [1..<n])) =
      concat (map (\<lambda>i. take Threshold (drop ((i - 1) * Threshold) (map op_id sts))) [1..<n])"
    by (simp add: job_ids_def comp_def take_map drop_map)
  ultimately show ?thesis using units_concat [of Threshold "map op_id sts" n] by auto
qed

lemma jobs_of_returns: "(\<exists>js. jobs_of idx sts = Some js) \<longleftrightarrow> sts = [] \<or> length sts mod Threshold \<noteq> 0"
proof -
  let ?n = "length sts div Threshold"
  have "?n * Threshold < length sts \<longleftrightarrow> length sts mod Threshold \<noteq> 0"
    using div_mult_mod_eq [of "length sts" Threshold] by linarith
  moreover obtain js where "map_opt (unit_job idx sts) [1..<?n] = Some js" using units_eq by blast
  ultimately show ?thesis by (auto simp: jobs_of_def last_job_def py_nth_def)
qed

lemma jobs_of_ids:
  assumes "jobs_of idx sts = Some js"
  shows "concat (map job_ids js) =
    take ((length sts div Threshold - 1) * Threshold) (map op_id sts)
    @ drop (length sts div Threshold * Threshold) (map op_id sts)"
proof (cases "sts = []")
  case False
  let ?n = "length sts div Threshold"
  obtain us where us: "map_opt (unit_job idx sts) [1..<?n] = Some us"
    "concat (map job_ids us) = take ((?n - 1) * Threshold) (map op_id sts)" using units_eq by blast
  with assms False obtain j where "last_job idx sts ?n = Some j" "js = us @ [j]"
    by (auto simp: jobs_of_def bind_eq_Some_conv)
  moreover from this have "job_ids j = drop (?n * Threshold) (map op_id sts)"
    by (auto simp: last_job_def py_nth_def job_ids_def drop_map split: if_splits)
  ultimately show ?thesis using us(2) by simp
qed (use assms in \<open>simp add: jobs_of_def\<close>)

lemma jobs_of_small:
  assumes "length sts < Threshold" "sts \<noteq> []"
  shows "jobs_of idx sts = Some [(idx, op_id (hd sts), op_id (last sts), map op_id sts)]"
  using assms by (simp add: jobs_of_def last_job_def py_nth_def hd_conv_nth)

end
