(* ===== verification/Op_Files.thy ===== *)
theory Op_Files
  imports Py_Lib "HOL-Library.AList"
begin

text \<open>
  Operation files and oracles (\<open>lib/op_file.py\<close>, \<open>lib/op_file_q.py\<close>): the model of a map or a queue
  after the operations of a file, with alternatives for the operation that was interrupted, the
  operations that validate a crash image, and the comparison of their output with the oracle. Running
  the program is left out: what it printed and whether it timed out are parameters. A dictionary is an
  association list in insertion order. \<open>None\<close> is an exception or a failed assertion.
\<close>

section \<open>Text\<close>

type_synonym dict = "(string \<times> string) list"

fun contains :: "string \<Rightarrow> string \<Rightarrow> bool" where
  "contains pat [] = (pat = [])"
| "contains pat (c # cs) = (take (length pat) (c # cs) = pat \<or> contains pat cs)"

text \<open>\<open>split\<close> with a separator of three equal characters.\<close>

fun split3 :: "char \<Rightarrow> string \<Rightarrow> string \<Rightarrow> string list" where
  "split3 m acc (a # b # c # cs) =
     (if a = m \<and> b = m \<and> c = m then rev acc # split3 m [] cs else split3 m (a # acc) (b # c # cs))"
| "split3 m acc cs = [rev acc @ cs]"

definition MAGIC :: string where "MAGIC = ''!!!''"
definition MAGIC_ANY :: string where "MAGIC_ANY = ''###''"
definition MAGIC_PREV :: string where "MAGIC_PREV = ''%%%''"
definition null_text :: string where "null_text = ''(null)''"

definition entries_of :: "string \<Rightarrow> string list" where
  "entries_of p = butlast (split_on (CHR '';'') p)"

definition file_lines :: "string \<Rightarrow> string list" where
  "file_lines text = butlast (split_on newline (universal_newlines text))"

section \<open>OPFile\<close>

definition gen_prefix :: "string list \<Rightarrow> nat \<times> nat \<Rightarrow> string" where
  "gen_prefix ops pair =
     (let pair_min = min (fst pair) (snd pair); pair_max = max (fst pair) (snd pair)
      in concat (map (\<lambda>i. if i = pair_min then [] else ops ! i @ [newline])
           (takeWhile (\<lambda>i. i = pair_min \<or> i \<noteq> pair_max) [0..<length ops])))"

definition gen_race :: "string list \<Rightarrow> nat \<times> nat \<Rightarrow> string option" where
  "gen_race ops pair =
     do { a \<leftarrow> py_nth ops (fst pair); b \<leftarrow> py_nth ops (snd pair); Some (a @ [newline] @ b @ [newline]) }"

section \<open>PrefixOPFile and RaceOPFile\<close>

definition prefix_step :: "string \<Rightarrow> dict \<Rightarrow> dict option" where
  "prefix_step p model =
     (let entries = entries_of p
      in do {
        op_type \<leftarrow> py_nth entries 0;
        if op_type = ''i'' then
          do { op_key \<leftarrow> py_nth entries 1; op_val \<leftarrow> py_nth entries 2; Some (AList.update op_key op_val model) }
        else if op_type = ''d'' then
          do { op_key \<leftarrow> py_nth entries 1; Some (AList.delete op_key model) }
        else if op_type = ''g'' then Some model
        else None
      })"

fun fold_opt :: "('a \<Rightarrow> 'b \<Rightarrow> 'b option) \<Rightarrow> 'a list \<Rightarrow> 'b \<Rightarrow> 'b option" where
  "fold_opt f [] s = Some s"
| "fold_opt f (x # xs) s = do { s \<leftarrow> f x s; fold_opt f xs s }"

definition prefix_gen_model :: "string list \<Rightarrow> dict option" where
  "prefix_gen_model ops = fold_opt prefix_step ops []"

definition race_type :: "string list \<Rightarrow> string option" where
  "race_type ops =
     do {
       p0 \<leftarrow> py_nth ops 0; t0 \<leftarrow> py_nth (entries_of p0) 0; k0 \<leftarrow> py_nth (entries_of p0) 1;
       p1 \<leftarrow> py_nth ops 1; t1 \<leftarrow> py_nth (entries_of p1) 0; k1 \<leftarrow> py_nth (entries_of p1) 1;
       let s = (if k0 = k1 then ''_same'' else ''_diff'');
       Some (if t0 = ''i'' \<and> t1 = ''g'' then ''ig'' @ s
             else if t0 = ''d'' \<and> t1 = ''g'' then ''dg'' @ s
             else if t0 = ''i'' \<and> t1 = ''d'' then ''id'' @ s
             else if t0 = ''d'' \<and> t1 = ''i'' then ''di'' @ s
             else if t0 = ''i'' \<and> t1 = ''i'' then ''ii'' @ s
             else if t0 = ''d'' \<and> t1 = ''d'' then ''dd'' @ s
             else ''other'')
     }"

text \<open>The alternatives for the key of an operation that may or may not have happened.\<close>

definition put_insert :: "bool \<Rightarrow> string \<Rightarrow> string \<Rightarrow> dict \<Rightarrow> dict" where
  "put_insert done op_key op_val model =
     (if done then AList.update op_key op_val model
      else case map_of model op_key of
             None \<Rightarrow> AList.update op_key (op_val @ MAGIC @ null_text) model
           | Some old \<Rightarrow> AList.update op_key (op_val @ MAGIC @ old) model)"

definition put_delete :: "bool \<Rightarrow> string \<Rightarrow> dict \<Rightarrow> dict" where
  "put_delete done op_key model =
     (if done then AList.update op_key null_text model
      else case map_of model op_key of
             None \<Rightarrow> AList.update op_key null_text model
           | Some old \<Rightarrow> AList.update op_key (null_text @ MAGIC @ old) model)"

definition race_first :: "bool \<Rightarrow> string \<Rightarrow> dict \<Rightarrow> dict option" where
  "race_first first_op_done p model =
     (let entries = entries_of p
      in do {
        op_type \<leftarrow> py_nth entries 0;
        if op_type = ''i'' then
          do { op_key \<leftarrow> py_nth entries 1; op_val \<leftarrow> py_nth entries 2;
               Some (put_insert first_op_done op_key op_val model) }
        else if op_type = ''d'' then
          do { op_key \<leftarrow> py_nth entries 1; Some (put_delete first_op_done op_key model) }
        else Some model
      })"

definition race_second :: "string list \<Rightarrow> string \<Rightarrow> dict \<Rightarrow> dict option" where
  "race_second outputs p model =
     (let entries = entries_of p
      in do {
        op_type \<leftarrow> py_nth entries 0;
        if op_type = ''i'' then
          do { op_key \<leftarrow> py_nth entries 1; op_val \<leftarrow> py_nth entries 2; Some (AList.update op_key op_val model) }
        else if op_type = ''d'' then
          do { op_key \<leftarrow> py_nth entries 1; Some (AList.update op_key null_text model) }
        else if op_type = ''g'' then
          do { op_key \<leftarrow> py_nth entries 1; op_val \<leftarrow> py_nth outputs 0; Some (AList.update op_key op_val model) }
        else None
      })"

definition race_gen_model :: "bool \<Rightarrow> string list \<Rightarrow> string list \<Rightarrow> dict \<Rightarrow> dict option" where
  "race_gen_model first_op_done ops outputs model =
     (if length ops = 2 \<and> length outputs = 1
      then do {
        _ \<leftarrow> race_type ops;
        m \<leftarrow> race_first first_op_done (ops ! 0) model;
        race_second outputs (ops ! 1) m
      }
      else None)"

section \<open>OPValidator\<close>

definition gets :: "dict \<Rightarrow> (string \<times> string) list" where
  "gets model = map (\<lambda>(k, v). (''g;'' @ k @ '';'', v)) model"

definition deletes :: "dict \<Rightarrow> (string \<times> string) list" where
  "deletes model = map (\<lambda>(k, v). (''d;'' @ k @ '';'', [])) model
     @ map (\<lambda>(k, v). (''g;'' @ k @ '';'', null_text)) model"

text \<open>The inputs paired with their oracles.\<close>

definition gen_val_input_and_oracle :: "bool \<Rightarrow> dict \<Rightarrow> (string \<times> string) list" where
  "gen_val_input_and_oracle need_del model = gets model @ (if need_del then deletes model else [])"

definition match :: "string \<Rightarrow> string \<Rightarrow> string option \<Rightarrow> bool" where
  "match out oracle prev \<longleftrightarrow>
     (if contains MAGIC_ANY oracle then True
      else if contains MAGIC_PREV oracle then Some (py_strip out) = prev
      else if \<not> contains MAGIC oracle then out = oracle
      else out \<in> set (split3 (CHR ''!'') [] oracle))"

fun match_all :: "(string \<times> string) list \<Rightarrow> string option \<Rightarrow> bool" where
  "match_all [] prev = True"
| "match_all ((out, oracle) # rest) prev =
     (if oracle = [] then match_all rest prev
      else match out oracle prev \<and> match_all rest (Some out))"

datatype buggy = no_out_file | out_file_len_mismatch | out_file_val_mismatch

definition validate :: "bool \<Rightarrow> string option \<Rightarrow> string list \<Rightarrow> buggy option" where
  "validate timeout val_out val_oracles =
     (if timeout then None
      else case val_out of
             None \<Rightarrow> Some no_out_file
           | Some text \<Rightarrow>
               (let outputs = file_lines text
                in if length outputs \<noteq> length val_oracles then Some out_file_len_mismatch
                   else if match_all (zip outputs val_oracles) None then None
                   else Some out_file_val_mismatch))"

section \<open>LSOPValidator\<close>

text \<open>The operation with the number \<open>n\<close> was interrupted; those before it are done.\<close>

definition ls_step :: "bool \<Rightarrow> string \<Rightarrow> dict \<Rightarrow> dict option" where
  "ls_step done p model =
     (let entries = entries_of p
      in do {
        op_type \<leftarrow> py_nth entries 0;
        if op_type = ''i'' then
          do { op_key \<leftarrow> py_nth entries 1; op_val \<leftarrow> py_nth entries 2; Some (put_insert done op_key op_val model) }
        else if op_type = ''d'' then
          do { op_key \<leftarrow> py_nth entries 1;
               Some (if done then (if map_of model op_key \<noteq> None then AList.update op_key null_text model else model)
                     else put_delete False op_key model) }
        else if op_type = ''g'' then Some model
        else None
      })"

fun ls_gen_model_from :: "nat \<Rightarrow> nat \<Rightarrow> string list \<Rightarrow> dict \<Rightarrow> dict option" where
  "ls_gen_model_from idx n [] model = Some model"
| "ls_gen_model_from idx n (p # ps) model =
     (if n < idx then Some model
      else do { model \<leftarrow> ls_step (idx \<noteq> n) p model; ls_gen_model_from (idx + 1) n ps model })"

definition ls_gen_model :: "nat \<Rightarrow> string list \<Rightarrow> dict option" where
  "ls_gen_model n ops = ls_gen_model_from 0 n ops []"

text \<open>
  One hundred unused keys. The draws are a parameter, a list of numbers that \<open>randint\<close> maps into its
  range; \<open>None\<close> is that the draws did not suffice.
\<close>

definition randint :: "nat \<Rightarrow> nat \<Rightarrow> nat \<Rightarrow> nat" where
  "randint a b r = a + r mod (b + 1 - a)"

fun redraw :: "string set \<Rightarrow> string \<Rightarrow> nat list \<Rightarrow> (string \<times> nat list) option" where
  "redraw used key rs =
     (if key \<notin> used then Some (key, rs)
      else case rs of [] \<Rightarrow> None | r # rs' \<Rightarrow> redraw used (to_base 10 (randint 0 1000 r)) rs')"

declare redraw.simps [simp del]

fun draw_keys :: "nat \<Rightarrow> string set \<Rightarrow> string list \<Rightarrow> nat list \<Rightarrow> string list option" where
  "draw_keys 0 used extra rs = Some extra"
| "draw_keys (Suc n) used extra [] = None"
| "draw_keys (Suc n) used extra (r # rs) =
     do {
       (key, rs') \<leftarrow> redraw (used \<union> set extra) (to_base 10 (randint 1 1000 r)) rs;
       draw_keys n used (extra @ [key]) rs'
     }"

definition ls_gen_val_input_and_oracle :: "bool \<Rightarrow> nat list \<Rightarrow> dict \<Rightarrow> (string \<times> string) list option" where
  "ls_gen_val_input_and_oracle need_del rs model =
     do {
       extra_keys \<leftarrow> draw_keys 100 (fst ` set model) [] rs;
       Some (map (\<lambda>key. (''i;'' @ key @ '';'' @ key @ '';'', [])) extra_keys
             @ map (\<lambda>key. (''g;'' @ key @ '';'', key)) extra_keys
             @ gets model @ (if need_del then deletes model else []))
     }"

section \<open>op_file_q.py\<close>

definition queue_step :: "string \<Rightarrow> string list \<Rightarrow> string list option" where
  "queue_step p model =
     (let entries = entries_of p
      in do {
        op_type \<leftarrow> py_nth entries 0;
        if op_type = ''E'' then do { op_val \<leftarrow> py_nth entries 1; Some (model @ [op_val]) }
        else if op_type = ''D'' then Some (tl model)
        else None
      })"

definition queue_prefix_gen_model :: "string list \<Rightarrow> string list option" where
  "queue_prefix_gen_model ops = fold_opt queue_step ops []"

definition queue_race_type :: "string list \<Rightarrow> string option" where
  "queue_race_type ops =
     do {
       p0 \<leftarrow> py_nth ops 0; t0 \<leftarrow> py_nth (entries_of p0) 0;
       p1 \<leftarrow> py_nth ops 1; t1 \<leftarrow> py_nth (entries_of p1) 0;
       Some (t0 @ t1)
     }"

definition queue_race_gen_model :: "string list \<Rightarrow> string list \<Rightarrow> string list \<Rightarrow> string list list option" where
  "queue_race_gen_model ops outputs model =
     (if \<not> (length ops = 2 \<and> length outputs = 1) then None else do {
       p0 \<leftarrow> py_nth ops 0; t0 \<leftarrow> py_nth (entries_of p0) 0;
       p1 \<leftarrow> py_nth ops 1; t1 \<leftarrow> py_nth (entries_of p1) 0;
       if t0 = ''E'' \<and> t1 = ''E'' then Some [model]
       else if t0 = ''D'' \<and> t1 = ''D'' then Some [drop 1 model, drop 2 model]
       else if t0 = ''E'' \<and> t1 = ''D'' then Some [drop 1 model]
       else if t0 = ''D'' \<and> t1 = ''E'' then Some [model, drop 1 model]
       else None
     })"

definition queue_gen_val_input_and_oracle :: "string list list \<Rightarrow> (string \<times> string) list" where
  "queue_gen_val_input_and_oracle models =
     (let min_l = (case map length models of [] \<Rightarrow> 0 | l # ls \<Rightarrow> fold min ls l)
      in map (\<lambda>i. (''D;'', drop 3 (concat (map (\<lambda>model. MAGIC @ model ! i) models)))) [0..<min_l]
         @ replicate 10 (''E;999;'', []) @ replicate 2 (''D;'', MAGIC_ANY) @ replicate 8 (''D;'', ''999''))"

fun queue_ls_gen_model_from :: "nat \<Rightarrow> nat \<Rightarrow> string list \<Rightarrow> string list \<Rightarrow> string list list option" where
  "queue_ls_gen_model_from idx n [] model = Some []"
| "queue_ls_gen_model_from idx n (p # ps) model =
     (if n < idx then Some []
      else
        (let entries = entries_of p
         in do {
           op_type \<leftarrow> py_nth entries 0;
           if op_type = ''E'' then
             do { op_val \<leftarrow> py_nth entries 1;
                  if idx \<noteq> n then queue_ls_gen_model_from (idx + 1) n ps (model @ [op_val])
                  else do { ms \<leftarrow> queue_ls_gen_model_from (idx + 1) n ps model; Some (model # ms) } }
           else if op_type = ''D'' then
             (if idx \<noteq> n then queue_ls_gen_model_from (idx + 1) n ps (tl model)
              else do { ms \<leftarrow> queue_ls_gen_model_from (idx + 1) n ps model; Some (model # drop 1 model # ms) })
           else None
         }))"

definition queue_ls_gen_model :: "nat \<Rightarrow> string list \<Rightarrow> string list list option" where
  "queue_ls_gen_model n ops = queue_ls_gen_model_from 0 n ops []"

end
