(* ===== verification/Op_Files_Correct.thy ===== *)
theory Op_Files_Correct
  imports Op_Files
begin

text \<open>
  The oracles against the meaning of the operations: a map from keys to values. An oracle accepts what
  the key held before or after the interrupted operation and nothing else.
\<close>

section \<open>Operations\<close>

datatype dsop = Ins string string | Del string | Get string

definition parse :: "string \<Rightarrow> dsop option" where
  "parse p =
     (let es = entries_of p
      in if es = [] then None
         else if es ! 0 = ''i'' \<and> 3 \<le> length es then Some (Ins (es ! 1) (es ! 2))
         else if es ! 0 = ''d'' \<and> 2 \<le> length es then Some (Del (es ! 1))
         else if es ! 0 = ''g'' \<and> 2 \<le> length es then Some (Get (es ! 1))
         else None)"

fun apply_op :: "dsop \<Rightarrow> (string \<rightharpoonup> string) \<Rightarrow> (string \<rightharpoonup> string)" where
  "apply_op (Ins k v) m = m(k \<mapsto> v)"
| "apply_op (Del k) m = m(k := None)"
| "apply_op (Get k) m = m"

fun op_key :: "dsop \<Rightarrow> string" where
  "op_key (Ins k v) = k"
| "op_key (Del k) = k"
| "op_key (Get k) = k"

definition run_ops :: "dsop list \<Rightarrow> (string \<rightharpoonup> string)" where
  "run_ops as = fold apply_op as (\<lambda>_. None)"

text \<open>What a get prints.\<close>

definition shown :: "(string \<rightharpoonup> string) \<Rightarrow> string \<Rightarrow> string" where
  "shown m k = (case m k of None \<Rightarrow> null_text | Some v \<Rightarrow> v)"

definition plain :: "string \<Rightarrow> bool" where
  "plain v \<longleftrightarrow> CHR ''!'' \<notin> set v \<and> CHR ''#'' \<notin> set v \<and> CHR ''%'' \<notin> set v"

fun plain_op :: "dsop \<Rightarrow> bool" where
  "plain_op (Ins k v) \<longleftrightarrow> plain v"
| "plain_op _ \<longleftrightarrow> True"

lemma plain_null [simp]: "plain null_text"
  by (simp add: plain_def null_text_def)

section \<open>Matching\<close>

lemma contains_char: "contains pat s \<Longrightarrow> set pat \<subseteq> set s"
proof (induction s)
  case (Cons c s)
  then show ?case using set_take_subset [of "length pat" "c # s"] by auto
qed simp

lemma contains_append: "contains pat (xs @ pat @ ys)"
proof (induction xs)
  case Nil
  show ?case
  proof (cases "pat @ ys")
    case (Cons c cs)
    then have "take (length pat) (c # cs) = pat" by (metis append_eq_conv_conj)
    with Cons show ?thesis by simp
  qed simp
qed simp

lemma split3_none: "m \<notin> set s \<Longrightarrow> split3 m acc s = [rev acc @ s]"
  by (induction m acc s rule: split3.induct) auto

lemma split3_once:
  "m \<notin> set v \<Longrightarrow> m \<notin> set w \<Longrightarrow> split3 m acc (v @ [m, m, m] @ w) = [rev acc @ v, w]"
proof (induction v arbitrary: acc)
  case (Cons a v)
  obtain b c r where "v @ [m, m, m] @ w = b # c # r" by (cases v; cases "tl v") auto
  with Cons show ?case by auto
qed (simp add: split3_none)

lemma match_plain:
  assumes "plain w"
  shows "match out w prev \<longleftrightarrow> out = w"
  using assms contains_char [of MAGIC_ANY w] contains_char [of MAGIC_PREV w] contains_char [of MAGIC w]
  by (auto simp: match_def plain_def MAGIC_def MAGIC_ANY_def MAGIC_PREV_def)

lemma match_either:
  assumes "plain v" "plain w"
  shows "match out (v @ MAGIC @ w) prev \<longleftrightarrow> out = v \<or> out = w"
proof -
  have "\<not> contains MAGIC_ANY (v @ MAGIC @ w)" "\<not> contains MAGIC_PREV (v @ MAGIC @ w)"
    using assms contains_char [of MAGIC_ANY "v @ MAGIC @ w"] contains_char [of MAGIC_PREV "v @ MAGIC @ w"]
    by (auto simp: plain_def MAGIC_def MAGIC_ANY_def MAGIC_PREV_def)
  moreover have "contains MAGIC (v @ MAGIC @ w)" by (rule contains_append)
  moreover have "split3 (CHR ''!'') [] (v @ MAGIC @ w) = [v, w]"
    using assms split3_once [of "CHR ''!''" v w "[]"] by (simp add: plain_def MAGIC_def)
  ultimately show ?thesis by (simp add: match_def)
qed

section \<open>The last-store oracle\<close>

text \<open>A model without alternatives.\<close>

definition models :: "dict \<Rightarrow> (string \<rightharpoonup> string) \<Rightarrow> bool" where
  "models d m \<longleftrightarrow> (\<forall>k. case map_of d k of None \<Rightarrow> m k = None | Some w \<Rightarrow> w = shown m k \<and> plain w)"

lemma modelsD:
  "models d m \<Longrightarrow> map_of d k = Some w \<Longrightarrow> w = shown m k \<and> plain w"
  "models d m \<Longrightarrow> map_of d k = None \<Longrightarrow> m k = None"
  by (auto simp: models_def dest: spec [of _ k])

lemma ls_step_parse:
  assumes "parse p = Some a"
  shows "ls_step done p d = Some (case a of
    Ins k v \<Rightarrow> put_insert done k v d
  | Del k \<Rightarrow> if done then (if map_of d k \<noteq> None then AList.update k null_text d else d) else put_delete False k d
  | Get k \<Rightarrow> d)"
  using assms by (auto simp: parse_def ls_step_def Let_def py_nth_def split: if_splits)

lemma shown_plain: "models d m \<Longrightarrow> plain (shown m k)"
  using modelsD [of d m k] by (cases "map_of d k") (auto simp: shown_def)

lemma shown_update: "shown (m(k \<mapsto> v)) j = (if j = k then v else shown m j)"
  "shown (m(k := None)) j = (if j = k then null_text else shown m j)"
  by (simp_all add: shown_def)

lemma models_update:
  assumes "models d m" "plain w" "w = shown m' k" "\<And>j. j \<noteq> k \<Longrightarrow> m' j = m j"
  shows "models (AList.update k w d) m'"
  unfolding models_def
proof
  fix j
  show "case map_of (AList.update k w d) j of None \<Rightarrow> m' j = None | Some u \<Rightarrow> u = shown m' j \<and> plain u"
  proof (cases "j = k")
    case True
    with assms(2,3) show ?thesis by (simp add: update_conv)
  next
    case False
    moreover from this assms(4) have "shown m' j = shown m j" by (simp add: shown_def)
    ultimately show ?thesis using modelsD [OF assms(1), of j] assms(4) by (simp add: update_conv split: option.splits)
  qed
qed

lemma models_step:
  assumes "models d m" "parse p = Some a" "plain_op a"
  shows "\<exists>d'. ls_step True p d = Some d' \<and> models d' (apply_op a m)"
proof (cases a)
  case (Ins k v)
  with assms(3) have "models (AList.update k v d) (m(k \<mapsto> v))"
    by (intro models_update [OF assms(1)]) (simp_all add: shown_update)
  with Ins show ?thesis by (simp add: ls_step_parse [OF assms(2)] put_insert_def)
next
  case (Del k)
  show ?thesis
  proof (cases "map_of d k")
    case None
    with modelsD(2) [OF assms(1)] have "m(k := None) = m" by auto
    with assms(1) Del None show ?thesis by (simp add: ls_step_parse [OF assms(2)])
  next
    case (Some w)
    have "models (AList.update k null_text d) (m(k := None))"
      by (intro models_update [OF assms(1)]) (simp_all add: shown_update)
    with Del Some show ?thesis by (simp add: ls_step_parse [OF assms(2)])
  qed
qed (use assms in \<open>simp add: ls_step_parse [OF assms(2)]\<close>)

lemma models_ops:
  assumes "models d m" "list_all2 (\<lambda>p a. parse p = Some a \<and> plain_op a) ps as"
  shows "\<exists>d'. fold_opt (ls_step True) ps d = Some d' \<and> models d' (fold apply_op as m)"
  using assms(2,1)
proof (induction arbitrary: d m rule: list_all2_induct)
  case (Cons p ps a as)
  then obtain d1 where "ls_step True p d = Some d1" "models d1 (apply_op a m)"
    using models_step by blast
  with Cons.IH show ?case by simp
qed simp

lemma ls_gen_model_split:
  "j < length ps \<Longrightarrow> ls_gen_model_from idx (idx + j) ps d =
     do { d \<leftarrow> fold_opt (ls_step True) (take j ps) d; ls_step False (ps ! j) d }"
proof (induction ps arbitrary: idx j d)
  case (Cons p ps)
  show ?case
  proof (cases j)
    case 0
    have "ls_gen_model_from (idx + 1) idx ps d' = Some d'" for d'
      by (cases ps) simp_all
    with 0 show ?thesis by (cases "ls_step False p d") simp_all
  next
    case (Suc i)
    with Cons.IH [of i "idx + 1"] Cons.prems show ?thesis
      by (cases "ls_step True p d") simp_all
  qed
qed simp

text \<open>What the interrupted operation adds.\<close>

lemma put_insert_alternative:
  assumes "models d m"
  shows "put_insert False k v d = AList.update k (v @ MAGIC @ shown m k) d"
  using modelsD [OF assms, of k] by (cases "map_of d k") (simp_all add: put_insert_def shown_def)

lemma put_delete_alternative:
  assumes "models d m" "map_of (put_delete False k d) k = Some oracle"
  shows "match out oracle prev \<longleftrightarrow> out = null_text \<or> out = shown m k"
proof (cases "map_of d k")
  case None
  with assms modelsD(2) [OF assms(1) None] show ?thesis
    by (auto simp: put_delete_def update_conv match_plain shown_def)
next
  case (Some w)
  then have "w = shown m k" using modelsD(1) [OF assms(1)] by blast
  with assms Some shown_plain [OF assms(1), of k] show ?thesis
    by (auto simp: put_delete_def update_conv match_either)
qed

lemma put_delete_other: "j \<noteq> k \<Longrightarrow> map_of (put_delete b k d) j = map_of d j"
  by (simp add: put_delete_def update_conv split: option.splits)

lemma old_match:
  "models d m \<Longrightarrow> map_of d k = Some oracle \<Longrightarrow> match out oracle prev \<longleftrightarrow> out = shown m k"
  using modelsD(1) [of d m k "oracle"] match_plain [of "oracle"] by auto

lemma interrupted_match:
  assumes "models d m" "parse p = Some a" "plain_op a" "ls_step False p d = Some d'" "map_of d' k = Some oracle"
  shows "match out oracle prev \<longleftrightarrow> out = shown m k \<or> out = shown (apply_op a m) k"
proof (cases a)
  case (Ins j v)
  with assms(2,4) have d': "d' = AList.update j (v @ MAGIC @ shown m j) d"
    by (simp add: ls_step_parse put_insert_alternative [OF assms(1)])
  show ?thesis
  proof (cases "k = j")
    case True
    with assms(5) d' have "oracle = v @ MAGIC @ shown m k" by (simp add: update_conv)
    with True Ins assms(3) shown_plain [OF assms(1), of k] show ?thesis
      by (auto simp: match_either shown_update)
  next
    case False
    with assms(5) d' have "map_of d k = Some oracle" by (simp add: update_conv)
    with False Ins show ?thesis by (simp add: old_match [OF assms(1)] shown_update)
  qed
next
  case (Del j)
  with assms(2,4) have d': "d' = put_delete False j d" by (simp add: ls_step_parse)
  show ?thesis
  proof (cases "k = j")
    case True
    with Del d' assms(5) put_delete_alternative [OF assms(1), of k "oracle"] show ?thesis
      by (auto simp: shown_update)
  next
    case False
    with assms(5) d' have "map_of d k = Some oracle" by (simp add: put_delete_other)
    with False Del show ?thesis by (simp add: old_match [OF assms(1)] shown_update)
  qed
next
  case (Get j)
  with assms(2,4,5) have "map_of d k = Some oracle" by (simp add: ls_step_parse)
  with Get show ?thesis by (simp add: old_match [OF assms(1)])
qed

lemma interrupted_keys:
  assumes "models d m" "parse p = Some a" "ls_step False p d = Some d'"
    and "m k \<noteq> None \<or> apply_op a m k \<noteq> None"
  shows "map_of d' k \<noteq> None"
  using assms(3,4) modelsD(2) [OF assms(1), of k]
  by (cases a; cases "map_of d k") (auto simp: ls_step_parse [OF assms(2)] put_insert_def put_delete_def update_conv
      split: option.splits if_splits)

lemma ls_oracle:
  assumes "list_all2 (\<lambda>p a. parse p = Some a \<and> plain_op a) ps as" "n < length ps"
  shows "\<exists>d. ls_gen_model n ps = Some d
    \<and> (\<forall>k. run_ops (take n as) k \<noteq> None \<or> run_ops (take (Suc n) as) k \<noteq> None \<longrightarrow> map_of d k \<noteq> None)
    \<and> (\<forall>k ora out prev. map_of d k = Some ora \<longrightarrow>
         (match out ora prev \<longleftrightarrow> out = shown (run_ops (take n as)) k \<or> out = shown (run_ops (take (Suc n) as)) k))"
proof -
  let ?m = "run_ops (take n as)"
  have n: "n < length as" using assms(2) list_all2_lengthD [OF assms(1)] by simp
  have "models [] (\<lambda>_. None)" by (simp add: models_def)
  from models_ops [OF this list_all2_takeI [OF assms(1), of n]] obtain d0
    where d0: "fold_opt (ls_step True) (take n ps) [] = Some d0" "models d0 ?m" by (auto simp: run_ops_def)
  have p: "parse (ps ! n) = Some (as ! n)" "plain_op (as ! n)" using list_all2_nthD [OF assms] by simp_all
  then obtain d where d: "ls_step False (ps ! n) d0 = Some d" by (simp add: ls_step_parse)
  have after: "run_ops (take (Suc n) as) = apply_op (as ! n) ?m"
    using n by (simp add: run_ops_def take_Suc_conv_app_nth)
  have "ls_gen_model n ps = Some d"
    using ls_gen_model_split [OF assms(2), of 0 "[]"] d0(1) d by (simp add: ls_gen_model_def)
  then show ?thesis
    unfolding after using interrupted_keys [OF d0(2) p(1) d] interrupted_match [OF d0(2) p d] by blast
qed

section \<open>The race oracle\<close>

lemma prefix_step_parse:
  assumes "parse p = Some a"
  shows "prefix_step p d = Some (case a of Ins k v \<Rightarrow> AList.update k v d | Del k \<Rightarrow> AList.delete k d | Get k \<Rightarrow> d)"
  using assms by (auto simp: parse_def prefix_step_def Let_def py_nth_def split: if_splits)

lemma prefix_model:
  assumes "list_all2 (\<lambda>p a. parse p = Some a) ps as" "map_of d = m"
  shows "\<exists>d'. fold_opt prefix_step ps d = Some d' \<and> map_of d' = fold apply_op as m"
  using assms
proof (induction arbitrary: d m rule: list_all2_induct)
  case (Cons p ps a as)
  let ?d = "case a of Ins k v \<Rightarrow> AList.update k v d | Del k \<Rightarrow> AList.delete k d | Get k \<Rightarrow> d"
  have "map_of ?d = apply_op a m" using Cons.prems
    by (cases a) (auto simp: update_conv' delete_conv' restrict_map_def fun_eq_iff)
  with Cons.IH [of ?d "apply_op a m"] Cons.hyps(1) show ?case by (simp add: prefix_step_parse)
qed simp

lemma run_ops_plain:
  assumes "\<forall>a\<in>set as. plain_op a"
  shows "plain (shown (run_ops as) k)"
proof -
  have "plain (shown (fold apply_op as m) k)" if "\<forall>a\<in>set as. plain_op a" "\<forall>k. plain (shown m k)" for m k
    using that
  proof (induction as arbitrary: m)
    case (Cons a as)
    then have "\<forall>k. plain (shown (apply_op a m) k)" by (cases a) (auto simp: shown_update)
    with Cons show ?case by simp
  qed simp
  with assms show ?thesis by (simp add: run_ops_def shown_def)
qed

text \<open>The dictionary of the prefix has the values themselves.\<close>

lemma race_first_parse:
  assumes "parse p = Some a"
  shows "race_first b p d = Some (case a of Ins k v \<Rightarrow> put_insert b k v d | Del k \<Rightarrow> put_delete b k d | Get k \<Rightarrow> d)"
  using assms by (auto simp: parse_def race_first_def Let_def py_nth_def split: if_splits)

lemma race_second_parse:
  assumes "parse p = Some a"
  shows "race_second [out] p d = Some (AList.update (op_key a)
    (case a of Ins k v \<Rightarrow> v | Del k \<Rightarrow> null_text | Get k \<Rightarrow> out) d)"
  using assms by (auto simp: parse_def race_second_def Let_def py_nth_def split: if_splits)

lemma parse_length: "parse p = Some a \<Longrightarrow> 2 \<le> length (entries_of p)"
  by (auto simp: parse_def Let_def split: if_splits)

lemma race_type_parse:
  "parse p = Some a \<Longrightarrow> parse q = Some b \<Longrightarrow> \<exists>t. race_type [p, q] = Some t"
proof -
  assume "parse p = Some a" "parse q = Some b"
  then have "0 < length (entries_of p)" "1 < length (entries_of p)" "0 < length (entries_of q)" "1 < length (entries_of q)"
    using parse_length [of p] parse_length [of q] by auto
  then show ?thesis by (simp add: race_type_def py_nth_def Let_def del: length_greater_0_conv)
qed

lemma first_match:
  assumes "map_of d = m" "\<And>k. plain (shown m k)" "plain_op a"
    "map_of (case a of Ins k v \<Rightarrow> put_insert b k v d | Del k \<Rightarrow> put_delete b k d | Get k \<Rightarrow> d) k = Some ora"
  shows "match out ora prev \<longleftrightarrow> (\<not> b \<and> out = shown m k) \<or> out = shown (apply_op a m) k"
proof (cases "\<exists>j. a = Get j \<or> k \<noteq> op_key a")
  case True
  then have "map_of d k = Some ora" "shown (apply_op a m) k = shown m k"
    using assms(4) by (cases a; auto simp: put_insert_def put_delete_def update_conv shown_def split: option.splits if_splits)+
  then have "ora = shown m k" using assms(1) by (auto simp: shown_def)
  with assms(2) [of k] \<open>shown (apply_op a m) k = shown m k\<close> show ?thesis by (auto simp: match_plain)
next
  case False
  then have k: "k = op_key a" and g: "\<And>j. a \<noteq> Get j" by auto
  have old: "shown m k = (case map_of d k of None \<Rightarrow> null_text | Some w \<Rightarrow> w)" using assms(1) by (auto simp: shown_def)
  show ?thesis
  proof (cases "map_of d k")
    case None
    with assms(2-4) [of] k g old show ?thesis
      by (cases a; cases b) (auto simp: put_insert_def put_delete_def update_conv shown_update match_plain match_either)
  next
    case (Some w)
    with assms(2) [of k] old have "plain w" "shown m k = w" by simp_all
    with Some assms(3,4) k g show ?thesis
      by (cases a; cases b) (auto simp: put_insert_def put_delete_def update_conv shown_update match_plain match_either)
  qed
qed

text \<open>The operations that put an entry for their key.\<close>

fun writes_key :: "dsop \<Rightarrow> string \<Rightarrow> bool" where
  "writes_key (Get k) j \<longleftrightarrow> False"
| "writes_key a j \<longleftrightarrow> j = op_key a"

lemma race_oracle:
  assumes "list_all2 (\<lambda>p a. parse p = Some a) ps as" "\<forall>a\<in>set as. plain_op a"
    and "parse p0 = Some a0" "parse p1 = Some a1" "plain_op a0" "plain_op a1" "plain out1"
  shows "\<exists>d d'. prefix_gen_model ps = Some d \<and> race_gen_model b [p0, p1] [out1] d = Some d'
    \<and> (\<forall>k. map_of d' k \<noteq> None \<longleftrightarrow> run_ops as k \<noteq> None \<or> writes_key a0 k \<or> k = op_key a1)
    \<and> (\<forall>k ora out prev. map_of d' k = Some ora \<longrightarrow>
         (match out ora prev \<longleftrightarrow>
            (if k = op_key a1 then out = (case a1 of Get _ \<Rightarrow> out1 | _ \<Rightarrow> shown (run_ops (as @ [a0, a1])) k)
             else (\<not> b \<and> out = shown (run_ops as) k) \<or> out = shown (run_ops (as @ [a0])) k)))"
proof -
  let ?m = "run_ops as"
  from prefix_model [OF assms(1), of "[]"] obtain d where d: "prefix_gen_model ps = Some d" "map_of d = ?m"
    by (auto simp: prefix_gen_model_def run_ops_def)
  define d1 where "d1 = (case a0 of Ins k v \<Rightarrow> put_insert b k v d | Del k \<Rightarrow> put_delete b k d | Get k \<Rightarrow> d)"
  define w where "w = (case a1 of Ins k v \<Rightarrow> v | Del k \<Rightarrow> null_text | Get k \<Rightarrow> out1)"
  have "plain w" using assms(6,7) by (cases a1) (simp_all add: w_def)
  have w: "w = (case a1 of Get _ \<Rightarrow> out1 | _ \<Rightarrow> shown (run_ops (as @ [a0, a1])) (op_key a1))"
    by (cases a1) (simp_all add: w_def run_ops_def shown_update)
  have "race_gen_model b [p0, p1] [out1] d = Some (AList.update (op_key a1) w d1)"
    using race_type_parse [OF assms(3,4)]
    by (auto simp: race_gen_model_def race_first_parse [OF assms(3)] race_second_parse [OF assms(4)] d1_def w_def)
  moreover have "map_of (AList.update (op_key a1) w d1) k \<noteq> None \<longleftrightarrow>
      ?m k \<noteq> None \<or> writes_key a0 k \<or> k = op_key a1" for k
    by (cases a0) (auto simp: d1_def update_conv d(2) [symmetric] put_insert_def put_delete_def split: option.splits)
  moreover have "match out ora prev \<longleftrightarrow> out = w"
    if "map_of (AList.update (op_key a1) w d1) (op_key a1) = Some ora" for out ora prev
    using that \<open>plain w\<close> by (auto simp: update_conv match_plain)
  moreover have "match out ora prev \<longleftrightarrow> (\<not> b \<and> out = shown ?m k) \<or> out = shown (run_ops (as @ [a0])) k"
    if "map_of (AList.update (op_key a1) w d1) k = Some ora" "k \<noteq> op_key a1" for k ora out prev
  proof -
    have "map_of d1 k = Some ora" using that by (simp add: update_conv)
    with first_match [OF d(2) run_ops_plain [OF assms(2)] assms(5)] show ?thesis
      by (simp add: d1_def run_ops_def)
  qed
  ultimately show ?thesis using d(1) w by auto
qed

section \<open>Unused keys\<close>

definition key_texts :: "string set" where
  "key_texts = to_base 10 ` {0..1000}"

lemma inj_to_base: "inj_on (to_base 10) A"
proof (rule inj_onI)
  fix x y :: nat
  assume "to_base 10 x = to_base 10 y"
  then have "py_int 10 (to_base 10 x) = py_int 10 (to_base 10 y)" by simp
  then show "x = y" using py_int_to_base [of 10 x] py_int_to_base [of 10 y] by simp
qed

lemma randint_range: "a \<le> b \<Longrightarrow> a \<le> randint a b r \<and> randint a b r \<le> b"
proof -
  assume "a \<le> b"
  then have "r mod (b + 1 - a) < b + 1 - a" by (intro mod_less_divisor) simp
  then show ?thesis unfolding randint_def by linarith
qed

lemma randint_key: "a \<le> 1000 \<Longrightarrow> to_base 10 (randint a 1000 r) \<in> key_texts"
  using randint_range [of a 1000 r] by (auto simp: key_texts_def)

lemma redraw_sound:
  "redraw used key rs = Some (k, rs') \<Longrightarrow> key \<in> key_texts \<Longrightarrow> k \<in> key_texts - used"
proof (induction used key rs arbitrary: rs' rule: redraw.induct)
  case (1 used key rs)
  note eq = 1(2) [unfolded redraw.simps [of used key rs]]
  show ?case
  proof (cases "key \<in> used")
    case True
    with eq obtain r rs1 where r: "rs = r # rs1" "redraw used (to_base 10 (randint 0 1000 r)) rs1 = Some (k, rs')"
      by (auto split: list.splits)
    from 1(1) [OF _ r] True show ?thesis by (simp add: randint_key)
  qed (use eq 1(3) in simp)
qed

lemma draw_keys_sound:
  "draw_keys n used extra rs = Some xs \<Longrightarrow> distinct extra \<Longrightarrow> set extra \<subseteq> key_texts - used \<Longrightarrow>
   distinct xs \<and> set xs \<subseteq> key_texts - used \<and> length xs = length extra + n"
proof (induction n used extra rs rule: draw_keys.induct)
  case (3 n used extra r rs)
  from 3(2) obtain k rs' where k: "redraw (used \<union> set extra) (to_base 10 (randint 1 1000 r)) rs = Some (k, rs')"
    "draw_keys n used (extra @ [k]) rs' = Some xs" by (auto simp: bind_eq_Some_conv)
  with redraw_sound [OF k(1)] have "k \<in> key_texts - (used \<union> set extra)" by (simp add: randint_key)
  with 3(1) [OF k(1) refl k(2)] 3(3,4) show ?case by auto
qed simp_all

lemma finite_keys: "finite key_texts"
  by (simp add: key_texts_def)

text \<open>Some draw gives an unused key when there is one: the first draw leaves out 0, a second one does not.\<close>

lemma draw_one:
  assumes "key \<in> key_texts - used"
  shows "\<exists>k r rs. k \<in> key_texts - used \<and> (\<forall>rs'. redraw used (to_base 10 (randint 1 1000 r)) (rs @ rs') = Some (k, rs'))"
proof (cases "to_base 10 1 \<in> used")
  case False
  have "to_base 10 1 \<in> key_texts" by (auto simp: key_texts_def)
  moreover have "randint 1 1000 0 = 1" by (simp add: randint_def)
  ultimately show ?thesis
    using False by (intro exI [of _ "to_base 10 1"] exI [of _ 0] exI [of _ "[]"]) (simp add: redraw.simps)
next
  case True
  from assms obtain j where j: "key = to_base 10 j" "j \<le> 1000" by (auto simp: key_texts_def)
  then have "randint 0 1000 j = j" "randint 1 1000 0 = 1" by (simp_all add: randint_def)
  with True assms j show ?thesis
    by (intro exI [of _ key] exI [of _ 0] exI [of _ "[j]"]) (simp add: redraw.simps)
qed

lemma draw_keys_possible:
  "n \<le> card (key_texts - (used \<union> set extra)) \<Longrightarrow> \<exists>rs xs. draw_keys n used extra rs = Some xs"
proof (induction n arbitrary: extra)
  case (Suc n)
  let ?free = "key_texts - (used \<union> set extra)"
  from Suc.prems have "?free \<noteq> {}" by (metis card.empty not_less_eq_eq zero_le)
  then obtain key where "key \<in> ?free" by blast
  from draw_one [OF this] obtain k r rs where k: "k \<in> ?free"
    "\<And>rs'. redraw (used \<union> set extra) (to_base 10 (randint 1 1000 r)) (rs @ rs') = Some (k, rs')" by blast
  have "key_texts - (used \<union> set (extra @ [k])) = ?free - {k}" by auto
  with k(1) Suc.prems finite_keys have "n \<le> card (key_texts - (used \<union> set (extra @ [k])))" by simp
  from Suc.IH [OF this] obtain rs' xs where "draw_keys n used (extra @ [k]) rs' = Some xs" by blast
  with k(2) have "draw_keys (Suc n) used extra (r # rs @ rs') = Some xs" by simp
  then show ?case by blast
qed simp

lemma draw_keys_iff: "(\<exists>rs xs. draw_keys n used [] rs = Some xs) \<longleftrightarrow> n \<le> card (key_texts - used)"
proof
  assume "\<exists>rs xs. draw_keys n used [] rs = Some xs"
  then obtain rs xs where "draw_keys n used [] rs = Some xs" by blast
  from draw_keys_sound [OF this] have "distinct xs" "set xs \<subseteq> key_texts - used" "length xs = n" by simp_all
  then show "n \<le> card (key_texts - used)" using card_mono finite_keys distinct_card by (metis finite_Diff)
next
  assume "n \<le> card (key_texts - used)"
  then show "\<exists>rs xs. draw_keys n used [] rs = Some xs" using draw_keys_possible [of n used "[]"] by simp
qed

lemma card_key_texts: "card key_texts = 1001"
  by (simp add: key_texts_def card_image inj_to_base)

end
