(* ===== verification/Checker_Properties.thy ===== *)
theory Checker_Properties
  imports Mt_Correct Ls_Jobs Op_Files_Correct
begin

text \<open>
  Properties of the trace checker: the races it finds, the stores it hands out, the oracles, and the
  crash image of two racing calls.
\<close>

text \<open>Two calls of a small trace: the first stores, the second loads.\<close>

definition demo_race_file :: string where
  "demo_race_file = unlines
     [''APIBegin,1,NA'', ''Store,1,40,1,01,5,0'', ''APIEnd,1,NA'',
      ''APIBegin,1,NA'', ''Load,1,40,1,8'', ''APIEnd,1,NA'']"

definition demo_opts :: checker_opts where
  "demo_opts = \<lparr>window = 2, lock_free = 0, lock_based = 0, lp_srcs = [], lp_txt = []\<rparr>"

lemma demo_race_pairs:
  "map_option (\<lambda>T. map (\<lambda>(k, P). (k, length P)) (race_pairs T))
     (Option.bind (Trace False demo_race_file) (TraceChecker demo_opts)) = Some [((0, 1), 1)]"
  by code_simp

lemma demo_checked:
  "\<exists>tr T P. Trace False demo_race_file = Some tr \<and> TraceChecker demo_opts tr = Some T
     \<and> race_pairs T = [((0, 1), P)] \<and> length P = 1"
  using demo_race_pairs
  by (cases "Trace False demo_race_file"; cases "Option.bind (Trace False demo_race_file) (TraceChecker demo_opts)") auto

section \<open>Races\<close>

text \<open>
  C3: the checker reports for the calls \<open>i\<close> and \<open>j\<close> exactly the pairs within the window of a fence (or
  end) of \<open>i\<close> that makes chosen stores durable and a store (or end) of \<open>j\<close> after loads, that share an
  address and no lock; no key is reported twice.
\<close>

theorem race_pairs_exact:
  assumes "Trace False file = Some tr" "TraceChecker G tr = Some T"
  shows "((\<exists>P. ((i, j), P) \<in> set (race_pairs T) \<and> (st, ld) \<in> set P) \<longleftrightarrow>
      i < length (ops_api_ranges tr) \<and> j < length (ops_api_ranges tr) \<and> i \<noteq> j \<and> \<bar>int i - int j\<bar> < window G
      \<and> st \<in> set (call_sts G tr i) \<and> ld \<in> set (call_lds tr j) \<and> racing st ld)
    \<and> distinct (map fst (race_pairs T))
    \<and> total_races_st T = sum_list (map (\<lambda>(key, P). length P) (race_pairs T))"
  using TraceChecker_result [OF Trace_fresh [OF assms(1)] assms(2)] all_pairs_keys
  by (auto simp: all_pairs_iff)

theorem race_pairs_exact_witness:
  "\<exists>tr T. Trace False demo_race_file = Some tr \<and> TraceChecker demo_opts tr = Some T
     \<and> (\<exists>st ld. st \<in> set (call_sts demo_opts tr 0) \<and> ld \<in> set (call_lds tr 1) \<and> racing st ld)"
proof -
  obtain tr T P where t: "Trace False demo_race_file = Some tr" "TraceChecker demo_opts tr = Some T"
    "race_pairs T = [((0, 1), P)]" "length P = 1" using demo_checked by blast
  then obtain st ld where "P = [(st, ld)]" by (cases P) auto
  with t(3) race_pairs_exact [OF t(1,2), of 0 1 st ld] t(1,2) show ?thesis by auto
qed

text \<open>
  C37: the checker finishes on a trace exactly when in every API call each unlock finds a lock held.
\<close>

theorem checker_finishes_iff:
  assumes "Trace False file = Some tr"
  shows "(\<exists>T. TraceChecker G tr = Some T) \<longleftrightarrow> (\<forall>r\<in>set (ops_api_ranges tr). locks_ok (api_ops tr r))"
  by (rule TraceChecker_returns [OF Trace_fresh [OF assms]])

theorem checker_finishes_iff_witness:
  "\<exists>tr. Trace False demo_race_file = Some tr \<and> (\<forall>r\<in>set (ops_api_ranges tr). locks_ok (api_ops tr r))"
proof -
  obtain tr T where t: "Trace False demo_race_file = Some tr" "TraceChecker demo_opts tr = Some T"
    using demo_checked by blast
  with checker_finishes_iff [OF t(1), of demo_opts] show ?thesis by blast
qed

section \<open>Stores to crash at\<close>

text \<open>
  C39: of the chosen stores of a call the jobs hold all but one whole unit: with \<open>n\<close> full units, the
  last full unit is left out, and when nothing remains after the full units the checker stops.
\<close>

theorem jobs_skip_a_unit:
  "((\<exists>js. jobs_of idx sts = Some js) \<longleftrightarrow> sts = [] \<or> length sts mod Threshold \<noteq> 0)
   \<and> (\<forall>js. jobs_of idx sts = Some js \<longrightarrow> concat (map job_ids js) =
     take ((length sts div Threshold - 1) * Threshold) (map op_id sts)
     @ drop (length sts div Threshold * Threshold) (map op_id sts))"
  using jobs_of_returns jobs_of_ids by blast

definition demo_store :: store_op where
  "demo_store = \<lparr>op_id = 3, op_tid = 1, op_src = ''5'', s_address = 56, s_size = 16, s_flushing = 0,
     s_value = [], s_value_bytes = replicate 16 1, s_is_cas = 0\<rparr>"

theorem jobs_skip_a_unit_witness:
  "\<exists>js. jobs_of 0 (replicate 10001 demo_store) = Some js \<and> concat (map job_ids js) = [3]"
proof -
  have m: "length (replicate 10001 demo_store) mod Threshold \<noteq> 0" by (simp add: Threshold_def)
  then obtain js where js: "jobs_of 0 (replicate 10001 demo_store) = Some js"
    using jobs_skip_a_unit [of 0 "replicate 10001 demo_store"] by blast
  have d: "10001 div Threshold = 1" by (simp add: Threshold_def)
  have "concat (map job_ids js) = drop 10000 (replicate 10001 (3 :: int))"
    using jobs_skip_a_unit [of 0 "replicate 10001 demo_store"] js unfolding length_replicate d map_replicate
    by (simp add: Threshold_def demo_store_def)
  also have "\<dots> = [3]" by (simp add: drop_replicate del: replicate.simps(2)) (simp add: numeral_eq_Suc)
  finally show ?thesis using js by blast
qed

section \<open>Oracles\<close>

text \<open>
  C12: the oracle after a crash in operation \<open>n\<close> covers every key that is present before or after it,
  and accepts for a key exactly what a get prints before or after the operation.
\<close>

theorem ls_oracle_exact:
  assumes "list_all2 (\<lambda>p a. parse p = Some a \<and> plain_op a) ps as" "n < length ps"
  shows "\<exists>d. ls_gen_model n ps = Some d
    \<and> (\<forall>k. run_ops (take n as) k \<noteq> None \<or> run_ops (take (Suc n) as) k \<noteq> None \<longrightarrow> map_of d k \<noteq> None)
    \<and> (\<forall>k ora out prev. map_of d k = Some ora \<longrightarrow>
         (match out ora prev \<longleftrightarrow> out = shown (run_ops (take n as)) k \<or> out = shown (run_ops (take (Suc n) as)) k))"
  by (rule ls_oracle [OF assms])

theorem ls_oracle_exact_witness:
  "\<exists>d ora. ls_gen_model 1 [''i;1;5;'', ''d;1;''] = Some d \<and> map_of d ''1'' = Some ora
     \<and> match ''5'' ora None \<and> match ''(null)'' ora None \<and> \<not> match ''6'' ora None"
proof -
  let ?ps = "[''i;1;5;'', ''d;1;'']" and ?as = "[Ins ''1'' ''5'', Del ''1'']"
  have "list_all2 (\<lambda>p a. parse p = Some a \<and> plain_op a) ?ps ?as" by code_simp
  from ls_oracle_exact [OF this, of 1] obtain d where "ls_gen_model 1 ?ps = Some d" "map_of d ''1'' \<noteq> None"
    "\<forall>ora out prev. map_of d ''1'' = Some ora \<longrightarrow> (match out ora prev \<longleftrightarrow> out = ''5'' \<or> out = ''(null)'')"
    by (auto simp: run_ops_def shown_def null_text_def)
  then show ?thesis by auto
qed

text \<open>
  C13: after two racing operations the oracle has an entry for exactly the keys that are present before
  them, the key of the first one unless it is a get, and the key of the second one. For the key of the
  second one it accepts its result alone, and for any other key what a get prints after the first
  operation or, when that one was interrupted, before it.
\<close>

theorem race_oracle_exact:
  assumes "list_all2 (\<lambda>p a. parse p = Some a) ps as" "\<forall>a\<in>set as. plain_op a"
    and "parse p0 = Some a0" "parse p1 = Some a1" "plain_op a0" "plain_op a1" "plain out1"
  shows "\<exists>d d'. prefix_gen_model ps = Some d \<and> race_gen_model first_op_done [p0, p1] [out1] d = Some d'
    \<and> (\<forall>k. map_of d' k \<noteq> None \<longleftrightarrow> run_ops as k \<noteq> None \<or> writes_key a0 k \<or> k = op_key a1)
    \<and> (\<forall>k ora out prev. map_of d' k = Some ora \<longrightarrow>
         (match out ora prev \<longleftrightarrow>
            (if k = op_key a1 then out = (case a1 of Get _ \<Rightarrow> out1 | _ \<Rightarrow> shown (run_ops (as @ [a0, a1])) k)
             else (\<not> first_op_done \<and> out = shown (run_ops as) k) \<or> out = shown (run_ops (as @ [a0])) k)))"
  by (rule race_oracle [OF assms])

theorem race_oracle_exact_witness:
  "\<exists>d d' ora ora'. prefix_gen_model [''i;1;5;''] = Some d
     \<and> race_gen_model False [''d;1;'', ''i;2;7;''] [''0''] d = Some d'
     \<and> map_of d' ''1'' = Some ora \<and> match ''5'' ora None \<and> match ''(null)'' ora None \<and> \<not> match ''7'' ora None
     \<and> map_of d' ''2'' = Some ora' \<and> match ''7'' ora' None \<and> \<not> match ''(null)'' ora' None
     \<and> map_of d' ''3'' = None"
proof -
  have p: "list_all2 (\<lambda>p a. parse p = Some a) [''i;1;5;''] [Ins ''1'' ''5'']" "\<forall>a\<in>set [Ins ''1'' ''5'']. plain_op a"
    "parse ''d;1;'' = Some (Del ''1'')" "parse ''i;2;7;'' = Some (Ins ''2'' ''7'')"
    "plain_op (Del ''1'')" "plain_op (Ins ''2'' ''7'')" "plain ''0''"
    by code_simp+
  from race_oracle_exact [OF p, of False] obtain d d' where
    d: "prefix_gen_model [''i;1;5;''] = Some d" "race_gen_model False [''d;1;'', ''i;2;7;''] [''0''] d = Some d'"
    and k: "\<And>k. map_of d' k \<noteq> None \<longleftrightarrow>
      run_ops [Ins ''1'' ''5''] k \<noteq> None \<or> writes_key (Del ''1'') k \<or> k = op_key (Ins ''2'' ''7'')"
    and m: "\<And>k ora out. map_of d' k = Some ora \<Longrightarrow> match out ora None \<longleftrightarrow>
      (if k = op_key (Ins ''2'' ''7'') then out = shown (run_ops [Ins ''1'' ''5'', Del ''1'', Ins ''2'' ''7'']) k
       else out = shown (run_ops [Ins ''1'' ''5'']) k \<or> out = shown (run_ops [Ins ''1'' ''5'', Del ''1'']) k)"
    by (elim exE conjE) simp
  have "map_of d' ''3'' = None" using k [of "''3''"] by (simp add: run_ops_def)
  moreover obtain ora ora' where "map_of d' ''1'' = Some ora" "map_of d' ''2'' = Some ora'"
    using k [of "''1''"] k [of "''2''"] by auto
  ultimately show ?thesis
    using d m [of "''1''"] m [of "''2''"]
    by (intro exI [of _ d] exI [of _ d'] exI [of _ ora] exI [of _ ora'])
      (simp add: run_ops_def shown_def null_text_def)
qed

text \<open>
  C38: the search for one hundred unused keys can end exactly when at least one hundred of the numbers
  from 0 to 1000 are not keys of the model; otherwise it goes on for ever, whatever is drawn.
\<close>

theorem unused_keys_found_iff:
  "(\<exists>rs vs. ls_gen_val_input_and_oracle need_del rs model = Some vs) \<longleftrightarrow> 100 \<le> card (key_texts - fst ` set model)"
  unfolding draw_keys_iff [symmetric] ls_gen_val_input_and_oracle_def by (auto simp: bind_eq_Some_conv)

section \<open>Two racing calls\<close>

text \<open>
  C11: the crash image of a run of two racing calls has every store before the first call, and of the
  two calls, up to where the first is rolled back, exactly the stores that a later flush covers and a
  fence after it settles; the others are reported as not persisted. No store may span two lines.
\<close>

theorem gdb_crash_image:
  assumes "ready b (mt_ops tr)" "length (tids tr) = 3" "ops_thread_idx tr = [i0, i1, i2]"
    and "get_roll_back_idx tr = Some (Some back)"
  shows "gen_crash_img tr b =
    (let A = py_slice (mt_ops tr) 0 i1;
         BC = py_slice (mt_ops tr) i1 (back + 1) @ py_slice_from (mt_ops tr) i2
     in Some (Some (file_map (puts (settled_stores BC) (puts (stores_where (\<lambda>i st. True) A) b)), open_stores BC)))"
  unfolding Let_def by (rule gen_crash_img_eq [OF assms refl refl])

definition demo_mt :: trace_mt where
  "demo_mt = \<lparr>mt_ops = [MFence (BaseOperation 0 1 ''1''),
       MAPIBegin (BaseOperation 1 2 ''NA''), MStore (demo_store\<lparr>s_address := 8, s_size := 1, s_value_bytes := [7]\<rparr>),
       MFlush (Flush 8 3 2 ''6''), MFence (BaseOperation 4 2 ''7''),
       MAPIBegin (BaseOperation 5 3 ''NA''), MAPIEnd (BaseOperation 6 3 ''NA'')],
     mt_index = 7, mt_skip = False, tids = [1, 2, 3], ops_thread_idx = [0, 1, 5]\<rparr>"

theorem gdb_crash_image_witness:
  "gen_crash_img demo_mt \<lparr>map_base = 0, file_map = replicate 64 0\<rparr> =
     (let BC = py_slice (mt_ops demo_mt) 1 5 @ py_slice_from (mt_ops demo_mt) 5
      in Some (Some (file_map (puts (settled_stores BC) \<lparr>map_base = 0, file_map = replicate 64 0\<rparr>), open_stores BC)))"
proof -
  have "ready \<lparr>map_base = 0, file_map = replicate 64 0\<rparr> (mt_ops demo_mt)"
    by (simp add: ready_def demo_mt_def fits_def fits_in_def demo_store_def Flush_def get_cacheline_address_eq
        CACHELINE_BYTES_def)
  moreover have "length (tids demo_mt) = 3" "ops_thread_idx demo_mt = [0, 1, 5]" by (simp_all add: demo_mt_def)
  moreover have "get_roll_back_idx demo_mt = Some (Some 4)"
    by (simp add: get_roll_back_idx_def demo_mt_def py_nth_def roll_back_from.simps py_index_def)
  ultimately have "gen_crash_img demo_mt \<lparr>map_base = 0, file_map = replicate 64 0\<rparr> =
    (let A = py_slice (mt_ops demo_mt) 0 1; BC = py_slice (mt_ops demo_mt) 1 (4 + 1) @ py_slice_from (mt_ops demo_mt) 5
     in Some (Some (file_map (puts (settled_stores BC) (puts (stores_where (\<lambda>i st. True) A)
        \<lparr>map_base = 0, file_map = replicate 64 0\<rparr>)), open_stores BC)))"
    by (rule gdb_crash_image)
  moreover have "py_slice (mt_ops demo_mt) 0 1 = [MFence (BaseOperation 0 1 ''1'')]"
    by (simp add: demo_mt_def py_slice_def py_bound_def)
  moreover have "stores_where (\<lambda>i st. True) [MFence (BaseOperation 0 1 ''1'')] = []"
    by (simp add: stores_where_def sel_def picks_def)
  ultimately show ?thesis by (simp add: Let_def)
qed

text \<open>
  C40: a store that reaches beyond its first cache line is taken to be flushed as a whole by a flush of
  that line alone: after this one flush and a fence all of its bytes are in the crash image, those of
  the next line included, and the store is no longer pending.
\<close>

theorem half_flushed_store_written:
  assumes "0 \<le> s_address st" "s_address st < 2 ^ 53" "64 < s_address st mod 64 + s_size st"
    and "map_base b \<le> s_address st" "s_address st + s_size st \<le> map_base b + int (length (file_map b))"
    and "s_size st = int (length (s_value_bytes st))" "s_flushing st = 0"
  shows "f_address (Flush (s_address st) i t src) + f_size (Flush (s_address st) i t src) < s_address st + s_size st
    \<and> (\<exists>b'. replay_accept_ops [MStore st, MFlush (Flush (s_address st) i t src), MFence x]
            \<lparr>r_ops = [], r_file = b\<rparr> = Some \<lparr>r_ops = [], r_file = b'\<rparr>
         \<and> take (length (s_value_bytes st)) (drop (nat (s_address st - map_base b)) (file_map b')) = s_value_bytes st)"
proof -
  have s: "0 < s_size st" using assms(3) pos_mod_bound [of 64 "s_address st"] by linarith
  have "f_address (Flush (s_address st) i t src) = s_address st - s_address st mod 64"
    using assms(1,2) by (simp add: Flush_def get_cacheline_address_eq minus_mod_eq_mult_div)
  with assms(3) half_flushed [OF first_line_overlaps [OF assms(1,2) s] do_store_inside(1) [OF assms(4-6)] assms(7)]
    do_store_inside(2) [OF assms(4-6)] show ?thesis
    by (auto simp: Flush_def CACHELINE_BYTES_def)
qed

theorem half_flushed_store_written_witness:
  "\<exists>b'. replay_accept_ops [MStore demo_store, MFlush (Flush 56 4 1 ''6''), MFence (BaseOperation 5 1 ''7'')]
     \<lparr>r_ops = [], r_file = \<lparr>map_base = 0, file_map = replicate 72 0\<rparr>\<rparr> = Some \<lparr>r_ops = [], r_file = b'\<rparr>
     \<and> take 16 (drop 56 (file_map b')) = replicate 16 1"
  using half_flushed_store_written [of demo_store "\<lparr>map_base = 0, file_map = replicate 72 0\<rparr>" 4 1 "''6''" "BaseOperation 5 1 ''7''"]
  by (simp add: demo_store_def del: replay_accept_ops.simps)

end
