(* ===== verification/Replay_Trace.thy ===== *)
theory Replay_Trace
  imports Replay_Witcher Trace_Soundness
begin

text \<open>
  The operations that the reader makes of a recorded run are those the validator's cache can take:
  stores cut into atomic writes lie in one cache line, and flushes are aligned.
\<close>

fun event_in :: "int \<Rightarrow> nat \<Rightarrow> tevent \<Rightarrow> bool" where
  "event_in base len (TStore t a n ws i c) \<longleftrightarrow>
     uint n = int (length ws) \<and> ws \<noteq> [] \<and> (\<forall>w\<in>set ws. unat w < 256)
     \<and> base \<le> uint a \<and> uint a + uint n \<le> base + int len \<and> uint a + uint n \<le> 2 ^ 53"
| "event_in base len (TFlush t a i) \<longleftrightarrow> uint a < 2 ^ 53"
| "event_in base len _ \<longleftrightarrow> True"

lemma in_word_in_line:
  assumes "in_word a n" "0 < n"
  shows "a mod 64 + n \<le> 64"
proof -
  have "a mod (8 * 8) = 8 * (a div 8 mod 8) + a mod 8" by (rule zmod_zmult2_eq) simp
  moreover have "a div 8 mod 8 \<le> 7" using pos_mod_bound [of 8 "a div 8"] by simp
  moreover have "a mod 8 + n \<le> 8"
  proof -
    have "8 * (a div 8) + a mod 8 = a" by (rule mult_div_mod_eq)
    moreover have "a + n - 1 < 8 * ((a + n - 1) div 8) + 8"
      using mult_div_mod_eq [of 8 "a + n - 1"] pos_mod_bound [of 8 "a + n - 1"] by linarith
    ultimately show ?thesis using assms(1) unfolding in_word_def by linarith
  qed
  ultimately show ?thesis by simp
qed

lemma length_single_bytes: "\<forall>w\<in>set ws. unat w < 256 \<Longrightarrow> length (concat (map word_bytes ws)) = length ws"
  by (induction ws) (simp_all add: word_bytes_def)

lemma tiles_fit:
  assumes "tiles t src c i a ws sts" "\<forall>w\<in>set ws. unat w < 256" "0 \<le> a" "base \<le> a"
    "a + int (length ws) \<le> base + int len" "a + int (length ws) \<le> 2 ^ 53"
  shows "\<forall>st\<in>set sts. fits_in base len st \<and> s_flushing st = 0"
  using assms
proof (induction sts arbitrary: i a ws)
  case (Cons st sts)
  let ?n = "s_size st"
  from Cons.prems(1) have n: "0 < ?n" "?n \<le> int (length ws)" "in_word a ?n"
    and p: "piece t src c i a ws st" and t: "tiles t src c (i + 1) (a + ?n) (drop (nat ?n) ws) sts"
    by (simp_all add: Let_def)
  have st: "st = store_obj t a ?n (take (nat ?n) ws) src c i" using p by (simp add: piece_def)
  have "s_address st = a" "s_flushing st = 0" by (subst st, simp add: store_obj_def)+
  moreover have "\<forall>w\<in>set (take (nat ?n) ws). unat w < 256"
    using Cons.prems(2) by (meson in_set_takeD)
  then have "length (s_value_bytes st) = nat ?n"
    using n by (simp add: piece_bytes [OF p] length_single_bytes)
  ultimately have "fits_in base len st \<and> s_flushing st = 0"
    using n Cons.prems in_word_in_line [OF n(3,1)] by (auto simp: fits_in_def)
  moreover have "\<forall>w\<in>set (drop (nat ?n) ws). unat w < 256"
    using Cons.prems(2) by (meson in_set_dropD)
  then have "\<forall>st\<in>set sts. fits_in base len st \<and> s_flushing st = 0"
    using n Cons.prems by (intro Cons.IH [OF t]) (auto simp: nat_le_iff)
  ultimately show ?case by simp
qed simp

definition ops_ok :: "binary_file \<Rightarrow> trace_state \<Rightarrow> bool" where
  "ops_ok b s \<longleftrightarrow> (\<forall>x\<in>set (ops s). op_ok b x)"

lemma ops_ok_frame:
  "ops_ok b (bump s) = ops_ok b s" "ops_ok b (take_back s) = ops_ok b s"
  "ops_ok b (add_load_addr x y s) = ops_ok b s" "ops_ok b (add_alloc x n t y s) = ops_ok b s"
  "ops_ok b (s\<lparr>skip_lock_modeling := q\<rparr>) = ops_ok b s" "ops_ok b (s\<lparr>br_srcs := r\<rparr>) = ops_ok b s"
  "ops_ok b (append_op p s) \<longleftrightarrow> ops_ok b s \<and> op_ok b p" "ops_ok b (api_begin t y s) = ops_ok b s"
  "api_end t y s = Some s' \<Longrightarrow> ops_ok b s' = ops_ok b s"
  by (auto simp: ops_ok_def bump_def take_back_def add_load_addr_def add_alloc_def append_op_def
      api_begin_def api_end_def Let_def split: if_splits)

lemma flush_ok:
  assumes "uint a < 2 ^ 53"
  shows "op_ok b (MFlush (Flush (uint a) i t src))"
proof -
  have "64 * (uint a div 64) \<le> uint a" "0 \<le> 64 * (uint a div 64)"
    using mult_div_mod_eq [of 64 "uint a"] pos_mod_sign [of 64 "uint a"]
    by (linarith, simp add: pos_imp_zdiv_nonneg_iff)
  with assms have "64 * (uint a div 64) < 2 ^ 53" by linarith
  with assms \<open>0 \<le> 64 * (uint a div 64)\<close> show ?thesis
    by (simp add: Flush_def get_cacheline_address_eq CACHELINE_BYTES_def)
qed

lemma absorb_ok:
  assumes "absorb True e s = Some s'" "event_in (map_base b) (length (file_map b)) e" "ops_ok b s"
  shows "ops_ok b s'"
proof (cases e)
  case (TStore t a n ws i c)
  show ?thesis
  proof (cases "skip_lock_modeling s")
    case False
    have ws: "\<forall>w\<in>set ws. unat w < 256" "ws \<noteq> []" "uint n = int (length ws)"
      using assms(2) TStore by simp_all
    have ge: "0 \<le> uint a" by simp
    have lt: "uint a < 2 ^ 53"
    proof -
      have "0 < int (length ws)" using ws(2) by simp
      moreover have "uint a + uint n \<le> 2 ^ 53" using assms(2) TStore by simp
      ultimately show ?thesis using ws(3) by linarith
    qed
    have "\<forall>w\<in>set ws. byte_like w" using ws by (simp add: byte_like_def)
    from split_store_tiles [OF ge lt ws(2) this] obtain sts where
      sts: "split_store (uint t) (uint a) (uint n) (map hex2 ws) (dec_text i) (if c then 1 else 0) (op_curr_index s)
        = Some sts" "tiles (uint t) (dec_text i) (if c then 1 else 0) (op_curr_index s) (uint a) ws sts"
      unfolding ws(3) by blast
    have "\<forall>st\<in>set sts. fits b st \<and> s_flushing st = 0"
      unfolding fits_def using assms(2) TStore ws by (intro tiles_fit [OF sts(2)]) auto
    with assms(1,3) TStore False sts(1) show ?thesis
      by (auto simp: ops_ok_frame) (auto simp: ops_ok_def put_stores_def)
  qed (use assms TStore in simp)
next
  case (TFlush t a i)
  with assms flush_ok [of a b] show ?thesis
    by (auto simp: ops_ok_frame split: if_splits)
qed (use assms in \<open>auto simp: ops_ok_frame put_lock_def put_load_def split: if_splits\<close>)

lemma absorb_events_ok:
  "absorb_events True es s = Some s' \<Longrightarrow> \<forall>e\<in>set es. event_in (map_base b) (length (file_map b)) e
    \<Longrightarrow> ops_ok b s \<Longrightarrow> ops_ok b s'"
  by (induction es arbitrary: s) (auto simp: bind_eq_Some_conv dest: absorb_ok)

lemma validator_on_trace:
  assumes "Trace True file = Some tr" "absorb_events True es new_trace = Some tr"
    and "\<forall>e\<in>set es. event_in pmaddr (pmsize * 1024 * 1024) e"
  shows "LSValidator_run cr s e pmsize pmaddr (ops tr) = Some (crash_tests (new_image pmsize pmaddr) cr s e (ops tr))"
proof (rule LSValidator_run_eq)
  have "ops_ok (new_image pmsize pmaddr) new_trace" by (simp add: ops_ok_def new_trace_def)
  from absorb_events_ok [OF assms(2) _ this] assms(3)
  show "\<forall>x\<in>set (ops tr). op_ok (new_image pmsize pmaddr) x" by (simp add: new_image_def ops_ok_def)
  show "\<forall>k<length (ops tr). memop_id (ops tr ! k) = int k"
    using Trace_inv [OF assms(1)] numbered_nth [of 0 "ops tr"] by (auto simp: trace_inv_def)
qed

end
