(* ===== verification/Spec2Isabelle.thy ===== *)
theory Spec2Isabelle
  imports Trace_Soundness Pass_Properties Lps Value_Reader Pmem_Properties Pmem_Simd
    Map_Properties Checker_Properties Replay_Trace
begin

text \<open>
  Durinn (\<open>src/\<close>) looks for durable-linearizability bugs in concurrent programs for persistent memory.
  It works as a pipeline. Passes over LLVM bitcode number the instructions of the program under test and
  add calls of a run time around them. The run time writes a trace of loads, stores, flushes, fences,
  locks and API calls. A checker in Python reads the trace, looks for racing API calls and for places to
  crash, makes the images a crash could leave, runs the program on them and compares its answers with an
  oracle. The programs use the persistent memory library in \<open>src/pmdk-1.8\<close>, whose functions persist
  their data. This development models these parts, in the order of the pipeline, and proves them
  correct; where the code does not do what it means to, a theorem states what it does.

  \<^bold>\<open>Shared theories.\<close>
  \<open>Durinn_Prelude\<close> has the machine words, memory as a function from addresses to bytes, numerals in a
  base, separators, and the collections of simplification rules. \<open>Cache_Line\<close> has the alignment to
  cache lines of \<open>tracer/LayoutUtil.h\<close> and the loop over the lines of a range; its locale \<open>line_walk\<close>
  is the contract of such a loop, interpreted for \<open>recordFlushWrapper\<close> and for the flush functions of
  libpmem. \<open>Py_Lib\<close> has the parts of Python the checker uses, with \<open>None\<close> for an exception.

  \<^bold>\<open>Run time\<close> (\<open>tracer/Tracing.cpp\<close>).
  \<open>Tracer_Runtime\<close> has one definition per function; the record \<open>rt_state\<close> is the globals of the file,
  with the output stream as text and the manipulators of the stream as state. \<open>Trace_Events\<close> gives a
  run its events and proves that each function writes the lines of its events and nothing else. A run
  is a list of calls, each with its thread and the memory at the time. Each call is one step: the calls
  of the threads come in any order, but they do not overlap. The source does not ensure this, since the
  calls of the mutex in \<open>locking\<close> and \<open>unlocking\<close> are commented out and one record function writes a
  line with several insertions into the stream. A run in which two record functions overlap can mix
  their lines; such runs are outside the model.

  \<^bold>\<open>Reader\<close> (\<open>trace_checker/lib/trace.py\<close>, \<open>memops.py\<close>).
  \<open>Trace_Reader\<close> has the reader, entry by entry; the locale \<open>line_codec\<close> is the contract between the
  printed line and the read entry. \<open>Store_Split\<close> shows that the atomic pieces of a store tile it.
  \<open>Trace_Soundness\<close> puts writer and reader together.

  \<^bold>\<open>Passes\<close> (\<open>tracer/*.cpp\<close>).
  \<open>LLVM_IR\<close> is the part of LLVM the passes see: types, values, instructions with identities, blocks,
  functions, modules. \<open>Block_Edit\<close> is the insertion and movement of instructions, with its contract as
  the locale \<open>block_editor\<close>. \<open>Numbering\<close> has \<open>LoadStoreNumbering\<close> (locale \<open>numbering\<close>: the numbers
  are a bijection), the source map and the fence map. \<open>Tracer_Pass\<close> has one definition per visitor of
  \<open>tracer_pass.cpp\<close>. LLVM can reject a cast, a call or a product by an assertion; which ones is a
  parameter, always true in a build without assertions, and a rejected one leaves the pass without a
  result. \<open>Tracer_Pass_Correct\<close> states the specification, the plan of calls before and
  after each instruction, and proves that the destructive edits implement it; \<open>Tracer_Pass_Module\<close>
  lifts this to modules, \<open>Tracer_Pass_Types\<close> shows the types and numbers of the added calls,
  \<open>Tracer_Pass_Total\<close> for which modules the pass returns, and that it does not when an exchanged value
  cannot be cast to 64 bits. \<open>Lps\<close> is the search for the loads a branch depends on
  (\<open>print_lps_from_brs.cpp\<close>), with the inductive relation \<open>data_dep\<close> as the specification of what the
  search follows; \<open>Value_Reader\<close> is the reader of \<open>StoreValueReader.h\<close>. The properties are
  in \<open>Pass_Properties\<close>.

  \<^bold>\<open>Checker\<close> (\<open>trace_checker/\<close>).
  \<open>Replay\<close> has the image of the memory, the three simulated caches and the validator that makes two
  crash images for each chosen store (\<open>lib/binaryfile.py\<close>, \<open>lib/cache.py\<close>, \<open>lib/witchercache.py\<close>,
  \<open>checker/ls_validator.py\<close>). \<open>Replay_Correct\<close> says without caches when a store is flushed and when it
  is settled; \<open>Replay_Witcher\<close> proves that the cache of lines simulates this, and \<open>Replay_Trace\<close> that
  the traces of the run time meet its assertions. \<open>Race_Checker\<close> has the search for races
  (\<open>lib/race.py\<close>, \<open>checker/st_trace_checker.py\<close>, \<open>st_trace_checker_2_ops.py\<close>); \<open>Race_Correct\<close>
  characterises its result by the flushes, fences and locks of the trace, with the common part of the
  two scans in the locale \<open>scanner\<close>. \<open>Ls_Jobs\<close> distributes the stores to crash at
  (\<open>checker/ls_trace_checker.py\<close>). \<open>Op_Files\<close> has the operation files, the models and the oracles
  (\<open>lib/op_file.py\<close>, \<open>lib/op_file_q.py\<close>), \<open>Op_Files_Correct\<close> relates the oracles to maps. \<open>Mt_Checker\<close>
  has the trace of two racing calls and its crash image (\<open>lib/trace_mt.py\<close>, \<open>checker/gdb_checker.py\<close>,
  \<open>checker/mt_trace_checker.py\<close>), \<open>Mt_Correct\<close> what the image holds. The properties are in
  \<open>Checker_Properties\<close>.

  \<^bold>\<open>libpmem\<close> (\<open>pmdk-1.8/src/libpmem\<close>).
  \<open>Pmem_Flush\<close> has the state, the memory together with the instructions that matter for persistence,
  the definition of a byte at risk, and flushing, draining and persisting. \<open>Pmem_Memops\<close> is the portable
  copy and fill, \<open>Pmem_Simd\<close> the routines for SSE2, AVX and AVX512F in all variants, \<open>Pmem_Init\<close> the
  choice of functions at load time from the processor and the environment, \<open>Pmem_Api\<close> the exported
  functions. The locales \<open>block_copier\<close>, \<open>block_filler\<close>, \<open>cursor\<close>, \<open>line_mover\<close>, \<open>copy_mover\<close>,
  \<open>fill_mover\<close>, \<open>vector_copy\<close> and \<open>vector_fill\<close> are the contracts of a block, of a loop over blocks and
  of a whole routine; each routine of the source is an interpretation. The properties are in
  \<open>Pmem_Properties\<close>.

  \<^bold>\<open>Mapped ranges\<close> (\<open>pmdk-1.8/src/common/mmap.c\<close>, \<open>mmap_posix.c\<close>, \<open>os_deep_linux.c\<close>, \<open>libpmem/pmem.c\<close>).
  \<open>Pmem_Ranges\<close> has the sorted list of trackers and proves that it implements a set of bytes; the
  locale \<open>byte_tracker\<close> is what libpmem relies on. \<open>Pmem_Is_Pmem\<close> has \<open>pmem_is_pmem\<close> with its
  initialisation on first use as a step relation of any number of threads, its invariant, and that
  every thread can get through. \<open>Pmem_Map\<close> has the search for a free place and \<open>pmem_map_file\<close> with
  a log of the calls that open, close, map, unmap and unlink, the trial mapping of \<open>util_map_hint\<close> and the
  unlinking of a temporary file included; \<open>Pmem_Deep\<close> the deep drain. The properties are in \<open>Map_Properties\<close>.

  \<^bold>\<open>Bounds and fuel.\<close>
  There is no fuel. Loops that may not end are partial functions with the result \<open>None\<close>
  (\<open>walk_lines\<close>, which does not stop when the end of a range wraps around, \<open>strlen\<close>, the loops over
  blocks of the copies and fills, \<open>unregister_loop\<close> and \<open>os_range_deep_common\<close>), and theorems state when
  they return. Other loops have termination proofs. The search for unused keys takes the random draws
  as a list, and its theorem says when some list of draws lets it end. Python's
  integers divided as floating-point numbers are exact below \<open>2 ^ 53\<close>; theorems about cache lines of the checker assume it.
  Machine words have the width of the source, and ranges that wrap around are excluded by hypotheses
  where the code needs it.

  \<^bold>\<open>Not modelled.\<close>
  Debug output, printing of reports, creating directories, copying files and starting programs, gdb and
  \<open>opt\<close>; the scripts that collect results (\<open>res_*.py\<close>, \<open>count.py\<close>) and the shell scripts; the demangler
  and \<open>pmemobj_direct\<close>, which are parameters. Of the persistent memory development kit, the libraries
  above libpmem (libpmemobj, libpmemblk, libpmemlog, libpmempool, librpmem), pool sets and the tools are
  not modelled: Durinn only links them. Nor are the read-write lock around the list of trackers, other
  architectures than x86-64, and Windows.
  The benchmark programs in \<open>third_party\<close> are the programs under test, not part of the tool.
\<close>

definition demo_env :: "string \<Rightarrow> string option" where
  "demo_env = [''PMEM_MMAP_HINT'' \<mapsto> ''0x10000000000'']"

definition demo_mem :: memory where
  "demo_mem = (\<lambda>_. 7)"

definition demo_calls :: "(u64 \<times> memory \<times> rt_call) list" where
  "demo_calls = map (\<lambda>c. (1, demo_mem, c))
     [CMmap 0 0x10000000000 4096, CAPIBegin 1, rt_call.CLoad 2 0x10000000000 8, rt_call.CStore 3 0x10000000004 8,
      CFlushWrapper 4 0x10000000004 8, CFence 5, CAPIEnd 1]"

definition demo_start :: rt_state where
  "demo_start = (case rt_globals demo_env of Returns s \<Rightarrow> recordInit True s | _ \<Rightarrow> undefined)"

lemma demo_digits:
  "char_digit (CHR ''0'') = Some 0" "char_digit (CHR ''1'') = Some 1" "char_digit (CHR ''x'') = None"
  "\<not> is_space (CHR ''0'')"
  by code_simp+

lemma demo_hint: "strtol16 ''0x10000000000'' = 0x10000000000"
  by (simp add: strtol16_def demo_digits is_hex_digit_def)

lemma demo_globals: "\<exists>s0. rt_globals demo_env = Returns s0"
  by (simp add: rt_globals_def demo_env_def)

lemma demo_start_eq: "rt_globals demo_env = Returns s0 \<Longrightarrow> recordInit True s0 = demo_start"
  by (simp add: demo_start_def)

lemma demo_in_range: "\<forall>(t, m, c)\<in>set demo_calls. in_range c"
  by (simp add: demo_calls_def)

lemma demo_ready: "rt_ready demo_start" "trace_text demo_start = []"
  using demo_globals by (auto simp: demo_start_def recordInit_ready recordInit_empty)

lemma demo_fields:
  "recording demo_start" "\<not> replay_mode demo_start" "pm_addr_start demo_start = 0x10000000000"
  "pm_addr_start_dup demo_start = 0" "pm_addr_end_dup demo_start = 0" "pm_addr_end demo_start = 0"
  by (simp_all add: demo_start_def rt_globals_def demo_env_def recordInit_def Let_def
      enableRecording_def demo_hint)

lemma demo_returns: "\<exists>s'. rt_run d demo_calls demo_start = Returns s'"
  unfolding rt_run_returns [OF demo_ready(1) demo_in_range]
  by (simp add: demo_calls_def demo_fields)

lemma demo_events:
  "run_events d demo_start demo_calls =
     [TAPIBegin 1, TLoad 1 0x10000000000 8 2,
      TStore 1 0x10000000004 8 [7, 7, 7, 7, 7, 7, 7, 7] 3 False,
      TFlush 1 0x10000000000 4, TFence 1 5, TAPIEnd 1]"
  by (simp add: demo_calls_def demo_fields live_def traced_def is_pm_addr_def get_pm_addr_def
      data_words_def bytes_at_def demo_mem_def lines_from_def upt_rec)

section \<open>The trace file\<close>

lemma demo_read:
  assumes "rt_run (\<lambda>_. 0) demo_calls demo_start = Returns s1"
  shows "\<exists>tr. Trace op (trace_text s1) = Some tr"
proof -
  let ?es = "run_events (\<lambda>_. 0) demo_start demo_calls"
  have "\<forall>e\<in>set ?es. printable e" by (blast intro: run_events_printable)
  from absorb_events_iff [OF new_trace_inv this, of op] show ?thesis
    unfolding Trace_run [OF demo_ready demo_in_range assms]
    by (simp add: demo_events new_trace_def api_open_def)
qed

text \<open>
  C1: the reader recovers from the file written by a run of the instrumented program, in which calls
  of the record functions do not overlap, exactly the recorded events, in their order, in both of its
  modes.
\<close>

theorem trace_round_trip:
  assumes "rt_globals env = Returns s0" and "\<forall>(t, m, c)\<in>set cs. in_range c"
    and "rt_run d cs (recordInit True s0) = Returns s1"
  shows "Trace op (trace_text s1) = absorb_events op (run_events d (recordInit True s0) cs) new_trace"
  using assms Trace_run [OF recordInit_ready recordInit_empty] by blast

theorem trace_round_trip_witness:
  "\<exists>s1. rt_run (\<lambda>_. 0) demo_calls demo_start = Returns s1
     \<and> Trace True (trace_text s1) = absorb_events True
         [TAPIBegin 1, TLoad 1 0x10000000000 8 2,
          TStore 1 0x10000000004 8 [7, 7, 7, 7, 7, 7, 7, 7] 3 False,
          TFlush 1 0x10000000000 4, TFence 1 5, TAPIEnd 1] new_trace"
proof -
  obtain s0 where s0: "rt_globals demo_env = Returns s0" using demo_globals by blast
  obtain s1 where s1: "rt_run (\<lambda>_. 0) demo_calls demo_start = Returns s1"
    using demo_returns by blast
  from trace_round_trip [OF s0 demo_in_range, of "\<lambda>_. 0" s1 True] s1
  show ?thesis by (simp add: demo_start_eq [OF s0] demo_events)
qed

text \<open>
  C17: a run in range returns exactly when each of its calls is defined: its strings are terminated,
  a compare-and-swap is at most eight bytes wide, and a mapping away from the hint agrees with the
  duplicate mapping seen before.
\<close>

theorem run_returns_iff:
  assumes "rt_globals env = Returns s0" and "\<forall>(t, m, c)\<in>set cs. in_range c"
  shows "(\<exists>s1. rt_run d cs (recordInit True s0) = Returns s1) \<longleftrightarrow> run_defined (recordInit True s0) cs"
  by (rule rt_run_returns [OF recordInit_ready [OF assms(1)] assms(2)])

theorem run_returns_iff_witness:
  "\<exists>s1. rt_run (\<lambda>_. 0) demo_calls demo_start = Returns s1"
proof -
  obtain s0 where s0: "rt_globals demo_env = Returns s0" using demo_globals by blast
  have "run_defined (recordInit True s0) demo_calls"
    by (simp add: demo_start_eq [OF s0] demo_calls_def demo_fields)
  with run_returns_iff [OF s0 demo_in_range, of "\<lambda>_. 0"] show ?thesis
    by (simp add: demo_start_eq [OF s0])
qed

text \<open>
  C16: the reader finishes on the file of a run exactly when the API marks outside modelled locks
  are balanced; no store, flush, lock or allocation line of the run time stops it.
\<close>

theorem read_finishes_iff:
  assumes "rt_globals env = Returns s0" and "\<forall>(t, m, c)\<in>set cs. in_range c"
    and "rt_run d cs (recordInit True s0) = Returns s1"
  shows "(\<exists>tr. Trace op (trace_text s1) = Some tr)
    \<longleftrightarrow> balanced False False (run_events d (recordInit True s0) cs)"
proof -
  let ?es = "run_events d (recordInit True s0) cs"
  have "\<forall>e\<in>set ?es. printable e" by (blast intro: run_events_printable)
  from absorb_events_iff [OF new_trace_inv this, of op]
  show ?thesis
    unfolding Trace_run [OF recordInit_ready [OF assms(1)] recordInit_empty [OF assms(1)] assms(2,3)]
    by (simp add: new_trace_def api_open_def)
qed

theorem read_finishes_iff_witness:
  "\<exists>s1 tr. rt_run (\<lambda>_. 0) demo_calls demo_start = Returns s1 \<and> Trace False (trace_text s1) = Some tr"
proof -
  obtain s0 where s0: "rt_globals demo_env = Returns s0" using demo_globals by blast
  obtain s1 where s1: "rt_run (\<lambda>_. 0) demo_calls demo_start = Returns s1"
    using demo_returns by blast
  from read_finishes_iff [OF s0 demo_in_range, of "\<lambda>_. 0" s1 False] s1
  have "\<exists>tr. Trace False (trace_text s1) = Some tr"
    by (simp add: demo_start_eq [OF s0] demo_events)
  with s1 show ?thesis by blast
qed

text \<open>
  C15: in whatever file the reader accepts, an operation's number is its position, and each recorded
  range of an API call starts at the mark that begins the call and ends, later, at a mark.
\<close>

theorem positions_are_numbers:
  assumes "Trace op file = Some tr"
  shows "(\<forall>k<length (ops tr). memop_id (ops tr ! k) = int k)
    \<and> (\<forall>r\<in>set (ops_api_ranges tr). range_ok (ops tr) r)"
  using Trace_inv [OF assms] numbered_nth [of 0 "ops tr"] by (auto simp: trace_inv_def)

theorem positions_are_numbers_witness:
  "\<exists>tr. Trace False (concat [''APIBegin,1,NA'', [newline], ''Fence,1,5'', [newline], ''APIEnd,1,NA'', [newline]])
      = Some tr \<and> ops_api_ranges tr = [(0, 2)] \<and> range_ok (ops tr) (0, 2)"
proof -
  let ?f = "concat [''APIBegin,1,NA'', [newline], ''Fence,1,5'', [newline], ''APIEnd,1,NA'', [newline]]"
  have r: "map_option ops_api_ranges (Trace False ?f) = Some [(0, 2)]" by code_simp
  then obtain tr where tr: "Trace False ?f = Some tr" and "ops_api_ranges tr = [(0, 2)]"
    by (cases "Trace False ?f") auto
  with positions_are_numbers [OF tr] show ?thesis by auto
qed

text \<open>
  C14: below \<open>2 ^ 53\<close> a store of printed bytes is always cut, and the pieces tile it: consecutive,
  each inside one aligned atomic word, with the bytes, thread, source and next number.
\<close>

theorem stores_are_tiled:
  assumes "0 \<le> a" "a < 2 ^ 53" "ws \<noteq> []" "\<forall>w\<in>set ws. byte_like w"
  shows "\<exists>sts. split_store t a (int (length ws)) (map hex2 ws) src c i = Some sts
    \<and> tiles t src c i a ws sts \<and> concat (map s_value_bytes sts) = concat (map word_bytes ws)"
  using split_store_tiles [OF assms] tiles_bytes by blast

theorem stores_are_tiled_witness:
  "\<exists>sts. split_store 1 4100 8 (map hex2 [1, 2, 3, 4, 5, 6, 7, 8]) ''9'' 0 0 = Some sts
     \<and> concat (map s_value_bytes sts) = [1, 2, 3, 4, 5, 6, 7, 8]"
  using stores_are_tiled [of 4100 "[1, 2, 3, 4, 5, 6, 7, 8]" 1 "''9''" 0 0]
  by (auto simp: byte_like_def word_bytes_def)

text \<open>
  C18: \<open>recordFlushWrapper\<close> returns for a range below the last line of the address space, and
  records one flush for each cache line that holds a byte of the range, and no other.
\<close>

theorem flush_wrapper_lines:
  assumes "rt_ready s" "recording s" "unat p + unat n + 64 \<le> 2 ^ 64" "n \<noteq> 0"
  shows "\<exists>s' xs. recordFlushWrapper t i p n s = Some s'
    \<and> trace_text s' = trace_text s @ unlines (map (\<lambda>a. line_of (TFlush t (get_pm_addr s (of_nat a)) i)) xs)
    \<and> distinct xs \<and> set xs = (\<lambda>b. 64 * (b div 64)) ` {unat p..<unat p + unat n}"
proof -
  let ?xs = "lines_from (64 * (unat p div 64)) (unat p + unat n)"
  from assms(4) have "0 < unat n" by (simp add: unat_gt_0)
  then have "set ?xs = (\<lambda>b. 64 * (b div 64)) ` {unat p..<unat p + unat n}" by (rule lines_of_range)
  moreover have "distinct ?xs" by (auto simp: lines_from_def distinct_map inj_on_def)
  ultimately show ?thesis
    using wrote_flushes [OF assms(1), of t i ?xs] assms(2) recordFlushWrapper_eq [OF assms(3)]
    by (intro exI [of _ "fold (recordFlush t i) (map of_nat ?xs) s"] exI [of _ ?xs])
      (simp add: wrote_def comp_def)
qed

theorem flush_wrapper_lines_witness:
  "\<exists>s' xs. recordFlushWrapper 1 4 0x10000000038 16 demo_start = Some s'
     \<and> set xs = {0x10000000000, 0x10000000040}
     \<and> trace_text s' = unlines (map (\<lambda>a. line_of (TFlush 1 (get_pm_addr demo_start (of_nat a)) 4)) xs)"
proof -
  have "set (lines_from 0x10000000000 0x10000000048) = {0x10000000000, 0x10000000040}"
    by (simp add: lines_from_def upt_rec)
  then have "(\<lambda>b. 64 * (b div 64)) ` {0x10000000038..<0x10000000048} = {0x10000000000, 0x10000000040::nat}"
    using lines_of_range [of 16 "0x10000000038"] by simp
  with flush_wrapper_lines [OF demo_ready(1) demo_fields(1), of "0x10000000038" 16 1 4]
  show ?thesis by (auto simp: demo_ready)
qed

text \<open>
  C2: for the trace of a run whose stores lie in the image, the validator goes through to the end and
  its crash images are these: for each chosen store one with everything stored before it, and one with
  what was flushed and fenced before it, everything stored before it in its cache line, and the store
  itself.
\<close>

theorem crash_images_of_run:
  assumes "rt_globals env = Returns s0" and "\<forall>(t, m, c)\<in>set cs. in_range c"
    and "rt_run d cs (recordInit True s0) = Returns s1"
    and "\<forall>e\<in>set (run_events d (recordInit True s0) cs). event_in pmaddr (pmsize * 1024 * 1024) e"
    and "Trace True (trace_text s1) = Some tr"
  shows "LSValidator_run crashes id_start id_end pmsize pmaddr (ops tr) =
    Some (crash_tests (new_image pmsize pmaddr) crashes id_start id_end (ops tr))"
  using assms(5) Trace_run [OF recordInit_ready [OF assms(1)] recordInit_empty [OF assms(1)] assms(2,3), of True]
  by (intro validator_on_trace [OF assms(5) _ assms(4)]) simp

theorem crash_images_of_run_witness:
  "\<exists>s1 tr. rt_run (\<lambda>_. 0) demo_calls demo_start = Returns s1 \<and> Trace True (trace_text s1) = Some tr
     \<and> LSValidator_run [2, 3] 0 6 1 0x10000000000 (ops tr) =
         Some (crash_tests (new_image 1 0x10000000000) [2, 3] 0 6 (ops tr))"
proof -
  obtain s0 where s0: "rt_globals demo_env = Returns s0" using demo_globals by blast
  obtain s1 where s1: "rt_run (\<lambda>_. 0) demo_calls demo_start = Returns s1"
    using demo_returns by blast
  obtain tr where tr: "Trace True (trace_text s1) = Some tr" using demo_read [OF s1] by blast
  have "\<forall>e\<in>set (run_events (\<lambda>_. 0) (recordInit True s0) demo_calls). event_in 0x10000000000 (1 * 1024 * 1024) e"
    unfolding demo_start_eq [OF s0] demo_events by simp
  from crash_images_of_run [OF s0 demo_in_range _ this tr] s1 tr show ?thesis
    by (auto simp: demo_start_eq [OF s0])
qed

end
